(* ===== verification/JsPrelude.thy ===== *)
theory JsPrelude
  imports Main "HOL-Library.Sublist" "HOL-Library.Char_ord" "HOL-Library.List_Lexorder"
begin

text \<open>
  The part of ECMAScript the modelled scripts rely on: the string methods
  (\<open>indexOf\<close>, \<open>lastIndexOf\<close>, \<open>slice\<close>, \<open>substring\<close>, \<open>split\<close>, global \<open>replace\<close> with a
  literal pattern), the decimal printing of integers and \<open>parseInt\<close>, the errors the
  engine raises, and a state-and-error step type with its sequencing operator.
  A string is the list of its code units, restricted to the codes 0 to 255. The theory
  also declares the simp collections the component theories share.
\<close>

named_theorems js_str \<open>evaluation of the string methods\<close>
named_theorems js_eff \<open>unfolding of the state-and-error steps\<close>

section \<open>Errors and steps\<close>

text \<open>The exceptions the engine or the code raises.\<close>

datatype js_error =
    TypeError
  | UserError string

text \<open>The engine's error when its stack, the fuel of unbounded recursions, is used up.\<close>

definition stack_overflow :: js_error where
  "stack_overflow = UserError ''RangeError: Maximum call stack size exceeded''"

type_synonym 'a js_res = "js_error + 'a"

text \<open>
  A step reads and writes a state and either returns or throws; a throw keeps the state
  reached so far, as mutation done before an exception stays done.
\<close>

type_synonym ('s, 'a) js_step = "'s \<Rightarrow> 'a js_res \<times> 's"

definition ret :: "'a \<Rightarrow> ('s, 'a) js_step" where
  "ret a s = (Inr a, s)"

definition throw :: "js_error \<Rightarrow> ('s, 'a) js_step" where
  "throw e s = (Inl e, s)"

definition bind_step :: "('s, 'a) js_step \<Rightarrow> ('a \<Rightarrow> ('s, 'b) js_step) \<Rightarrow> ('s, 'b) js_step" where
  "bind_step m f s = (case m s of (Inl e, s') \<Rightarrow> (Inl e, s') | (Inr a, s') \<Rightarrow> f a s')"

definition then_step :: "('s, 'a) js_step \<Rightarrow> ('s, 'b) js_step \<Rightarrow> ('s, 'b) js_step" where
  "then_step m n = bind_step m (\<lambda>_. n)"

definition gets :: "('s \<Rightarrow> 'a) \<Rightarrow> ('s, 'a) js_step" where
  "gets f s = (Inr (f s), s)"

definition modify :: "('s \<Rightarrow> 's) \<Rightarrow> ('s, unit) js_step" where
  "modify f s = (Inr (), f s)"

text \<open>A pure computation that may throw, run as a step.\<close>

definition lift_res :: "'a js_res \<Rightarrow> ('s, 'a) js_step" where
  "lift_res r s = (r, s)"

definition bind_res :: "'a js_res \<Rightarrow> ('a \<Rightarrow> 'b js_res) \<Rightarrow> 'b js_res" where
  "bind_res r f = (case r of Inl e \<Rightarrow> Inl e | Inr a \<Rightarrow> f a)"

lemma bind_res_simps [simp]:
  "bind_res (Inl e) f = Inl e" "bind_res (Inr a) f = f a"
  by (simp_all add: bind_res_def)

lemma bind_res_Inr_iff:
  "bind_res r f = Inr b \<longleftrightarrow> (\<exists>a. r = Inr a \<and> f a = Inr b)"
  by (cases r) simp_all

lemma step_simps [simp]:
  "bind_step (ret a) f = f a"
  "bind_step (throw e) f = throw e"
  "bind_step (gets g) f = (\<lambda>s. f (g s) s)"
  "then_step (modify h) n = (\<lambda>s. n (h s))"
  "bind_step (lift_res (Inr a)) f = f a"
  "bind_step (lift_res (Inl e)) f = throw e"
  by (rule ext, simp add: bind_step_def then_step_def ret_def throw_def gets_def
      modify_def lift_res_def)+

lemma bind_step_Inr_iff:
  "bind_step m f s = (Inr b, s'') \<longleftrightarrow> (\<exists>a s'. m s = (Inr a, s') \<and> f a s' = (Inr b, s''))"
  by (auto simp: bind_step_def split: prod.splits sum.splits)

lemma bind_step_assoc:
  "bind_step (bind_step m f) g = bind_step m (\<lambda>a. bind_step (f a) g)"
  by (rule ext) (simp add: bind_step_def split: prod.splits sum.splits)

lemmas step_defs [js_eff] =
  ret_def throw_def bind_step_def then_step_def gets_def modify_def lift_res_def

text \<open>
  Invariants of steps: \<open>keeps I m\<close> says that \<open>m\<close>, whether it returns or throws, leaves a
  state that satisfies \<open>I\<close> if it started in one.
\<close>

definition keeps :: "('s \<Rightarrow> bool) \<Rightarrow> ('s, 'a) js_step \<Rightarrow> bool" where
  "keeps I m \<longleftrightarrow> (\<forall>s. I s \<longrightarrow> I (snd (m s)))"

lemma keepsI [intro?]: "(\<And>s. I s \<Longrightarrow> I (snd (m s))) \<Longrightarrow> keeps I m"
  by (simp add: keeps_def)

lemma keepsD: "keeps I m \<Longrightarrow> I s \<Longrightarrow> I (snd (m s))"
  by (simp add: keeps_def)

lemma keeps_ret [simp, intro]: "keeps I (ret a)"
  by (simp add: keeps_def ret_def)

lemma keeps_throw [simp, intro]: "keeps I (throw e)"
  by (simp add: keeps_def throw_def)

lemma keeps_gets [simp, intro]: "keeps I (gets f)"
  by (simp add: keeps_def gets_def)

lemma keeps_lift_res [simp, intro]: "keeps I (lift_res r)"
  by (simp add: keeps_def lift_res_def)

lemma keeps_modify: "(\<And>s. I s \<Longrightarrow> I (f s)) \<Longrightarrow> keeps I (modify f)"
  by (simp add: keeps_def modify_def)

lemma keeps_bind:
  assumes "keeps I m" and "\<And>a. keeps I (f a)"
  shows "keeps I (bind_step m f)"
  using assms by (fastforce simp: keeps_def bind_step_def split: prod.splits sum.splits)

lemma keeps_then: "keeps I m \<Longrightarrow> keeps I n \<Longrightarrow> keeps I (then_step m n)"
  by (simp add: then_step_def keeps_bind)

section \<open>String methods\<close>

text \<open>
  \<open>first_pos p s i\<close>: the position, counted from \<open>i\<close>, where \<open>p\<close> first occurs in \<open>s\<close>.
\<close>

fun first_pos :: "'a list \<Rightarrow> 'a list \<Rightarrow> nat \<Rightarrow> nat option" where
  "first_pos p [] i = (if p = [] then Some i else None)"
| "first_pos p (x # xs) i = (if prefix p (x # xs) then Some i else first_pos p xs (Suc i))"

text \<open>\<open>s.indexOf(p, from)\<close>, with \<open>-1\<close> for absent.\<close>

definition index_of_from :: "string \<Rightarrow> string \<Rightarrow> nat \<Rightarrow> int" where
  "index_of_from s p k =
     (case first_pos p (drop k s) (min k (length s)) of None \<Rightarrow> -1 | Some i \<Rightarrow> int i)"

definition index_of :: "string \<Rightarrow> string \<Rightarrow> int" where
  "index_of s p = index_of_from s p 0"

text \<open>\<open>s.lastIndexOf(c)\<close> for a one-character string \<open>c\<close>.\<close>

fun last_pos :: "'a \<Rightarrow> 'a list \<Rightarrow> nat \<Rightarrow> nat option" where
  "last_pos c [] i = None"
| "last_pos c (x # xs) i =
     (case last_pos c xs (Suc i) of Some j \<Rightarrow> Some j | None \<Rightarrow> if x = c then Some i else None)"

definition last_index_of :: "string \<Rightarrow> char \<Rightarrow> int" where
  "last_index_of s c = (case last_pos c s 0 of None \<Rightarrow> -1 | Some i \<Rightarrow> int i)"

text \<open>
  \<open>slice\<close> counts a negative position from the end; \<open>substring\<close> clamps it to 0 and swaps
  its bounds when they are in the wrong order.
\<close>

definition rel_index :: "int \<Rightarrow> nat \<Rightarrow> nat" where
  "rel_index i n = (if i < 0 then nat (int n + i) else min (nat i) n)"

definition slice_from :: "'a list \<Rightarrow> int \<Rightarrow> 'a list" where
  "slice_from s a = drop (rel_index a (length s)) s"

definition slice :: "'a list \<Rightarrow> int \<Rightarrow> int \<Rightarrow> 'a list" where
  "slice s a b =
     (let i = rel_index a (length s); j = rel_index b (length s) in take (j - i) (drop i s))"

definition substring_from :: "'a list \<Rightarrow> int \<Rightarrow> 'a list" where
  "substring_from s a = drop (nat a) s"

definition substring :: "'a list \<Rightarrow> int \<Rightarrow> int \<Rightarrow> 'a list" where
  "substring s a b =
     (let i = min (nat a) (length s); j = min (nat b) (length s)
      in take (max i j - min i j) (drop (min i j) s))"

text \<open>
  \<open>s.split(p)\<close> for a non-empty separator. The counter skips the rest of a separator that
  has just been found.
\<close>

fun split_go :: "'a list \<Rightarrow> 'a list \<Rightarrow> 'a list \<Rightarrow> nat \<Rightarrow> 'a list list" where
  "split_go p [] cur k = [rev cur]"
| "split_go p (x # xs) cur (Suc k) = split_go p xs cur k"
| "split_go p (x # xs) cur 0 =
     (if prefix p (x # xs) then rev cur # split_go p xs [] (length p - 1)
      else split_go p xs (x # cur) 0)"

definition split_str :: "'a list \<Rightarrow> 'a list \<Rightarrow> 'a list list" where
  "split_str p s = split_go p s [] 0"

text \<open>\<open>a.join(p)\<close>.\<close>

fun join_str :: "'a list \<Rightarrow> 'a list list \<Rightarrow> 'a list" where
  "join_str p [] = []"
| "join_str p [s] = s"
| "join_str p (s # t # ss) = s @ p @ join_str p (t # ss)"

text \<open>\<open>s.replace(/p/g, r)\<close> for a literal, non-empty pattern \<open>p\<close>.\<close>

fun replace_go :: "'a list \<Rightarrow> 'a list \<Rightarrow> 'a list \<Rightarrow> nat \<Rightarrow> 'a list" where
  "replace_go p r [] k = []"
| "replace_go p r (x # xs) (Suc k) = replace_go p r xs k"
| "replace_go p r (x # xs) 0 =
     (if prefix p (x # xs) then r @ replace_go p r xs (length p - 1)
      else x # replace_go p r xs 0)"

definition replace_all :: "'a list \<Rightarrow> 'a list \<Rightarrow> 'a list \<Rightarrow> 'a list" where
  "replace_all p r s = replace_go p r s 0"

text \<open>\<open>String(n)\<close> for an integer and \<open>parseInt(s)\<close>, whose \<open>NaN\<close> is \<open>None\<close>.\<close>

fun nat_str :: "nat \<Rightarrow> string" where
  "nat_str n = (if n < 10 then [char_of (48 + n)]
     else nat_str (n div 10) @ [char_of (48 + n mod 10)])"

declare nat_str.simps [simp del]

definition int_str :: "int \<Rightarrow> string" where
  "int_str i = (if i < 0 then ''-'' @ nat_str (nat (- i)) else nat_str (nat i))"

definition is_digit :: "char \<Rightarrow> bool" where
  "is_digit c \<longleftrightarrow> (48::nat) \<le> of_char c \<and> of_char c \<le> (57::nat)"

definition digit_val :: "char \<Rightarrow> nat" where
  "digit_val c = of_char c - 48"

definition is_space :: "char \<Rightarrow> bool" where
  "is_space c \<longleftrightarrow> (of_char c :: nat) \<in> {9, 10, 11, 12, 13, 32, 160}"

definition hex_val :: "char \<Rightarrow> nat option" where
  "hex_val c = (let n = of_char c :: nat in
     if 48 \<le> n \<and> n \<le> 57 then Some (n - 48)
     else if 65 \<le> n \<and> n \<le> 70 then Some (n - 55)
     else if 97 \<le> n \<and> n \<le> 102 then Some (n - 87) else None)"

definition digits_val :: "string \<Rightarrow> nat" where
  "digits_val ds = foldl (\<lambda>a c. 10 * a + digit_val c) 0 ds"

definition hexes_val :: "string \<Rightarrow> nat" where
  "hexes_val ds = foldl (\<lambda>a c. 16 * a + (case hex_val c of Some v \<Rightarrow> v | None \<Rightarrow> 0)) 0 ds"

definition parse_unsigned :: "string \<Rightarrow> int option" where
  "parse_unsigned s =
     (if prefix ''0x'' s \<or> prefix ''0X'' s then
        (let hs = takeWhile (\<lambda>c. hex_val c \<noteq> None) (drop 2 s)
         in if hs = [] then None else Some (int (hexes_val hs)))
      else
        (let ds = takeWhile is_digit s
         in if ds = [] then None else Some (int (digits_val ds))))"

definition parse_int :: "string \<Rightarrow> int option" where
  "parse_int s0 =
     (let s = dropWhile is_space s0
      in if prefix ''-'' s then map_option uminus (parse_unsigned (tl s))
         else if prefix ''+'' s then parse_unsigned (tl s)
         else parse_unsigned s)"

section \<open>Lemmas\<close>

lemma first_pos_shift: "first_pos p s (i + k) = map_option (\<lambda>j. j + k) (first_pos p s i)"
  by (induction p s i rule: first_pos.induct) auto

lemma first_pos_Some:
  "first_pos p s i = Some j \<Longrightarrow> i \<le> j \<and> j \<le> i + length s \<and> prefix p (drop (j - i) s)"
proof (induction p s i rule: first_pos.induct)
  case (2 p x xs i)
  show ?case
  proof (cases "prefix p (x # xs)")
    case False
    with "2.prems" "2.IH" have le: "Suc i \<le> j"
      and r: "j \<le> Suc i + length xs" "prefix p (drop (j - Suc i) xs)"
      by simp_all
    from le have "j - i = Suc (j - Suc i)" by simp
    with le r show ?thesis by simp
  qed (use "2.prems" in auto)
qed (auto split: if_splits)

lemma first_pos_single:
  "first_pos [c] s i = (if c \<in> set s then Some (i + length (takeWhile (\<lambda>x. x \<noteq> c) s)) else None)"
  by (induction s arbitrary: i) auto

lemma index_of_char:
  "index_of s [c] = (if c \<in> set s then int (length (takeWhile (\<lambda>x. x \<noteq> c) s)) else -1)"
  by (simp add: index_of_def index_of_from_def first_pos_single)

lemma first_pos_None: "first_pos p s i = None \<longleftrightarrow> \<not> sublist p s"
  by (induction p s i rule: first_pos.induct) (auto simp: sublist_Cons_right)

lemma index_of_absent: "index_of s p < 0 \<longleftrightarrow> \<not> sublist p s"
  using first_pos_None [of p s 0] by (auto simp: index_of_def index_of_from_def split: option.splits)

lemma index_of_0: "p \<noteq> [] \<Longrightarrow> index_of s p = 0 \<longleftrightarrow> prefix p s"
proof (cases s)
  case (Cons x xs)
  assume "p \<noteq> []"
  with Cons show ?thesis
    using first_pos_Some [of p xs 1]
    by (auto simp: index_of_def index_of_from_def split: option.splits)
qed (auto simp: index_of_def index_of_from_def split: option.splits)

lemma index_of_from_char:
  "k \<le> length s \<Longrightarrow> index_of_from s [c] k =
     (if c \<in> set (drop k s) then int (k + length (takeWhile (\<lambda>x. x \<noteq> c) (drop k s))) else -1)"
  by (simp add: index_of_from_def first_pos_single)

lemma takeWhile_ne_append [simp]: "c \<notin> set xs \<Longrightarrow> takeWhile (\<lambda>x. x \<noteq> c) (xs @ c # ys) = xs"
  by (induction xs) auto

lemma dropWhile_ne_append [simp]: "c \<notin> set xs \<Longrightarrow> dropWhile (\<lambda>x. x \<noteq> c) (xs @ c # ys) = c # ys"
  by (induction xs) auto

lemma index_of_char_append [js_str]: "c \<notin> set xs \<Longrightarrow> index_of (xs @ c # ys) [c] = int (length xs)"
  by (simp add: index_of_char)

lemma index_of_char_absent [js_str]: "c \<notin> set xs \<Longrightarrow> index_of xs [c] = -1"
  by (simp add: index_of_char)

lemma last_pos_None: "last_pos c s i = None \<longleftrightarrow> c \<notin> set s"
proof (induction s arbitrary: i)
  case (Cons x s)
  then show ?case using Cons.IH [of "Suc i"] by (cases "last_pos c s (Suc i)") auto
qed simp

lemma last_pos_append: "c \<notin> set ys \<Longrightarrow> last_pos c (xs @ c # ys) i = Some (i + length xs)"
proof (induction xs arbitrary: i)
  case Nil
  then have "last_pos c ys (Suc i) = None" by (simp add: last_pos_None)
  then show ?case by simp
qed simp

lemma last_index_of_append [js_str]:
  "c \<notin> set ys \<Longrightarrow> last_index_of (xs @ c # ys) c = int (length xs)"
  by (simp add: last_index_of_def last_pos_append)

lemma last_index_of_absent [js_str]: "c \<notin> set s \<Longrightarrow> last_index_of s c = -1"
  using last_pos_None [of c s 0] by (simp add: last_index_of_def)

lemma replace_go_absent: "\<not> sublist p s \<Longrightarrow> replace_go p r s 0 = s"
  by (induction s) (auto simp: sublist_Cons_right)

lemma replace_all_absent [js_str]: "\<not> sublist p s \<Longrightarrow> replace_all p r s = s"
  by (simp add: replace_all_def replace_go_absent)

lemma take_takeWhile_length: "take (length (takeWhile P s)) s = takeWhile P s"
  by (metis append_eq_conv_conj takeWhile_dropWhile_id)

lemma drop_takeWhile_length: "drop (length (takeWhile P s)) s = dropWhile P s"
  by (metis append_eq_conv_conj takeWhile_dropWhile_id)

lemma rel_index_nonneg [js_str]: "0 \<le> i \<Longrightarrow> rel_index i n = min (nat i) n"
  by (simp add: rel_index_def)

lemma slice_from_nonneg [js_str]: "0 \<le> a \<Longrightarrow> slice_from s a = drop (nat a) s"
  by (simp add: slice_from_def rel_index_def min_def)

lemma slice_nonneg [js_str]:
  "0 \<le> a \<Longrightarrow> 0 \<le> b \<Longrightarrow> slice s a b = take (nat b - nat a) (drop (nat a) s)"
  by (auto simp: slice_def rel_index_def min_def Let_def)

lemma slice_from_length [js_str]: "slice_from (p @ s) (int (length p)) = s"
  by (simp add: slice_from_nonneg)

lemma slice_length [js_str]: "slice (p @ s) 0 (int (length p)) = p"
  by (simp add: slice_nonneg)

lemma substring_0 [js_str]: "0 \<le> b \<Longrightarrow> substring s 0 b = take (nat b) s"
  by (simp add: substring_def Let_def min_def)

lemma split_go_ne [simp]: "split_go p s cur k \<noteq> []"
  by (induction p s cur k rule: split_go.induct) auto

lemma join_split_go:
  "p \<noteq> [] \<Longrightarrow> k \<le> length s \<Longrightarrow> join_str p (split_go p s cur k) = rev cur @ drop k s"
proof (induction p s cur k rule: split_go.induct)
  case (3 p x xs cur)
  show ?case
  proof (cases "prefix p (x # xs)")
    case True
    then obtain t where t: "x # xs = p @ t" by (auto elim: prefixE)
    from t "3.prems" obtain p' where p': "p = x # p'" and xs: "xs = p' @ t"
      by (cases p) auto
    obtain q qs where q: "split_go p xs [] (length p - 1) = q # qs"
      by (cases "split_go p xs [] (length p - 1)") auto
    have "join_str p (q # qs) = t"
      using "3.IH"(1) [OF True] q xs p' by simp
    then have "join_str p (split_go p (x # xs) cur 0) = rev cur @ (p @ t)"
      using True q by simp
    also have "\<dots> = rev cur @ (x # xs)" by (simp only: t)
    finally show ?thesis by simp
  next
    case False
    then show ?thesis using "3.IH"(2) "3.prems" by simp
  qed
qed auto

lemma of_char_digit [simp]: "n < 10 \<Longrightarrow> (of_char (char_of (48 + n :: nat)) :: nat) = 48 + n"
  by simp

lemma is_digit_char_of [simp]: "n < 10 \<Longrightarrow> is_digit (char_of (48 + n :: nat))"
  by (simp add: is_digit_def)

lemma nat_str_digits: "list_all is_digit (nat_str n)"
proof (induction n rule: nat_str.induct)
  case (1 n)
  then show ?case by (subst nat_str.simps) (auto simp: nat_str.simps [of n])
qed

lemma nat_str_ne [simp]: "nat_str n \<noteq> []"
  by (subst nat_str.simps) simp

lemma digits_val_snoc: "digits_val (ds @ [c]) = 10 * digits_val ds + digit_val c"
  by (simp add: digits_val_def)

lemma digits_val_nat_str [simp]: "digits_val (nat_str n) = n"
proof (induction n rule: nat_str.induct)
  case (1 n)
  show ?case
  proof (cases "n < 10")
    case True
    then show ?thesis by (simp add: nat_str.simps digits_val_def digit_val_def)
  next
    case False
    then have "digits_val (nat_str (n div 10)) = n div 10" using "1.IH" by simp
    then show ?thesis using False
      by (simp add: nat_str.simps [of n] digits_val_snoc digit_val_def)
  qed
qed

lemma nat_str_inj: "nat_str m = nat_str n \<longleftrightarrow> m = n"
  by (metis digits_val_nat_str)

lemma is_digit_not_sign: "is_digit c \<Longrightarrow> c \<noteq> CHR ''-'' \<and> c \<noteq> CHR ''+'' \<and> c \<noteq> CHR ''x'' \<and>
    c \<noteq> CHR ''X'' \<and> \<not> is_space c"
  by (auto simp: is_digit_def is_space_def)

lemma int_str_inj: "int_str i = int_str j \<longleftrightarrow> i = j"
proof -
  have hd: "hd (nat_str n) \<noteq> CHR ''-''" for n
    using nat_str_digits [of n] is_digit_not_sign
    by (metis list.set_sel(1) list_all_iff nat_str_ne)
  then show ?thesis
    by (auto simp: int_str_def nat_str_inj) (metis list.sel(1))+
qed

lemma parse_unsigned_nat_str: "parse_unsigned (nat_str n) = Some (int n)"
proof -
  have d: "\<And>c. c \<in> set (nat_str n) \<Longrightarrow> is_digit c"
    using nat_str_digits by (simp add: list_all_iff)
  then have nox: "CHR ''x'' \<notin> set (nat_str n)" "CHR ''X'' \<notin> set (nat_str n)"
    using is_digit_not_sign by blast+
  have "\<not> prefix ''0x'' (nat_str n)" "\<not> prefix ''0X'' (nat_str n)"
    using nox set_mono_prefix by fastforce+
  moreover have "takeWhile is_digit (nat_str n) = nat_str n"
    using d by (simp add: takeWhile_eq_all_conv)
  ultimately show ?thesis
    unfolding parse_unsigned_def Let_def by (simp only: nat_str_ne digits_val_nat_str if_False simp_thms)
qed

lemma parse_int_int_str: "parse_int (int_str i) = Some i"
proof -
  have h: "\<not> is_space (hd (nat_str n)) \<and> hd (nat_str n) \<noteq> CHR ''-'' \<and> hd (nat_str n) \<noteq> CHR ''+''" for n
    using nat_str_digits [of n] is_digit_not_sign
    by (metis list.set_sel(1) list_all_iff nat_str_ne)
  have np: "\<not> prefix ''-'' (nat_str n) \<and> \<not> prefix ''+'' (nat_str n)" for n
    using h [of n] by (cases "nat_str n") auto
  have dw: "dropWhile is_space (nat_str n) = nat_str n" for n
    using h [of n] by (cases "nat_str n") auto
  have sp: "\<not> is_space (CHR ''-'')" by (simp add: is_space_def)
  show ?thesis
  proof (cases "i < 0")
    case True
    then show ?thesis
      by (simp add: int_str_def parse_int_def sp parse_unsigned_nat_str)
  next
    case False
    then show ?thesis
      by (simp add: int_str_def parse_int_def dw np parse_unsigned_nat_str)
  qed
qed

lemma split_go_absent: "\<not> sublist p s \<Longrightarrow> split_go p s cur 0 = [rev cur @ s]"
  by (induction s arbitrary: cur) (auto simp: sublist_Cons_right)

lemma split_str_absent [js_str]: "\<not> sublist p s \<Longrightarrow> split_str p s = [s]"
  by (simp add: split_str_def split_go_absent)

lemma split_go_char: "c \<notin> set s \<Longrightarrow> split_go [c] (s @ c # t) cur 0 = (rev cur @ s) # split_go [c] t [] 0"
  by (induction s arbitrary: cur) auto

lemma split_str_char [js_str]: "c \<notin> set s \<Longrightarrow> split_str [c] (s @ c # t) = s # split_str [c] t"
  by (simp add: split_str_def split_go_char)

lemma split_str_char_absent [js_str]: "c \<notin> set s \<Longrightarrow> split_str [c] s = [s]"
  by (rule split_str_absent) (metis list.set_intros(1) set_mono_sublist subsetD)

lemma split_join:
  "xs \<noteq> [] \<Longrightarrow> \<forall>x\<in>set xs. c \<notin> set x \<Longrightarrow> split_str [c] (join_str [c] xs) = xs"
  by (induction "[c]" xs rule: join_str.induct) (simp_all add: js_str)

text \<open>Lower case, on the codes 0 to 255.\<close>

definition lower_char :: "char \<Rightarrow> char" where
  "lower_char c = (let n = of_char c :: nat in
     if 65 \<le> n \<and> n \<le> 90 \<or> 192 \<le> n \<and> n \<le> 222 \<and> n \<noteq> 215 then char_of (n + 32) else c)"

definition to_lower :: "string \<Rightarrow> string" where
  "to_lower s = map lower_char s"

text \<open>\<open>unescape\<close>: the code units of the result, since \<open>%uXXXX\<close> may exceed 255.\<close>

definition hex_digits :: "string \<Rightarrow> bool" where
  "hex_digits s \<longleftrightarrow> (\<forall>c\<in>set s. hex_val c \<noteq> None)"

fun js_unescape :: "string \<Rightarrow> nat list" where
  "js_unescape [] = []"
| "js_unescape (c # s) =
     (if c = CHR ''%'' \<and> take 1 s = ''u'' \<and> 5 \<le> length s \<and> hex_digits (take 4 (drop 1 s))
      then hexes_val (take 4 (drop 1 s)) # js_unescape (drop 5 s)
      else if c = CHR ''%'' \<and> 2 \<le> length s \<and> hex_digits (take 2 s)
      then hexes_val (take 2 s) # js_unescape (drop 2 s)
      else of_char c # js_unescape s)"

lemma js_unescape_plain: "CHR ''%'' \<notin> set s \<Longrightarrow> js_unescape s = map of_char s"
  by (induction s) auto

text \<open>\<open>encodeURIComponent\<close>, on characters of at most two bytes in UTF-8.\<close>

definition hex_digit :: "nat \<Rightarrow> char" where
  "hex_digit n = ''0123456789ABCDEF'' ! n"

definition percent :: "nat \<Rightarrow> string" where
  "percent b = [CHR ''%'', hex_digit (b div 16), hex_digit (b mod 16)]"

definition encode_char :: "char \<Rightarrow> string" where
  "encode_char c =
     (if c \<in> set ''ABCDEFGHIJKLMNOPQRSTUVWXYZabcdefghijklmnopqrstuvwxyz0123456789-_.!~*()'' \<or> c = CHR 0x27 then [c]
      else if (of_char c :: nat) < 128 then percent (of_char c)
      else percent (192 + of_char c div 64) @ percent (128 + of_char c mod 64))"

definition encodeURIComponent :: "string \<Rightarrow> string" where
  "encodeURIComponent s = concat (map encode_char s)"

text \<open>Removing the first of equal elements, seen through a filter.\<close>

lemma filter_remove1_in: "P x \<Longrightarrow> filter P (remove1 x xs) = remove1 x (filter P xs)"
  by (induction xs) auto

lemma filter_remove1_out: "\<not> P x \<Longrightarrow> filter P (remove1 x xs) = filter P xs"
  by (induction xs) auto

end
