(* ===== verification/Uri.thy ===== *)
theory Uri
  imports JsPrelude
begin

text \<open>
  \<open>discoscripts/uri.js\<close>: resolution of a URI reference against a base (\<open>Util.uri.join\<close>),
  the document part and the protocol of a URI. The regular expressions of \<open>join\<close> are
  written out as scanners. The lemmas give the loop's normal form, the RFC cases of the
  resolution, and what happens to a reference that climbs above the root.
\<close>

section \<open>Definitions\<close>

text \<open>
  One \<open>path.replace(/[^\/]*\/\.\.\//, '')\<close>: the leftmost segment that is followed by
  \<open>/../\<close> goes, with the \<open>/../\<close>. The first argument is the segment read so far, reversed;
  \<open>None\<close> is a path the pattern does not match.
\<close>

fun chop_up :: "string \<Rightarrow> string \<Rightarrow> string option" where
  "chop_up seg [] = None"
| "chop_up seg (c # cs) =
     (if c = CHR ''/'' then
        (if prefix ''../'' cs then Some (drop 3 cs)
         else map_option (\<lambda>r. rev seg @ c # r) (chop_up [] cs))
      else chop_up (c # seg) cs)"

lemma chop_up_length: "chop_up seg s = Some s' \<Longrightarrow> length s' < length seg + length s"
  by (induction seg s arbitrary: s' rule: chop_up.induct) (fastforce split: if_splits)+

text \<open>The \<open>while\<close> loop around it.\<close>

function up_loop :: "string \<Rightarrow> string" where
  "up_loop path = (case chop_up [] path of None \<Rightarrow> path | Some path' \<Rightarrow> up_loop path')"
  by pat_completeness auto
termination
  by (relation "measure length") (auto dest: chop_up_length)

declare up_loop.simps [simp del]

text \<open>The result is paired with the messages given to \<open>alert\<close>.\<close>

definition uri_join :: "string \<Rightarrow> string \<Rightarrow> string list \<times> string" where
  "uri_join given base0 =
     (let baseHash = index_of base0 ''#'';
          base = (if baseHash > 0 then slice base0 0 baseHash else base0)
      in if length given = 0 then ([], base)
      else if index_of given ''#'' = 0 then ([], base @ given)
      else let colon = index_of given '':''
      in if colon \<ge> 0 then ([], given)
      else let baseColon = index_of base '':''
      in if baseColon < 0 then ([''Invalid base URL '' @ base], given)
      else let baseScheme = slice base 0 (baseColon + 1)
      in if index_of given ''//'' = 0 then ([], baseScheme @ given)
      else let skip = (if index_of_from base ''//'' (nat baseColon) = baseColon + 1 then 3 else 1);
               baseSingle = index_of_from base ''/'' (nat (baseColon + skip))
      in if baseSingle < 0 then
           (if int (length base) - baseColon - skip > 0 then ([], base @ ''/'' @ given)
            else ([], baseScheme @ given))
      else if index_of given ''/'' = 0 then ([], slice base 0 baseSingle @ given)
      else let path = slice_from base baseSingle;
               lastSlash = last_index_of path (CHR ''/'')
      in if lastSlash < 0 then ([], baseScheme @ given)
      else let path1 = (if lastSlash \<ge> 0 \<and> lastSlash < int (length path) - 1
                        then slice path 0 (lastSlash + 1) else path);
               path2 = up_loop (path1 @ given);
               path3 = replace_all ''./'' '''' path2
      in ([], slice base 0 baseSingle @ path3))"

abbreviation join_uri :: "string \<Rightarrow> string \<Rightarrow> string" where
  "join_uri given base \<equiv> snd (uri_join given base)"

definition uri_docpart :: "string \<Rightarrow> string" where
  "uri_docpart uri = (let i = index_of uri ''#'' in if i < 0 then uri else slice uri 0 i)"

definition uri_protocol :: "string \<Rightarrow> string" where
  "uri_protocol uri = slice uri 0 (index_of uri '':'')"

section \<open>The loop\<close>

lemma chop_up_None:
  "chop_up seg s = None \<longleftrightarrow> \<not> sublist ''/../'' s"
  by (induction seg s rule: chop_up.induct) (auto simp: sublist_Cons_right)

lemma up_loop_absent: "\<not> sublist ''/../'' s \<Longrightarrow> up_loop s = s"
  using chop_up_None [of "[]" s] by (simp add: up_loop.simps)

lemma up_loop_normal: "\<not> sublist ''/../'' (up_loop s)"
proof (induction s rule: up_loop.induct)
  case (1 path)
  show ?case
  proof (cases "chop_up [] path")
    case None
    then show ?thesis using chop_up_None [of "[]" path] by (simp add: up_loop.simps)
  next
    case (Some path')
    then show ?thesis using "1.IH" by (simp add: up_loop.simps [of path])
  qed
qed

lemma chop_up_seg:
  "CHR ''/'' \<notin> set a \<Longrightarrow> chop_up seg (a @ s) = chop_up (rev a @ seg) s"
  by (induction a arbitrary: seg) auto

text \<open>The first climb of a path: the segment before it goes.\<close>

lemma chop_up_first:
  assumes t: "CHR ''/'' \<notin> set t" and first: "\<not> sublist ''/../'' (d @ ''/'' @ t @ ''/..'')"
  shows "chop_up acc (d @ ''/'' @ t @ ''/../'' @ g) = Some (rev acc @ d @ ''/'' @ g)"
  using first
proof (induction d arbitrary: acc)
  case Nil
  have "\<not> prefix ''../'' (t @ ''/../'' @ g)"
  proof
    assume "prefix ''../'' (t @ ''/../'' @ g)"
    then have "prefix ''../'' (t @ ''/..'')"
      using prefix_length_prefix [of "''../''" "t @ ''/../'' @ g" "t @ ''/..''"] by simp
    then have "prefix ''/../'' (''/'' @ t @ ''/..'')" by simp
    then have "sublist ''/../'' (''/'' @ t @ ''/..'')" by (rule prefix_imp_sublist)
    then show False using Nil by simp
  qed
  then show ?case using chop_up_seg [OF t, of "[]" "''/../'' @ g"] by simp
next
  case (Cons c d)
  have np: "\<not> prefix ''../'' (d @ ''/'' @ t @ ''/../'' @ g)" if c: "c = CHR ''/''"
  proof
    assume "prefix ''../'' (d @ ''/'' @ t @ ''/../'' @ g)"
    then have "prefix ''../'' (d @ ''/'' @ t @ ''/..'')"
      using prefix_length_prefix [of "''../''" "d @ ''/'' @ t @ ''/../'' @ g" "d @ ''/'' @ t @ ''/..''"]
      by simp
    then have "prefix ''/../'' ((c # d) @ ''/'' @ t @ ''/..'')" using c by simp
    then have "sublist ''/../'' ((c # d) @ ''/'' @ t @ ''/..'')" by (rule prefix_imp_sublist)
    then show False using Cons.prems by simp
  qed
  have "\<not> sublist ''/../'' (d @ ''/'' @ t @ ''/..'')"
    using Cons.prems by (auto simp: sublist_Cons_right)
  note IH = Cons.IH [OF this]
  show ?case
  proof (cases "c = CHR ''/''")
    case True
    with np IH [of "[]"] show ?thesis by simp
  next
    case False
    with IH [of "c # acc"] show ?thesis by simp
  qed
qed

section \<open>Resolution against a hierarchical base\<close>

text \<open>
  The shape of base URI the RFC cases speak of, \<open>scheme://authority/dir/file\<close>, and of a
  relative path reference.
\<close>

definition hier_base :: "string \<Rightarrow> string \<Rightarrow> string \<Rightarrow> string \<Rightarrow> bool" where
  "hier_base sch auth dir file \<longleftrightarrow>
     CHR '':'' \<notin> set sch \<and> CHR ''/'' \<notin> set auth \<and> CHR ''/'' \<notin> set file \<and>
     CHR ''#'' \<notin> set (sch @ auth @ dir @ file) \<and> (dir = [] \<or> last dir = CHR ''/'')"

definition hier_uri :: "string \<Rightarrow> string \<Rightarrow> string \<Rightarrow> string \<Rightarrow> string" where
  "hier_uri sch auth dir file = sch @ ''://'' @ auth @ ''/'' @ dir @ file"

definition path_ref :: "string \<Rightarrow> bool" where
  "path_ref g \<longleftrightarrow> g \<noteq> [] \<and> CHR '':'' \<notin> set g \<and> hd g \<noteq> CHR ''#'' \<and> hd g \<noteq> CHR ''/''"

lemma path_ref_tests:
  assumes "path_ref g"
  shows "g \<noteq> []" "index_of g ''#'' \<noteq> 0" "index_of g '':'' = -1"
    "index_of g ''//'' \<noteq> 0" "index_of g ''/'' \<noteq> 0"
  using assms by (auto simp: path_ref_def index_of_0 js_str neq_Nil_conv)

lemma slash_dir:
  assumes "dir = [] \<or> last dir = CHR ''/''"
  obtains pre where "CHR ''/'' # dir = pre @ ''/''"
  using assms that [of "butlast (CHR ''/'' # dir)"] append_butlast_last_id [of "CHR ''/'' # dir"]
  by (auto split: if_splits)

lemma hier_uri_scan:
  assumes b: "hier_base sch auth dir file"
  defines "u \<equiv> hier_uri sch auth dir file"
  shows "index_of u ''#'' = -1" "index_of u '':'' = int (length sch)"
    "index_of_from u ''//'' (length sch) = int (length sch) + 1"
    "index_of_from u ''/'' (length sch + 3) = int (length sch + 3 + length auth)"
proof -
  show "index_of u ''#'' = -1"
    using b by (simp add: u_def hier_uri_def hier_base_def js_str)
  show "index_of u '':'' = int (length sch)"
    using b by (simp add: u_def hier_uri_def hier_base_def js_str)
  show "index_of_from u ''//'' (length sch) = int (length sch) + 1"
    by (simp add: u_def hier_uri_def index_of_from_def)
  have "drop (length sch + 3) u = auth @ CHR ''/'' # (dir @ file)"
    by (simp add: u_def hier_uri_def)
  moreover have "length sch + 3 \<le> length u" by (simp add: u_def hier_uri_def)
  moreover have "takeWhile (\<lambda>x. x \<noteq> CHR ''/'') (auth @ CHR ''/'' # (dir @ file)) = auth"
    using b by (intro takeWhile_ne_append) (simp add: hier_base_def)
  ultimately show "index_of_from u ''/'' (length sch + 3) = int (length sch + 3 + length auth)"
    by (simp add: index_of_from_char)
qed

text \<open>What \<open>join\<close> computes on such a base and reference, before the dot segments are treated.\<close>

lemma uri_join_hier:
  assumes b: "hier_base sch auth dir file" and g: "path_ref g"
  shows "uri_join g (hier_uri sch auth dir file) =
    ([], sch @ ''://'' @ auth @ replace_all ''./'' '''' (up_loop (''/'' @ dir @ g)))"
proof -
  let ?u = "hier_uri sch auth dir file"
  obtain pre where pre: "CHR ''/'' # dir = pre @ ''/''"
    using b slash_dir by (auto simp: hier_base_def)
  have pre': "CHR ''/'' # dir @ x = pre @ CHR ''/'' # x" for x
    using arg_cong [OF pre, of "\<lambda>d. d @ x"] by simp
  let ?p = "sch @ ''://'' @ auth"
  have u: "?u = ?p @ CHR ''/'' # dir @ file" by (simp add: hier_uri_def)
  have len: "length ?p = length sch + 3 + length auth" by simp
  obtain p where p: "p = pre @ CHR ''/'' # file" by simp
  obtain u where uu: "u = ?u" by simp
  have path: "slice_from u (int (length sch + 3 + length auth)) = p"
    unfolding uu u len [symmetric] slice_from_length pre' p ..
  have last: "last_index_of p (CHR ''/'') = int (length pre)"
    unfolding p using b by (intro last_index_of_append) (simp add: hier_base_def)
  have chop: "(if int (length pre) < int (length p) - 1
      then slice p 0 (int (length pre) + 1) else p) = pre @ ''/''"
    unfolding p by (cases "file = []") (auto simp: slice_nonneg nat_add_distrib)
  have host: "slice u 0 (int (length sch + 3 + length auth)) = ?p"
    unfolding uu u len [symmetric] slice_length ..
  note scan = hier_uri_scan [OF b, folded uu] path_ref_tests [OF g]
  have skip: "nat (int (length sch) + 3) = length sch + 3" by simp
  show ?thesis
    unfolding uu [symmetric] uri_join_def Let_def
    using scan path last chop host skip by (simp add: pre' split: if_splits)
qed

lemma uri_join_hier_plain:
  assumes "hier_base sch auth dir file" "path_ref g"
    and "\<not> sublist ''/../'' (''/'' @ dir @ g)" "\<not> sublist ''./'' (''/'' @ dir @ g)"
  shows "uri_join g (hier_uri sch auth dir file) = ([], hier_uri sch auth dir g)"
  unfolding uri_join_hier [OF assms(1,2)]
  using assms(3,4) by (simp add: up_loop_absent replace_all_absent hier_uri_def)

lemma uri_join_hier_up:
  assumes "hier_base sch auth dir file" "path_ref g"
    and "chop_up [] (''/'' @ dir @ g) = Some p"
    and "\<not> sublist ''/../'' p"
  shows "uri_join g (hier_uri sch auth dir file) =
    ([], sch @ ''://'' @ auth @ replace_all ''./'' '''' p)"
proof -
  have "up_loop (''/'' @ dir @ g) = up_loop p"
    by (subst up_loop.simps) (simp only: assms(3) option.case)
  then show ?thesis
    unfolding uri_join_hier [OF assms(1,2)] using up_loop_absent [OF assms(4)] by simp
qed

section \<open>Properties\<close>

text \<open>
  Resolving a relative path against a hierarchical base replaces everything after the
  last slash of the base's path, as RFC 2396 asks, when no dot segment is involved.
\<close>

lemma uri_join_relative_path:
  assumes "hier_base sch auth dir file" "path_ref g"
    and "\<not> sublist ''/../'' (''/'' @ dir @ g)" "\<not> sublist ''./'' (''/'' @ dir @ g)"
  shows "uri_join g (hier_uri sch auth dir file) = ([], hier_uri sch auth dir g)"
  using assms by (rule uri_join_hier_plain)

lemma uri_join_relative_path_witness:
  "uri_join ''d?x=1'' (hier_uri ''http'' ''h:80'' ''a/b/'' ''c'') =
     ([], hier_uri ''http'' ''h:80'' ''a/b/'' ''d?x=1'')"
  by (rule uri_join_relative_path) (simp_all add: hier_base_def path_ref_def sublist_Cons_right)

text \<open>
  A reference that starts with one \<open>../\<close> drops the last directory of the base, when
  there is one to drop and nothing else of the result is a dot segment.
\<close>

lemma uri_join_parent_path:
  assumes b: "hier_base sch auth (d @ seg @ ''/'') file"
    and g: "CHR '':'' \<notin> set g" and seg: "CHR ''/'' \<notin> set seg"
    and d: "d = [] \<or> last d = CHR ''/''"
    and first: "\<not> sublist ''/../'' (''/'' @ d @ seg @ ''/..'')"
    and rest: "\<not> sublist ''/../'' (''/'' @ d @ g)" "\<not> sublist ''./'' (''/'' @ d @ g)"
  shows "uri_join (''../'' @ g) (hier_uri sch auth (d @ seg @ ''/'') file) =
    ([], hier_uri sch auth d g)"
proof -
  have r: "path_ref (''../'' @ g)" using g by (simp add: path_ref_def)
  obtain pre where pre: "CHR ''/'' # d = pre @ ''/''" using d slash_dir by blast
  have eq: "''/'' @ (d @ x) = pre @ ''/'' @ x" for x
    using arg_cong [OF pre, of "\<lambda>y. y @ x"] by simp
  have "chop_up [] (pre @ ''/'' @ seg @ ''/../'' @ g) = Some (pre @ ''/'' @ g)"
    using chop_up_first [OF seg first [unfolded eq], of "[]" g] by simp
  then have "chop_up [] (''/'' @ (d @ (seg @ ''/../'' @ g))) = Some (''/'' @ (d @ g))"
    unfolding eq .
  then have "chop_up [] (''/'' @ (d @ seg @ ''/'') @ ''../'' @ g) = Some (''/'' @ d @ g)"
    by simp
  from uri_join_hier_up [OF b r this] rest show ?thesis
    by (simp add: replace_all_absent hier_uri_def)
qed

lemma uri_join_parent_path_witness:
  "uri_join (''../'' @ ''x'') (hier_uri ''http'' ''h'' (''a/'' @ ''b'' @ ''/'') ''c'') =
     ([], hier_uri ''http'' ''h'' ''a/'' ''x'')"
  by (rule uri_join_parent_path) (simp_all add: hier_base_def sublist_Cons_right)

text \<open>
  A reference that climbs one level above the root does not stay on the host: the
  loop eats the slash after the authority, the \<open>./\<close> removal eats the rest of the dots, and
  the reference's text is appended to the authority itself.
\<close>

lemma uri_join_climb_leaves_host:
  assumes b: "hier_base sch auth [] file"
    and g: "CHR '':'' \<notin> set g" "\<not> sublist ''/../'' (''/'' @ g)" "\<not> sublist ''./'' g"
  shows "uri_join (''../../'' @ g) (hier_uri sch auth [] file) =
    ([], sch @ ''://'' @ auth @ ''.'' @ g)"
proof -
  have r: "path_ref (''../../'' @ g)" using g by (simp add: path_ref_def)
  have "chop_up [] (''/'' @ [] @ ''../../'' @ g) = Some (''../'' @ g)" by simp
  moreover have "\<not> sublist ''/../'' (''../'' @ g)"
    using g(2) by (simp add: sublist_Cons_right)
  moreover have "replace_all ''./'' '''' (''../'' @ g) = ''.'' @ g"
    using g(3) by (simp add: replace_all_def replace_go_absent)
  ultimately show ?thesis using uri_join_hier_up [OF b r] by simp
qed

lemma uri_join_climb_leaves_host_witness:
  "uri_join (''../../'' @ ''evil.org/x'') (hier_uri ''http'' ''good'' [] ''a'') =
     ([], ''http'' @ ''://'' @ ''good'' @ ''.'' @ ''evil.org/x'')"
  by (rule uri_join_climb_leaves_host) (simp_all add: hier_base_def sublist_Cons_right)

text \<open>
  Resolving a fragment keeps the document: the result is the base's document part
  with the fragment, whatever fragment the base had, and its document part is the base's.
\<close>

lemma uri_join_fragment:
  assumes "base = [] \<or> hd base \<noteq> CHR ''#''"
  shows "uri_join (''#'' @ f) base = ([], uri_docpart base @ ''#'' @ f) \<and>
    uri_docpart (join_uri (''#'' @ f) base) = uri_docpart base"
proof (cases "CHR ''#'' \<in> set base")
  case False
  then show ?thesis
    by (simp add: uri_join_def uri_docpart_def Let_def js_str index_of_0 slice_length)
next
  case True
  then obtain d x where base: "base = d @ CHR ''#'' # x" and d: "CHR ''#'' \<notin> set d"
    using split_list_first by metis
  with assms have "d \<noteq> []" by auto
  then show ?thesis
    using d by (simp add: base uri_join_def uri_docpart_def Let_def js_str index_of_0 slice_length)
qed

lemma uri_join_fragment_witness:
  "uri_join (''#'' @ ''y'') ''http://h/a#x'' = ([], uri_docpart ''http://h/a#x'' @ ''#'' @ ''y'') \<and>
    uri_docpart (join_uri (''#'' @ ''y'') ''http://h/a#x'') = uri_docpart ''http://h/a#x''"
  by (rule uri_join_fragment) simp

end
