(* ===== verification/Params.thy ===== *)
theory Params
  imports JsPrelude
begin

text \<open>
  \<open>discoscripts/parameters.js\<close>: the fields of the page's query string. The browser's
  \<open>window.location.search\<close> is an argument; a decoded value is the list of its code units.
\<close>

record field =
  field_name :: string
  field_value :: "nat list option"

text \<open>\<open>null\<close> and \<open>undefined\<close> raw values are \<open>None\<close>.\<close>

definition readField :: "string option \<Rightarrow> nat list option" where
  "readField raw = (case raw of
     None \<Rightarrow> None
   | Some r \<Rightarrow> Some (js_unescape (replace_all ''+'' '' '' r)))"

definition parse_field :: "string \<Rightarrow> field" where
  "parse_field part =
     (let temp = split_str ''='' part in
      \<lparr>field_name = hd temp,
       field_value = readField (case temp of _ # v # _ \<Rightarrow> Some v | _ \<Rightarrow> None)\<rparr>)"

definition new_Parameters :: "string \<Rightarrow> field list" where
  "new_Parameters search =
     (if search \<noteq> [] then
        map parse_field (split_str ''&'' (substring search 1 (int (length search))))
      else [])"

fun getField :: "field list \<Rightarrow> string \<Rightarrow> nat list option" where
  "getField [] name = None"
| "getField (f # fs) name = (if field_name f = name then field_value f else getField fs name)"

section \<open>The parts of a query string\<close>

text \<open>A part split at the equals signs: the text before the first, and the text up to the second.\<close>

definition part_name :: "string \<Rightarrow> string" where
  "part_name part = takeWhile (\<lambda>c. c \<noteq> CHR ''='') part"

definition part_value :: "string \<Rightarrow> string option" where
  "part_value part = (case dropWhile (\<lambda>c. c \<noteq> CHR ''='') part of
     [] \<Rightarrow> None | _ # v \<Rightarrow> Some (takeWhile (\<lambda>c. c \<noteq> CHR ''='') v))"

lemma while_absent: "c \<notin> set s \<Longrightarrow> takeWhile (\<lambda>x. x \<noteq> c) s = s \<and> dropWhile (\<lambda>x. x \<noteq> c) s = []"
  by (induction s) auto

lemma hd_split_char: "hd (split_str [c] s) = takeWhile (\<lambda>x. x \<noteq> c) s"
proof (cases "c \<in> set s")
  case True
  then obtain a b where "s = a @ c # b" "c \<notin> set a" by (meson split_list_first)
  then show ?thesis by (auto simp: js_str takeWhile_append1 takeWhile_tail)
next
  case False
  then show ?thesis by (simp add: js_str while_absent)
qed

lemma split_second:
  "(case split_str [c] s of _ # v # _ \<Rightarrow> Some v | _ \<Rightarrow> None) =
    (case dropWhile (\<lambda>x. x \<noteq> c) s of [] \<Rightarrow> None | _ # t \<Rightarrow> Some (takeWhile (\<lambda>x. x \<noteq> c) t))"
proof (cases "c \<in> set s")
  case True
  then obtain a b where s: "s = a @ c # b" "c \<notin> set a" by (meson split_list_first)
  then have "dropWhile (\<lambda>x. x \<noteq> c) s = c # b" by (auto simp: dropWhile_append3)
  moreover have "split_str [c] b = takeWhile (\<lambda>x. x \<noteq> c) b # tl (split_str [c] b)"
    using hd_split_char [of c b] by (cases "split_str [c] b") (simp_all add: split_str_def)
  ultimately show ?thesis using s by (simp add: js_str) (metis list.simps(5))
next
  case False
  then show ?thesis by (simp add: js_str while_absent)
qed

lemma parse_field_parts: "parse_field part = \<lparr>field_name = part_name part, field_value = readField (part_value part)\<rparr>"
  unfolding parse_field_def Let_def part_name_def part_value_def split_second hd_split_char ..

lemma getField_find:
  "getField (map parse_field ps) name =
    (case find (\<lambda>part. part_name part = name) ps of None \<Rightarrow> None | Some part \<Rightarrow> readField (part_value part))"
  by (induction ps) (auto simp: parse_field_parts)

section \<open>Properties\<close>

text \<open>
  C26. \<open>getField\<close> on the parameters of any query string: the string after its question mark is cut
  at the ampersands, the first part whose text before its first equals sign is the name gives
  the value, which is the text between its first and its second equals sign with the pluses read
  as spaces and decoded by \<open>unescape\<close>; the answer is \<open>null\<close> if there is no such part or the part
  has no equals sign.
\<close>

theorem getField_first_part:
  "getField (new_Parameters search) name =
    (case find (\<lambda>part. part_name part = name) (split_str ''&'' (tl search)) of
       None \<Rightarrow> None
     | Some part \<Rightarrow> (case part_value part of
         None \<Rightarrow> None | Some raw \<Rightarrow> Some (js_unescape (replace_all ''+'' '' '' raw))))"
proof (cases search)
  case Nil
  have "split_str ''&'' [] = [[]]" by (simp add: split_str_def)
  then show ?thesis using Nil by (simp add: new_Parameters_def part_value_def)
next
  case (Cons c s)
  then have "new_Parameters search = map parse_field (split_str ''&'' (tl search))"
    by (simp add: new_Parameters_def substring_def Let_def)
  then show ?thesis by (simp add: getField_find readField_def split: option.splits)
qed

text \<open>
  So fields that were joined are found again, names and values taken as they were written.
\<close>

lemma Parameters_joined:
  assumes "\<forall>(n, v)\<in>set fs. CHR ''='' \<notin> set n \<and> CHR ''&'' \<notin> set n \<and> CHR ''='' \<notin> set v \<and> CHR ''&'' \<notin> set v"
    and "fs \<noteq> []"
  shows "getField (new_Parameters (CHR ''?'' # join_str ''&'' (map (\<lambda>(n, v). n @ CHR ''='' # v) fs))) name =
    (case map_of fs name of None \<Rightarrow> None | Some v \<Rightarrow> readField (Some v))"
proof -
  let ?part = "\<lambda>(n, v). n @ CHR ''='' # v"
  have "\<forall>x\<in>set (map ?part fs). CHR ''&'' \<notin> set x" using assms(1) by fastforce
  then have "new_Parameters (CHR ''?'' # join_str ''&'' (map ?part fs)) = map parse_field (map ?part fs)"
    using split_join [of "map ?part fs"] assms(2) by (simp add: new_Parameters_def substring_def Let_def)
  moreover have "parse_field (n @ CHR ''='' # v) = \<lparr>field_name = n, field_value = readField (Some v)\<rparr>"
    if "CHR ''='' \<notin> set n" "CHR ''='' \<notin> set v" for n v
    using that by (simp add: parse_field_def js_str)
  then have "getField (map parse_field (map ?part fs)) name = (case map_of fs name of None \<Rightarrow> None | Some v \<Rightarrow> readField (Some v))"
    using assms(1) by (induction fs) auto
  ultimately show ?thesis by simp
qed

text \<open>
  \<open>unescape\<close> reads each escape as one code unit, and the browser writes a query in UTF-8: the two
  octets of an accented letter come back as two characters. An equals sign in a value ends it.
\<close>

lemma getField_octets: "getField (new_Parameters ''?uri=caf%C3%A9'') ''uri'' = Some [99, 97, 102, 195, 169]"
  by code_simp

lemma getField_truncates: "getField (new_Parameters ''?uri=a?b=c'') ''uri'' = Some [97, 63, 98]"
  by code_simp

end
