(* ===== verification/Util.thy ===== *)
theory Util
  imports JsPrelude
begin

text \<open>
  \<open>discoscripts/util.js\<close>: the callback mechanism \<open>Util.callbackify\<close> installs on an object,
  the parsing of response headers, the choice of a request object and the time stamp.
\<close>

section \<open>\<open>filter\<close> and \<open>map\<close>\<close>

text \<open>
  The two loops are \<open>for .. in\<close> loops over an array: they visit its elements and then the
  enumerable properties that arrays inherit, here as pairs of name and value (on the pages with
  \<open>widget-factory.js\<close> the function \<open>contains\<close> of \<open>Array.prototype\<close>; elsewhere none). The
  function that is applied may throw. \<open>filter\<close> pushes what it keeps, an inherited value as any
  other; \<open>map\<close> assigns under the name, so the result of an inherited property is an own property
  of the new array that is not one of its elements.
\<close>

fun filter_loop :: "('a \<Rightarrow> js_error + bool) \<Rightarrow> 'a list \<Rightarrow> 'a list \<Rightarrow> js_error + 'a list" where
  "filter_loop func output [] = Inr output"
| "filter_loop func output (x # xs) =
     (case func x of Inl e \<Rightarrow> Inl e | Inr b \<Rightarrow> filter_loop func (if b then output @ [x] else output) xs)"

definition js_filter :: "(string \<times> 'a) list \<Rightarrow> ('a \<Rightarrow> js_error + bool) \<Rightarrow> 'a list \<Rightarrow> js_error + 'a list" where
  "js_filter inherited func xs = filter_loop func [] (xs @ List.map snd inherited)"

fun map_inherited :: "('a \<Rightarrow> js_error + 'b) \<Rightarrow> 'b list \<Rightarrow> (string \<times> 'b) list \<Rightarrow> (string \<times> 'a) list \<Rightarrow>
    js_error + 'b list \<times> (string \<times> 'b) list" where
  "map_inherited func output named [] = Inr (output, named)"
| "map_inherited func output named ((n, x) # ps) =
     (case func x of Inl e \<Rightarrow> Inl e | Inr y \<Rightarrow> map_inherited func output (named @ [(n, y)]) ps)"

fun map_loop :: "(string \<times> 'a) list \<Rightarrow> ('a \<Rightarrow> js_error + 'b) \<Rightarrow> 'b list \<Rightarrow> 'a list \<Rightarrow>
    js_error + 'b list \<times> (string \<times> 'b) list" where
  "map_loop inherited func output [] = map_inherited func output [] inherited"
| "map_loop inherited func output (x # xs) =
     (case func x of Inl e \<Rightarrow> Inl e | Inr y \<Rightarrow> map_loop inherited func (output @ [y]) xs)"

definition js_map :: "(string \<times> 'a) list \<Rightarrow> ('a \<Rightarrow> js_error + 'b) \<Rightarrow> 'a list \<Rightarrow>
    js_error + 'b list \<times> (string \<times> 'b) list" where
  "js_map inherited func xs = map_loop inherited func [] xs"

lemma filter_loop_total: "\<forall>x\<in>set xs. func x = Inr (g x) \<Longrightarrow> filter_loop func out xs = Inr (out @ filter g xs)"
  by (induction xs arbitrary: out) auto

lemma js_filter_total:
  "\<forall>x\<in>set xs \<union> snd ` set inherited. func x = Inr (g x) \<Longrightarrow>
    js_filter inherited func xs = Inr (filter g xs @ filter g (List.map snd inherited))"
  using filter_loop_total [of "xs @ List.map snd inherited" func g "[]"] by (simp add: js_filter_def)

lemma map_inherited_total:
  "\<forall>x\<in>snd ` set ps. func x = Inr (g x) \<Longrightarrow>
    map_inherited func out named ps = Inr (out, named @ List.map (\<lambda>(n, x). (n, g x)) ps)"
  by (induction ps arbitrary: named) auto

lemma js_map_total:
  assumes "\<forall>x\<in>set xs \<union> snd ` set inherited. func x = Inr (g x)"
  shows "js_map inherited func xs = Inr (List.map g xs, List.map (\<lambda>(n, x). (n, g x)) inherited)"
proof -
  have "map_loop inherited func out xs = Inr (out @ List.map g xs, List.map (\<lambda>(n, x). (n, g x)) inherited)" for out
    using assms map_inherited_total [of inherited func g] by (induction xs arbitrary: out) auto
  then show ?thesis by (simp add: js_map_def)
qed

text \<open>A function that throws at the inherited value ends both with that error, whatever the elements.\<close>

lemma js_map_inherited_throws:
  assumes "\<forall>x\<in>set xs. func x = Inr (g x)" "func c = Inl e"
  shows "js_map [(n, c)] func xs = Inl e" "js_filter [(n, c)] (map_sum id p \<circ> func) xs = Inl e"
proof -
  have "map_loop [(n, c)] func out xs = Inl e" for out
    using assms by (induction xs arbitrary: out) auto
  then show "js_map [(n, c)] func xs = Inl e" by (simp add: js_map_def)
  have "filter_loop (map_sum id p \<circ> func) out (xs @ [c]) = Inl e" for out
    using assms by (induction xs arbitrary: out) auto
  then show "js_filter [(n, c)] (map_sum id p \<circ> func) xs = Inl e" by (simp add: js_filter_def)
qed

section \<open>Callbacks\<close>

text \<open>
  An object with callbacks: the property \<open>callbacks\<close>, from the name of a hook to its
  functions, and the rest of the object. A list element that does not exist any more when
  it is read a second time is \<open>undefined\<close>, \<open>None\<close>.
\<close>

record ('f, 's) hooked =
  callbacks :: "string \<Rightarrow> 'f option list option"
  hook_self :: 's

definition callbackify :: "string list \<Rightarrow> 's \<Rightarrow> ('f, 's) hooked" where
  "callbackify hooks s =
     \<lparr>callbacks = foldr (\<lambda>h cb. cb(h \<mapsto> [])) hooks Map.empty, hook_self = s\<rparr>"

definition addHook :: "string \<Rightarrow> ('f, 's) hooked \<Rightarrow> ('f, 's) hooked" where
  "addHook hook obj =
     (if callbacks obj hook = None then obj\<lparr>callbacks := (callbacks obj)(hook \<mapsto> [])\<rparr> else obj)"

definition addCallback :: "string \<Rightarrow> 'f \<Rightarrow> (('f, 's) hooked, unit) js_step" where
  "addCallback hook func obj =
     (case callbacks obj hook of
        None \<Rightarrow> (Inl TypeError, obj)
      | Some fs \<Rightarrow> (Inr (), obj\<lparr>callbacks := (callbacks obj)(hook \<mapsto> fs @ [Some func])\<rparr>))"

text \<open>Reading \<open>obj.callbacks[hook][x]\<close>.\<close>

definition hook_elem :: "string \<Rightarrow> nat \<Rightarrow> (('f, 's) hooked, 'f option) js_step" where
  "hook_elem hook x obj =
     (case callbacks obj hook of
        None \<Rightarrow> (Inl TypeError, obj)
      | Some fs \<Rightarrow> (Inr (if x < length fs then fs ! x else None), obj))"

text \<open>
  The first loop of \<open>fireCallbacks\<close>, from the last callback to the first: the functions
  that return true are collected, in the order they are called. \<open>call f\<close> is the function
  applied to the object and the arguments, and may change the object.
\<close>

fun fire_loop ::
  "('f \<Rightarrow> (('f, 's) hooked, bool) js_step) \<Rightarrow> string \<Rightarrow> nat \<Rightarrow> 'f option list \<Rightarrow>
   (('f, 's) hooked, 'f option list) js_step" where
  "fire_loop call hook 0 newCallbacks = ret newCallbacks"
| "fire_loop call hook (Suc x) newCallbacks =
     bind_step (hook_elem hook x) (\<lambda>f.
       case f of None \<Rightarrow> throw TypeError
       | Some g \<Rightarrow> bind_step (call g) (\<lambda>again.
           if again then bind_step (hook_elem hook x) (\<lambda>h. fire_loop call hook x (newCallbacks @ [h]))
           else fire_loop call hook x newCallbacks))"

definition fireCallbacks ::
  "('f \<Rightarrow> (('f, 's) hooked, bool) js_step) \<Rightarrow> string \<Rightarrow> (('f, 's) hooked, unit) js_step" where
  "fireCallbacks call hook obj0 =
     (case callbacks obj0 hook of
        None \<Rightarrow> (Inl TypeError, obj0)
      | Some fs0 \<Rightarrow>
          bind_step (fire_loop call hook (length fs0) []) (\<lambda>newCallbacks obj.
            case callbacks obj hook of
              None \<Rightarrow> (Inl TypeError, obj)
            | Some fs \<Rightarrow>
                (Inr (), obj\<lparr>callbacks :=
                   (callbacks obj)(hook \<mapsto> rev newCallbacks @ drop (length fs0) fs)\<rparr>)) obj0)"

text \<open>
  A well-behaved callback returns whether it wants to be kept, and at most registers more
  callbacks for the hook.
\<close>

definition registers ::
  "('f \<Rightarrow> (('f, 's) hooked, bool) js_step) \<Rightarrow> string \<Rightarrow> ('f \<Rightarrow> bool) \<Rightarrow> ('f \<Rightarrow> 'f list) \<Rightarrow> bool" where
  "registers call hook again adds \<longleftrightarrow>
     (\<forall>f obj fs. callbacks obj hook = Some fs \<longrightarrow>
        (\<exists>obj'. call f obj = (Inr (again f), obj') \<and>
           callbacks obj' hook = Some (fs @ map Some (adds f))))"

lemma fire_loop_spec:
  assumes reg: "registers call hook again adds"
    and fs: "callbacks obj hook = Some (map Some fs @ ext)" and n: "n \<le> length fs"
  shows "\<exists>obj'. fire_loop call hook n acc obj =
      (Inr (acc @ map Some (filter again (rev (take n fs)))), obj') \<and>
    callbacks obj' hook = Some (map Some fs @ ext @ map Some (concat (map adds (rev (take n fs)))))"
  using fs n
proof (induction n arbitrary: acc obj ext)
  case 0
  then show ?case by (simp add: ret_def)
next
  case (Suc n)
  let ?f = "fs ! n"
  have elem: "hook_elem hook n ob = (Inr (Some ?f), ob)"
    if "callbacks ob hook = Some (map Some fs @ m)" for ob m
    using that Suc.prems(2) by (simp add: hook_elem_def nth_append)
  from reg Suc.prems(1) obtain ob1 where ob1: "call ?f obj = (Inr (again ?f), ob1)"
    "callbacks ob1 hook = Some (map Some fs @ ext @ map Some (adds ?f))"
    unfolding registers_def by fastforce
  have rev_take: "rev (take (Suc n) fs) = ?f # rev (take n fs)"
    using Suc.prems(2) by (simp add: take_Suc_conv_app_nth)
  from Suc.IH [OF ob1(2), of "if again ?f then acc @ [Some ?f] else acc"] Suc.prems(2)
  obtain ob2 where "fire_loop call hook n (if again ?f then acc @ [Some ?f] else acc) ob1 =
      (Inr ((if again ?f then acc @ [Some ?f] else acc) @ map Some (filter again (rev (take n fs)))), ob2)"
    "callbacks ob2 hook = Some (map Some fs @ (ext @ map Some (adds ?f)) @
      map Some (concat (map adds (rev (take n fs)))))" by auto
  then show ?case
    using elem [OF Suc.prems(1)] elem [OF ob1(2)] ob1(1) rev_take
    by (auto simp: bind_step_def)
qed

section \<open>Response headers\<close>

text \<open>\<open>headers[last] += "\n" + line\<close>, where a missing property reads as \<open>undefined\<close>.\<close>

definition header_line :: "string option \<times> (string \<Rightarrow> string option) \<Rightarrow> string \<Rightarrow>
    string option \<times> (string \<Rightarrow> string option)" where
  "header_line st line = (case st of (prev, headers) \<Rightarrow>
     if line = [] then st
     else (case split_str '': '' line of
         name # val # _ \<Rightarrow> (Some (to_lower name), headers(to_lower name \<mapsto> val))
       | pair \<Rightarrow>
           (let key = (case prev of Some l \<Rightarrow> l | None \<Rightarrow> ''undefined'') in
            (prev, headers(key \<mapsto> (case headers key of Some v \<Rightarrow> v | None \<Rightarrow> ''undefined'') @
              CHR 0x0A # hd pair)))))"

definition getHTTPHeaders :: "string \<Rightarrow> string \<Rightarrow> string option" where
  "getHTTPHeaders response = snd (foldl header_line (None, Map.empty) (split_str [CHR 0x0A] response))"

lemma split_header:
  assumes "CHR '':'' \<notin> set n" "\<not> sublist '': '' v"
  shows "split_str '': '' (n @ '': '' @ v) = [n, v]"
proof -
  have "split_go '': '' (n @ '': '' @ v) cur 0 = [rev cur @ n, v]" for cur
    using assms(1) by (induction n arbitrary: cur) (simp_all add: split_go_absent [OF assms(2)])
  then show ?thesis by (simp add: split_str_def)
qed

section \<open>Request objects and time stamps\<close>

text \<open>
  The constructors the browser offers: each is absent or, when called, gives an object or
  throws.
\<close>

definition XMLHTTPFactory :: "'x js_res option \<Rightarrow> ('x js_res \<times> 'x js_res) option \<Rightarrow> 'x option" where
  "XMLHTTPFactory xhr activeX =
     (case xhr of
        Some (Inr x) \<Rightarrow> Some x
      | Some (Inl _) \<Rightarrow> None
      | None \<Rightarrow>
          (case activeX of
             Some (Inr x, _) \<Rightarrow> Some x
           | Some (Inl _, Inr x) \<Rightarrow> Some x
           | Some (Inl _, Inl _) \<Rightarrow> None
           | None \<Rightarrow> None))"

text \<open>What the \<open>Date\<close> object of the moment answers.\<close>

record js_date =
  getYear :: int
  getMonth :: int
  getDate :: int
  getUTCHours :: int
  getUTCMinutes :: int
  getSeconds :: int

definition pad2 :: "int \<Rightarrow> string" where
  "pad2 n = (if n < 10 then ''0'' @ int_str n else int_str n)"

definition dtstamp :: "js_date \<Rightarrow> string" where
  "dtstamp now =
     int_str (getYear now + 1900) @ ''-'' @ pad2 (getMonth now + 1) @ ''-'' @ pad2 (getDate now + 1) @ ''T'' @
     pad2 (getUTCHours now) @ '':'' @ pad2 (getUTCMinutes now) @ '':'' @ pad2 (getSeconds now) @ ''Z''"

text \<open>The day of the month is printed one too high: on the 31st the stamp has a day 32.\<close>

lemma dtstamp_day_32:
  "dtstamp \<lparr>getYear = 110, getMonth = 0, getDate = 31, getUTCHours = 9, getUTCMinutes = 5, getSeconds = 7\<rparr> =
    ''2010-01-32T09:05:07Z''"
  by code_simp

section \<open>Properties\<close>

text \<open>
  Firing a hook whose callbacks at most register further ones calls each of them,
  last to first, and leaves those that returned true, in their old order, followed by the
  ones registered meanwhile, which are not called.
\<close>

lemma fireCallbacks_spec:
  assumes "registers call hook again adds" "callbacks obj hook = Some (map Some fs)"
  shows "\<exists>obj'. fireCallbacks call hook obj = (Inr (), obj') \<and>
    callbacks obj' hook = Some (map Some (filter again fs @ concat (map adds (rev fs))))"
  using fire_loop_spec [OF assms(1), of obj fs "[]" "length fs" "[]"] assms(2)
  by (auto simp: fireCallbacks_def bind_step_def rev_map rev_filter)

lemma fireCallbacks_spec_witness:
  "\<exists>obj'. fireCallbacks (\<lambda>f. if f then ret True else bind_step (addCallback ''h'' True) (\<lambda>_. ret False)) ''h''
      \<lparr>callbacks = [''h'' \<mapsto> [Some False, Some True]], hook_self = ()\<rparr> = (Inr (), obj') \<and>
    callbacks obj' ''h'' = Some [Some True, Some True]"
proof -
  let ?call = "\<lambda>f. if f then ret True else bind_step (addCallback ''h'' True) (\<lambda>_. ret False)"
  have "registers ?call ''h'' (\<lambda>f. f) (\<lambda>f. if f then [] else [True])"
    by (auto simp: registers_def addCallback_def bind_step_def ret_def)
  from fireCallbacks_spec [OF this, of "\<lparr>callbacks = [''h'' \<mapsto> [Some False, Some True]], hook_self = ()\<rparr>"
      "[False, True]"]
  show ?thesis by simp
qed

text \<open>
  The headers of a response made of \<open>Name: value\<close> lines are its values by lower-case
  name, of a repeated name the last one.
\<close>

lemma getHTTPHeaders_lines:
  assumes "\<forall>(n, v)\<in>set hs. CHR '':'' \<notin> set n \<and> CHR 0x0A \<notin> set n \<and> CHR 0x0A \<notin> set v \<and> \<not> sublist '': '' v"
    and "hs \<noteq> []"
  shows "getHTTPHeaders (join_str [CHR 0x0A] (map (\<lambda>(n, v). n @ '': '' @ v) hs)) =
    map_of (rev (map (\<lambda>(n, v). (to_lower n, v)) hs))"
proof -
  let ?line = "\<lambda>(n, v). n @ '': '' @ v" and ?key = "\<lambda>(n, v). (to_lower n, v)"
  have step: "\<exists>l. foldl header_line (prev, h) (map ?line hs') = (l, h ++ map_of (rev (map ?key hs')))"
    if "set hs' \<subseteq> set hs" for prev h hs'
    using that
  proof (induction hs' arbitrary: prev h)
    case (Cons x hs')
    obtain n v where x: "x = (n, v)" by (cases x)
    have "header_line (prev, h) (n @ '': '' @ v) = (Some (to_lower n), h(to_lower n \<mapsto> v))"
      using assms(1) Cons.prems split_header [of n v] by (auto simp: header_line_def x)
    moreover have "h(to_lower n \<mapsto> v) ++ map_of (rev (map ?key hs')) =
        h ++ map_of (rev (map ?key (x # hs')))"
      by (simp add: x)
    moreover obtain l where "foldl header_line (Some (to_lower n), h(to_lower n \<mapsto> v)) (map ?line hs') =
        (l, h(to_lower n \<mapsto> v) ++ map_of (rev (map ?key hs')))"
      using Cons.IH [of "Some (to_lower n)" "h(to_lower n \<mapsto> v)"] Cons.prems
      by (meson set_subset_Cons subset_trans)
    ultimately show ?case by (intro exI [of _ l]) (simp add: x del: fun_upd_apply)
  qed simp
  have "\<forall>l\<in>set (map ?line hs). CHR 0x0A \<notin> set l" using assms(1) by auto
  then have "split_str [CHR 0x0A] (join_str [CHR 0x0A] (map ?line hs)) = map ?line hs"
    using assms(2) by (intro split_join) simp_all
  then show ?thesis using step [of hs None Map.empty] by (auto simp: getHTTPHeaders_def)
qed

lemma getHTTPHeaders_lines_witness:
  "getHTTPHeaders (join_str [CHR 0x0A] [''Link: a'', ''Age: 7'', ''link: b'']) ''link'' = Some ''b''"
proof -
  have "to_lower ''Link'' = ''link''" "to_lower ''link'' = ''link''" "to_lower ''Age'' = ''age''"
    by code_simp+
  then show ?thesis
    using getHTTPHeaders_lines [of "[(''Link'', ''a''), (''Age'', ''7''), (''link'', ''b'')]"]
    by (simp add: sublist_Cons_right)
qed

end
