(* ===== verification/Log.thy ===== *)
theory Log
  imports JsPrelude "HOL-Library.Word"
begin

unbundle bit_operations_syntax

text \<open>
  \<open>discoscripts/log.js\<close>: the bit mask of the messages to show, the message functions and
  the status area they write to. The status element, which may be missing from the page,
  is the list of its child nodes; the time of day is part of the state the browser sets.
\<close>

definition TNONE :: int where "TNONE = 0"
definition TERROR :: int where "TERROR = 1"
definition TWARN :: int where "TWARN = 2"
definition TMESG :: int where "TMESG = 4"
definition TSUCCESS :: int where "TSUCCESS = 8"
definition TINFO :: int where "TINFO = 16"
definition TDEBUG :: int where "TDEBUG = 32"
definition TALL :: int where "TALL = 63"

lemmas level_defs = TNONE_def TERROR_def TWARN_def TMESG_def TSUCCESS_def TINFO_def TDEBUG_def TALL_def

text \<open>The operators of the bit mask, on 32-bit integers.\<close>

definition js_and :: "int \<Rightarrow> int \<Rightarrow> int" where
  "js_and a b = sint ((word_of_int a :: 32 word) AND word_of_int b)"

definition js_or :: "int \<Rightarrow> int \<Rightarrow> int" where
  "js_or a b = sint ((word_of_int a :: 32 word) OR word_of_int b)"

record log_node =
  node_class :: string
  node_html :: string

record log_env =
  ascending :: bool
  level :: int
  status :: "log_node list option"
  now :: "int \<times> int \<times> int"

definition default_level :: int where
  "default_level = js_or TERROR TWARN"

definition new_log :: "log_node list option \<Rightarrow> int \<times> int \<times> int \<Rightarrow> log_env" where
  "new_log st t = \<lparr>ascending = False, level = default_level, status = st, now = t\<rparr>"

definition escapeForXML :: "string \<Rightarrow> string" where
  "escapeForXML str = replace_all ''<'' ''&lt;'' (replace_all ''&'' ''&amp;'' str)"

definition log_head :: "int \<times> int \<times> int \<Rightarrow> string \<Rightarrow> string" where
  "log_head t typestr = (case t of (h, mi, se) \<Rightarrow>
     int_str h @ '':'' @ int_str mi @ '':'' @ int_str se @ '' ['' @ typestr @ ''] '')"

definition log_text :: "int \<times> int \<times> int \<Rightarrow> string \<Rightarrow> string \<Rightarrow> string" where
  "log_text t typestr str = log_head t typestr @ escapeForXML str @ ''<br/>''"

definition tlog :: "string \<Rightarrow> int \<Rightarrow> string \<Rightarrow> (log_env, unit) js_step" where
  "tlog str type0 typestr0 l =
     (let (type, typestr) = (if type0 = 0 then (TMESG, ''mesg'') else (type0, typestr0)) in
      if js_and (level l) type = 0 then (Inr (), l)
      else
        (let addendum = \<lparr>node_class = typestr, node_html = log_text (now l) typestr str\<rparr> in
         case status l of
           None \<Rightarrow> (Inl TypeError, l)
         | Some nodes \<Rightarrow>
             (Inr (), l\<lparr>status := Some (if ascending l then nodes @ [addendum] else addendum # nodes)\<rparr>)))"

definition tmsg :: "string \<Rightarrow> (log_env, unit) js_step" where "tmsg m = tlog m TMESG ''mesg''"
definition tinfo :: "string \<Rightarrow> (log_env, unit) js_step" where "tinfo m = tlog m TINFO ''info''"
definition twarn :: "string \<Rightarrow> (log_env, unit) js_step" where "twarn m = tlog m TWARN ''warn''"
definition terror :: "string \<Rightarrow> (log_env, unit) js_step" where "terror m = tlog m TERROR ''eror''"
definition tdebug :: "string \<Rightarrow> (log_env, unit) js_step" where "tdebug m = tlog m TDEBUG ''dbug''"
definition tsuccess :: "string \<Rightarrow> (log_env, unit) js_step" where "tsuccess m = tlog m TSUCCESS ''good''"
definition fyi :: "string \<Rightarrow> (log_env, unit) js_step" where "fyi = tdebug"

lemmas message_defs = tmsg_def tinfo_def twarn_def terror_def fyi_def tdebug_def tsuccess_def

text \<open>\<open>emptyNode\<close> is a function of the page, what it leaves of the children an argument.\<close>

definition clearStatus :: "(log_node list \<Rightarrow> log_node list) \<Rightarrow> log_env \<Rightarrow> log_env" where
  "clearStatus emptyNode l =
     (case status l of None \<Rightarrow> l | Some nodes \<Rightarrow> l\<lparr>status := Some (emptyNode nodes)\<rparr>)"

text \<open>A message that throws leaves the level at \<open>TALL\<close>.\<close>

definition setLogging :: "int \<Rightarrow> (log_env, unit) js_step" where
  "setLogging x =
     then_step (modify (\<lambda>l. l\<lparr>level := TALL\<rparr>)) (
     then_step (fyi (''Logging '' @ int_str x)) (modify (\<lambda>l. l\<lparr>level := x\<rparr>)))"

text \<open>
  \<open>dumpStore\<close> with the texts of the store and of the two entries, under the keys 0 and 1,
  of its subject and object index.
\<close>

definition dumpStore :: "string \<Rightarrow> string \<times> string \<Rightarrow> string \<times> string \<Rightarrow> (log_env, unit) js_step" where
  "dumpStore kb_text subj_ix obj_ix =
     bind_step (gets level) (\<lambda>l.
     then_step (modify (\<lambda>s. s\<lparr>level := TALL\<rparr>)) (
     then_step (fyi (CHR 0x0A # ''Store:'' @ CHR 0x0A # kb_text @ ''__________________'' @ [CHR 0x0A])) (
     then_step (tdebug (''subject index: '' @ fst subj_ix @ snd subj_ix)) (
     then_step (tdebug (''object index: '' @ fst obj_ix @ snd obj_ix))
       (modify (\<lambda>s. s\<lparr>level := l\<rparr>))))))"

text \<open>\<open>document.innerHTML\<close> may be \<open>undefined\<close>, on which \<open>replace\<close> cannot be called.\<close>

definition dumpHTML :: "string option \<Rightarrow> (log_env, unit) js_step" where
  "dumpHTML html =
     bind_step (gets level) (\<lambda>l.
     then_step (modify (\<lambda>s. s\<lparr>level := TALL\<rparr>)) (
     then_step (case html of None \<Rightarrow> throw TypeError | Some h \<Rightarrow> fyi h)
       (modify (\<lambda>s. s\<lparr>level := l\<rparr>))))"

section \<open>Escaping\<close>

fun unescape_xml :: "string \<Rightarrow> string" where
  "unescape_xml (CHR ''&'' # s) =
     (if take 4 s = ''amp;'' then CHR ''&'' # unescape_xml (drop 4 s)
      else if take 3 s = ''lt;'' then CHR ''<'' # unescape_xml (drop 3 s)
      else CHR ''&'' # unescape_xml s)"
| "unescape_xml (c # s) = c # unescape_xml s"
| "unescape_xml [] = []"

lemma escapeForXML_simps [simp]:
  "escapeForXML [] = []"
  "escapeForXML (c # s) =
    (if c = CHR ''&'' then ''&amp;'' else if c = CHR ''<'' then ''&lt;'' else [c]) @ escapeForXML s"
  by (auto simp: escapeForXML_def replace_all_def)

lemma escapeForXML_safe: "CHR ''<'' \<notin> set (escapeForXML s)"
  by (induction s) auto

lemma unescape_escape: "unescape_xml (escapeForXML s) = s"
proof (induction s)
  case (Cons c s)
  show ?case
  proof (cases "c = CHR ''&'' \<or> c = CHR ''<''")
    case False
    have plain: "c \<noteq> CHR ''&'' \<Longrightarrow> unescape_xml (c # t) = c # unescape_xml t" for t
      by (cases "c # t" rule: unescape_xml.cases) auto
    show ?thesis using False Cons plain by simp
  qed (use Cons in auto)
qed simp

section \<open>Which messages are shown\<close>

text \<open>The level bits of the message functions.\<close>

definition shown :: "int \<Rightarrow> int \<Rightarrow> bool" where
  "shown lev type \<longleftrightarrow> js_and lev type \<noteq> 0"

lemma tlog_shown:
  assumes "status l = Some nodes" "ty \<noteq> 0" "shown (level l) ty"
  shows "tlog str ty ts l = (Inr (), l\<lparr>status := Some
    (let n = \<lparr>node_class = ts, node_html = log_text (now l) ts str\<rparr>
     in if ascending l then nodes @ [n] else n # nodes)\<rparr>)"
  using assms by (simp add: tlog_def shown_def Let_def)

lemma tlog_hidden: "ty \<noteq> 0 \<Longrightarrow> \<not> shown (level l) ty \<Longrightarrow> tlog str ty ts l = (Inr (), l)"
  by (simp add: tlog_def shown_def Let_def)

lemma default_shown:
  "shown default_level TERROR" "shown default_level TWARN" "\<not> shown default_level TMESG"
  "\<not> shown default_level TSUCCESS" "\<not> shown default_level TINFO" "\<not> shown default_level TDEBUG"
  by (simp_all add: shown_def js_and_def js_or_def default_level_def level_defs)

lemma all_shown: "ty \<in> {TERROR, TWARN, TMESG, TSUCCESS, TINFO, TDEBUG} \<Longrightarrow> shown TALL ty"
  by (auto simp: shown_def js_and_def level_defs)

lemma level_nonzero [simp]:
  "TERROR \<noteq> 0" "TWARN \<noteq> 0" "TMESG \<noteq> 0" "TSUCCESS \<noteq> 0" "TINFO \<noteq> 0" "TDEBUG \<noteq> 0"
  by (simp_all add: level_defs)

section \<open>Properties\<close>

text \<open>
  A log at the default level swallows every message but warnings and errors; these two are put in front of the older ones, with markup in the
  message made inert by an escaping that loses nothing.
\<close>

lemma default_log:
  fixes l :: log_env
  assumes "level l = default_level" "\<not> ascending l" "status l = Some nodes"
  shows "fyi m l = (Inr (), l) \<and> tinfo m l = (Inr (), l) \<and> tmsg m l = (Inr (), l) \<and>
    tsuccess m l = (Inr (), l) \<and>
    fst (twarn m l) = Inr () \<and> fst (terror m l) = Inr () \<and>
    (\<exists>h. status (snd (twarn m l)) =
        Some (\<lparr>node_class = ''warn'', node_html = h @ escapeForXML m @ ''<br/>''\<rparr> # nodes)) \<and>
    (\<exists>h. status (snd (terror m l)) =
        Some (\<lparr>node_class = ''eror'', node_html = h @ escapeForXML m @ ''<br/>''\<rparr> # nodes)) \<and>
    CHR ''<'' \<notin> set (escapeForXML m) \<and> unescape_xml (escapeForXML m) = m"
  using assms default_shown
  by (simp add: message_defs tlog_hidden tlog_shown Let_def escapeForXML_safe unescape_escape log_text_def)

lemma default_log_witness:
  "status (snd (terror ''a<b'' (new_log (Some []) (9, 5, 7)))) \<noteq> Some []"
  using default_log [of "new_log (Some []) (9, 5, 7)" "[]" "''a<b''"] by (auto simp: new_log_def)

text \<open>
  \<open>setLogging x\<close> announces itself whatever the old level and then makes \<open>x\<close> the level;
  on a page without status area it throws and leaves every message enabled, so that the
  next one throws too.
\<close>

theorem setLogging_spec:
  "(case status l of
      Some nodes \<Rightarrow> fst (setLogging x l) = Inr () \<and> level (snd (setLogging x l)) = x \<and>
        (\<exists>n. status (snd (setLogging x l)) = Some (if ascending l then nodes @ [n] else n # nodes))
    | None \<Rightarrow> fst (setLogging x l) = Inl TypeError \<and> level (snd (setLogging x l)) = TALL \<and>
        fst (tmsg m (snd (setLogging x l))) = Inl TypeError)"
  using all_shown
  by (auto simp: setLogging_def message_defs tlog_def shown_def then_step_def bind_step_def modify_def Let_def
      split: option.splits)

end
