(* ===== verification/Dom.thy ===== *)
theory Dom
  imports JsPrelude
begin

text \<open>
  The part of the DOM the scripts read and build: elements with their namespace, local and
  qualified names, attributes and children; text and CDATA nodes; other nodes by their
  node type. A null \<open>namespaceURI\<close> is \<open>None\<close>. These are the browser's objects, not code of
  the repository: the operations below are the documented behaviour of the DOM methods the
  scripts call (\<open>getAttributeNodeNS\<close>, \<open>getAttributeNode\<close>, \<open>removeAttributeNode\<close>,
  \<open>setAttributeNS\<close>, \<open>appendChild\<close>).
\<close>

record dom_attr =
  at_ns :: "string option"
  at_local :: string
  at_name :: string
  at_value :: string

datatype dom =
    Element (dom_ns: "string option") (dom_local: string) (dom_name: string)
      (dom_attrs: "dom_attr list") (dom_children: "dom list")
  | TextNode string
  | CDataNode string
  | OtherNode nat

fun dom_type :: "dom \<Rightarrow> nat" where
  "dom_type (Element _ _ _ _ _) = 1"
| "dom_type (TextNode _) = 3"
| "dom_type (CDataNode _) = 4"
| "dom_type (OtherNode n) = n"

fun attrs_of :: "dom \<Rightarrow> dom_attr list" where
  "attrs_of (Element _ _ _ ats _) = ats"
| "attrs_of _ = []"

fun children_of :: "dom \<Rightarrow> dom list" where
  "children_of (Element _ _ _ _ cs) = cs"
| "children_of _ = []"

fun set_attrs :: "dom_attr list \<Rightarrow> dom \<Rightarrow> dom" where
  "set_attrs ats (Element ns l n _ cs) = Element ns l n ats cs"
| "set_attrs ats d = d"

definition attr_ns :: "dom \<Rightarrow> string \<Rightarrow> string \<Rightarrow> dom_attr option" where
  "attr_ns d ns l = List.find (\<lambda>a. at_ns a = Some ns \<and> at_local a = l) (attrs_of d)"

definition attr_named :: "dom \<Rightarrow> string \<Rightarrow> dom_attr option" where
  "attr_named d n = List.find (\<lambda>a. at_name a = n) (attrs_of d)"

text \<open>An element holds at most one attribute of a name, so removing by value is removing the node.\<close>

definition remove_attr :: "dom_attr \<Rightarrow> dom \<Rightarrow> dom" where
  "remove_attr a d = set_attrs (remove1 a (attrs_of d)) d"

fun append_child :: "dom \<Rightarrow> dom \<Rightarrow> dom" where
  "append_child (Element ns l n ats cs) c = Element ns l n ats (cs @ [c])"
| "append_child d c = d"

definition set_attr :: "dom_attr \<Rightarrow> dom \<Rightarrow> dom" where
  "set_attr a d =
     (if \<exists>b\<in>set (attrs_of d). at_name b = at_name a
      then set_attrs (map (\<lambda>b. if at_name b = at_name a then a else b) (attrs_of d)) d
      else set_attrs (attrs_of d @ [a]) d)"

lemma attrs_set_attrs [simp]: "attrs_of (set_attrs ats (Element ns l n ats' cs)) = ats"
  by simp

lemma children_set_attrs [simp]: "children_of (set_attrs ats d) = children_of d"
  by (cases d) simp_all

lemma dom_type_set_attrs [simp]: "dom_type (set_attrs ats d) = dom_type d"
  by (cases d) simp_all

lemma attrs_remove_attr [simp]: "attrs_of (remove_attr a d) = remove1 a (attrs_of d)"
  by (cases d) (simp_all add: remove_attr_def)

lemma children_remove_attr [simp]: "children_of (remove_attr a d) = children_of d"
  by (simp add: remove_attr_def)

end
