(* ===== verification/Terms.thy ===== *)
theory Terms
  imports JsPrelude Dom Uri
begin

text \<open>
  \<open>discoscripts/term.js\<close>: the RDF terms, their N-Triples form (also used as the hash string
  of the store's indices), statements, the term factories of a formula and the parsing of
  a single token (\<open>fromNT\<close>). The global \<open>RDFNextId\<close> counter and the mutable collections
  are a state record, which the store extends. An N3 formula used as a term, which no
  script of the repository builds, is left out of the term type.
\<close>

section \<open>Data\<close>

datatype rdf_term =
    RDFEmpty
  | RDFSymbol (sym_uri: string)
  | RDFBlankNode (node_id: int)
  | RDFLiteral (lit_value: string) (lit_lang: "string option") (lit_datatype: "rdf_term option")
      (lit_elem: "dom option")
  | RDFCollection int
  | RDFVariable string

record rdf_statement =
  st_subject :: rdf_term
  st_predicate :: rdf_term
  st_object :: rdf_term
  st_why :: "rdf_term option"

record rdf_coll =
  coll_elements :: "rdf_term list"
  coll_closed :: bool

text \<open>The script's globals: the next id, and the collection objects by id.\<close>

record term_env =
  next_id :: int
  colls :: "int \<Rightarrow> rdf_coll option"
  alerts :: "string list"

text \<open>
  An argument as the caller passes it: an object, a string, \<open>undefined\<close>, or a value of
  another type (a number, a boolean), known by its printed form and its \<open>typeof\<close>.
\<close>

datatype js_val = VTerm rdf_term | VString string | VUndefined | VOther string string

definition do_alert :: "string \<Rightarrow> 'a term_env_scheme \<Rightarrow> 'a term_env_scheme" where
  "do_alert m s = s\<lparr>alerts := alerts s @ [m]\<rparr>"

section \<open>Printing\<close>

abbreviation bslash :: char where "bslash \<equiv> CHR 0x5C"
abbreviation dquote :: char where "dquote \<equiv> CHR 0x22"

definition escape_nt :: "string \<Rightarrow> string" where
  "escape_nt s = replace_all [dquote] [bslash, dquote] (replace_all [bslash] [bslash, bslash] s)"

definition symbol_toNT :: "string \<Rightarrow> string" where
  "symbol_toNT uri = ''<'' @ uri @ ''>''"

definition node_toNT :: "int \<Rightarrow> string" where
  "node_toNT i = ''_:n'' @ int_str i"

definition variable_toNT :: "string \<Rightarrow> string" where
  "variable_toNT uri =
     (if slice uri 0 (int (length ''varid:'')) = ''varid:''
      then ''?'' @ slice_from uri (int (length ''varid:'')) else ''?'' @ uri)"

text \<open>
  \<open>toString\<close>, which a literal overrides with its plain value, and \<open>toNT\<close>; a literal's
  datatype is concatenated by its \<open>toString\<close>.
\<close>

fun term_toString :: "rdf_term \<Rightarrow> string" where
  "term_toString RDFEmpty = ''''"
| "term_toString (RDFSymbol u) = symbol_toNT u"
| "term_toString (RDFBlankNode i) = node_toNT i"
| "term_toString (RDFLiteral v l d e) = v"
| "term_toString (RDFCollection i) = node_toNT i"
| "term_toString (RDFVariable u) = variable_toNT u"

definition literal_toNT :: "string \<Rightarrow> string option \<Rightarrow> rdf_term option \<Rightarrow> string" where
  "literal_toNT v l d =
     (let str = [dquote] @ escape_nt v @ [dquote];
          str = (case d of Some t \<Rightarrow> str @ ''^^'' @ term_toString t | None \<Rightarrow> str)
      in (case l of Some (c # cs) \<Rightarrow> str @ ''@'' @ (c # cs) | _ \<Rightarrow> str))"

fun toNT :: "rdf_term \<Rightarrow> string" where
  "toNT (RDFLiteral v l d e) = literal_toNT v l d"
| "toNT t = term_toString t"

text \<open>
  \<open>hashString\<close> is \<open>toNT\<close> for the literals, symbols, blank nodes, collections and variables;
  the empty term has none, and calling it throws.
\<close>

fun hashString :: "rdf_term \<Rightarrow> string js_res" where
  "hashString RDFEmpty = Inl TypeError"
| "hashString t = Inr (toNT t)"

definition statement_toNT :: "rdf_statement \<Rightarrow> string" where
  "statement_toNT st = toNT (st_subject st) @ '' '' @ toNT (st_predicate st) @ '' '' @
     toNT (st_object st) @ '' .''"

definition formula_toNT :: "rdf_statement list \<Rightarrow> string" where
  "formula_toNT sts = ''{'' @ [CHR 0x0A] @ join_str [CHR 0x0A] (map statement_toNT sts) @ ''}''"

section \<open>Factories\<close>

text \<open>\<open>makeTerm\<close>: \<open>None\<close> is \<open>undefined\<close>.\<close>

fun makeTerm :: "js_val \<Rightarrow> ('a term_env_scheme, rdf_term option) js_step" where
  "makeTerm (VTerm t) = ret (Some t)"
| "makeTerm (VString s) = ret (Some (RDFLiteral s None None None))"
| "makeTerm VUndefined = ret None"
| "makeTerm (VOther p ty) =
     then_step (modify (do_alert (''Can't make term from '' @ p @ '' of type '' @ ty))) (ret None)"

definition new_bnode :: "('a term_env_scheme, rdf_term) js_step" where
  "new_bnode s = (Inr (RDFBlankNode (next_id s)), s\<lparr>next_id := next_id s + 1\<rparr>)"

definition new_collection :: "('a term_env_scheme, rdf_term) js_step" where
  "new_collection s =
     (Inr (RDFCollection (next_id s)),
      s\<lparr>next_id := next_id s + 1,
        colls := (colls s)(next_id s \<mapsto> \<lparr>coll_elements = [], coll_closed = False\<rparr>)\<rparr>)"

text \<open>The methods of a collection; on another kind of term they do not exist.\<close>

definition coll_update :: "rdf_term \<Rightarrow> (rdf_coll \<Rightarrow> rdf_coll) \<Rightarrow> ('a term_env_scheme, unit) js_step" where
  "coll_update t f s =
     (case t of
        RDFCollection i \<Rightarrow>
          (case colls s i of
             Some c \<Rightarrow> (Inr (), s\<lparr>colls := (colls s)(i \<mapsto> f c)\<rparr>)
           | None \<Rightarrow> (Inl TypeError, s))
      | _ \<Rightarrow> (Inl TypeError, s))"

definition coll_append :: "rdf_term \<Rightarrow> rdf_term \<Rightarrow> ('a term_env_scheme, unit) js_step" where
  "coll_append t el = coll_update t (\<lambda>c. c\<lparr>coll_elements := coll_elements c @ [el]\<rparr>)"

definition coll_close :: "rdf_term \<Rightarrow> ('a term_env_scheme, unit) js_step" where
  "coll_close t = coll_update t (\<lambda>c. c\<lparr>coll_closed := True\<rparr>)"

text \<open>
  \<open>new RDFLiteral(value, lang, dt)\<close> for a string and for a DOM node, whose serialization
  is the browser's \<open>XMLSerializer\<close>, the parameter \<open>ser\<close>.
\<close>

definition literal_of_string :: "string \<Rightarrow> string option \<Rightarrow> rdf_term option \<Rightarrow> rdf_term" where
  "literal_of_string v l d = RDFLiteral v l d None"

definition literal_of_dom :: "(dom \<Rightarrow> string) \<Rightarrow> dom \<Rightarrow> string option \<Rightarrow> rdf_term option \<Rightarrow> rdf_term" where
  "literal_of_dom ser n l d = RDFLiteral (ser n) l d (Some n)"

text \<open>\<open>sym(uri, name)\<close>: an unknown prefix concatenates as the text \<open>undefined\<close>.\<close>

definition formula_sym :: "(string \<rightharpoonup> string) \<Rightarrow> string \<Rightarrow> string option \<Rightarrow> rdf_term" where
  "formula_sym nss uri name =
     (case name of
        None \<Rightarrow> RDFSymbol uri
      | Some n \<Rightarrow> RDFSymbol ((case nss uri of Some ns \<Rightarrow> ns | None \<Rightarrow> ''undefined'') @ n))"

definition new_variable :: "string \<Rightarrow> rdf_term" where
  "new_variable rel = RDFVariable (join_uri rel ''varid:'')"

definition ns_sym :: "string \<Rightarrow> string \<Rightarrow> rdf_term" where
  "ns_sym nsuri ln = RDFSymbol (nsuri @ ln)"

text \<open>
  \<open>fromNT\<close>. The blank node's constructor takes an id from the counter and the decrement
  gives it back; a suffix that is not a number would make the id \<open>NaN\<close>, which no term of
  the model has, and is the outcome \<open>Nan_id\<close>.
\<close>

datatype nt_result = Nt_term rdf_term | Nan_id | Nt_undefined

definition fromNT :: "string \<Rightarrow> 'a term_env_scheme \<Rightarrow> nt_result \<times> 'a term_env_scheme" where
  "fromNT str s =
     (let len = int (length str); ch = slice str 0 1 in
      if ch = ''<'' then (Nt_term (RDFSymbol (slice str 1 (len - 1))), s)
      else if ch = ''_'' then
        (let s1 = s\<lparr>next_id := next_id s + 1\<rparr>; s2 = s1\<lparr>next_id := next_id s1 - 1\<rparr>
         in (case parse_int (slice_from str 3) of
               Some i \<Rightarrow> (Nt_term (RDFBlankNode i), s2)
             | None \<Rightarrow> (Nan_id, s2)))
      else (Nt_undefined, do_alert (''Can't yet convert from NT: '' @ [CHR 0x27] @ str @ [CHR 0x27] @
        '', '' @ (case str of [] \<Rightarrow> ''undefined'' | c # _ \<Rightarrow> [c])) s))"

section \<open>Lemmas\<close>

lemma replace_all_char_Cons:
  "replace_all [a] r (x # xs) = (if x = a then r @ replace_all [a] r xs else x # replace_all [a] r xs)"
  by (simp add: replace_all_def)

lemma replace_all_Nil [simp]: "replace_all p r [] = []"
  by (simp add: replace_all_def)

lemma escape_nt_Nil [simp]: "escape_nt [] = []"
  by (simp add: escape_nt_def)

lemma escape_nt_Cons [simp]:
  "escape_nt (x # xs) =
     (if x = bslash then bslash # bslash # escape_nt xs
      else if x = dquote then bslash # dquote # escape_nt xs
      else x # escape_nt xs)"
  by (simp add: escape_nt_def replace_all_char_Cons)

text \<open>The closing quote of an escaped value can be found: the escaped text is self-delimiting.\<close>

lemma escape_nt_delimited:
  "escape_nt v @ dquote # r = escape_nt v' @ dquote # r' \<Longrightarrow> v = v' \<and> r = r'"
proof (induction v arbitrary: v')
  case Nil
  then show ?case by (cases v') (auto split: if_splits)
next
  case (Cons x v)
  then show ?case by (cases v') (auto split: if_splits)
qed

text \<open>What a language tag adds: an absent and an empty one print alike.\<close>

definition lang_text :: "string option \<Rightarrow> string" where
  "lang_text l = (case l of Some s \<Rightarrow> s | None \<Rightarrow> [])"

definition dt_text :: "rdf_term option \<Rightarrow> string" where
  "dt_text d = (case d of Some t \<Rightarrow> ''^^'' @ term_toString t | None \<Rightarrow> [])"

lemma literal_toNT_eq:
  "literal_toNT v l d = dquote # escape_nt v @ dquote #
     (dt_text d @ (if lang_text l = [] then [] else ''@'' @ lang_text l))"
  by (auto simp: literal_toNT_def lang_text_def dt_text_def Let_def split: option.splits list.splits)

lemma uri_join_varid:
  assumes "rel \<noteq> []" "CHR '':'' \<notin> set rel" "hd rel \<noteq> CHR ''#''" "hd rel \<noteq> CHR ''/''"
  shows "join_uri rel ''varid:'' = ''varid:'' @ rel"
proof -
  have "index_of ''varid:'' '':'' = 5" and "index_of ''varid:'' ''#'' = -1"
    by (simp_all add: index_of_char)
  moreover have "index_of_from ''varid:'' ''//'' 5 \<noteq> 6" "index_of_from ''varid:'' ''/'' 6 = -1"
    by (simp_all add: index_of_from_def)
  ultimately show ?thesis
    using assms
    by (auto simp: uri_join_def Let_def index_of_0 js_str neq_Nil_conv)
qed

section \<open>Properties\<close>

text \<open>
  Parsing the printed form of a symbol or of a blank node gives the term back and
  leaves the id counter and the rest of the state alone.
\<close>

lemma fromNT_toNT:
  "fromNT (toNT (RDFSymbol u)) s = (Nt_term (RDFSymbol u), s) \<and>
   fromNT (toNT (RDFBlankNode i)) s = (Nt_term (RDFBlankNode i), s)"
proof
  have "slice (''<'' @ u @ ''>'') 1 (int (length (''<'' @ u @ ''>'')) - 1) = u"
    by (simp add: slice_nonneg nat_diff_distrib)
  then show "fromNT (toNT (RDFSymbol u)) s = (Nt_term (RDFSymbol u), s)"
    by (simp add: fromNT_def symbol_toNT_def slice_nonneg)
  have "slice_from (''_:n'' @ int_str i) 3 = int_str i"
    by (simp add: slice_from_nonneg)
  then show "fromNT (toNT (RDFBlankNode i)) s = (Nt_term (RDFBlankNode i), s)"
    by (simp add: fromNT_def node_toNT_def slice_nonneg parse_int_int_str)
qed

text \<open>
  The hash string of an untyped literal determines its value and its language, up to
  an absent language being the same as an empty one: escaping never lets two values collide.
\<close>

lemma literal_hash_injective:
  "hashString (RDFLiteral v l None e) = hashString (RDFLiteral v' l' None e') \<longleftrightarrow>
     v = v' \<and> lang_text l = lang_text l'"
proof
  assume "hashString (RDFLiteral v l None e) = hashString (RDFLiteral v' l' None e')"
  then have "escape_nt v @ dquote # (if lang_text l = [] then [] else ''@'' @ lang_text l) =
      escape_nt v' @ dquote # (if lang_text l' = [] then [] else ''@'' @ lang_text l')"
    by (simp add: literal_toNT_eq dt_text_def)
  from escape_nt_delimited [OF this] show "v = v' \<and> lang_text l = lang_text l'"
    by (auto split: if_splits)
qed (simp add: literal_toNT_eq)

end
