(* ===== verification/Matching.thy ===== *)
theory Matching
  imports Terms
begin

text \<open>
  \<open>discoscripts/match.js\<close>: equality of terms (\<open>sameTerm\<close>), matching of a pattern position
  (\<open>RDFTermMatch\<close>) and the order of terms (\<open>compareTerm\<close>) that decides which of two equated
  terms is kept. A method a term does not have is a thrown \<open>TypeError\<close>.
\<close>

section \<open>Definitions\<close>

fun termType :: "rdf_term \<Rightarrow> string" where
  "termType RDFEmpty = ''empty''"
| "termType (RDFSymbol _) = ''symbol''"
| "termType (RDFBlankNode _) = ''bnode''"
| "termType (RDFLiteral _ _ _ _) = ''literal''"
| "termType (RDFCollection _) = ''collection''"
| "termType (RDFVariable _) = ''variable''"

text \<open>
  \<open>a.sameTerm(b)\<close>, where \<open>b\<close> may be \<open>undefined\<close>. The literal's test ends in
  \<open>this.datatype.sameTerm(other.datatype)\<close>, which throws where only the other literal
  has a datatype.
\<close>

fun sameTerm :: "rdf_term \<Rightarrow> rdf_term option \<Rightarrow> bool js_res" where
  "sameTerm RDFEmpty other = Inl TypeError"
| "sameTerm (RDFSymbol u) other =
     (case other of Some (RDFSymbol u') \<Rightarrow> Inr (u = u') | _ \<Rightarrow> Inr False)"
| "sameTerm (RDFBlankNode i) other =
     (case other of Some (RDFBlankNode j) \<Rightarrow> Inr (i = j) | _ \<Rightarrow> Inr False)"
| "sameTerm (RDFVariable u) other =
     (case other of Some (RDFVariable u') \<Rightarrow> Inr (u = u') | _ \<Rightarrow> Inr False)"
| "sameTerm (RDFCollection i) other =
     (case other of Some (RDFCollection j) \<Rightarrow> Inr (i = j) | _ \<Rightarrow> Inr False)"
| "sameTerm (RDFLiteral v l d e) other =
     (case other of
        Some (RDFLiteral v' l' d' e') \<Rightarrow>
          (if v = v' \<and> l = l' then
             (if d = None \<and> d' = None then Inr True
              else (case d of None \<Rightarrow> Inl TypeError | Some t \<Rightarrow> sameTerm t d'))
           else Inr False)
      | _ \<Rightarrow> Inr False)"

text \<open>\<open>RDFTermMatch(pattern, term)\<close>: an \<open>undefined\<close> pattern matches anything.\<close>

definition termMatch :: "rdf_term option \<Rightarrow> rdf_term option \<Rightarrow> bool js_res" where
  "termMatch pattern t = (case pattern of None \<Rightarrow> Inr True | Some p \<Rightarrow> sameTerm p t)"

fun classOrder :: "rdf_term \<Rightarrow> nat option" where
  "classOrder RDFEmpty = None"
| "classOrder (RDFLiteral _ _ _ _) = Some 1"
| "classOrder (RDFCollection _) = Some 3"
| "classOrder (RDFSymbol _) = Some 5"
| "classOrder (RDFBlankNode _) = Some 6"
| "classOrder (RDFVariable _) = Some 7"

text \<open>A comparison with \<open>undefined\<close> is false.\<close>

fun js_less :: "'a::ord option \<Rightarrow> 'a option \<Rightarrow> bool" where
  "js_less (Some a) (Some b) = (a < b)"
| "js_less _ _ = False"

fun prop_value :: "rdf_term \<Rightarrow> string option" where
  "prop_value (RDFLiteral v _ _ _) = Some v"
| "prop_value _ = None"

fun prop_uri :: "rdf_term \<Rightarrow> string option" where
  "prop_uri (RDFSymbol u) = Some u"
| "prop_uri (RDFVariable u) = Some u"
| "prop_uri _ = None"

fun prop_id :: "rdf_term \<Rightarrow> int option" where
  "prop_id (RDFBlankNode i) = Some i"
| "prop_id (RDFCollection i) = Some i"
| "prop_id _ = None"

definition compare_by :: "(rdf_term \<Rightarrow> 'k::ord option) \<Rightarrow> rdf_term \<Rightarrow> rdf_term \<Rightarrow> int" where
  "compare_by key this other =
     (if js_less (classOrder this) (classOrder other) then -1
      else if js_less (classOrder other) (classOrder this) then 1
      else if js_less (key this) (key other) then -1
      else if js_less (key other) (key this) then 1
      else 0)"

fun compareTerm :: "rdf_term \<Rightarrow> rdf_term \<Rightarrow> int js_res" where
  "compareTerm (RDFLiteral v l d e) other = Inr (compare_by prop_value (RDFLiteral v l d e) other)"
| "compareTerm (RDFSymbol u) other = Inr (compare_by prop_uri (RDFSymbol u) other)"
| "compareTerm (RDFBlankNode i) other = Inr (compare_by prop_id (RDFBlankNode i) other)"
| "compareTerm (RDFCollection i) other = Inr (compare_by prop_id (RDFCollection i) other)"
| "compareTerm (RDFVariable u) other = Inl TypeError"
| "compareTerm RDFEmpty other = Inl TypeError"

text \<open>The comparators given to sorts.\<close>

definition comparePredicateObject :: "rdf_statement \<Rightarrow> rdf_statement \<Rightarrow> int js_res" where
  "comparePredicateObject self other =
     bind_res (compareTerm (st_predicate self) (st_predicate other))
       (\<lambda>x. if x \<noteq> 0 then Inr x else compareTerm (st_object self) (st_object other))"

definition comparePredicateSubject :: "rdf_statement \<Rightarrow> rdf_statement \<Rightarrow> int js_res" where
  "comparePredicateSubject self other =
     bind_res (compareTerm (st_predicate self) (st_predicate other))
       (\<lambda>x. if x \<noteq> 0 then Inr x else compareTerm (st_subject self) (st_subject other))"

section \<open>Lemmas\<close>

text \<open>
  The terms the store is made for: symbols, blank nodes, collections, and literals whose
  datatype, if any, is again such a term. The literals of one store either all carry a
  datatype or none does; \<open>typed_alike\<close> says it of two terms.
\<close>

fun storable :: "rdf_term \<Rightarrow> bool" where
  "storable (RDFSymbol _) = True"
| "storable (RDFBlankNode _) = True"
| "storable (RDFCollection _) = True"
| "storable (RDFLiteral _ _ None _) = True"
| "storable (RDFLiteral _ _ (Some t) _) = storable t"
| "storable _ = False"

text \<open>Where the literal test throws: same value and language, and only the second typed.\<close>

fun clash :: "rdf_term \<Rightarrow> rdf_term \<Rightarrow> bool" where
  "clash (RDFLiteral v l None _) (RDFLiteral v' l' d' _) = (v = v' \<and> l = l' \<and> d' \<noteq> None)"
| "clash (RDFLiteral v l (Some t) _) (RDFLiteral v' l' (Some t') _) =
     (v = v' \<and> l = l' \<and> clash t t')"
| "clash _ _ = False"

text \<open>Terms equal but for the DOM node an XML literal keeps beside its serialization.\<close>

primrec erase :: "rdf_term \<Rightarrow> rdf_term" where
  "erase RDFEmpty = RDFEmpty"
| "erase (RDFSymbol u) = RDFSymbol u"
| "erase (RDFBlankNode i) = RDFBlankNode i"
| "erase (RDFLiteral v l d e) = RDFLiteral v l (map_option erase d) None"
| "erase (RDFCollection i) = RDFCollection i"
| "erase (RDFVariable u) = RDFVariable u"

lemma storable_hash: "storable t \<Longrightarrow> hashString t = Inr (toNT t)"
  by (cases t) auto

lemma toNT_erase [simp]: "toNT (erase t) = toNT t"
proof -
  have s: "term_toString (erase t) = term_toString t" for t by (cases t) auto
  then show ?thesis by (cases t) (auto simp: literal_toNT_eq dt_text_def split: option.splits)
qed

lemma storable_erase [simp]: "storable (erase t) = storable t"
  by (induction t rule: storable.induct) auto

lemma sameTerm_undefined [simp]: "storable t \<Longrightarrow> sameTerm t None = Inr False"
  by (cases t) auto

lemma sameTerm_storable:
  "storable a \<Longrightarrow> sameTerm a (Some b) = (if clash a b then Inl TypeError else Inr (erase a = erase b))"
proof (induction a arbitrary: b)
  case (RDFLiteral v l d e)
  show ?case
  proof (cases b)
    case b: (RDFLiteral v' l' d' e')
    show ?thesis
    proof (cases d)
      case None
      then show ?thesis using b by (cases d') auto
    next
      case (Some t)
      then have "storable t" using RDFLiteral.prems by simp
      then show ?thesis
        using b Some RDFLiteral.IH [of t] by (cases d') auto
    qed
  qed simp_all
qed (auto split: rdf_term.splits)

lemma termMatch_simps [simp]:
  "termMatch None t = Inr True" "termMatch (Some p) t = sameTerm p t"
  by (simp_all add: termMatch_def)

text \<open>\<open>compareTerm\<close> compares keys of a linear order.\<close>

datatype sort_key = Key_str nat string | Key_id nat int

fun comparable :: "rdf_term \<Rightarrow> bool" where
  "comparable (RDFLiteral _ _ _ _) = True"
| "comparable (RDFCollection _) = True"
| "comparable (RDFSymbol _) = True"
| "comparable (RDFBlankNode _) = True"
| "comparable _ = False"

fun key_rank :: "sort_key \<Rightarrow> nat" where
  "key_rank (Key_str n _) = 2 * n"
| "key_rank (Key_id n _) = 2 * n + 1"

fun key_less :: "sort_key \<Rightarrow> sort_key \<Rightarrow> bool" where
  "key_less (Key_str n s) (Key_str m t) = (n < m \<or> n = m \<and> s < t)"
| "key_less (Key_id n i) (Key_id m j) = (n < m \<or> n = m \<and> i < j)"
| "key_less k k' = (key_rank k < key_rank k')"

instantiation sort_key :: linorder
begin

definition less_sort_key :: "sort_key \<Rightarrow> sort_key \<Rightarrow> bool" where
  "less_sort_key k k' = key_less k k'"

definition less_eq_sort_key :: "sort_key \<Rightarrow> sort_key \<Rightarrow> bool" where
  "less_eq_sort_key k k' = (k = k' \<or> key_less k k')"

instance
proof
  fix x y z :: sort_key
  show "x < y \<longleftrightarrow> x \<le> y \<and> \<not> y \<le> x"
    by (cases x; cases y) (auto simp: less_sort_key_def less_eq_sort_key_def)
  show "x \<le> x" by (simp add: less_eq_sort_key_def)
  show "x \<le> y \<Longrightarrow> y \<le> z \<Longrightarrow> x \<le> z"
    by (cases x; cases y; cases z) (auto simp: less_eq_sort_key_def)
  show "x \<le> y \<Longrightarrow> y \<le> x \<Longrightarrow> x = y"
    by (cases x; cases y) (auto simp: less_eq_sort_key_def)
  show "x \<le> y \<or> y \<le> x"
    by (cases x; cases y) (auto simp: less_eq_sort_key_def, presburger+)
qed

end

fun term_key :: "rdf_term \<Rightarrow> sort_key" where
  "term_key (RDFLiteral v _ _ _) = Key_str 1 v"
| "term_key (RDFCollection i) = Key_id 3 i"
| "term_key (RDFSymbol u) = Key_str 5 u"
| "term_key (RDFBlankNode i) = Key_id 6 i"
| "term_key (RDFVariable u) = Key_str 7 u"
| "term_key RDFEmpty = Key_id 8 0"

definition sign_of :: "'a::linorder \<Rightarrow> 'a \<Rightarrow> int" where
  "sign_of a b = (if a < b then -1 else if b < a then 1 else 0)"

lemma compareTerm_key:
  "comparable a \<Longrightarrow> comparable b \<Longrightarrow> compareTerm a b = Inr (sign_of (term_key a) (term_key b))"
  by (cases a; cases b) (auto simp: compare_by_def sign_of_def less_sort_key_def)

section \<open>Properties\<close>

text \<open>
  C21. For a term that a store can hold on the left (a symbol, blank node, collection or
  literal, whose datatype if any is again such a term) and any term on the right,
  \<open>sameTerm\<close> is equality up to the DOM copy that an XML literal keeps, except
  where two literals with the same value and language differ in that the right-hand one
  alone has a datatype, where the test throws.
\<close>

theorem sameTerm_spec:
  assumes "storable a"
  shows "sameTerm a (Some b) = (if clash a b then Inl TypeError else Inr (erase a = erase b))"
  using assms by (rule sameTerm_storable)

theorem sameTerm_spec_witness:
  "sameTerm (RDFLiteral ''5'' None None None)
      (Some (RDFLiteral ''5'' None (Some (RDFSymbol ''int'')) None)) = Inl TypeError"
  by (subst sameTerm_spec) simp_all

text \<open>
  C22. \<open>compareTerm\<close> is the sign of a comparison in one linear order on the comparable
  terms: literals first, then collections, symbols and blank nodes, each by its value. So
  it is antisymmetric and transitive, and two terms tie only if their keys are equal.
\<close>

theorem compareTerm_linear:
  assumes "comparable a" "comparable b" "comparable c"
  shows "compareTerm a b = Inr (sign_of (term_key a) (term_key b)) \<and>
    compareTerm b a = Inr (- sign_of (term_key a) (term_key b)) \<and>
    (compareTerm a b = Inr 0 \<longleftrightarrow> term_key a = term_key b) \<and>
    (compareTerm a b = Inr (-1) \<and> compareTerm b c = Inr (-1) \<longrightarrow> compareTerm a c = Inr (-1))"
  using assms by (simp add: compareTerm_key) (auto simp: sign_of_def split: if_splits)

theorem compareTerm_linear_witness:
  "compareTerm (RDFLiteral ''z'' None None None) (RDFBlankNode 4) = Inr (-1)"
proof -
  have "compareTerm (RDFLiteral ''z'' None None None) (RDFSymbol ''a'') = Inr (-1)"
    and "compareTerm (RDFSymbol ''a'') (RDFBlankNode 4) = Inr (-1)"
    by (simp_all add: compare_by_def)
  with compareTerm_linear [of "RDFLiteral ''z'' None None None" "RDFSymbol ''a''" "RDFBlankNode 4"]
  show ?thesis by simp
qed

end
