(* ===== verification/Store.thy ===== *)
theory Store
  imports Matching
begin

text \<open>
  \<open>discoscripts/identity.js\<close>: the indexed formula, a triple store that smushes terms known
  to be equal. A statement is a mutable object shared by the statement list and the three
  indices, so statements live in a heap and the arrays hold addresses. The array a lookup
  returns may be an index array itself; \<open>stmt_array\<close> keeps that distinction. The store has
  no callbacks installed (no script of the repository installs one), and \<open>fyi\<close> tracing,
  which is silent at the default log level, is left out.
\<close>

section \<open>State\<close>

type_synonym addr = nat

text \<open>The closures the code stores in the two action tables.\<close>

datatype property_action = Handle_type | Handle_sameAs | Handle_obsoletes | Handle_IFP | Handle_FP
datatype class_action = New_IFP | New_FP

record kb = term_env +
  heap :: "addr \<Rightarrow> rdf_statement"
  next_addr :: addr
  statements :: "addr list"
  propertyAction :: "string \<Rightarrow> property_action option"
  classAction :: "string \<Rightarrow> class_action option"
  redirection :: "string \<Rightarrow> rdf_term option"
  subjectIndex :: "string \<Rightarrow> addr list option"
  predicateIndex :: "string \<Rightarrow> addr list option"
  objectIndex :: "string \<Rightarrow> addr list option"
  namespaces :: "string \<Rightarrow> string option"

type_synonym 'a kb_step = "(kb, 'a) js_step"

datatype stmt_array = Fresh "addr list" | Subj_array string | Obj_array string

fun arr_elems :: "kb \<Rightarrow> stmt_array \<Rightarrow> addr list" where
  "arr_elems k (Fresh xs) = xs"
| "arr_elems k (Subj_array h) = (case subjectIndex k h of Some xs \<Rightarrow> xs | None \<Rightarrow> [])"
| "arr_elems k (Obj_array h) = (case objectIndex k h of Some xs \<Rightarrow> xs | None \<Rightarrow> [])"

definition owl_ns :: string where
  "owl_ns = ''http://www.w3.org/2002/07/owl#''"

definition no_statement :: rdf_statement where
  "no_statement = \<lparr>st_subject = RDFEmpty, st_predicate = RDFEmpty, st_object = RDFEmpty, st_why = None\<rparr>"

text \<open>\<open>new RDFIndexedFormula()\<close>, made when the globals are \<open>n\<close> and \<open>cs\<close>.\<close>

definition new_indexed_formula :: "int \<Rightarrow> (int \<Rightarrow> rdf_coll option) \<Rightarrow> kb" where
  "new_indexed_formula n cs =
     \<lparr>next_id = n, colls = cs, alerts = [],
      heap = (\<lambda>_. no_statement), next_addr = 0, statements = [],
      propertyAction =
        [''<http://www.w3.org/1999/02/22-rdf-syntax-ns#type>'' \<mapsto> Handle_type,
         ''<http://www.w3.org/2002/07/owl#sameAs>'' \<mapsto> Handle_sameAs,
         ''<http://www.w3.org/2006/link#obsoletes>'' \<mapsto> Handle_obsoletes],
      classAction =
        [''<'' @ owl_ns @ ''InverseFunctionalProperty>'' \<mapsto> New_IFP,
         ''<'' @ owl_ns @ ''FunctionalProperty>'' \<mapsto> New_FP],
      redirection = Map.empty, subjectIndex = Map.empty, predicateIndex = Map.empty,
      objectIndex = Map.empty, namespaces = Map.empty\<rparr>"

definition kb_register :: "string \<Rightarrow> string \<Rightarrow> kb \<Rightarrow> kb" where
  "kb_register pfx nsuri k = k\<lparr>namespaces := (namespaces k)(pfx \<mapsto> nsuri)\<rparr>"

section \<open>Terms given by a caller\<close>

text \<open>One look into the redirection table.\<close>

definition redirect :: "kb \<Rightarrow> rdf_term \<Rightarrow> rdf_term js_res" where
  "redirect k t = bind_res (hashString t)
     (\<lambda>h. Inr (case redirection k h of None \<Rightarrow> t | Some y \<Rightarrow> y))"

fun redirect_opt :: "kb \<Rightarrow> rdf_term option \<Rightarrow> rdf_term option js_res" where
  "redirect_opt k None = Inr None"
| "redirect_opt k (Some t) = bind_res (redirect k t) (\<lambda>y. Inr (Some y))"

text \<open>\<open>RDFMakeTerm\<close>: after the alert for another type of value the code goes on to call its
  \<open>hashString\<close>, which throws.\<close>

fun kb_makeTerm :: "js_val \<Rightarrow> rdf_term option kb_step" where
  "kb_makeTerm (VTerm t) = (\<lambda>k. (redirect_opt k (Some t), k))"
| "kb_makeTerm (VString s) = ret (Some (RDFLiteral s None None None))"
| "kb_makeTerm VUndefined = ret None"
| "kb_makeTerm (VOther p ty) =
     then_step (modify (do_alert (''Can't make term from '' @ p @ '' of type '' @ ty)))
       (throw TypeError)"

fun val_of :: "rdf_term option \<Rightarrow> js_val" where
  "val_of None = VUndefined"
| "val_of (Some t) = VTerm t"

section \<open>Lookup\<close>

definition stmt_matches ::
  "rdf_term option \<Rightarrow> rdf_term option \<Rightarrow> rdf_term option \<Rightarrow> rdf_term option \<Rightarrow> rdf_statement \<Rightarrow> bool js_res"
where
  "stmt_matches subj pred obj why st =
     bind_res (termMatch pred (Some (st_predicate st))) (\<lambda>b1. if \<not> b1 then Inr False else
     bind_res (termMatch subj (Some (st_subject st))) (\<lambda>b2. if \<not> b2 then Inr False else
     bind_res (termMatch obj (Some (st_object st))) (\<lambda>b3. if \<not> b3 then Inr False else
     termMatch why (st_why st))))"

text \<open>The final loop over the candidates.\<close>

fun scan ::
  "rdf_term option \<Rightarrow> rdf_term option \<Rightarrow> rdf_term option \<Rightarrow> rdf_term option \<Rightarrow> bool \<Rightarrow>
   (addr \<Rightarrow> rdf_statement) \<Rightarrow> addr list \<Rightarrow> addr list js_res"
where
  "scan subj pred obj why justOne hp [] = Inr []"
| "scan subj pred obj why justOne hp (a # as) =
     bind_res (stmt_matches subj pred obj why (hp a)) (\<lambda>m.
       if m then
         (if justOne then Inr [a]
          else bind_res (scan subj pred obj why justOne hp as) (\<lambda>r. Inr (a # r)))
       else scan subj pred obj why justOne hp as)"

text \<open>The lookup once the four arguments are terms or \<open>undefined\<close>.\<close>

definition lookup_terms ::
  "rdf_term option \<Rightarrow> rdf_term option \<Rightarrow> rdf_term option \<Rightarrow> rdf_term option \<Rightarrow> bool \<Rightarrow>
   kb \<Rightarrow> stmt_array js_res"
where
  "lookup_terms subj0 pred0 obj0 why justOne k =
     bind_res (redirect_opt k pred0) (\<lambda>pred.
     bind_res (redirect_opt k obj0) (\<lambda>obj.
     case subj0 of
       None \<Rightarrow>
         (case obj of
            None \<Rightarrow>
              (case pred of
                 None \<Rightarrow> bind_res (scan None pred obj why justOne (heap k) (statements k)) (\<lambda>r. Inr (Fresh r))
               | Some p \<Rightarrow> bind_res (hashString p) (\<lambda>hp.
                   case predicateIndex k hp of
                     None \<Rightarrow> Inr (Fresh [])
                   | Some cs \<Rightarrow> bind_res (scan None pred obj why justOne (heap k) cs) (\<lambda>r. Inr (Fresh r))))
          | Some ob \<Rightarrow> bind_res (hashString ob) (\<lambda>ho.
              case objectIndex k ho of
                None \<Rightarrow> Inr (Fresh [])
              | Some cs \<Rightarrow>
                  if pred = None \<and> why = None then Inr (Obj_array ho)
                  else bind_res (scan None pred obj why justOne (heap k) cs) (\<lambda>r. Inr (Fresh r))))
     | Some s0 \<Rightarrow>
         bind_res (redirect k s0) (\<lambda>s.
         bind_res (hashString s) (\<lambda>hs.
         case subjectIndex k hs of
           None \<Rightarrow> Inr (Fresh [])
         | Some cs \<Rightarrow>
             (case obj of
                None \<Rightarrow>
                  if pred = None \<and> why = None then Inr (Subj_array hs)
                  else bind_res (scan (Some s) pred obj why justOne (heap k) cs) (\<lambda>r. Inr (Fresh r))
              | Some ob \<Rightarrow> bind_res (hashString ob) (\<lambda>ho.
                  case objectIndex k ho of
                    None \<Rightarrow> Inr (Fresh [])
                  | Some oix \<Rightarrow>
                      bind_res (scan (Some s) pred obj why justOne (heap k)
                        (if length oix < length cs then oix else cs)) (\<lambda>r. Inr (Fresh r))))))))"

definition statementsMatching ::
  "js_val \<Rightarrow> js_val \<Rightarrow> js_val \<Rightarrow> js_val \<Rightarrow> bool \<Rightarrow> stmt_array kb_step"
where
  "statementsMatching subj pred obj why justOne =
     bind_step (kb_makeTerm subj) (\<lambda>s.
     bind_step (kb_makeTerm pred) (\<lambda>p.
     bind_step (kb_makeTerm obj) (\<lambda>ob.
     bind_step (kb_makeTerm why) (\<lambda>w k. (lookup_terms s p ob w justOne k, k)))))"

definition anyStatementMatching :: "js_val \<Rightarrow> js_val \<Rightarrow> js_val \<Rightarrow> js_val \<Rightarrow> addr option kb_step" where
  "anyStatementMatching subj pred obj why =
     bind_step (statementsMatching subj pred obj why True) (\<lambda>x k.
       (Inr (case arr_elems k x of [] \<Rightarrow> None | a # _ \<Rightarrow> Some a), k))"

text \<open>\<open>each\<close>, \<open>any\<close> and \<open>the\<close> of \<open>match.js\<close>; \<open>the\<close> only logs when there is no value.\<close>

definition kb_each :: "js_val \<Rightarrow> js_val \<Rightarrow> js_val \<Rightarrow> js_val \<Rightarrow> rdf_term option list kb_step" where
  "kb_each s p ob w =
     bind_step (statementsMatching s p ob w False) (\<lambda>arr k.
       let sts = map (heap k) (arr_elems k arr) in
       (Inr (if s = VUndefined then map (Some \<circ> st_subject) sts
             else if p = VUndefined then map (Some \<circ> st_predicate) sts
             else if ob = VUndefined then map (Some \<circ> st_object) sts
             else if w = VUndefined then map st_why sts
             else []), k))"

definition kb_any :: "js_val \<Rightarrow> js_val \<Rightarrow> js_val \<Rightarrow> js_val \<Rightarrow> rdf_term option kb_step" where
  "kb_any s p ob w =
     bind_step (anyStatementMatching s p ob w) (\<lambda>r k.
       (Inr (case r of
          None \<Rightarrow> None
        | Some a \<Rightarrow>
            if s = VUndefined then Some (st_subject (heap k a))
            else if p = VUndefined then Some (st_predicate (heap k a))
            else if ob = VUndefined then Some (st_object (heap k a))
            else None), k))"

definition kb_the :: "js_val \<Rightarrow> js_val \<Rightarrow> js_val \<Rightarrow> js_val \<Rightarrow> rdf_term option kb_step" where
  "kb_the s p ob w = kb_any s p ob w"

section \<open>Replacing and equating terms\<close>

text \<open>The entry \<open>ix[h]\<close>, made empty where there is none, gets the statement pushed.\<close>

definition push_index :: "string \<Rightarrow> addr \<Rightarrow> (string \<Rightarrow> addr list option) \<Rightarrow> (string \<Rightarrow> addr list option)" where
  "push_index h a ix = ix(h \<mapsto> (case ix h of Some xs \<Rightarrow> xs | None \<Rightarrow> []) @ [a])"

text \<open>
  The three loops of \<open>replaceWith\<close>. The bound \<open>matches\<close> is read before the loop and a push
  only adds at the end, so the elements visited are those the array had at its start, even
  when it is the very array pushed to.
\<close>

fun move_subjects :: "rdf_term \<Rightarrow> string \<Rightarrow> addr list \<Rightarrow> kb \<Rightarrow> kb" where
  "move_subjects small h [] k = k"
| "move_subjects small h (a # as) k =
     move_subjects small h as
       (k\<lparr>heap := (heap k)(a := (heap k a)\<lparr>st_subject := small\<rparr>),
         subjectIndex := push_index h a (subjectIndex k)\<rparr>)"

fun move_predicates :: "rdf_term \<Rightarrow> string \<Rightarrow> addr list \<Rightarrow> kb \<Rightarrow> kb" where
  "move_predicates small h [] k = k"
| "move_predicates small h (a # as) k =
     move_predicates small h as
       (k\<lparr>heap := (heap k)(a := (heap k a)\<lparr>st_predicate := small\<rparr>),
         predicateIndex := push_index h a (predicateIndex k)\<rparr>)"

fun move_objects :: "rdf_term \<Rightarrow> string \<Rightarrow> addr list \<Rightarrow> kb \<Rightarrow> kb" where
  "move_objects small h [] k = k"
| "move_objects small h (a # as) k =
     move_objects small h as
       (k\<lparr>heap := (heap k)(a := (heap k a)\<lparr>st_object := small\<rparr>),
         objectIndex := push_index h a (objectIndex k)\<rparr>)"

text \<open>
  One of the three parts of \<open>replaceWith\<close>: look the statements up, move them to the small
  term, delete the big term's entry. The small term's hash is taken inside the loop, so an
  empty loop does not take it.
\<close>

definition moving :: "rdf_term \<Rightarrow> (rdf_term \<Rightarrow> string \<Rightarrow> addr list \<Rightarrow> kb \<Rightarrow> kb) \<Rightarrow> stmt_array \<Rightarrow> unit kb_step" where
  "moving small move arr k =
     (case arr_elems k arr of
        [] \<Rightarrow> (Inr (), k)
      | a # as \<Rightarrow>
          (case hashString small of
             Inl e \<Rightarrow> (Inl e, k)
           | Inr h \<Rightarrow> (Inr (), move small h (a # as) k)))"

definition merge_actions :: "rdf_term \<Rightarrow> string \<Rightarrow> string \<Rightarrow> rdf_term \<Rightarrow> kb \<Rightarrow> kb" where
  "merge_actions big hb hs small k =
     (let k1 = (case classAction k hb of
          Some action \<Rightarrow>
            if classAction k hs = None then k\<lparr>classAction := (classAction k)(hs \<mapsto> action)\<rparr> else k
        | None \<Rightarrow> k)
      in (case propertyAction k1 hb of
          Some action \<Rightarrow>
            if propertyAction k1 hs = None
            then do_alert (''copying action on '' @ term_toString big @ '' to '' @ term_toString small)
              (k1\<lparr>propertyAction := (propertyAction k1)(hs \<mapsto> action)\<rparr>)
            else k1
        | None \<Rightarrow> k1))"

text \<open>
  \<open>small.hashString()\<close> in the merging of the actions is evaluated only where the big term
  has an action.
\<close>

definition replaceWith :: "rdf_term \<Rightarrow> rdf_term \<Rightarrow> bool kb_step" where
  "replaceWith big small =
     bind_step (statementsMatching (VTerm big) VUndefined VUndefined VUndefined False) (\<lambda>arr1.
     then_step (moving small move_subjects arr1) (
     bind_step (lift_res (hashString big)) (\<lambda>hb.
     then_step (modify (\<lambda>k. k\<lparr>subjectIndex := (subjectIndex k)(hb := None)\<rparr>)) (
     bind_step (statementsMatching VUndefined (VTerm big) VUndefined VUndefined False) (\<lambda>arr2.
     then_step (moving small move_predicates arr2) (
     then_step (modify (\<lambda>k. k\<lparr>predicateIndex := (predicateIndex k)(hb := None)\<rparr>)) (
     bind_step (statementsMatching VUndefined VUndefined (VTerm big) VUndefined False) (\<lambda>arr3.
     then_step (moving small move_objects arr3) (
     then_step (modify (\<lambda>k. k\<lparr>objectIndex := (objectIndex k)(hb := None)\<rparr>)) (
     then_step (modify (\<lambda>k. k\<lparr>redirection := (redirection k)(hb \<mapsto> small)\<rparr>)) (\<lambda>k.
       if classAction k hb = None \<and> propertyAction k hb = None then (Inr False, k)
       else (case hashString small of
          Inl e \<Rightarrow> (Inl e, k)
        | Inr hs \<Rightarrow> (Inr False, merge_actions big hb hs small k)))))))))))))"

definition equate :: "rdf_term \<Rightarrow> rdf_term \<Rightarrow> bool kb_step" where
  "equate u1 u2 =
     bind_step (lift_res (compareTerm u1 u2)) (\<lambda>d.
       if d = 0 then ret True
       else if d < 0 then replaceWith u2 u1
       else replaceWith u1 u2)"

section \<open>Actions\<close>

definition handle_IFP :: "rdf_term \<Rightarrow> rdf_term \<Rightarrow> rdf_term \<Rightarrow> bool kb_step" where
  "handle_IFP subj pred obj =
     bind_step (kb_any VUndefined (VTerm pred) (VTerm obj) VUndefined) (\<lambda>s1.
       case s1 of None \<Rightarrow> ret False
       | Some s \<Rightarrow> then_step (equate s subj) (ret True))"

definition handle_FP :: "rdf_term \<Rightarrow> rdf_term \<Rightarrow> rdf_term \<Rightarrow> bool kb_step" where
  "handle_FP subj pred obj =
     bind_step (kb_any (VTerm subj) (VTerm pred) VUndefined VUndefined) (\<lambda>o1.
       case o1 of None \<Rightarrow> ret False
       | Some ob \<Rightarrow> then_step (equate ob obj) (ret True))"

fun run_handler :: "property_action \<Rightarrow> rdf_term \<Rightarrow> rdf_term \<Rightarrow> rdf_term \<Rightarrow> bool kb_step" where
  "run_handler Handle_IFP s p ob = handle_IFP s p ob"
| "run_handler Handle_FP s p ob = handle_FP s p ob"
| "run_handler _ s p ob = ret False"

text \<open>The retrospective loop: the statement is read when its turn comes.\<close>

fun retro_loop :: "property_action \<Rightarrow> rdf_term \<Rightarrow> addr list \<Rightarrow> unit kb_step" where
  "retro_loop action pred [] = ret ()"
| "retro_loop action pred (a # as) =
     (\<lambda>k. then_step (run_handler action (st_subject (heap k a)) pred (st_object (heap k a)))
        (retro_loop action pred as) k)"

definition newPropertyAction :: "rdf_term \<Rightarrow> property_action \<Rightarrow> bool kb_step" where
  "newPropertyAction pred action =
     then_step (modify (\<lambda>k. k\<lparr>propertyAction := (propertyAction k)(term_toString pred \<mapsto> action)\<rparr>)) (
     bind_step (statementsMatching VUndefined (VTerm pred) VUndefined VUndefined False) (\<lambda>arr k.
       then_step (retro_loop action pred (arr_elems k arr)) (ret False) k))"

fun run_class_action :: "class_action \<Rightarrow> rdf_term \<Rightarrow> bool kb_step" where
  "run_class_action New_IFP subj = newPropertyAction subj Handle_IFP"
| "run_class_action New_FP subj = newPropertyAction subj Handle_FP"

definition handleRDFType :: "rdf_term \<Rightarrow> rdf_term \<Rightarrow> bool kb_step" where
  "handleRDFType subj obj =
     bind_step (lift_res (hashString obj)) (\<lambda>h k.
       case classAction k h of Some x \<Rightarrow> run_class_action x subj k | None \<Rightarrow> (Inr False, k))"

fun run_property_action :: "property_action \<Rightarrow> rdf_term \<Rightarrow> rdf_term \<Rightarrow> rdf_term \<Rightarrow> bool kb_step" where
  "run_property_action Handle_type s p ob = handleRDFType s ob"
| "run_property_action Handle_sameAs s p ob = then_step (equate s ob) (ret False)"
| "run_property_action Handle_obsoletes s p ob = then_step (replaceWith ob s) (ret False)"
| "run_property_action Handle_IFP s p ob = handle_IFP s p ob"
| "run_property_action Handle_FP s p ob = handle_FP s p ob"

section \<open>Adding and removing statements\<close>

text \<open>The last part of \<open>add\<close>: the new statement object goes into the three indices and the list.\<close>

definition insert_statement ::
  "rdf_term \<Rightarrow> rdf_term \<Rightarrow> rdf_term \<Rightarrow> rdf_term option \<Rightarrow> string \<Rightarrow> string \<Rightarrow> string \<Rightarrow> kb \<Rightarrow> kb" where
  "insert_statement s p ob w hS hP hO k =
     (let st = next_addr k in
      k\<lparr>heap := (heap k)(st := \<lparr>st_subject = s, st_predicate = p, st_object = ob, st_why = w\<rparr>),
        next_addr := st + 1,
        subjectIndex := push_index hS st (subjectIndex k),
        predicateIndex := push_index hP st (predicateIndex k),
        objectIndex := push_index hO st (objectIndex k),
        statements := statements k @ [st]\<rparr>)"

definition hash_opt :: "rdf_term option \<Rightarrow> (rdf_term \<times> string) js_res" where
  "hash_opt t = (case t of None \<Rightarrow> Inl TypeError
     | Some x \<Rightarrow> bind_res (hashString x) (\<lambda>h. Inr (x, h)))"

definition kb_add :: "js_val \<Rightarrow> js_val \<Rightarrow> js_val \<Rightarrow> js_val \<Rightarrow> unit kb_step" where
  "kb_add subj0 pred0 obj0 why0 =
     bind_step (kb_makeTerm subj0) (\<lambda>s0.
     bind_step (kb_makeTerm pred0) (\<lambda>p0.
     bind_step (kb_makeTerm obj0) (\<lambda>o0.
     bind_step (kb_makeTerm why0) (\<lambda>why.
     bind_step (lift_res (hash_opt s0)) (\<lambda>(subj, hashS).
     bind_step (lift_res (hash_opt p0)) (\<lambda>(pred, hashP).
     bind_step (lift_res (hash_opt o0)) (\<lambda>(obj, hashO).
     bind_step (anyStatementMatching (VTerm subj) (VTerm pred) (VTerm obj) VUndefined) (\<lambda>st.
       if st \<noteq> None then ret ()
       else (\<lambda>k. bind_step
         (case propertyAction k hashP of
            Some action \<Rightarrow> run_property_action action subj pred obj
          | None \<Rightarrow> ret False)
         (\<lambda>skip. if skip then ret ()
            else modify (insert_statement subj pred obj why hashS hashP hashO)) k)))))))))"

text \<open>\<open>RDFArrayRemove\<close> on one array.\<close>

definition array_remove ::
  "(kb \<Rightarrow> addr list option) \<Rightarrow> (addr list \<Rightarrow> kb \<Rightarrow> kb) \<Rightarrow> addr \<Rightarrow> unit kb_step" where
  "array_remove get put st k =
     (case get k of
        None \<Rightarrow> (Inl TypeError, k)
      | Some xs \<Rightarrow>
          if st \<in> set xs then (Inr (), put (remove1 st xs) k)
          else (Inr (), do_alert (''RDFArrayRemove: Array did not contain '' @
                 statement_toNT (heap k st)) k))"

definition kb_remove :: "addr \<Rightarrow> unit kb_step" where
  "kb_remove st k0 =
     bind_step (lift_res (hashString (st_subject (heap k0 st)))) (\<lambda>hs.
     bind_step (lift_res (hashString (st_predicate (heap k0 st)))) (\<lambda>hp.
     bind_step (lift_res (hashString (st_object (heap k0 st)))) (\<lambda>ho.
     then_step (array_remove (\<lambda>k. subjectIndex k hs)
       (\<lambda>xs k. k\<lparr>subjectIndex := (subjectIndex k)(hs \<mapsto> xs)\<rparr>) st) (
     then_step (array_remove (\<lambda>k. predicateIndex k hp)
       (\<lambda>xs k. k\<lparr>predicateIndex := (predicateIndex k)(hp \<mapsto> xs)\<rparr>) st) (
     then_step (array_remove (\<lambda>k. objectIndex k ho)
       (\<lambda>xs k. k\<lparr>objectIndex := (objectIndex k)(ho \<mapsto> xs)\<rparr>) st)
       (array_remove (\<lambda>k. Some (statements k)) (\<lambda>xs k. k\<lparr>statements := xs\<rparr>) st)))))) k0"

text \<open>
  The \<open>for .. in\<close> loop of \<open>removeMany\<close>: the indices are those the array had at the start, an
  index the shrinking array has lost by its turn is not visited, and each element is read
  from the array as it is then. After its own indices the loop visits the enumerable properties
  that arrays inherit: with \<open>ext\<close>, on a page whose scripts have given \<open>Array.prototype\<close> the
  function \<open>contains\<close> (\<open>widget-factory.js\<close> does), the function is passed to \<open>remove\<close>, which
  reads its \<open>subject\<close>, \<open>undefined\<close>, and throws at \<open>subj.hashString\<close>.
\<close>

fun remove_loop :: "bool \<Rightarrow> stmt_array \<Rightarrow> nat list \<Rightarrow> unit kb_step" where
  "remove_loop ext arr [] = (if ext then lift_res (Inl TypeError) else ret ())"
| "remove_loop ext arr (i # is) =
     (\<lambda>k. let xs = arr_elems k arr in
        if i < length xs then then_step (kb_remove (xs ! i)) (remove_loop ext arr is) k
        else remove_loop ext arr is k)"

definition removeMany :: "bool \<Rightarrow> js_val \<Rightarrow> js_val \<Rightarrow> js_val \<Rightarrow> js_val \<Rightarrow> int option \<Rightarrow> unit kb_step" where
  "removeMany ext subj pred obj why limit =
     bind_step (statementsMatching subj pred obj why False) (\<lambda>arr k.
       let arr' = (case limit of
            Some n \<Rightarrow> if n \<noteq> 0 then Fresh (slice (arr_elems k arr) 0 n) else arr
          | None \<Rightarrow> arr)
       in remove_loop ext arr' [0..<length (arr_elems k arr')] k)"

end
