(* ===== verification/StoreInv.thy ===== *)
theory StoreInv
  imports Store
begin

text \<open>
  The invariant of the indexed formula and the specification of its lookups. The terms a
  store may hold are a parameter, the locale \<open>term_universe\<close>: terms on which the hash
  string is faithful and \<open>sameTerm\<close> never throws. \<open>ok_term\<close> is the universe of the terms
  the scripts build, and interprets the locale.
\<close>

section \<open>Definitions\<close>

definition idx :: "(string \<Rightarrow> addr list option) \<Rightarrow> string \<Rightarrow> addr list" where
  "idx ix h = (case ix h of Some xs \<Rightarrow> xs | None \<Rightarrow> [])"

text \<open>An index lists, without repetition, the statements whose term has the hash.\<close>

definition index_ok ::
  "(rdf_statement \<Rightarrow> rdf_term) \<Rightarrow> (string \<Rightarrow> addr list option) \<Rightarrow> (addr \<Rightarrow> rdf_statement) \<Rightarrow> addr list \<Rightarrow> bool"
where
  "index_ok sel ix hp sts \<longleftrightarrow>
     (\<forall>h. distinct (idx ix h) \<and> set (idx ix h) = {a \<in> set sts. toNT (sel (hp a)) = h})"

definition stmt_ok :: "(rdf_term \<Rightarrow> bool) \<Rightarrow> rdf_statement \<Rightarrow> bool" where
  "stmt_ok ok st \<longleftrightarrow> ok (st_subject st) \<and> ok (st_predicate st) \<and> ok (st_object st) \<and>
     (\<forall>w. st_why st = Some w \<longrightarrow> ok w)"

definition wf_kb :: "(rdf_term \<Rightarrow> bool) \<Rightarrow> kb \<Rightarrow> bool" where
  "wf_kb ok k \<longleftrightarrow>
     distinct (statements k) \<and>
     (\<forall>a\<in>set (statements k). a < next_addr k \<and> stmt_ok ok (heap k a)) \<and>
     (\<forall>h y. redirection k h = Some y \<longrightarrow> ok y) \<and>
     index_ok st_subject (subjectIndex k) (heap k) (statements k) \<and>
     index_ok st_predicate (predicateIndex k) (heap k) (statements k) \<and>
     index_ok st_object (objectIndex k) (heap k) (statements k)"

text \<open>The abstraction: the set of triples, each term by its N-Triples form.\<close>

type_synonym nt_triple = "string \<times> string \<times> string"

definition nt_of :: "rdf_statement \<Rightarrow> nt_triple" where
  "nt_of st = (toNT (st_subject st), toNT (st_predicate st), toNT (st_object st))"

definition triples :: "kb \<Rightarrow> nt_triple set" where
  "triples k = (\<lambda>a. nt_of (heap k a)) ` set (statements k)"

text \<open>The term a caller's term stands for after one look at the redirections.\<close>

definition canon :: "kb \<Rightarrow> rdf_term \<Rightarrow> rdf_term" where
  "canon k t = (case redirection k (toNT t) of Some y \<Rightarrow> y | None \<Rightarrow> t)"

definition settled :: "kb \<Rightarrow> rdf_term \<Rightarrow> bool" where
  "settled k t \<longleftrightarrow> redirection k (toNT t) = None"

text \<open>No redirection leads to a redirected term.\<close>

definition flat :: "kb \<Rightarrow> bool" where
  "flat k \<longleftrightarrow> (\<forall>h y. redirection k h = Some y \<longrightarrow> settled k y)"

text \<open>What a pattern position accepts.\<close>

definition pat_match :: "rdf_term option \<Rightarrow> rdf_term option \<Rightarrow> bool" where
  "pat_match p t = (case p of None \<Rightarrow> True
     | Some x \<Rightarrow> (case t of Some y \<Rightarrow> toNT x = toNT y | None \<Rightarrow> False))"

definition stmt_pat ::
  "rdf_term option \<Rightarrow> rdf_term option \<Rightarrow> rdf_term option \<Rightarrow> rdf_term option \<Rightarrow> rdf_statement \<Rightarrow> bool" where
  "stmt_pat s p ob w st \<longleftrightarrow>
     pat_match s (Some (st_subject st)) \<and> pat_match p (Some (st_predicate st)) \<and>
     pat_match ob (Some (st_object st)) \<and> pat_match w (st_why st)"

abbreviation opt_ok :: "(rdf_term \<Rightarrow> bool) \<Rightarrow> rdf_term option \<Rightarrow> bool" where
  "opt_ok ok t \<equiv> \<forall>x. t = Some x \<longrightarrow> ok x"

section \<open>Indices\<close>

lemma idx_simps [simp]:
  "idx (ix(h := v)) h = (case v of Some xs \<Rightarrow> xs | None \<Rightarrow> [])"
  "h \<noteq> h' \<Longrightarrow> idx (ix(h := v)) h' = idx ix h'"
  by (simp_all add: idx_def)

lemma idx_push: "idx (push_index h a ix) h' = (if h' = h then idx ix h @ [a] else idx ix h')"
  by (simp add: idx_def push_index_def)

lemma index_ok_cong:
  assumes "index_ok sel ix hp sts" and "\<And>a. a \<in> set sts \<Longrightarrow> toNT (sel (hp' a)) = toNT (sel (hp a))"
  shows "index_ok sel ix hp' sts"
  using assms by (auto simp: index_ok_def)

lemma index_ok_set: "index_ok sel ix hp sts \<Longrightarrow> a \<in> set (idx ix h) \<longleftrightarrow> a \<in> set sts \<and> toNT (sel (hp a)) = h"
  by (simp add: index_ok_def)

lemma index_ok_distinct: "index_ok sel ix hp sts \<Longrightarrow> distinct (idx ix h)"
  by (simp add: index_ok_def)

lemma index_ok_empty: "index_ok sel Map.empty hp []"
  by (simp add: index_ok_def idx_def)

lemma index_ok_insert:
  assumes ok: "index_ok sel ix hp sts" and new: "a \<notin> set sts"
    and hp: "\<And>b. b \<in> set sts \<Longrightarrow> hp' b = hp b" and h: "toNT (sel (hp' a)) = h"
  shows "index_ok sel (push_index h a ix) hp' (sts @ [a])"
proof -
  have "a \<notin> set (idx ix h')" for h' using ok new by (simp add: index_ok_def)
  then show ?thesis
    using ok hp h new by (auto simp: index_ok_def idx_push)
qed

lemma index_ok_remove:
  assumes ok: "index_ok sel ix hp sts" and a: "a \<in> set sts" and d: "distinct sts"
    and h: "toNT (sel (hp a)) = h"
  shows "index_ok sel (ix(h \<mapsto> remove1 a (idx ix h))) hp (remove1 a sts)"
  unfolding index_ok_def
proof
  fix h'
  have "set (idx ix h') = {a \<in> set sts. toNT (sel (hp a)) = h'}" "distinct (idx ix h')"
    using ok by (simp_all add: index_ok_def)
  then show "distinct (idx (ix(h \<mapsto> remove1 a (idx ix h))) h') \<and>
    set (idx (ix(h \<mapsto> remove1 a (idx ix h))) h') = {b \<in> set (remove1 a sts). toNT (sel (hp b)) = h'}"
    using d h by (cases "h' = h") auto
qed

text \<open>Moving the statements of one hash to another.\<close>

definition push_all :: "string \<Rightarrow> addr list \<Rightarrow> (string \<Rightarrow> addr list option) \<Rightarrow> (string \<Rightarrow> addr list option)" where
  "push_all h as ix = (if as = [] then ix else ix(h \<mapsto> idx ix h @ as))"

lemma push_all_Cons: "push_all h as (push_index h a ix) = push_all h (a # as) ix"
  by (auto simp: push_all_def push_index_def idx_def)

lemma index_ok_move:
  assumes ok: "index_ok sel ix hp sts" and ne: "toNT small \<noteq> hb"
    and hp: "\<And>a. sel (hp' a) = (if a \<in> set (idx ix hb) then small else sel (hp a))"
  shows "index_ok sel ((push_all (toNT small) (idx ix hb) ix)(hb := None)) hp' sts"
  unfolding index_ok_def
proof
  fix h'
  let ?ix = "(push_all (toNT small) (idx ix hb) ix)(hb := None)"
  have s: "set (idx ix h) = {a \<in> set sts. toNT (sel (hp a)) = h}" "distinct (idx ix h)" for h
    using ok by (simp_all add: index_ok_def)
  consider "h' = hb" | "h' = toNT small" "h' \<noteq> hb" | "h' \<noteq> toNT small" "h' \<noteq> hb" by blast
  then show "distinct (idx ?ix h') \<and> set (idx ?ix h') = {a \<in> set sts. toNT (sel (hp' a)) = h'}"
  proof cases
    case 1
    then show ?thesis using ne s(1) [of hb] by (auto simp: hp)
  next
    case 2
    have "idx ?ix h' = idx ix h' @ idx ix hb"
      using 2 by (auto simp: push_all_def)
    moreover have "set (idx ix h') \<inter> set (idx ix hb) = {}"
      using 2 s(1) by auto
    ultimately show ?thesis
      using 2 s by (auto simp: hp)
  next
    case 3
    have "idx ?ix h' = idx ix h'" using 3 by (auto simp: push_all_def)
    then show ?thesis using 3 s by (auto simp: hp)
  qed
qed

section \<open>The universe of terms\<close>

locale term_universe =
  fixes ok :: "rdf_term \<Rightarrow> bool"
  assumes ok_storable: "ok t \<Longrightarrow> storable t"
    and ok_hash: "ok a \<Longrightarrow> ok b \<Longrightarrow> toNT a = toNT b \<Longrightarrow> erase a = erase b"
    and ok_no_clash: "ok a \<Longrightarrow> ok b \<Longrightarrow> \<not> clash a b"
begin

lemma ok_hashString [simp]: "ok t \<Longrightarrow> hashString t = Inr (toNT t)"
  by (simp add: ok_storable storable_hash)

lemma ok_sameTerm [simp]: "ok a \<Longrightarrow> ok b \<Longrightarrow> sameTerm a (Some b) = Inr (toNT a = toNT b)"
proof -
  assume ab: "ok a" "ok b"
  then have "erase a = erase b \<longleftrightarrow> toNT a = toNT b"
    using ok_hash toNT_erase by metis
  with ab show ?thesis by (simp add: sameTerm_storable ok_storable ok_no_clash)
qed

lemma ok_termMatch:
  "opt_ok ok p \<Longrightarrow> opt_ok ok t \<Longrightarrow> termMatch p t = Inr (pat_match p t)"
  by (cases p; cases t) (auto simp: pat_match_def ok_storable)

lemma ok_stmt_matches:
  assumes "opt_ok ok s" "opt_ok ok p" "opt_ok ok ob" "opt_ok ok w" "stmt_ok ok st"
  shows "stmt_matches s p ob w st = Inr (stmt_pat s p ob w st)"
  using assms by (auto simp: stmt_matches_def stmt_pat_def stmt_ok_def ok_termMatch)

lemma ok_scan:
  assumes "opt_ok ok s" "opt_ok ok p" "opt_ok ok ob" "opt_ok ok w"
    and "\<forall>a\<in>set as. stmt_ok ok (hp a)"
  shows "scan s p ob w justOne hp as =
    Inr (if justOne then take 1 (filter (\<lambda>a. stmt_pat s p ob w (hp a)) as)
         else filter (\<lambda>a. stmt_pat s p ob w (hp a)) as)"
  using assms(5) by (induction as; cases justOne) (simp_all add: ok_stmt_matches [OF assms(1-4)])

lemma ok_redirect: "ok t \<Longrightarrow> redirect k t = Inr (canon k t)"
  by (simp add: redirect_def canon_def option.case_eq_if)

lemma ok_redirect_opt: "opt_ok ok t \<Longrightarrow> redirect_opt k t = Inr (map_option (canon k) t)"
  by (cases t) (simp_all add: ok_redirect)

lemma ok_canon: "wf_kb ok k \<Longrightarrow> ok t \<Longrightarrow> ok (canon k t)"
  by (auto simp: canon_def wf_kb_def split: option.splits)

lemma ok_makeTerm: "opt_ok ok t \<Longrightarrow> kb_makeTerm (val_of t) k = (Inr (map_option (canon k) t), k)"
  by (cases t) (simp_all add: ret_def ok_redirect)

end

text \<open>A settled term is its own canonical term.\<close>

lemma canon_settled [simp]: "settled k t \<Longrightarrow> canon k t = t"
  by (simp add: settled_def canon_def)

lemma settled_canon: "flat k \<Longrightarrow> settled k (canon k t)"
  by (auto simp: flat_def settled_def canon_def split: option.splits)

lemma canon_flat [simp]: "flat k \<Longrightarrow> canon k (canon k t) = canon k t"
  by (simp add: settled_canon)

section \<open>The terms the scripts build\<close>

text \<open>
  Symbols, blank nodes whose ids no collection has, collections, and literals. For each lexical
  value the literals follow one of two conventions: where the value may be typed (\<open>typed v\<close>)
  typed literals have the empty language, as the parser makes them, and untyped ones have not;
  where it may not, untyped literals have a language, perhaps the empty one, as the parser
  makes them. The convention is a function of the value, so a store may hold typed literals
  beside the untyped ones of the parser, as long as no value is used in both ways:
  \<open>sameTerm\<close> throws when it compares two such literals, and \<open>toNT\<close> takes an untyped
  literal of the empty language and one of no language for the same.
\<close>

fun ok_term :: "(string \<Rightarrow> bool) \<Rightarrow> int set \<Rightarrow> rdf_term \<Rightarrow> bool" where
  "ok_term typed C (RDFSymbol u) = True"
| "ok_term typed C (RDFBlankNode i) = (i \<notin> C)"
| "ok_term typed C (RDFCollection i) = (i \<in> C)"
| "ok_term typed C (RDFLiteral v l None e) = (if typed v then l \<noteq> Some [] else l \<noteq> None)"
| "ok_term typed C (RDFLiteral v l (Some (RDFSymbol u)) e) =
     (typed v \<and> l = Some [] \<and> CHR ''>'' \<notin> set u)"
| "ok_term typed C t = False"

lemma node_toNT_inj [simp]: "node_toNT i = node_toNT j \<longleftrightarrow> i = j"
  by (simp add: node_toNT_def int_str_inj)

lemma toNT_kinds [simp]:
  "symbol_toNT u \<noteq> node_toNT i" "node_toNT i \<noteq> symbol_toNT u"
  "literal_toNT v l d \<noteq> node_toNT i" "node_toNT i \<noteq> literal_toNT v l d"
  "literal_toNT v l d \<noteq> symbol_toNT u" "symbol_toNT u \<noteq> literal_toNT v l d"
  by (simp_all add: symbol_toNT_def node_toNT_def literal_toNT_eq)

lemma symbol_toNT_inj [simp]: "symbol_toNT u = symbol_toNT u' \<longleftrightarrow> u = u'"
  by (simp add: symbol_toNT_def)

lemma ok_typed: "ok_term ty C (RDFLiteral v l (Some t) e) \<Longrightarrow> ty v \<and> l = Some [] \<and> (\<exists>u. t = RDFSymbol u)"
  by (cases t) auto

lemma literal_toNT_same:
  "literal_toNT v l d = literal_toNT v' l' d' \<Longrightarrow>
   v = v' \<and> dt_text d @ (if lang_text l = [] then [] else ''@'' @ lang_text l) =
      dt_text d' @ (if lang_text l' = [] then [] else ''@'' @ lang_text l')"
  unfolding literal_toNT_eq by (drule list.inject [THEN iffD1, THEN conjunct2], drule escape_nt_delimited)

lemma ok_literal_hash:
  assumes a: "ok_term ty C (RDFLiteral v l d e)" and b: "ok_term ty C (RDFLiteral v' l' d' e')"
    and eq: "literal_toNT v l d = literal_toNT v' l' d'"
  shows "v = v' \<and> l = l' \<and> map_option erase d = map_option erase d'"
proof -
  note same = literal_toNT_same [OF eq]
  show ?thesis
  proof (cases d)
    case None
    show ?thesis
    proof (cases d')
      case d': None
      have "lang_text l = lang_text l'"
        using same None d' by (auto simp: dt_text_def split: if_splits)
      then have "l = l'"
        using a b None d' same by (auto simp: lang_text_def split: option.splits if_splits)
      then show ?thesis using same None d' by simp
    next
      case (Some t)
      then show ?thesis using same None by (auto simp: dt_text_def split: if_splits)
    qed
  next
    case (Some t)
    then obtain u where t: "t = RDFSymbol u" "l = Some []" using a ok_typed by blast
    show ?thesis
    proof (cases d')
      case None
      then show ?thesis using same Some by (auto simp: dt_text_def split: if_splits)
    next
      case d': (Some t')
      then obtain u' where t': "t' = RDFSymbol u'" "l' = Some []" using b ok_typed by blast
      then show ?thesis using same Some d' t by (simp add: dt_text_def lang_text_def)
    qed
  qed
qed

lemma ok_term_hash:
  assumes "ok_term ty C a" "ok_term ty C b" "toNT a = toNT b"
  shows "erase a = erase b"
proof (cases a)
  case a: (RDFLiteral v l d e)
  show ?thesis
  proof (cases b)
    case b: (RDFLiteral v' l' d' e')
    show ?thesis
      using ok_literal_hash [of ty C v l d e v' l' d' e'] assms a b by simp
  qed (use assms a in simp_all)
qed (use assms in \<open>cases b; simp\<close>)+

interpretation terms: term_universe "ok_term ty C" for ty C
proof
  show "ok_term ty C t \<Longrightarrow> storable t" for t
    by (cases "(ty, C, t)" rule: ok_term.cases) auto
  show "ok_term ty C a \<Longrightarrow> ok_term ty C b \<Longrightarrow> toNT a = toNT b \<Longrightarrow> erase a = erase b" for a b
    by (rule ok_term_hash)
  show "ok_term ty C a \<Longrightarrow> ok_term ty C b \<Longrightarrow> \<not> clash a b" for a b
    using ok_typed by (cases "(a, b)" rule: clash.cases) (fastforce split: if_splits)+
qed

end
