(* ===== verification/StoreLookup.thy ===== *)
theory StoreLookup
  imports StoreInv
begin

text \<open>
  The specification of \<open>statementsMatching\<close> and its convenience forms: in a well-formed
  store a lookup finds exactly the statements that match the pattern once the pattern's
  terms are replaced along the redirections.
\<close>

definition found :: "kb \<Rightarrow> (rdf_statement \<Rightarrow> bool) \<Rightarrow> bool \<Rightarrow> stmt_array \<Rightarrow> bool" where
  "found k P one arr \<longleftrightarrow>
     set (arr_elems k arr) \<subseteq> {a \<in> set (statements k). P (heap k a)} \<and>
     (arr_elems k arr = [] \<longrightarrow> (\<forall>a\<in>set (statements k). \<not> P (heap k a))) \<and>
     (\<not> one \<longrightarrow> distinct (arr_elems k arr) \<and>
        set (arr_elems k arr) = {a \<in> set (statements k). P (heap k a)})"

text \<open>The pattern of a lookup, after the redirections: two hops for a term the caller gives.\<close>

definition hop2 :: "kb \<Rightarrow> rdf_term option \<Rightarrow> rdf_term option" where
  "hop2 k t = map_option (canon k \<circ> canon k) t"

lemma wf_idx:
  assumes "wf_kb ok k"
  shows "a \<in> set (idx (subjectIndex k) h) \<longleftrightarrow> a \<in> set (statements k) \<and> toNT (st_subject (heap k a)) = h"
    and "a \<in> set (idx (predicateIndex k) h) \<longleftrightarrow> a \<in> set (statements k) \<and> toNT (st_predicate (heap k a)) = h"
    and "a \<in> set (idx (objectIndex k) h) \<longleftrightarrow> a \<in> set (statements k) \<and> toNT (st_object (heap k a)) = h"
  using assms by (simp_all add: wf_kb_def index_ok_def)

lemma wf_idx_distinct:
  assumes "wf_kb ok k"
  shows "distinct (idx (subjectIndex k) h)" "distinct (idx (predicateIndex k) h)"
    "distinct (idx (objectIndex k) h)"
  using assms by (simp_all add: wf_kb_def index_ok_def)

lemma wf_stmt_ok: "wf_kb ok k \<Longrightarrow> a \<in> set (statements k) \<Longrightarrow> stmt_ok ok (heap k a)"
  by (simp add: wf_kb_def)

lemma arr_elems_idx [simp]:
  "arr_elems k (Subj_array h) = idx (subjectIndex k) h"
  "arr_elems k (Obj_array h) = idx (objectIndex k) h"
  by (simp_all add: idx_def)

declare arr_elems.simps(2,3) [simp del]

lemma found_Fresh_Nil: "found k P one (Fresh []) \<longleftrightarrow> (\<forall>a\<in>set (statements k). \<not> P (heap k a))"
  by (auto simp: found_def)

context term_universe
begin

lemma scan_found:
  assumes wf: "wf_kb ok k" and o: "opt_ok ok s" "opt_ok ok p" "opt_ok ok ob" "opt_ok ok w"
    and cs: "distinct cs" "set cs \<subseteq> set (statements k)"
    and all: "\<And>a. a \<in> set (statements k) \<Longrightarrow> stmt_pat s p ob w (heap k a) \<Longrightarrow> a \<in> set cs"
  shows "\<exists>r. scan s p ob w one (heap k) cs = Inr r \<and> found k (stmt_pat s p ob w) one (Fresh r)"
proof -
  let ?m = "filter (\<lambda>a. stmt_pat s p ob w (heap k a)) cs"
  have "\<forall>a\<in>set cs. stmt_ok ok (heap k a)" using cs wf wf_stmt_ok by blast
  from ok_scan [OF o this, of one]
  have sc: "scan s p ob w one (heap k) cs = Inr (if one then take 1 ?m else ?m)" .
  have m: "set ?m = {a \<in> set (statements k). stmt_pat s p ob w (heap k a)}"
    using cs(2) all by auto
  moreover have "distinct ?m" using cs(1) by simp
  ultimately have "found k (stmt_pat s p ob w) one (Fresh (if one then take 1 ?m else ?m))"
    by (cases ?m) (auto simp: found_def)
  with sc show ?thesis by blast
qed

text \<open>One branch of the lookup: an index entry, scanned or returned whole.\<close>

lemma branch_found:
  assumes wf: "wf_kb ok k" and o: "opt_ok ok s" "opt_ok ok p" "opt_ok ok ob" "opt_ok ok w"
    and ix: "ix = subjectIndex k \<or> ix = predicateIndex k \<or> ix = objectIndex k"
    and all: "\<And>a. a \<in> set (statements k) \<Longrightarrow> stmt_pat s p ob w (heap k a) \<Longrightarrow> a \<in> set (idx ix h)"
    and whole: "c \<Longrightarrow> arr_elems k whole = idx ix h \<and> (\<forall>a\<in>set (idx ix h). stmt_pat s p ob w (heap k a))"
  shows "\<exists>arr. (case ix h of None \<Rightarrow> Inr (Fresh [])
      | Some cs \<Rightarrow> if c then Inr whole
          else bind_res (scan s p ob w one (heap k) cs) (\<lambda>r. Inr (Fresh r))) = Inr arr \<and>
    found k (stmt_pat s p ob w) one arr"
proof (cases "ix h")
  case None
  then have "idx ix h = []" by (simp add: idx_def)
  then show ?thesis using all None by (auto simp: found_Fresh_Nil)
next
  case (Some cs)
  then have cs: "idx ix h = cs" by (simp add: idx_def)
  have sub: "set cs \<subseteq> set (statements k)" "distinct cs"
    using ix wf_idx [OF wf, of _ h] wf_idx_distinct [OF wf, of h] cs by auto
  show ?thesis
  proof (cases c)
    case True
    with whole cs have "arr_elems k whole = cs" "\<forall>a\<in>set cs. stmt_pat s p ob w (heap k a)" by auto
    then have "found k (stmt_pat s p ob w) one whole"
      using sub all cs by (auto simp: found_def)
    with True Some show ?thesis by simp
  next
    case False
    from scan_found [OF wf o sub(2,1), of one] all cs
    obtain r where "scan s p ob w one (heap k) cs = Inr r" "found k (stmt_pat s p ob w) one (Fresh r)"
      by auto
    with False Some show ?thesis by auto
  qed
qed

lemma scan_branch_found:
  assumes wf: "wf_kb ok k" and o: "opt_ok ok s" "opt_ok ok p" "opt_ok ok ob" "opt_ok ok w"
    and ix: "ix = subjectIndex k \<or> ix = predicateIndex k \<or> ix = objectIndex k"
    and all: "\<And>a. a \<in> set (statements k) \<Longrightarrow> stmt_pat s p ob w (heap k a) \<Longrightarrow> a \<in> set (idx ix h)"
  shows "\<exists>arr. (case ix h of None \<Rightarrow> Inr (Fresh [])
      | Some cs \<Rightarrow> bind_res (scan s p ob w one (heap k) cs) (\<lambda>r. Inr (Fresh r))) = Inr arr \<and>
    found k (stmt_pat s p ob w) one arr"
  using branch_found [OF assms, where c = False and one = one] unfolding if_False by blast

lemma lookup_found:
  assumes wf: "wf_kb ok k" and o: "opt_ok ok s0" "opt_ok ok p0" "opt_ok ok ob0" "opt_ok ok w"
  defines "s \<equiv> map_option (canon k) s0" and "p \<equiv> map_option (canon k) p0"
    and "ob \<equiv> map_option (canon k) ob0"
  shows "\<exists>arr. lookup_terms s0 p0 ob0 w one k = Inr arr \<and> found k (stmt_pat s p ob w) one arr"
proof -
  have ok': "opt_ok ok s" "opt_ok ok p" "opt_ok ok ob"
    using o wf by (auto simp: s_def p_def ob_def ok_canon)
  note red = ok_redirect_opt [OF o(2)] ok_redirect_opt [OF o(3)]
  note br = branch_found [OF wf ok' o(4)] and sbr = scan_branch_found [OF wf ok' o(4)]
  consider (all) "s0 = None" "ob0 = None" "p0 = None"
    | (pred) q where "s0 = None" "ob0 = None" "p0 = Some q"
    | (obj) t where "s0 = None" "ob0 = Some t"
    | (subj) u where "s0 = Some u" "ob0 = None"
    | (both) u t where "s0 = Some u" "ob0 = Some t"
    by (cases s0; cases ob0; cases p0) auto
  then show ?thesis
  proof cases
    case all
    then have n: "s = None" "p = None" "ob = None" by (simp_all add: s_def p_def ob_def)
    have "distinct (statements k)" using wf by (simp add: wf_kb_def)
    from scan_found [OF wf ok' o(4) this] obtain r where
      "scan s p ob w one (heap k) (statements k) = Inr r" "found k (stmt_pat s p ob w) one (Fresh r)"
      by blast
    then show ?thesis using n all by (simp add: lookup_terms_def)
  next
    case pred
    then have n: "s = None" "ob = None" "p = Some (canon k q)" and q: "ok (canon k q)"
      using ok' by (simp_all add: s_def p_def ob_def)
    have "\<exists>arr. (case predicateIndex k (toNT (canon k q)) of None \<Rightarrow> Inr (Fresh [])
        | Some cs \<Rightarrow> bind_res (scan s p ob w one (heap k) cs) (\<lambda>r. Inr (Fresh r))) = Inr arr \<and>
      found k (stmt_pat s p ob w) one arr"
      by (rule sbr) (auto simp: wf_idx [OF wf] n stmt_pat_def pat_match_def)
    then show ?thesis using pred n red q
      by (cases "predicateIndex k (toNT (canon k q))") (auto simp: lookup_terms_def)
  next
    case obj
    then have n: "s = None" "ob = Some (canon k t)" and q: "ok (canon k t)"
      using ok' by (simp_all add: s_def p_def ob_def)
    have "\<exists>arr. (case objectIndex k (toNT (canon k t)) of None \<Rightarrow> Inr (Fresh [])
        | Some cs \<Rightarrow> if p = None \<and> w = None then Inr (Obj_array (toNT (canon k t)))
            else bind_res (scan s p ob w one (heap k) cs) (\<lambda>r. Inr (Fresh r))) = Inr arr \<and>
      found k (stmt_pat s p ob w) one arr"
      by (rule br) (auto simp: wf_idx [OF wf] arr_elems_idx n stmt_pat_def pat_match_def)
    then show ?thesis using obj n red q
      by (cases "objectIndex k (toNT (canon k t))") (auto simp: lookup_terms_def p_def)
  next
    case subj
    then have n: "s = Some (canon k u)" "ob = None" and q: "ok (canon k u)" and u: "ok u"
      using ok' o by (simp_all add: s_def p_def ob_def)
    have "\<exists>arr. (case subjectIndex k (toNT (canon k u)) of None \<Rightarrow> Inr (Fresh [])
        | Some cs \<Rightarrow> if p = None \<and> w = None then Inr (Subj_array (toNT (canon k u)))
            else bind_res (scan s p ob w one (heap k) cs) (\<lambda>r. Inr (Fresh r))) = Inr arr \<and>
      found k (stmt_pat s p ob w) one arr"
      by (rule br) (auto simp: wf_idx [OF wf] arr_elems_idx n stmt_pat_def pat_match_def)
    then show ?thesis
      using subj n red q u
      by (cases "subjectIndex k (toNT (canon k u))") (auto simp: lookup_terms_def p_def ok_redirect)
  next
    case both
    then have n: "s = Some (canon k u)" "ob = Some (canon k t)"
      and q: "ok (canon k u)" "ok (canon k t)" and u: "ok u"
      using ok' o by (simp_all add: s_def p_def ob_def)
    let ?hs = "toNT (canon k u)" and ?ho = "toNT (canon k t)"
    have sx: "\<exists>arr. (case subjectIndex k ?hs of None \<Rightarrow> Inr (Fresh [])
        | Some cs \<Rightarrow> bind_res (scan s p ob w one (heap k) cs) (\<lambda>r. Inr (Fresh r))) = Inr arr \<and>
      found k (stmt_pat s p ob w) one arr"
      by (rule sbr) (auto simp: wf_idx [OF wf] n stmt_pat_def pat_match_def)
    have ox: "\<exists>arr. (case objectIndex k ?ho of None \<Rightarrow> Inr (Fresh [])
        | Some cs \<Rightarrow> bind_res (scan s p ob w one (heap k) cs) (\<lambda>r. Inr (Fresh r))) = Inr arr \<and>
      found k (stmt_pat s p ob w) one arr"
      by (rule sbr) (auto simp: wf_idx [OF wf] n stmt_pat_def pat_match_def)
    show ?thesis
      using both n red q u sx ox
      by (cases "subjectIndex k ?hs"; cases "objectIndex k ?ho")
        (auto simp: lookup_terms_def p_def ok_redirect)
  qed
qed

lemma statementsMatching_found:
  assumes wf: "wf_kb ok k" and o: "opt_ok ok s" "opt_ok ok p" "opt_ok ok ob" "opt_ok ok w"
  shows "\<exists>arr. statementsMatching (val_of s) (val_of p) (val_of ob) (val_of w) one k = (Inr arr, k) \<and>
    found k (stmt_pat (hop2 k s) (hop2 k p) (hop2 k ob) (map_option (canon k) w)) one arr"
proof -
  have o': "opt_ok ok (map_option (canon k) s)" "opt_ok ok (map_option (canon k) p)"
    "opt_ok ok (map_option (canon k) ob)" "opt_ok ok (map_option (canon k) w)"
    using o wf by (auto simp: ok_canon)
  from lookup_found [OF wf o', of one] show ?thesis
    using o by (auto simp: statementsMatching_def bind_step_def ok_makeTerm hop2_def option.map_comp)
qed

lemma anyStatementMatching_found:
  assumes wf: "wf_kb ok k" and o: "opt_ok ok s" "opt_ok ok p" "opt_ok ok ob" "opt_ok ok w"
  defines "P \<equiv> stmt_pat (hop2 k s) (hop2 k p) (hop2 k ob) (map_option (canon k) w)"
  shows "\<exists>r. anyStatementMatching (val_of s) (val_of p) (val_of ob) (val_of w) k = (Inr r, k) \<and>
    (case r of None \<Rightarrow> \<forall>a\<in>set (statements k). \<not> P (heap k a)
     | Some a \<Rightarrow> a \<in> set (statements k) \<and> P (heap k a))"
proof -
  from statementsMatching_found [OF wf o, of True] obtain arr where
    arr: "statementsMatching (val_of s) (val_of p) (val_of ob) (val_of w) True k = (Inr arr, k)"
      "found k P True arr"
    unfolding P_def by blast
  then show ?thesis
    by (cases "arr_elems k arr") (auto simp: anyStatementMatching_def bind_step_def found_def)
qed

end

section \<open>Stores to evaluate on\<close>

lemma wf_new: "wf_kb ok (new_indexed_formula n cs)"
  by (simp add: wf_kb_def new_indexed_formula_def index_ok_empty)

lemma flat_new: "flat (new_indexed_formula n cs)"
  by (simp add: flat_def new_indexed_formula_def)

lemma triples_new [simp]: "triples (new_indexed_formula n cs) = {}"
  by (simp add: triples_def new_indexed_formula_def)

section \<open>Properties\<close>



end
