(* ===== verification/StoreUpdate.thy ===== *)
theory StoreUpdate
  imports StoreLookup
begin

text \<open>
  What \<open>add\<close>, \<open>remove\<close> and \<open>removeMany\<close> do to a well-formed store: they keep the
  invariant, and on the abstraction, the set of triples, they are insertion and deletion.
  The last section follows \<open>removeMany\<close> into the case where it iterates over the index
  array it is shrinking.
\<close>

section \<open>Inserting\<close>

lemma insert_statement_fields [simp]:
  "statements (insert_statement s p ob w hS hP hO k) = statements k @ [next_addr k]"
  "redirection (insert_statement s p ob w hS hP hO k) = redirection k"
  "propertyAction (insert_statement s p ob w hS hP hO k) = propertyAction k"
  "classAction (insert_statement s p ob w hS hP hO k) = classAction k"
  "next_addr (insert_statement s p ob w hS hP hO k) = Suc (next_addr k)"
  "subjectIndex (insert_statement s p ob w hS hP hO k) = push_index hS (next_addr k) (subjectIndex k)"
  "predicateIndex (insert_statement s p ob w hS hP hO k) = push_index hP (next_addr k) (predicateIndex k)"
  "objectIndex (insert_statement s p ob w hS hP hO k) = push_index hO (next_addr k) (objectIndex k)"
  "heap (insert_statement s p ob w hS hP hO k) = (heap k)(next_addr k :=
     \<lparr>st_subject = s, st_predicate = p, st_object = ob, st_why = w\<rparr>)"
  by (simp_all add: insert_statement_def Let_def)

lemma wf_next_addr: "wf_kb ok k \<Longrightarrow> next_addr k \<notin> set (statements k)"
  by (auto simp: wf_kb_def)

lemma wf_insert:
  assumes wf: "wf_kb ok k" and o: "ok s" "ok p" "ok ob" "opt_ok ok w"
  shows "wf_kb ok (insert_statement s p ob w (toNT s) (toNT p) (toNT ob) k)" (is "wf_kb ok ?k")
proof -
  note new = wf_next_addr [OF wf]
  have hp: "heap ?k b = heap k b" if "b \<in> set (statements k)" for b
    using that new by auto
  have ins: "index_ok sel (push_index (toNT (sel (heap ?k (next_addr k)))) (next_addr k) ix) (heap ?k)
      (statements k @ [next_addr k])" if "index_ok sel ix (heap k) (statements k)" for sel ix
    by (rule index_ok_insert [OF that new hp refl])
  have "index_ok st_subject (subjectIndex ?k) (heap ?k) (statements ?k)"
    "index_ok st_predicate (predicateIndex ?k) (heap ?k) (statements ?k)"
    "index_ok st_object (objectIndex ?k) (heap ?k) (statements ?k)"
    using wf ins [of st_subject "subjectIndex k"] ins [of st_predicate "predicateIndex k"]
      ins [of st_object "objectIndex k"] by (simp_all add: wf_kb_def)
  then show ?thesis
    using wf new o by (auto simp: wf_kb_def stmt_ok_def less_Suc_eq)
qed

lemma triples_insert_fresh:
  assumes "next_addr k \<notin> set (statements k)"
  shows "triples (insert_statement s p ob w hS hP hO k) = insert (toNT s, toNT p, toNT ob) (triples k)"
proof -
  have "(\<lambda>a. nt_of (heap (insert_statement s p ob w hS hP hO k) a)) ` set (statements k) = triples k"
    unfolding triples_def using assms by (intro image_cong) auto
  then show ?thesis by (simp add: triples_def nt_of_def)
qed

lemmas triples_insert = triples_insert_fresh [OF wf_next_addr]

lemma stmt_pat_triple:
  "stmt_pat (Some s) (Some p) (Some ob) None st \<longleftrightarrow> nt_of st = (toNT s, toNT p, toNT ob)"
  by (auto simp: stmt_pat_def pat_match_def nt_of_def)

lemma flat_cong: "redirection k' = redirection k \<Longrightarrow> flat k' = flat k"
  by (simp add: flat_def settled_def)

text \<open>
  A triple that triggers no action: its predicate has none, or it is a type statement about a
  class that has none (any class but those of the functional and the inverse functional
  properties, in a store with the scripts' actions).
\<close>

definition actionless :: "kb \<Rightarrow> rdf_term \<Rightarrow> rdf_term \<Rightarrow> bool" where
  "actionless k p ob \<longleftrightarrow> (case propertyAction k (toNT p) of
     None \<Rightarrow> True | Some Handle_type \<Rightarrow> classAction k (toNT ob) = None | Some _ \<Rightarrow> False)"

context term_universe
begin

text \<open>Up to the action, \<open>add\<close> finds out whether the triple is there.\<close>

lemma kb_add_run:
  assumes wf: "wf_kb ok k" and o: "ok s" "ok p" "ok ob" "opt_ok ok w"
  defines "t \<equiv> (toNT (canon k (canon k (canon k s))), toNT (canon k (canon k (canon k p))),
    toNT (canon k (canon k (canon k ob))))"
  shows "kb_add (VTerm s) (VTerm p) (VTerm ob) (val_of w) k =
    (if t \<in> triples k then (Inr (), k)
     else bind_step
       (case propertyAction k (toNT (canon k p)) of
          Some action \<Rightarrow> run_property_action action (canon k s) (canon k p) (canon k ob)
        | None \<Rightarrow> ret False)
       (\<lambda>skip. if skip then ret ()
          else modify (insert_statement (canon k s) (canon k p) (canon k ob) (map_option (canon k) w)
            (toNT (canon k s)) (toNT (canon k p)) (toNT (canon k ob)))) k)"
proof -
  note c = ok_canon [OF wf]
  have mk: "kb_makeTerm (VTerm x) k = (Inr (Some (canon k x)), k)" if "ok x" for x
    using ok_makeTerm [of "Some x" k] that by simp
  have h: "hash_opt (Some (canon k x)) = Inr (canon k x, toNT (canon k x))" if "ok x" for x
    using c [OF that] by (simp add: hash_opt_def)
  have pat: "stmt_pat (hop2 k (Some (canon k s))) (hop2 k (Some (canon k p)))
      (hop2 k (Some (canon k ob))) (map_option (canon k) None) st \<longleftrightarrow> nt_of st = t" for st
    by (simp add: hop2_def stmt_pat_triple t_def)
  from anyStatementMatching_found [OF wf, of "Some (canon k s)" "Some (canon k p)" "Some (canon k ob)" None]
  obtain r where r: "anyStatementMatching (VTerm (canon k s)) (VTerm (canon k p)) (VTerm (canon k ob))
      VUndefined k = (Inr r, k)"
    and "case r of None \<Rightarrow> \<forall>a\<in>set (statements k). nt_of (heap k a) \<noteq> t
      | Some a \<Rightarrow> a \<in> set (statements k) \<and> nt_of (heap k a) = t"
    using o c unfolding pat by auto
  then have found: "r \<noteq> None \<longleftrightarrow> t \<in> triples k"
    by (auto simp: triples_def split: option.splits)
  show ?thesis
    unfolding kb_add_def
    using mk [OF o(1)] mk [OF o(2)] mk [OF o(3)] ok_makeTerm [OF o(4), of k]
      h [OF o(1)] h [OF o(2)] h [OF o(3)] r found
    by (cases "t \<in> triples k") (simp_all add: bind_step_def lift_res_def ret_def)
qed

lemma kb_add_start:
  assumes wf: "wf_kb ok k" and fl: "flat k" and o: "ok s" "ok p" "ok ob" "opt_ok ok w"
  shows "kb_add (VTerm s) (VTerm p) (VTerm ob) (val_of w) k =
    (if (toNT (canon k s), toNT (canon k p), toNT (canon k ob)) \<in> triples k then (Inr (), k)
     else bind_step
       (case propertyAction k (toNT (canon k p)) of
          Some action \<Rightarrow> run_property_action action (canon k s) (canon k p) (canon k ob)
        | None \<Rightarrow> ret False)
       (\<lambda>skip. if skip then ret ()
          else modify (insert_statement (canon k s) (canon k p) (canon k ob) (map_option (canon k) w)
            (toNT (canon k s)) (toNT (canon k p)) (toNT (canon k ob)))) k)"
  unfolding kb_add_run [OF wf o] canon_flat [OF fl] ..

lemma run_actionless:
  assumes "ok ob" "actionless k p ob"
  shows "(case propertyAction k (toNT p) of Some action \<Rightarrow> run_property_action action s p ob | None \<Rightarrow> ret False) k = (Inr False, k)"
proof -
  have "hashString ob = Inr (toNT ob)" using storable_hash [OF ok_storable [OF assms(1)]] .
  then show ?thesis using assms(2)
    by (auto simp: actionless_def handleRDFType_def ret_def bind_step_def lift_res_def split: option.splits property_action.splits)
qed

lemma kb_add_plain:
  assumes wf: "wf_kb ok k" and fl: "flat k" and o: "ok s" "ok p" "ok ob" "opt_ok ok w"
    and act: "actionless k (canon k p) (canon k ob)"
  shows "kb_add (VTerm s) (VTerm p) (VTerm ob) (val_of w) k =
    (Inr (), if (toNT (canon k s), toNT (canon k p), toNT (canon k ob)) \<in> triples k then k
       else insert_statement (canon k s) (canon k p) (canon k ob) (map_option (canon k) w)
            (toNT (canon k s)) (toNT (canon k p)) (toNT (canon k ob)) k)"
  unfolding kb_add_start [OF wf fl o] using run_actionless [OF ok_canon [OF wf o(3)] act]
  by (simp add: modify_def bind_step_def ret_def)

end

section \<open>Removing\<close>

lemma array_remove_in:
  "get k = Some xs \<Longrightarrow> st \<in> set xs \<Longrightarrow> array_remove get put st k = (Inr (), put (remove1 st xs) k)"
  by (simp add: array_remove_def)

definition removed :: "addr \<Rightarrow> kb \<Rightarrow> kb" where
  "removed a k = (let st = heap k a; hs = toNT (st_subject st); hp = toNT (st_predicate st);
       ho = toNT (st_object st) in
     k\<lparr>subjectIndex := (subjectIndex k)(hs \<mapsto> remove1 a (idx (subjectIndex k) hs)),
       predicateIndex := (predicateIndex k)(hp \<mapsto> remove1 a (idx (predicateIndex k) hp)),
       objectIndex := (objectIndex k)(ho \<mapsto> remove1 a (idx (objectIndex k) ho)),
       statements := remove1 a (statements k)\<rparr>)"

lemma removed_fields [simp]:
  "heap (removed a k) = heap k" "statements (removed a k) = remove1 a (statements k)"
  "redirection (removed a k) = redirection k" "next_addr (removed a k) = next_addr k"
  "propertyAction (removed a k) = propertyAction k"
  by (simp_all add: removed_def Let_def)

lemma idx_Some: "a \<in> set (idx ix h) \<Longrightarrow> ix h = Some (idx ix h)"
  by (cases "ix h") (simp_all add: idx_def)

lemma wf_removed:
  assumes wf: "wf_kb ok k" and a: "a \<in> set (statements k)"
  shows "wf_kb ok (removed a k)"
proof -
  have d: "distinct (statements k)" using wf by (simp add: wf_kb_def)
  have "index_ok st_subject (subjectIndex (removed a k)) (heap k) (remove1 a (statements k))"
    "index_ok st_predicate (predicateIndex (removed a k)) (heap k) (remove1 a (statements k))"
    "index_ok st_object (objectIndex (removed a k)) (heap k) (remove1 a (statements k))"
    using wf index_ok_remove [OF _ a d refl] by (simp_all add: wf_kb_def removed_def Let_def)
  then show ?thesis using wf d by (auto simp: wf_kb_def)
qed

context term_universe
begin

lemma kb_remove_in:
  assumes wf: "wf_kb ok k" and a: "a \<in> set (statements k)"
  shows "kb_remove a k = (Inr (), removed a k)"
proof -
  let ?st = "heap k a"
  have o: "ok (st_subject ?st)" "ok (st_predicate ?st)" "ok (st_object ?st)"
    using wf_stmt_ok [OF wf a] by (simp_all add: stmt_ok_def)
  have "a \<in> set (idx (subjectIndex k) (toNT (st_subject ?st)))"
    "a \<in> set (idx (predicateIndex k) (toNT (st_predicate ?st)))"
    "a \<in> set (idx (objectIndex k) (toNT (st_object ?st)))"
    using a wf_idx [OF wf] by simp_all
  note ix = this this [THEN idx_Some]
  show ?thesis
    unfolding kb_remove_def using o ix a
    by (simp add: then_step_def bind_step_def lift_res_def array_remove_in removed_def Let_def)
qed

end

section \<open>Removing while iterating\<close>

text \<open>What is left when every other element, from the first, goes.\<close>

fun thin :: "'a list \<Rightarrow> 'a list" where
  "thin (x # y # zs) = y # thin zs"
| "thin _ = []"

text \<open>The elements that go.\<close>

fun thick :: "'a list \<Rightarrow> 'a list" where
  "thick [] = []"
| "thick [x] = [x]"
| "thick (x # y # zs) = x # thick zs"

lemma set_thin_thick: "set xs = set (thin xs) \<union> set (thick xs)"
  by (induction xs rule: thick.induct) auto

lemma thin_thick_disjoint: "distinct xs \<Longrightarrow> set (thin xs) \<inter> set (thick xs) = {}"
proof (induction xs rule: thick.induct)
  case (3 x y zs)
  then show ?case using set_thin_thick [of zs] by auto
qed simp_all

lemma length_thin: "length (thin xs) = length xs div 2"
  by (induction xs rule: thin.induct) auto

lemma filter_remove1: "distinct xs \<Longrightarrow> filter P (remove1 x xs) = filter (\<lambda>a. P a \<and> a \<noteq> x) xs"
  by (auto simp: distinct_remove1_removeAll removeAll_filter_not_eq intro!: filter_cong)

lemma idx_removed:
  assumes wf: "wf_kb ok k" and i: "idx (subjectIndex k) h = pre @ x # ys"
  shows "x \<in> set (statements k)" "idx (subjectIndex (removed x k)) h = pre @ ys"
proof -
  have x: "x \<in> set (idx (subjectIndex k) h)" using i by simp
  then have h: "toNT (st_subject (heap k x)) = h" using wf_idx(1) [OF wf] by blast
  show "x \<in> set (statements k)" using x wf_idx(1) [OF wf] by blast
  have "x \<notin> set pre" using wf_idx_distinct(1) [OF wf, of h] i by simp
  then show "idx (subjectIndex (removed x k)) h = pre @ ys"
    using i h by (simp add: removed_def Let_def remove1_append)
qed

text \<open>What the loop ends with: an error where arrays inherit an enumerable function.\<close>

definition loop_end :: "bool \<Rightarrow> unit js_res" where
  "loop_end ext = (if ext then Inl TypeError else Inr ())"

lemma remove_loop_Nil: "remove_loop ext arr [] k = (loop_end ext, k)"
  by (simp add: loop_end_def ret_def lift_res_def)

lemma remove_loop_done:
  "\<forall>i\<in>set is. length (arr_elems k arr) \<le> i \<Longrightarrow> remove_loop ext arr is k = (loop_end ext, k)"
  by (induction "is") (auto simp: remove_loop_Nil Let_def simp del: remove_loop.simps(1))

text \<open>The state after statements have been removed one by one.\<close>

definition without :: "addr set \<Rightarrow> kb \<Rightarrow> kb \<Rightarrow> bool" where
  "without D k k' \<longleftrightarrow> heap k' = heap k \<and> redirection k' = redirection k \<and>
     statements k' = filter (\<lambda>a. a \<notin> D) (statements k)"

lemma without_step:
  assumes "distinct (statements k)" "without D (removed x k) k'"
  shows "without (insert x D) k k'"
  using assms by (simp add: without_def filter_remove1 conj_commute)

lemma filter_neq_remove1: "distinct xs \<Longrightarrow> remove1 x xs = filter (\<lambda>a. a \<noteq> x) xs"
  by (auto simp: distinct_remove1_removeAll removeAll_filter_not_eq intro!: filter_cong)

lemma without_removed: "wf_kb ok k \<Longrightarrow> without {a} k (removed a k)"
  by (simp add: without_def wf_kb_def filter_neq_remove1)

lemma without_triples: "without D k k' \<Longrightarrow>
    triples k' = (\<lambda>a. nt_of (heap k a)) ` {a \<in> set (statements k). a \<notin> D}"
  by (simp add: without_def triples_def)

context term_universe
begin

lemma remove_loop_step:
  assumes "wf_kb ok k" "i < length (arr_elems k arr)" "arr_elems k arr ! i \<in> set (statements k)"
  shows "remove_loop ext arr (i # is) k = remove_loop ext arr is (removed (arr_elems k arr ! i) k)"
  using kb_remove_in [OF assms(1,3)] assms(2) by (simp add: Let_def then_step_def bind_step_def)

lemma remove_loop_alias:
  assumes "wf_kb ok k" "idx (subjectIndex k) h = pre @ ys" "length pre = i" "i + length ys \<le> n"
  shows "\<exists>k'. remove_loop ext (Subj_array h) [i..<n] k = (loop_end ext, k') \<and> wf_kb ok k' \<and>
    idx (subjectIndex k') h = pre @ thin ys \<and> without (set (thick ys)) k k'"
  using assms
proof (induction ys arbitrary: pre i k rule: thick.induct)
  case 1
  then have "remove_loop ext (Subj_array h) [i..<n] k = (loop_end ext, k)"
    by (intro remove_loop_done) simp
  then show ?case using 1 by (simp add: without_def)
next
  case (2 x)
  note r = idx_removed [OF "2.prems"(1,2)]
  have "remove_loop ext (Subj_array h) (i # [Suc i..<n]) k =
      remove_loop ext (Subj_array h) [Suc i..<n] (removed x k)"
    using remove_loop_step [OF "2.prems"(1), of i "Subj_array h"] "2.prems" r
    by (simp add: nth_append)
  also have "\<dots> = (loop_end ext, removed x k)"
    using r "2.prems" by (intro remove_loop_done) simp
  finally have "remove_loop ext (Subj_array h) [i..<n] k = (loop_end ext, removed x k)"
    using "2.prems" by (simp add: upt_conv_Cons)
  moreover have "without {x} k (removed x k)"
    using without_step [of k "{}" x "removed x k"] "2.prems"(1) by (simp add: without_def wf_kb_def)
  ultimately show ?case using r wf_removed [OF "2.prems"(1)] by simp
next
  case (3 x y zs)
  note r = idx_removed [OF "3.prems"(1,2)]
  have "remove_loop ext (Subj_array h) (i # [Suc i..<n]) k =
      remove_loop ext (Subj_array h) [Suc i..<n] (removed x k)"
    using remove_loop_step [OF "3.prems"(1), of i "Subj_array h"] "3.prems" r
    by (simp add: nth_append)
  then have s: "remove_loop ext (Subj_array h) [i..<n] k = remove_loop ext (Subj_array h) [Suc i..<n] (removed x k)"
    using "3.prems" by (simp add: upt_conv_Cons)
  from "3.IH" [of "removed x k" "pre @ [y]" "Suc i"] obtain k' where
    k': "remove_loop ext (Subj_array h) [Suc i..<n] (removed x k) = (loop_end ext, k')" "wf_kb ok k'"
      "idx (subjectIndex k') h = (pre @ [y]) @ thin zs" "without (set (thick zs)) (removed x k) k'"
    using wf_removed [OF "3.prems"(1)] r "3.prems" by auto
  have "distinct (statements k)" using "3.prems"(1) by (simp add: wf_kb_def)
  from without_step [OF this k'(4)] k' s show ?case by simp
qed

lemma remove_loop_fresh:
  assumes "wf_kb ok k" "distinct xs" "set (drop i xs) \<subseteq> set (statements k)" "i \<le> length xs"
  shows "\<exists>k'. remove_loop ext (Fresh xs) [i..<length xs] k = (loop_end ext, k') \<and> wf_kb ok k' \<and>
    without (set (drop i xs)) k k'"
  using assms
proof (induction "length xs - i" arbitrary: i k)
  case 0
  then show ?case by (simp add: remove_loop_Nil without_def del: remove_loop.simps(1))
next
  case (Suc m)
  then have i: "i < length xs" by simp
  then have dr: "drop i xs = xs ! i # drop (Suc i) xs" by (simp add: Cons_nth_drop_Suc)
  have x: "xs ! i \<in> set (statements k)" using Suc.prems(3) dr by simp
  have "xs ! i \<notin> set (drop (Suc i) xs)"
    using Suc.prems(2) dr by (metis distinct.simps(2) distinct_drop)
  then have sub: "set (drop (Suc i) xs) \<subseteq> set (statements (removed (xs ! i) k))"
    using Suc.prems(1,3) dr by (auto simp: wf_kb_def)
  have "m = length xs - Suc i" "Suc i \<le> length xs" using Suc.hyps(2) i by simp_all
  from Suc.hyps(1) [OF this(1) wf_removed [OF Suc.prems(1) x] Suc.prems(2) sub this(2)] obtain k' where
    k': "remove_loop ext (Fresh xs) [Suc i..<length xs] (removed (xs ! i) k) = (loop_end ext, k')" "wf_kb ok k'"
      "without (set (drop (Suc i) xs)) (removed (xs ! i) k) k'" by blast
  have "remove_loop ext (Fresh xs) (i # [Suc i..<length xs]) k = (loop_end ext, k')"
    using remove_loop_step [OF Suc.prems(1), of i "Fresh xs"] i x k' by simp
  moreover have "distinct (statements k)" using Suc.prems(1) by (simp add: wf_kb_def)
  ultimately show ?case
    using i k' without_step [OF _ k'(3)] dr by (simp add: upt_conv_Cons)
qed

end

text \<open>Whatever array is iterated over, statements go and nothing else changes.\<close>

context term_universe
begin

lemma remove_loop_index:
  assumes "wf_kb ok k" "arr = Subj_array h \<or> arr = Obj_array h"
  shows "\<exists>k' D. remove_loop ext arr is k = (loop_end ext, k') \<and> wf_kb ok k' \<and> without D k k'"
  using assms
proof (induction "is" arbitrary: k)
  case Nil
  have "without {} k k" by (simp add: without_def)
  then show ?case using Nil by (auto simp: remove_loop_Nil simp del: remove_loop.simps(1))
next
  case (Cons i "is")
  show ?case
  proof (cases "i < length (arr_elems k arr)")
    case True
    then have "arr_elems k arr ! i \<in> set (arr_elems k arr)" by simp
    then have x: "arr_elems k arr ! i \<in> set (statements k)"
      using Cons.prems wf_idx [OF Cons.prems(1)] by auto
    from Cons.IH [OF wf_removed [OF Cons.prems(1) x] Cons.prems(2)] obtain k' D where
      k': "remove_loop ext arr is (removed (arr_elems k arr ! i) k) = (loop_end ext, k')" "wf_kb ok k'"
        "without D (removed (arr_elems k arr ! i) k) k'" by blast
    have "distinct (statements k)" using Cons.prems(1) by (simp add: wf_kb_def)
    from without_step [OF this k'(3)] k' remove_loop_step [OF Cons.prems(1) True x, of ext "is"]
    show ?thesis by auto
  next
    case False
    then show ?thesis using Cons by (simp add: Let_def)
  qed
qed

lemma removeMany_without:
  assumes wf: "wf_kb ok k" and o: "opt_ok ok s" "opt_ok ok p" "opt_ok ok ob" "opt_ok ok w"
  shows "\<exists>k' D. removeMany ext (val_of s) (val_of p) (val_of ob) (val_of w) limit k = (loop_end ext, k') \<and>
    wf_kb ok k' \<and> without D k k'"
proof -
  from statementsMatching_found [OF wf o, of False] obtain arr where
    arr: "statementsMatching (val_of s) (val_of p) (val_of ob) (val_of w) False k = (Inr arr, k)"
      "distinct (arr_elems k arr)" "set (arr_elems k arr) \<subseteq> set (statements k)"
    by (auto simp: found_def)
  define arr' where "arr' = (case limit of
      Some n \<Rightarrow> if n \<noteq> 0 then Fresh (slice (arr_elems k arr) 0 n) else arr | None \<Rightarrow> arr)"
  have run: "removeMany ext (val_of s) (val_of p) (val_of ob) (val_of w) limit k =
      remove_loop ext arr' [0..<length (arr_elems k arr')] k"
    using arr(1) by (simp add: removeMany_def bind_step_def arr'_def Let_def)
  have sl: "distinct (slice xs 0 n)" "set (slice xs 0 n) \<subseteq> set xs" if "distinct xs" for xs :: "addr list" and n
    using that set_take_subset by (auto simp: slice_def Let_def dest: in_set_takeD in_set_dropD)
  have "\<exists>k' D. remove_loop ext arr' [0..<length (arr_elems k arr')] k = (loop_end ext, k') \<and> wf_kb ok k' \<and> without D k k'"
  proof (cases arr')
    case (Fresh xs)
    have "distinct xs \<and> set xs \<subseteq> set (statements k)"
      using arr sl [OF arr(2)] Fresh by (auto simp: arr'_def split: option.splits if_splits)
    then show ?thesis using remove_loop_fresh [OF wf, of xs 0 ext] Fresh by auto
  qed (use remove_loop_index [OF wf] in blast)+
  then show ?thesis unfolding run .
qed

end

section \<open>Histories\<close>

text \<open>
  The stores a client can make from a new one by adding triples that trigger no action, by
  removing a statement it has, and by \<open>removeMany\<close>, returning or throwing.
\<close>

inductive kb_history :: "(rdf_term \<Rightarrow> bool) \<Rightarrow> kb \<Rightarrow> bool" for ok where
  new: "kb_history ok (new_indexed_formula n cs)"
| add: "kb_history ok k \<Longrightarrow> ok s \<Longrightarrow> ok p \<Longrightarrow> ok ob \<Longrightarrow> opt_ok ok w \<Longrightarrow>
    actionless k (canon k p) (canon k ob) \<Longrightarrow>
    kb_add (VTerm s) (VTerm p) (VTerm ob) (val_of w) k = (r, k') \<Longrightarrow> kb_history ok k'"
| remove: "kb_history ok k \<Longrightarrow> a \<in> set (statements k) \<Longrightarrow> kb_remove a k = (r, k') \<Longrightarrow>
    kb_history ok k'"
| removeMany: "kb_history ok k \<Longrightarrow> opt_ok ok s \<Longrightarrow> opt_ok ok p \<Longrightarrow> opt_ok ok ob \<Longrightarrow> opt_ok ok w \<Longrightarrow>
    Store.removeMany ext (val_of s) (val_of p) (val_of ob) (val_of w) limit k = (r, k') \<Longrightarrow>
    kb_history ok k'"

definition no_dups :: "kb \<Rightarrow> bool" where
  "no_dups k \<longleftrightarrow> inj_on (\<lambda>a. nt_of (heap k a)) (set (statements k))"

lemma no_dups_without: "no_dups k \<Longrightarrow> without D k k' \<Longrightarrow> no_dups k'"
  by (auto simp: no_dups_def without_def inj_on_def)

lemma no_dups_insert:
  assumes wf: "wf_kb ok k" and nd: "no_dups k" and new: "(toNT s, toNT p, toNT ob) \<notin> triples k"
  shows "no_dups (insert_statement s p ob w hS hP hO k)" (is "no_dups ?k")
proof -
  let ?f = "\<lambda>a. nt_of (heap ?k a)" and ?S = "set (statements k)"
  have same: "?f b = nt_of (heap k b)" if "b \<in> ?S" for b
    using that wf_next_addr [OF wf] by auto
  have "inj_on ?f ?S" using nd same by (simp add: no_dups_def inj_on_def)
  moreover have "?f ` ?S = triples k" using same by (simp add: triples_def)
  moreover have "?f (next_addr k) = (toNT s, toNT p, toNT ob)" by (simp add: nt_of_def)
  ultimately have "inj_on ?f (insert (next_addr k) ?S)"
    using new wf_next_addr [OF wf] by (simp add: inj_on_insert)
  then show ?thesis by (simp add: no_dups_def)
qed

context term_universe
begin

lemma kb_history_invariant:
  "kb_history ok k \<Longrightarrow> wf_kb ok k \<and> flat k \<and> no_dups k"
proof (induction rule: kb_history.induct)
  case (new n cs)
  have "no_dups (new_indexed_formula n cs)" by (simp add: no_dups_def new_indexed_formula_def)
  then show ?case by (simp add: wf_new flat_new)
next
  case (add k s p ob w r k')
  then have wf: "wf_kb ok k" and fl: "flat k" and nd: "no_dups k" by simp_all
  note c = ok_canon [OF wf]
  let ?t = "(toNT (canon k s), toNT (canon k p), toNT (canon k ob))"
  have "opt_ok ok (map_option (canon k) w)" using add c by auto
  note wf' = wf_insert [OF wf c [OF add.hyps(2)] c [OF add.hyps(3)] c [OF add.hyps(4)] this]
  have k': "k' = (if ?t \<in> triples k then k
      else insert_statement (canon k s) (canon k p) (canon k ob) (map_option (canon k) w)
            (toNT (canon k s)) (toNT (canon k p)) (toNT (canon k ob)) k)"
    using kb_add_plain [OF wf fl add.hyps(2-6)] add.hyps(7) by (simp only: prod.inject)
  show ?case
  proof (cases "?t \<in> triples k")
    case True
    then show ?thesis using k' wf fl nd by (simp only: if_True simp_thms)
  next
    case False
    then have k'': "k' = insert_statement (canon k s) (canon k p) (canon k ob) (map_option (canon k) w)
        (toNT (canon k s)) (toNT (canon k p)) (toNT (canon k ob)) k"
      using k' by (simp only: if_False)
    have "flat k'" unfolding k'' using flat_cong [OF insert_statement_fields(2)] fl by blast
    then show ?thesis
      using wf' no_dups_insert [OF wf nd False] unfolding k'' by blast
  qed
next
  case (remove k a r k')
  then have "kb_remove a k = (Inr (), removed a k)" using kb_remove_in by blast
  moreover have "without {a} k (removed a k)" using without_removed remove by blast
  moreover have "flat (removed a k)" using remove flat_cong [OF removed_fields(3)] by blast
  ultimately show ?case
    using remove wf_removed no_dups_without by (metis prod.inject)
next
  case (removeMany k s p ob w ext limit r k')
  then have wf: "wf_kb ok k" and fl: "flat k" and nd: "no_dups k" by simp_all
  from removeMany_without [OF wf removeMany.hyps(2-5), of ext limit] obtain k'' D where
    "Store.removeMany ext (val_of s) (val_of p) (val_of ob) (val_of w) limit k = (loop_end ext, k'')"
    and k'': "wf_kb ok k''" "without D k k''" by blast
  with removeMany.hyps(6) have "k' = k''" by (simp only: prod.inject)
  moreover have "flat k''" using k''(2) flat_cong fl unfolding without_def by blast
  ultimately show ?case using k'' no_dups_without [OF nd k''(2)] by blast
qed

end

section \<open>Stores to evaluate on\<close>

fun sym_store :: "(string \<times> string \<times> string) list \<Rightarrow> kb" where
  "sym_store [] = new_indexed_formula 0 Map.empty"
| "sym_store ((s, p, ob) # ts) =
     insert_statement (RDFSymbol s) (RDFSymbol p) (RDFSymbol ob) None
       (symbol_toNT s) (symbol_toNT p) (symbol_toNT ob) (sym_store ts)"

lemma sym_store_fields [simp]:
  "redirection (sym_store ts) = Map.empty"
  "next_addr (sym_store ts) = length ts"
  "propertyAction (sym_store ts) = propertyAction (new_indexed_formula 0 Map.empty)"
  "classAction (sym_store ts) = classAction (new_indexed_formula 0 Map.empty)"
  "statements (sym_store ts) = [0..<length ts]"
  by (induction ts) (auto simp: new_indexed_formula_def)

lemma flat_sym_store [simp]: "flat (sym_store ts)"
  by (simp add: flat_def)

lemma wf_sym_store [simp]: "wf_kb (ok_term ty C) (sym_store ts)"
proof (induction ts)
  case (Cons t ts)
  obtain s p ob where t: "t = (s, p, ob)" by (cases t)
  show ?case
    using wf_insert [OF Cons, of "RDFSymbol s" "RDFSymbol p" "RDFSymbol ob" None] by (simp add: t)
qed (simp add: wf_new)

lemma canon_sym_store [simp]: "canon (sym_store ts) t = t"
  by (simp add: canon_def)

lemma lookup_subject_array:
  assumes "wf_kb (ok_term ty C) k" "ok_term ty C s" "settled k s"
    and ne: "idx (subjectIndex k) (toNT s) \<noteq> []"
  shows "statementsMatching (VTerm s) VUndefined VUndefined VUndefined False k =
    (Inr (Subj_array (toNT s)), k)"
proof -
  from ne obtain xs where "subjectIndex k (toNT s) = Some xs"
    by (cases "subjectIndex k (toNT s)") (simp_all add: idx_def)
  then show ?thesis
    using assms terms.ok_redirect [OF assms(2), of k] terms.ok_hashString [OF assms(2)]
    by (simp add: statementsMatching_def bind_step_def ret_def lookup_terms_def)
qed

lemma lookup_predicate_fresh:
  "lookup_terms s (Some p) ob w one k = Inr arr \<Longrightarrow> \<exists>r. arr = Fresh r"
  by (auto simp: lookup_terms_def bind_res_Inr_iff split: option.splits if_splits)

section \<open>Properties\<close>

text \<open>
  C2. Adding a triple to a well-formed store whose redirections do not chain
  (\<open>flat\<close>: what a term is redirected to is not redirected again) returns
  normally, keeps the store well-formed and flat and is insertion into the set of triples,
  each term replaced by what it is redirected to; a triple that is there already changes
  nothing. The terms are such as the store may hold (\<open>ok_term\<close>), and the triple
  triggers no action (\<open>actionless\<close>): its predicate has none, or it is a type
  statement about a class that has none.
\<close>

theorem kb_add_spec:
  assumes "wf_kb (ok_term ty C) k" "flat k"
    and "ok_term ty C s" "ok_term ty C p" "ok_term ty C ob" "opt_ok (ok_term ty C) w"
    and "actionless k (canon k p) (canon k ob)"
  shows "\<exists>k'. kb_add (VTerm s) (VTerm p) (VTerm ob) (val_of w) k = (Inr (), k') \<and>
    wf_kb (ok_term ty C) k' \<and> flat k' \<and>
    triples k' = insert (toNT (canon k s), toNT (canon k p), toNT (canon k ob)) (triples k) \<and>
    ((toNT (canon k s), toNT (canon k p), toNT (canon k ob)) \<in> triples k \<longrightarrow> k' = k)"
proof -
  let ?t = "(toNT (canon k s), toNT (canon k p), toNT (canon k ob))"
  note add = terms.kb_add_plain [OF assms]
  show ?thesis
  proof (cases "?t \<in> triples k")
    case True
    then have "kb_add (VTerm s) (VTerm p) (VTerm ob) (val_of w) k = (Inr (), k)"
      using add by (simp only: if_True)
    then show ?thesis using assms(1,2) True by (blast intro: insert_absorb [symmetric])
  next
    case False
    define k' where "k' = insert_statement (canon k s) (canon k p) (canon k ob) (map_option (canon k) w)
        (toNT (canon k s)) (toNT (canon k p)) (toNT (canon k ob)) k"
    have "opt_ok (ok_term ty C) (map_option (canon k) w)"
      using assms(6) terms.ok_canon [OF assms(1)] by auto
    then have "wf_kb (ok_term ty C) k'"
      unfolding k'_def using assms(3-5) terms.ok_canon [OF assms(1)] by (intro wf_insert [OF assms(1)])
    moreover have "flat k'" using flat_cong [OF insert_statement_fields(2)] assms(2) k'_def by blast
    moreover have "triples k' = insert ?t (triples k)"
      unfolding k'_def by (rule triples_insert [OF assms(1)])
    ultimately show ?thesis using add False by (auto simp: k'_def)
  qed
qed

theorem kb_add_spec_witness:
  "\<exists>k'. kb_add (VTerm (RDFSymbol ''s'')) (VTerm (RDFSymbol ''p'')) (VTerm (RDFSymbol ''o'')) (val_of None)
      (sym_store [(''a'', ''b'', ''c'')]) = (Inr (), k') \<and> wf_kb (ok_term (\<lambda>_. True) {}) k' \<and>
    (symbol_toNT ''s'', symbol_toNT ''p'', symbol_toNT ''o'') \<in> triples k'"
proof -
  let ?k = "sym_store [(''a'', ''b'', ''c'')]"
  have act: "actionless ?k (canon ?k (RDFSymbol ''p'')) (canon ?k ob)" for ob
    unfolding canon_sym_store actionless_def sym_store_fields by (simp add: new_indexed_formula_def symbol_toNT_def)
  have ok: "ok_term (\<lambda>_. True) {} (RDFSymbol x)" "opt_ok (ok_term (\<lambda>_. True) {}) None" for x by simp_all
  from kb_add_spec [OF wf_sym_store flat_sym_store ok(1) ok(1) ok(1) ok(2) act, of "''s''" "''o''"]
  obtain k' where "kb_add (VTerm (RDFSymbol ''s'')) (VTerm (RDFSymbol ''p'')) (VTerm (RDFSymbol ''o''))
      (val_of None) ?k = (Inr (), k')" "wf_kb (ok_term (\<lambda>_. True) {}) k'"
    "triples k' = insert (toNT (canon ?k (RDFSymbol ''s'')), toNT (canon ?k (RDFSymbol ''p'')),
      toNT (canon ?k (RDFSymbol ''o''))) (triples ?k)" by blast
  then show ?thesis unfolding canon_sym_store by (intro exI [of _ k']) simp
qed

text \<open>
  C6. Removing a statement of a well-formed store returns normally, keeps the store
  well-formed (no index keeps a trace of the statement) and takes that statement, and no
  other, out of the list.
\<close>

theorem kb_remove_spec:
  assumes "wf_kb (ok_term ty C) k" "a \<in> set (statements k)"
  shows "\<exists>k'. kb_remove a k = (Inr (), k') \<and> wf_kb (ok_term ty C) k' \<and> heap k' = heap k \<and>
    statements k' = filter (\<lambda>b. b \<noteq> a) (statements k) \<and>
    (\<forall>h. a \<notin> set (idx (subjectIndex k') h) \<and> a \<notin> set (idx (predicateIndex k') h) \<and>
       a \<notin> set (idx (objectIndex k') h))"
proof -
  have wf: "wf_kb (ok_term ty C) (removed a k)" using assms by (rule wf_removed)
  have "statements (removed a k) = filter (\<lambda>b. b \<noteq> a) (statements k)"
    using without_removed [OF assms(1)] by (simp add: without_def)
  then show ?thesis
    using terms.kb_remove_in [OF assms] wf wf_idx [OF wf] by auto
qed

theorem kb_remove_spec_witness:
  "\<exists>k'. kb_remove 0 (sym_store [(''a'', ''b'', ''c''), (''d'', ''e'', ''f'')]) = (Inr (), k') \<and>
     statements k' = [1]"
  using kb_remove_spec [OF wf_sym_store [of "\<lambda>_. True" "{}" "[(''a'', ''b'', ''c''), (''d'', ''e'', ''f'')]"], of 0]
  by (auto simp: numeral_2_eq_2 simp del: sym_store.simps)

text \<open>
  \<open>removeMany\<close> with a predicate in its pattern and no limit removes exactly the
  matching statements, on a page that does not extend \<open>Array.prototype\<close>; on one that does, it
  does the same and then throws.
\<close>

lemma removeMany_predicate_spec:
  assumes wf: "wf_kb (ok_term ty C) k"
    and o: "opt_ok (ok_term ty C) s" "ok_term ty C p" "opt_ok (ok_term ty C) ob" "opt_ok (ok_term ty C) w"
  shows "\<exists>k'. removeMany ext (val_of s) (VTerm p) (val_of ob) (val_of w) None k = (loop_end ext, k') \<and>
    wf_kb (ok_term ty C) k' \<and> heap k' = heap k \<and>
    statements k' = filter (\<lambda>a. \<not> stmt_pat (hop2 k s) (hop2 k (Some p)) (hop2 k ob)
      (map_option (canon k) w) (heap k a)) (statements k)"
proof -
  let ?P = "stmt_pat (hop2 k s) (hop2 k (Some p)) (hop2 k ob) (map_option (canon k) w)"
  have "opt_ok (ok_term ty C) (Some p)" using o(2) by simp
  from terms.statementsMatching_found [OF wf o(1) this o(3,4), of False] obtain arr where
    arr: "statementsMatching (val_of s) (VTerm p) (val_of ob) (val_of w) False k = (Inr arr, k)"
      "found k ?P False arr" by auto
  then have "lookup_terms (map_option (canon k) s) (Some (canon k p)) (map_option (canon k) ob)
      (map_option (canon k) w) False k = Inr arr"
    using terms.ok_makeTerm [OF o(1)] terms.ok_makeTerm [OF o(3)]
      terms.ok_makeTerm [OF o(4)] terms.ok_redirect [OF o(2)]
    by (auto simp: statementsMatching_def bind_step_def)
  from lookup_predicate_fresh [OF this] obtain xs where xs: "arr = Fresh xs" by blast
  have d: "distinct xs" "set xs = {a \<in> set (statements k). ?P (heap k a)}"
    using arr(2) xs by (simp_all add: found_def)
  from terms.remove_loop_fresh [OF wf d(1), of 0 ext] d(2) obtain k' where
    k': "remove_loop ext (Fresh xs) [0..<length xs] k = (loop_end ext, k')" "wf_kb (ok_term ty C) k'"
      "without (set xs) k k'" by auto
  have "statements k' = filter (\<lambda>a. \<not> ?P (heap k a)) (statements k)"
    using k'(3) d(2) by (auto simp: without_def intro!: filter_cong)
  then show ?thesis
    using k' arr(1) xs by (auto simp: removeMany_def bind_step_def without_def)
qed

lemma removeMany_predicate_spec_witness:
  "\<exists>k'. removeMany False (val_of None) (VTerm (RDFSymbol ''b'')) (val_of None) (val_of None) None
      (sym_store [(''a'', ''b'', ''c''), (''d'', ''e'', ''f'')]) = (Inr (), k') \<and> wf_kb (ok_term (\<lambda>_. True) {}) k'"
  using removeMany_predicate_spec [OF wf_sym_store [of "\<lambda>_. True" "{}" "[(''a'', ''b'', ''c''), (''d'', ''e'', ''f'')]"],
      of None "RDFSymbol ''b''" None None False] by (auto simp: loop_end_def simp del: sym_store.simps)

text \<open>
  C23. \<open>removeMany\<close> with only a subject, in a well-formed store and for a
  subject that is not redirected and has statements, iterates over the subject's index array
  while \<open>remove\<close> shrinks it: every other statement of the subject survives, the
  second, the fourth and so on, and no statement of another subject is lost. It returns
  normally where arrays inherit nothing that is enumerable; on a page with
  \<open>widget-factory.js\<close>, which adds \<open>contains\<close> to
  \<open>Array.prototype\<close>, it does the same and then throws a
  \<open>TypeError\<close>, as its \<open>for .. in\<close> loop passes that function to
  \<open>remove\<close>.
\<close>

theorem removeMany_subject_keeps_half:
  assumes wf: "wf_kb (ok_term ty C) k" and s: "ok_term ty C s" "settled k s"
    and xs: "idx (subjectIndex k) (toNT s) = xs" "xs \<noteq> []"
  shows "\<exists>k'. removeMany ext (VTerm s) VUndefined VUndefined VUndefined None k =
      (if ext then Inl TypeError else Inr (), k') \<and>
    wf_kb (ok_term ty C) k' \<and> idx (subjectIndex k') (toNT s) = thin xs \<and>
    length (thin xs) = length xs div 2 \<and>
    statements k' = filter (\<lambda>a. a \<notin> set (thick xs)) (statements k)"
proof -
  have "statementsMatching (VTerm s) VUndefined VUndefined VUndefined False k =
      (Inr (Subj_array (toNT s)), k)"
    using lookup_subject_array [OF wf s] xs by simp
  moreover from terms.remove_loop_alias [OF wf, of "toNT s" "[]" xs 0 "length xs" ext] xs(1)
  obtain k' where "remove_loop ext (Subj_array (toNT s)) [0..<length xs] k = (loop_end ext, k')"
    "wf_kb (ok_term ty C) k'" "idx (subjectIndex k') (toNT s) = thin xs" "without (set (thick xs)) k k'"
    by auto
  ultimately show ?thesis
    using xs(1) by (auto simp: removeMany_def bind_step_def without_def length_thin loop_end_def)
qed

theorem removeMany_subject_keeps_half_witness:
  "\<exists>k'. removeMany True (VTerm (RDFSymbol ''s'')) VUndefined VUndefined VUndefined None
      (sym_store [(''s'', ''p'', ''x''), (''s'', ''p'', ''y'')]) = (Inl TypeError, k') \<and> statements k' = [1]"
proof -
  let ?k = "sym_store [(''s'', ''p'', ''x''), (''s'', ''p'', ''y'')]"
  have "idx (subjectIndex ?k) (toNT (RDFSymbol ''s'')) = [0, 1]"
    by (simp add: idx_push) (simp add: idx_def new_indexed_formula_def)
  with removeMany_subject_keeps_half [OF wf_sym_store [of "\<lambda>_. True" "{}"], of "RDFSymbol ''s''"
      "[(''s'', ''p'', ''x''), (''s'', ''p'', ''y'')]" "[0, 1]" True]
  show ?thesis by (auto simp: settled_def numeral_2_eq_2 simp del: sym_store.simps)
qed

text \<open>
  C15. Every store made from a new one by adding triples that trigger no action, removing
  statements that it has, and \<open>removeMany\<close>, whether that returns or throws, is
  well-formed, has a flat redirection table, and holds no triple twice. The terms of all
  triples and patterns are of one universe (\<open>ok_term\<close>). Statements with
  \<open>owl:sameAs\<close>, \<open>link:obsoletes\<close> or a functional or inverse
  functional property, and declarations of such properties, are not among the triples added:
  they make redirections, which may chain.
\<close>

theorem kb_history_safe:
  assumes "kb_history (ok_term ty C) k"
  shows "wf_kb (ok_term ty C) k \<and> flat k \<and> no_dups k"
  using assms by (rule terms.kb_history_invariant)

theorem kb_history_safe_witness:
  "\<exists>k. kb_history (ok_term (\<lambda>_. True) {}) k \<and> no_dups k \<and> triples k \<noteq> {}"
proof -
  have new: "kb_history (ok_term (\<lambda>_. True) {}) (sym_store [])" by (simp add: kb_history.new)
  have act: "actionless (sym_store []) (canon (sym_store []) (RDFSymbol ''p'')) (canon (sym_store []) ob)" for ob
    unfolding canon_sym_store actionless_def by (simp add: new_indexed_formula_def symbol_toNT_def)
  let ?c = "kb_add (VTerm (RDFSymbol ''s'')) (VTerm (RDFSymbol ''p'')) (VTerm (RDFSymbol ''o''))
      (val_of None) (sym_store [])"
  have "kb_history (ok_term (\<lambda>_. True) {}) (snd ?c)"
    by (rule kb_history.add [OF new _ _ _ _ act, where r = "fst ?c" and s = "RDFSymbol ''s''"
      and ob = "RDFSymbol ''o''" and w = None]) (simp_all del: sym_store.simps)
  moreover have "triples (snd ?c) \<noteq> {}"
    using terms.kb_add_plain [OF wf_sym_store flat_sym_store _ _ _ _ act, of "\<lambda>_. True" "{}" "RDFSymbol ''s''"
        "RDFSymbol ''o''" None] triples_insert [OF wf_sym_store]
    by (auto simp del: sym_store.simps)
  ultimately show ?thesis using kb_history_safe [of "\<lambda>_. True" "{}" "snd ?c"] by blast
qed

end
