(* ===== verification/StoreEquate.thy ===== *)
theory StoreEquate
  imports StoreUpdate
begin

text \<open>
  Merging nodes: \<open>replaceWith\<close> renames a term in every statement, index and action table and
  leaves a redirection, \<open>equate\<close> chooses the direction, and \<open>owl:sameAs\<close> triggers it.
\<close>

section \<open>The renaming of one position\<close>

definition swap_term :: "string \<Rightarrow> rdf_term \<Rightarrow> rdf_term \<Rightarrow> rdf_term" where
  "swap_term hb small t = (if toNT t = hb then small else t)"

text \<open>Two stores with the same statement objects, each changed by a function.\<close>

definition moved :: "(rdf_statement \<Rightarrow> rdf_statement) \<Rightarrow> kb \<Rightarrow> kb \<Rightarrow> bool" where
  "moved f k k' \<longleftrightarrow> statements k' = statements k \<and> next_addr k' = next_addr k \<and>
     redirection k' = redirection k \<and> classAction k' = classAction k \<and>
     propertyAction k' = propertyAction k \<and>
     (\<forall>a\<in>set (statements k). heap k' a = f (heap k a))"

lemma moved_trans: "moved f k k' \<Longrightarrow> moved g k' k'' \<Longrightarrow> moved (g \<circ> f) k k''"
  by (auto simp: moved_def)

lemma settled_moved: "moved f k k' \<Longrightarrow> settled k' t = settled k t"
  by (simp add: moved_def settled_def)

lemma move_subjects_eq:
  "move_subjects small h as k =
    k\<lparr>heap := (\<lambda>a. if a \<in> set as then (heap k a)\<lparr>st_subject := small\<rparr> else heap k a),
      subjectIndex := push_all h as (subjectIndex k)\<rparr>"
  by (induction as arbitrary: k) (auto simp: push_all_Cons fun_eq_iff, simp_all add: push_all_def)

lemma move_predicates_eq:
  "move_predicates small h as k =
    k\<lparr>heap := (\<lambda>a. if a \<in> set as then (heap k a)\<lparr>st_predicate := small\<rparr> else heap k a),
      predicateIndex := push_all h as (predicateIndex k)\<rparr>"
  by (induction as arbitrary: k) (auto simp: push_all_Cons fun_eq_iff, simp_all add: push_all_def)

lemma move_objects_eq:
  "move_objects small h as k =
    k\<lparr>heap := (\<lambda>a. if a \<in> set as then (heap k a)\<lparr>st_object := small\<rparr> else heap k a),
      objectIndex := push_all h as (objectIndex k)\<rparr>"
  by (induction as arbitrary: k) (auto simp: push_all_Cons fun_eq_iff, simp_all add: push_all_def)

lemma index_ok_move_list:
  assumes ok: "index_ok sel ix hp sts" and ne: "toNT small \<noteq> hb"
    and xs: "distinct xs" "set xs = {a \<in> set sts. toNT (sel (hp a)) = hb}"
    and hp: "\<And>a. a \<in> set sts \<Longrightarrow> sel (hp' a) = swap_term hb small (sel (hp a))"
  shows "index_ok sel ((push_all (toNT small) xs ix)(hb := None)) hp' sts"
  unfolding index_ok_def
proof
  fix h'
  let ?ix = "(push_all (toNT small) xs ix)(hb := None)"
  have s: "set (idx ix h) = {a \<in> set sts. toNT (sel (hp a)) = h}" "distinct (idx ix h)" for h
    using ok by (simp_all add: index_ok_def)
  have t: "a \<in> set sts \<Longrightarrow> toNT (sel (hp' a)) =
      (if toNT (sel (hp a)) = hb then toNT small else toNT (sel (hp a)))" for a
    by (simp add: hp swap_term_def)
  have "idx ?ix h' = (if h' = hb then [] else if h' = toNT small then idx ix h' @ xs else idx ix h')"
    using ne by (auto simp: push_all_def)
  moreover have "set (idx ix (toNT small)) \<inter> set xs = {}"
    using ne s xs by auto
  ultimately show "distinct (idx ?ix h') \<and> set (idx ?ix h') = {a \<in> set sts. toNT (sel (hp' a)) = h'}"
    using s xs ne t by (auto split: if_splits)
qed

definition swap_subject :: "string \<Rightarrow> rdf_term \<Rightarrow> rdf_statement \<Rightarrow> rdf_statement" where
  "swap_subject hb small st = st\<lparr>st_subject := swap_term hb small (st_subject st)\<rparr>"

definition swap_predicate :: "string \<Rightarrow> rdf_term \<Rightarrow> rdf_statement \<Rightarrow> rdf_statement" where
  "swap_predicate hb small st = st\<lparr>st_predicate := swap_term hb small (st_predicate st)\<rparr>"

definition swap_object :: "string \<Rightarrow> rdf_term \<Rightarrow> rdf_statement \<Rightarrow> rdf_statement" where
  "swap_object hb small st = st\<lparr>st_object := swap_term hb small (st_object st)\<rparr>"

lemmas swap_defs = swap_subject_def swap_predicate_def swap_object_def

lemma wf_move_subjects:
  assumes wf: "wf_kb ok k" and o: "ok small" and ne: "toNT small \<noteq> hb"
    and xs: "distinct xs" "set xs = {a \<in> set (statements k). toNT (st_subject (heap k a)) = hb}"
  defines "k' \<equiv> (move_subjects small (toNT small) xs k)\<lparr>subjectIndex :=
    (subjectIndex (move_subjects small (toNT small) xs k))(hb := None)\<rparr>"
  shows "wf_kb ok k' \<and> moved (swap_subject hb small) k k'"
proof -
  have m: "moved (swap_subject hb small) k k'"
    using xs(2) by (auto simp: k'_def moved_def move_subjects_eq swap_defs swap_term_def)
  then have hp: "heap k' a = swap_subject hb small (heap k a)" if "a \<in> set (statements k)" for a
    using that by (simp add: moved_def)
  have "index_ok st_subject (subjectIndex k) (heap k) (statements k)" using wf by (simp add: wf_kb_def)
  from index_ok_move_list [OF this ne xs, of "heap k'"] hp
  have "index_ok st_subject (subjectIndex k') (heap k') (statements k)"
    by (simp add: k'_def move_subjects_eq swap_defs)
  moreover have "index_ok st_predicate (predicateIndex k) (heap k') (statements k)"
    "index_ok st_object (objectIndex k) (heap k') (statements k)"
    using wf hp by (auto simp: wf_kb_def swap_defs elim!: index_ok_cong)
  moreover have "stmt_ok ok (heap k' a)" if "a \<in> set (statements k)" for a
    using that hp o wf_stmt_ok [OF wf] by (auto simp: stmt_ok_def swap_defs swap_term_def)
  moreover have "predicateIndex k' = predicateIndex k" "objectIndex k' = objectIndex k"
    by (simp_all add: k'_def move_subjects_eq)
  ultimately show ?thesis using wf m by (simp add: wf_kb_def moved_def)
qed

lemma wf_move_predicates:
  assumes wf: "wf_kb ok k" and o: "ok small" and ne: "toNT small \<noteq> hb"
    and xs: "distinct xs" "set xs = {a \<in> set (statements k). toNT (st_predicate (heap k a)) = hb}"
  defines "k' \<equiv> (move_predicates small (toNT small) xs k)\<lparr>predicateIndex :=
    (predicateIndex (move_predicates small (toNT small) xs k))(hb := None)\<rparr>"
  shows "wf_kb ok k' \<and> moved (swap_predicate hb small) k k'"
proof -
  have m: "moved (swap_predicate hb small) k k'"
    using xs(2) by (auto simp: k'_def moved_def move_predicates_eq swap_defs swap_term_def)
  then have hp: "heap k' a = swap_predicate hb small (heap k a)" if "a \<in> set (statements k)" for a
    using that by (simp add: moved_def)
  have "index_ok st_predicate (predicateIndex k) (heap k) (statements k)" using wf by (simp add: wf_kb_def)
  from index_ok_move_list [OF this ne xs, of "heap k'"] hp
  have "index_ok st_predicate (predicateIndex k') (heap k') (statements k)"
    by (simp add: k'_def move_predicates_eq swap_defs)
  moreover have "index_ok st_subject (subjectIndex k) (heap k') (statements k)"
    "index_ok st_object (objectIndex k) (heap k') (statements k)"
    using wf hp by (auto simp: wf_kb_def swap_defs elim!: index_ok_cong)
  moreover have "stmt_ok ok (heap k' a)" if "a \<in> set (statements k)" for a
    using that hp o wf_stmt_ok [OF wf] by (auto simp: stmt_ok_def swap_defs swap_term_def)
  moreover have "subjectIndex k' = subjectIndex k" "objectIndex k' = objectIndex k"
    by (simp_all add: k'_def move_predicates_eq)
  ultimately show ?thesis using wf m by (simp add: wf_kb_def moved_def)
qed

lemma wf_move_objects:
  assumes wf: "wf_kb ok k" and o: "ok small" and ne: "toNT small \<noteq> hb"
    and xs: "distinct xs" "set xs = {a \<in> set (statements k). toNT (st_object (heap k a)) = hb}"
  defines "k' \<equiv> (move_objects small (toNT small) xs k)\<lparr>objectIndex :=
    (objectIndex (move_objects small (toNT small) xs k))(hb := None)\<rparr>"
  shows "wf_kb ok k' \<and> moved (swap_object hb small) k k'"
proof -
  have m: "moved (swap_object hb small) k k'"
    using xs(2) by (auto simp: k'_def moved_def move_objects_eq swap_defs swap_term_def)
  then have hp: "heap k' a = swap_object hb small (heap k a)" if "a \<in> set (statements k)" for a
    using that by (simp add: moved_def)
  have "index_ok st_object (objectIndex k) (heap k) (statements k)" using wf by (simp add: wf_kb_def)
  from index_ok_move_list [OF this ne xs, of "heap k'"] hp
  have "index_ok st_object (objectIndex k') (heap k') (statements k)"
    by (simp add: k'_def move_objects_eq swap_defs)
  moreover have "index_ok st_subject (subjectIndex k) (heap k') (statements k)"
    "index_ok st_predicate (predicateIndex k) (heap k') (statements k)"
    using wf hp by (auto simp: wf_kb_def swap_defs elim!: index_ok_cong)
  moreover have "stmt_ok ok (heap k' a)" if "a \<in> set (statements k)" for a
    using that hp o wf_stmt_ok [OF wf] by (auto simp: stmt_ok_def swap_defs swap_term_def)
  moreover have "subjectIndex k' = subjectIndex k" "predicateIndex k' = predicateIndex k"
    by (simp_all add: k'_def move_objects_eq)
  ultimately show ?thesis using wf m by (simp add: wf_kb_def moved_def)
qed

section \<open>\<open>replaceWith\<close>\<close>

definition swap_nt :: "string \<Rightarrow> string \<Rightarrow> nt_triple \<Rightarrow> nt_triple" where
  "swap_nt hb hs t = (let f = \<lambda>x. if x = hb then hs else x in
     case t of (s, p, ob) \<Rightarrow> (f s, f p, f ob))"

definition swap_statement :: "string \<Rightarrow> rdf_term \<Rightarrow> rdf_statement \<Rightarrow> rdf_statement" where
  "swap_statement hb small = swap_object hb small \<circ> swap_predicate hb small \<circ> swap_subject hb small"

lemma nt_of_swap: "nt_of (swap_statement hb small st) = swap_nt hb (toNT small) (nt_of st)"
  by (simp add: nt_of_def swap_statement_def swap_defs swap_term_def swap_nt_def Let_def)

lemma merge_actions_fields [simp]:
  "heap (merge_actions b hb hs s k) = heap k"
  "statements (merge_actions b hb hs s k) = statements k"
  "next_addr (merge_actions b hb hs s k) = next_addr k"
  "redirection (merge_actions b hb hs s k) = redirection k"
  "subjectIndex (merge_actions b hb hs s k) = subjectIndex k"
  "predicateIndex (merge_actions b hb hs s k) = predicateIndex k"
  "objectIndex (merge_actions b hb hs s k) = objectIndex k"
  by (simp_all add: merge_actions_def Let_def do_alert_def split: option.splits)

lemma merge_actions_actions:
  "classAction (merge_actions b hb hs s k) hs =
     (case classAction k hs of Some x \<Rightarrow> Some x | None \<Rightarrow> classAction k hb)"
  "propertyAction (merge_actions b hb hs s k) hs =
     (case propertyAction k hs of Some x \<Rightarrow> Some x | None \<Rightarrow> propertyAction k hb)"
  by (simp_all add: merge_actions_def Let_def do_alert_def split: option.splits)

text \<open>The store a renaming leaves, up to the alerts.\<close>

definition renamed :: "rdf_term \<Rightarrow> rdf_term \<Rightarrow> kb \<Rightarrow> kb \<Rightarrow> bool" where
  "renamed big small k k' \<longleftrightarrow>
     statements k' = statements k \<and> next_addr k' = next_addr k \<and>
     (\<forall>a\<in>set (statements k). heap k' a = swap_statement (toNT big) small (heap k a)) \<and>
     redirection k' = (redirection k)(toNT big \<mapsto> small) \<and>
     propertyAction k' (toNT small) =
       (case propertyAction k (toNT small) of Some x \<Rightarrow> Some x | None \<Rightarrow> propertyAction k (toNT big)) \<and>
     classAction k' (toNT small) =
       (case classAction k (toNT small) of Some x \<Rightarrow> Some x | None \<Rightarrow> classAction k (toNT big))"

lemma renamed_triples: "renamed big small k k' \<Longrightarrow> triples k' = swap_nt (toNT big) (toNT small) ` triples k"
  by (auto simp: renamed_def triples_def nt_of_swap image_image)

lemma renamed_canon:
  assumes "renamed big small k k'" "settled k small" "toNT small \<noteq> toNT big"
  shows "canon k' big = small" "canon k' small = small"
  using assms by (auto simp: renamed_def canon_def settled_def)

lemma renamed_flat:
  assumes "renamed big small k k'" "flat k" "settled k small" "toNT small \<noteq> toNT big"
    and "\<And>h y. redirection k h = Some y \<Longrightarrow> toNT y \<noteq> toNT big"
  shows "flat k'"
  using assms by (auto simp: renamed_def flat_def settled_def)

context term_universe
begin

lemma moving_eq:
  "ok small \<Longrightarrow> (\<And>h k. mv small h [] k = k) \<Longrightarrow>
   moving small mv arr k = (Inr (), mv small (toNT small) (arr_elems k arr) k)"
  by (simp add: moving_def split: list.splits)

lemma lookup_settled:
  assumes wf: "wf_kb ok k" and b: "ok big" "settled k big"
  shows "\<exists>arr. statementsMatching (VTerm big) VUndefined VUndefined VUndefined False k = (Inr arr, k) \<and>
      distinct (arr_elems k arr) \<and>
      set (arr_elems k arr) = {a \<in> set (statements k). toNT (st_subject (heap k a)) = toNT big}"
    and "\<exists>arr. statementsMatching VUndefined (VTerm big) VUndefined VUndefined False k = (Inr arr, k) \<and>
      distinct (arr_elems k arr) \<and>
      set (arr_elems k arr) = {a \<in> set (statements k). toNT (st_predicate (heap k a)) = toNT big}"
    and "\<exists>arr. statementsMatching VUndefined VUndefined (VTerm big) VUndefined False k = (Inr arr, k) \<and>
      distinct (arr_elems k arr) \<and>
      set (arr_elems k arr) = {a \<in> set (statements k). toNT (st_object (heap k a)) = toNT big}"
proof -
  have o: "opt_ok ok (Some big)" "opt_ok ok None" using b by simp_all
  note found = statementsMatching_found [OF wf, of _ _ _ _ False]
  note simps = hop2_def stmt_pat_def pat_match_def found_def b eq_commute [of "toNT big"]
  from found [OF o(1,2,2,2)]
  show "\<exists>arr. statementsMatching (VTerm big) VUndefined VUndefined VUndefined False k = (Inr arr, k) \<and>
      distinct (arr_elems k arr) \<and>
      set (arr_elems k arr) = {a \<in> set (statements k). toNT (st_subject (heap k a)) = toNT big}"
    by (simp add: simps) blast
  from found [OF o(2,1,2,2)]
  show "\<exists>arr. statementsMatching VUndefined (VTerm big) VUndefined VUndefined False k = (Inr arr, k) \<and>
      distinct (arr_elems k arr) \<and>
      set (arr_elems k arr) = {a \<in> set (statements k). toNT (st_predicate (heap k a)) = toNT big}"
    by (simp add: simps) blast
  from found [OF o(2,2,1,2)]
  show "\<exists>arr. statementsMatching VUndefined VUndefined (VTerm big) VUndefined False k = (Inr arr, k) \<and>
      distinct (arr_elems k arr) \<and>
      set (arr_elems k arr) = {a \<in> set (statements k). toNT (st_object (heap k a)) = toNT big}"
    by (simp add: simps) blast
qed

lemma replaceWith_spec:
  assumes wf: "wf_kb ok k" and o: "ok big" "ok small" and b: "settled k big"
    and ne: "toNT small \<noteq> toNT big"
  shows "\<exists>k'. replaceWith big small k = (Inr False, k') \<and> wf_kb ok k' \<and> renamed big small k k'"
proof -
  let ?hb = "toNT big" and ?hs = "toNT small"
  obtain a1 where a1: "statementsMatching (VTerm big) VUndefined VUndefined VUndefined False k = (Inr a1, k)"
    "distinct (arr_elems k a1)"
    "set (arr_elems k a1) = {a \<in> set (statements k). toNT (st_subject (heap k a)) = ?hb}"
    using lookup_settled(1) [OF wf o(1) b] by blast
  define m1 where "m1 = move_subjects small ?hs (arr_elems k a1) k"
  define k1 where "k1 = m1\<lparr>subjectIndex := (subjectIndex m1)(?hb := None)\<rparr>"
  have k1: "wf_kb ok k1" "moved (swap_subject ?hb small) k k1"
    using wf_move_subjects [OF wf o(2) ne a1(2,3)] by (simp_all add: k1_def m1_def)
  have b1: "settled k1 big" using b settled_moved [OF k1(2)] by simp
  obtain a2 where a2: "statementsMatching VUndefined (VTerm big) VUndefined VUndefined False k1 = (Inr a2, k1)"
    "distinct (arr_elems k1 a2)"
    "set (arr_elems k1 a2) = {a \<in> set (statements k1). toNT (st_predicate (heap k1 a)) = ?hb}"
    using lookup_settled(2) [OF k1(1) o(1) b1] by blast
  define m2 where "m2 = move_predicates small ?hs (arr_elems k1 a2) k1"
  define k2 where "k2 = m2\<lparr>predicateIndex := (predicateIndex m2)(?hb := None)\<rparr>"
  have k2: "wf_kb ok k2" "moved (swap_predicate ?hb small) k1 k2"
    using wf_move_predicates [OF k1(1) o(2) ne a2(2,3)] by (simp_all add: k2_def m2_def)
  have b2: "settled k2 big" using b1 settled_moved [OF k2(2)] by simp
  obtain a3 where a3: "statementsMatching VUndefined VUndefined (VTerm big) VUndefined False k2 = (Inr a3, k2)"
    "distinct (arr_elems k2 a3)"
    "set (arr_elems k2 a3) = {a \<in> set (statements k2). toNT (st_object (heap k2 a)) = ?hb}"
    using lookup_settled(3) [OF k2(1) o(1) b2] by blast
  define m3 where "m3 = move_objects small ?hs (arr_elems k2 a3) k2"
  define k3 where "k3 = m3\<lparr>objectIndex := (objectIndex m3)(?hb := None)\<rparr>"
  have k3: "wf_kb ok k3" "moved (swap_object ?hb small) k2 k3"
    using wf_move_objects [OF k2(1) o(2) ne a3(2,3)] by (simp_all add: k3_def m3_def)
  define k4 where "k4 = k3\<lparr>redirection := (redirection k3)(?hb \<mapsto> small)\<rparr>"
  have m: "moved (swap_statement ?hb small) k k3"
    using moved_trans [OF moved_trans [OF k1(2) k2(2)] k3(2)]
    by (simp add: swap_statement_def comp_assoc)
  have acts: "classAction m3 = classAction k4" "propertyAction m3 = propertyAction k4"
    by (simp_all add: k3_def k4_def)
  have run: "replaceWith big small k =
      (if classAction k4 ?hb = None \<and> propertyAction k4 ?hb = None then (Inr False, k4)
       else (Inr False, merge_actions big ?hb ?hs small k4))"
    using a1(1) a2(1) a3(1) o
    by (simp add: replaceWith_def bind_step_def then_step_def moving_eq lift_res_def modify_def
        m1_def [symmetric] k1_def [symmetric] m2_def [symmetric] k2_def [symmetric]
        m3_def [symmetric] k3_def [symmetric] k4_def [symmetric] acts)
  have "wf_kb ok k4" using k3(1) o(2) by (auto simp: k4_def wf_kb_def)
  moreover have "wf_kb ok (merge_actions big ?hb ?hs small k4)"
    using \<open>wf_kb ok k4\<close> by (simp add: wf_kb_def)
  moreover have "renamed big small k (merge_actions big ?hb ?hs small k4)"
    using m by (simp add: renamed_def moved_def k4_def merge_actions_actions split: option.splits)
  moreover have "renamed big small k k4" if "classAction k4 ?hb = None" "propertyAction k4 ?hb = None"
    using m that by (auto simp: renamed_def moved_def k4_def split: option.splits)
  ultimately show ?thesis unfolding run by auto
qed

end

section \<open>\<open>equate\<close> and \<open>owl:sameAs\<close>\<close>

text \<open>The term that survives an \<open>equate\<close>, and the one that is renamed.\<close>

definition survivor :: "rdf_term \<Rightarrow> rdf_term \<Rightarrow> rdf_term" where
  "survivor a b = (if term_key a < term_key b then a else b)"

definition loser :: "rdf_term \<Rightarrow> rdf_term \<Rightarrow> rdf_term" where
  "loser a b = (if term_key a < term_key b then b else a)"

lemma storable_comparable: "storable t \<Longrightarrow> comparable t"
  by (cases t) simp_all

lemma term_key_erase: "erase a = erase b \<Longrightarrow> term_key a = term_key b"
  by (cases a; cases b) simp_all

context term_universe
begin

lemma ok_key: "ok a \<Longrightarrow> ok b \<Longrightarrow> term_key a \<noteq> term_key b \<Longrightarrow> toNT a \<noteq> toNT b"
  using ok_hash term_key_erase by blast

lemma ok_compareTerm:
  "ok a \<Longrightarrow> ok b \<Longrightarrow> compareTerm a b = Inr (sign_of (term_key a) (term_key b))"
  by (simp add: compareTerm_key storable_comparable ok_storable)

lemma equate_spec:
  assumes wf: "wf_kb ok k" and o: "ok a" "ok b" and st: "settled k a" "settled k b"
    and ne: "term_key a \<noteq> term_key b"
  shows "\<exists>k'. equate a b k = (Inr False, k') \<and> wf_kb ok k' \<and> renamed (loser a b) (survivor a b) k k'"
proof (cases "term_key a < term_key b")
  case True
  then show ?thesis
    using replaceWith_spec [OF wf o(2,1) st(2)] ok_key [OF o ne] o
    by (simp add: equate_def bind_step_def lift_res_def ok_compareTerm sign_of_def survivor_def loser_def)
next
  case False
  then have "term_key b < term_key a" using ne by simp
  then show ?thesis
    using replaceWith_spec [OF wf o st(1)] ok_key [OF o(2,1)] o ne False
    by (simp add: equate_def bind_step_def lift_res_def ok_compareTerm sign_of_def survivor_def loser_def)
qed

lemma kb_add_sameAs:
  assumes wf: "wf_kb ok k" and fl: "flat k" and o: "ok s" "ok p" "ok ob" "opt_ok ok w"
    and st: "settled k s" "settled k ob"
    and act: "propertyAction k (toNT (canon k p)) = Some Handle_sameAs"
    and ne: "term_key s \<noteq> term_key ob"
    and new: "(toNT s, toNT (canon k p), toNT ob) \<notin> triples k"
  shows "\<exists>k' k1. kb_add (VTerm s) (VTerm p) (VTerm ob) (val_of w) k = (Inr (), k') \<and> wf_kb ok k' \<and>
    renamed (loser s ob) (survivor s ob) k k1 \<and>
    k' = insert_statement s (canon k p) ob (map_option (canon k) w) (toNT s) (toNT (canon k p)) (toNT ob) k1"
proof -
  obtain k1 where k1: "equate s ob k = (Inr False, k1)" "wf_kb ok k1"
    "renamed (loser s ob) (survivor s ob) k k1"
    using equate_spec [OF wf o(1,3) st ne] by blast
  have "opt_ok ok (map_option (canon k) w)" using o(4) ok_canon [OF wf] by auto
  from wf_insert [OF k1(2) o(1) ok_canon [OF wf o(2)] o(3) this]
  show ?thesis
    using k1 act st new unfolding kb_add_start [OF wf fl o]
    by (auto simp: bind_step_def then_step_def modify_def ret_def)
qed

end

text \<open>A lookup sees only what its terms are redirected to.\<close>

lemma kb_makeTerm_state: "kb_makeTerm v k = (Inr x, k') \<Longrightarrow> k' = k"
  by (cases v) (auto simp: ret_def then_step_def bind_step_def throw_def modify_def)

lemma bind_step_cong:
  "(\<And>x s'. m s = (Inr x, s') \<Longrightarrow> f x s' = g x s') \<Longrightarrow> bind_step m f s = bind_step m g s"
  by (auto simp: bind_step_def split: prod.splits sum.splits)

lemma statementsMatching_redirected:
  assumes "redirect k a = redirect k b"
  shows "statementsMatching (VTerm a) p ob w one k = statementsMatching (VTerm b) p ob w one k"
    and "statementsMatching p ob (VTerm a) w one k = statementsMatching p ob (VTerm b) w one k"
proof -
  have mk: "kb_makeTerm (VTerm a) k = kb_makeTerm (VTerm b) k" using assms by simp
  show "statementsMatching (VTerm a) p ob w one k = statementsMatching (VTerm b) p ob w one k"
    unfolding statementsMatching_def bind_step_def [of "kb_makeTerm (VTerm _)"] mk ..
  show "statementsMatching p ob (VTerm a) w one k = statementsMatching p ob (VTerm b) w one k"
    unfolding statementsMatching_def
  proof (intro bind_step_cong, drule kb_makeTerm_state, drule kb_makeTerm_state, simp only:)
    fix x y :: "rdf_term option"
    show "bind_step (kb_makeTerm (VTerm a)) (\<lambda>ob. bind_step (kb_makeTerm w)
        (\<lambda>w k. (lookup_terms x y ob w one k, k))) k =
      bind_step (kb_makeTerm (VTerm b)) (\<lambda>ob. bind_step (kb_makeTerm w)
        (\<lambda>w k. (lookup_terms x y ob w one k, k))) k"
      unfolding bind_step_def [of "kb_makeTerm (VTerm _)"] mk ..
  qed
qed

section \<open>Properties\<close>

text \<open>
  \<open>replaceWith\<close> on a well-formed store returns \<open>false\<close> and leaves a well-formed store
  whose triples are the old ones with the big term renamed to the small one in every
  position; the big term is redirected, nothing but the identity of the two changes, and the
  small term inherits the actions it does not have.
\<close>

lemma replaceWith_renames:
  assumes "wf_kb (ok_term ty C) k" "ok_term ty C big" "ok_term ty C small" "settled k big"
    and "toNT small \<noteq> toNT big"
  shows "\<exists>k'. replaceWith big small k = (Inr False, k') \<and> wf_kb (ok_term ty C) k' \<and>
    triples k' = swap_nt (toNT big) (toNT small) ` triples k \<and>
    statements k' = statements k \<and> redirection k' = (redirection k)(toNT big \<mapsto> small) \<and>
    (propertyAction k (toNT small) = None \<longrightarrow>
       propertyAction k' (toNT small) = propertyAction k (toNT big))"
  using terms.replaceWith_spec [OF assms] renamed_triples
  by (force simp: renamed_def)

lemma replaceWith_renames_witness:
  "\<exists>k'. replaceWith (RDFSymbol ''b'') (RDFSymbol ''a'')
      (sym_store [(''b'', ''p'', ''b''), (''c'', ''p'', ''a'')]) = (Inr False, k') \<and>
    redirection k' (symbol_toNT ''b'') = Some (RDFSymbol ''a'')"
  using replaceWith_renames [OF wf_sym_store [of "\<lambda>_. True" "{}" "[(''b'', ''p'', ''b''), (''c'', ''p'', ''a'')]"],
      of "RDFSymbol ''b''" "RDFSymbol ''a''"]
  by (auto simp: settled_def simp del: sym_store.simps)

text \<open>
  C7. In a well-formed store whose redirections do not chain, stating \<open>s owl:sameAs
  o\<close> of two terms that are not yet redirected and have different sort keys, with a
  predicate whose action is that of \<open>owl:sameAs\<close> and a triple that is not there
  yet, merges them: every old triple is renamed to the one of the two that is smaller in
  \<open>compareTerm\<close>'s order, the new triple is recorded, and from then on a lookup,
  in the subject or in the object, gives the same answer for both.
\<close>

theorem sameAs_merges:
  assumes "wf_kb (ok_term ty C) k" "flat k"
    and "ok_term ty C s" "ok_term ty C p" "ok_term ty C ob" "opt_ok (ok_term ty C) w"
    and "settled k s" "settled k ob"
    and "propertyAction k (toNT (canon k p)) = Some Handle_sameAs"
    and "term_key s \<noteq> term_key ob"
    and "(toNT s, toNT (canon k p), toNT ob) \<notin> triples k"
  shows "\<exists>k'. kb_add (VTerm s) (VTerm p) (VTerm ob) (val_of w) k = (Inr (), k') \<and>
    wf_kb (ok_term ty C) k' \<and>
    triples k' = insert (toNT s, toNT (canon k p), toNT ob)
      (swap_nt (toNT (loser s ob)) (toNT (survivor s ob)) ` triples k) \<and>
    canon k' s = survivor s ob \<and> canon k' ob = survivor s ob \<and>
    (\<forall>x y v one. statementsMatching (VTerm s) x y v one k' = statementsMatching (VTerm ob) x y v one k' \<and>
      statementsMatching x y (VTerm s) v one k' = statementsMatching x y (VTerm ob) v one k')"
proof -
  obtain k' k1 where add: "kb_add (VTerm s) (VTerm p) (VTerm ob) (val_of w) k = (Inr (), k')"
    and wf': "wf_kb (ok_term ty C) k'" and r: "renamed (loser s ob) (survivor s ob) k k1"
    and k': "k' = insert_statement s (canon k p) ob (map_option (canon k) w)
      (toNT s) (toNT (canon k p)) (toNT ob) k1"
    using terms.kb_add_sameAs [OF assms] by blast
  have "toNT (survivor s ob) \<noteq> toNT (loser s ob)"
    using terms.ok_key [OF assms(3,5,10)] by (auto simp: survivor_def loser_def)
  moreover have "settled k (survivor s ob)" using assms(7,8) by (simp add: survivor_def)
  moreover have "canon k' t = canon k1 t" for t by (simp add: k' canon_def)
  ultimately have c: "canon k' s = survivor s ob \<and> canon k' ob = survivor s ob"
    using renamed_canon [OF r] by (auto simp: survivor_def loser_def split: if_splits)
  then have red: "redirect k' s = redirect k' ob"
    using terms.ok_redirect [OF assms(3)] terms.ok_redirect [OF assms(5)] by simp
  have fresh: "next_addr k1 \<notin> set (statements k1)"
    using wf_next_addr [OF assms(1)] r by (simp add: renamed_def)
  have "triples k' = insert (toNT s, toNT (canon k p), toNT ob) (triples k1)"
    unfolding k' using fresh by (rule triples_insert_fresh)
  then show ?thesis
    using add wf' c renamed_triples [OF r] statementsMatching_redirected [OF red] by simp
qed

theorem sameAs_merges_witness:
  "\<exists>k'. kb_add (VTerm (RDFSymbol ''a'')) (VTerm (RDFSymbol (owl_ns @ ''sameAs''))) (VTerm (RDFSymbol ''b''))
      (val_of None) (sym_store [(''b'', ''p'', ''x'')]) = (Inr (), k') \<and>
    (symbol_toNT ''a'', symbol_toNT ''p'', symbol_toNT ''x'') \<in> triples k'"
proof -
  let ?k = "sym_store [(''b'', ''p'', ''x'')]" and ?p = "RDFSymbol (owl_ns @ ''sameAs'')"
  have act: "propertyAction ?k (toNT (canon ?k ?p)) = Some Handle_sameAs"
    unfolding canon_sym_store sym_store_fields by (simp add: new_indexed_formula_def owl_ns_def symbol_toNT_def)
  have t: "triples ?k = {(symbol_toNT ''b'', symbol_toNT ''p'', symbol_toNT ''x'')}"
    using triples_insert [OF wf_sym_store [of _ _ "[]"]] by simp
  have o: "ok_term (\<lambda>_. True) {} (RDFSymbol x)" "opt_ok (ok_term (\<lambda>_. True) {}) None" "settled ?k (RDFSymbol x)" for x
    by (simp_all add: settled_def del: sym_store.simps)
  have ne: "term_key (RDFSymbol ''a'') \<noteq> term_key (RDFSymbol ''b'')" by simp
  have "(toNT (RDFSymbol ''a''), toNT (canon ?k ?p), toNT (RDFSymbol ''b'')) \<notin> triples ?k"
    unfolding t by simp
  from sameAs_merges [OF wf_sym_store flat_sym_store o(1) o(1) o(1) o(2) o(3) o(3) act ne this]
  show ?thesis unfolding t
    by (elim exE conjE) (rule exI, erule conjI,
      simp add: swap_nt_def Let_def survivor_def loser_def less_sort_key_def)
qed

text \<open>
  C24. A redirection is followed once by \<open>add\<close> and twice by a lookup. Where a chain of two
  redirections leads from \<open>c\<close> over \<open>b\<close> to \<open>a\<close> (\<open>c sameAs b\<close>, then \<open>b sameAs a\<close>), a triple
  added about \<open>c\<close> is filed under \<open>b\<close>, and the lookup of that very triple does not find it.
\<close>

theorem redirect_chain_loses_triple:
  assumes wf: "wf_kb (ok_term ty C) k"
    and o: "ok_term ty C c" "ok_term ty C p" "ok_term ty C ob"
    and chain: "canon k c = b" "canon k b = a" "settled k a" "toNT a \<noteq> toNT b"
    and st: "settled k p" "settled k ob" "propertyAction k (toNT p) = None"
    and new: "(toNT a, toNT p, toNT ob) \<notin> triples k"
  shows "\<exists>k'. kb_add (VTerm c) (VTerm p) (VTerm ob) VUndefined k = (Inr (), k') \<and>
    (toNT b, toNT p, toNT ob) \<in> triples k' \<and>
    (\<exists>arr. statementsMatching (VTerm c) (VTerm p) (VTerm ob) VUndefined False k' = (Inr arr, k') \<and>
      arr_elems k' arr = [])"
proof -
  define k' where "k' = insert_statement b p ob None (toNT b) (toNT p) (toNT ob) k"
  have run: "kb_add (VTerm c) (VTerm p) (VTerm ob) VUndefined k = (Inr (), k')"
    using terms.kb_add_run [OF wf o, of None] chain st new by (simp add: modify_def k'_def)
  have wf': "wf_kb (ok_term ty C) k'"
    unfolding k'_def using wf_insert [OF wf] o terms.ok_canon [OF wf o(1)] chain(1) by simp
  have t: "triples k' = insert (toNT b, toNT p, toNT ob) (triples k)"
    unfolding k'_def by (rule triples_insert [OF wf])
  have "canon k' x = canon k x" for x by (simp add: k'_def canon_def)
  then have h: "hop2 k' (Some c) = Some a" "hop2 k' (Some p) = Some p" "hop2 k' (Some ob) = Some ob"
    using chain st by (simp_all add: hop2_def)
  have "(toNT a, toNT p, toNT ob) \<notin> triples k'" using t new chain(4) by simp
  then have none: "\<not> stmt_pat (Some a) (Some p) (Some ob) None (heap k' x)" if "x \<in> set (statements k')" for x
    using that unfolding stmt_pat_triple triples_def by (metis image_eqI)
  from terms.statementsMatching_found [OF wf', of "Some c" "Some p" "Some ob" None False] o
  obtain arr where arr: "statementsMatching (VTerm c) (VTerm p) (VTerm ob) VUndefined False k' = (Inr arr, k')"
    "set (arr_elems k' arr) = {x \<in> set (statements k'). stmt_pat (Some a) (Some p) (Some ob) None (heap k' x)}"
    by (auto simp: h found_def)
  have "set (arr_elems k' arr) = {}" unfolding arr(2) using none by blast
  then show ?thesis using run t arr(1) by auto
qed

theorem redirect_chain_loses_triple_witness:
  "\<exists>k k'. kb_add (VTerm (RDFSymbol ''c'')) (VTerm (RDFSymbol ''p'')) (VTerm (RDFSymbol ''x'')) VUndefined k =
      (Inr (), k') \<and> (symbol_toNT ''b'', symbol_toNT ''p'', symbol_toNT ''x'') \<in> triples k'"
proof -
  let ?k = "(new_indexed_formula 0 Map.empty)\<lparr>redirection :=
    [symbol_toNT ''c'' \<mapsto> RDFSymbol ''b'', symbol_toNT ''b'' \<mapsto> RDFSymbol ''a'']\<rparr>"
  have "wf_kb (ok_term (\<lambda>_. True) {}) ?k" using wf_new [of "ok_term (\<lambda>_. True) {}" 0 Map.empty] by (auto simp: wf_kb_def)
  from redirect_chain_loses_triple [OF this, of "RDFSymbol ''c''" "RDFSymbol ''p''" "RDFSymbol ''x''"
      "RDFSymbol ''b''" "RDFSymbol ''a''"]
  show ?thesis
    by (auto simp: canon_def settled_def triples_def new_indexed_formula_def symbol_toNT_def)
qed

end
