(* ===== verification/Serializer.thy ===== *)
theory Serializer
  imports Matching
begin

text \<open>
  \<open>discoscripts/rdfxmlserializer.js\<close>: the RDF/XML document of a formula. The document under
  construction is the list of the root's children; \<open>elementMap\<close> gives, for the uri or id of
  a subject, the position of its element among them, as the root only grows. What names
  \<open>createElementNS\<close> accepts is the browser's, a parameter. Subjects whose key is the name of
  a property of \<open>Object.prototype\<close> are outside the model.
\<close>

definition rdf_ns :: string where
  "rdf_ns = ''http://www.w3.org/1999/02/22-rdf-syntax-ns#''"

section \<open>Names and relative paths\<close>

definition splitURI :: "string \<Rightarrow> string \<times> string" where
  "splitURI uri =
     (let poundPos = index_of uri ''#'';
          splitPos = (if poundPos > -1 then poundPos else last_index_of uri (CHR ''/''))
      in (substring uri 0 (splitPos + 1), substring_from uri (splitPos + 1)))"

text \<open>
  The test \<open>/.*\/\/.*\.*\//\<close>: two slashes and, further on in the same line, a third.
\<close>

definition same_line :: "string \<Rightarrow> string" where
  "same_line s = takeWhile (\<lambda>c. c \<noteq> CHR 0x0A \<and> c \<noteq> CHR 0x0D) s"

fun has_path :: "string \<Rightarrow> bool" where
  "has_path [] = False"
| "has_path (c # s) =
     (prefix ''//'' (c # s) \<and> CHR ''/'' \<in> set (same_line (tl s)) \<or> has_path s)"

lemma has_path_slash: "has_path s \<Longrightarrow> CHR ''/'' \<in> set s"
  by (induction s) auto

lemma last_index_of_lt: "s \<noteq> [] \<Longrightarrow> nat (last_index_of s c) < length s"
proof (cases "c \<in> set s")
  case True
  then obtain a b where "s = a @ c # b" "c \<notin> set b" using split_list_last by metis
  then show ?thesis by (simp add: js_str)
qed (simp add: js_str)

text \<open>\<open>null\<close> is \<open>None\<close>; an empty path is falsy.\<close>

function getRelativePathToCollection :: "string \<Rightarrow> string \<Rightarrow> string option" where
  "getRelativePathToCollection url contextCollection =
     (if index_of url contextCollection = 0 then
        Some (substring_from url (int (length contextCollection) + 1))
      else if has_path contextCollection then
        (case getRelativePathToCollection url
            (substring contextCollection 0 (last_index_of contextCollection (CHR ''/''))) of
           None \<Rightarrow> None
         | Some r \<Rightarrow> if r \<noteq> [] then Some (''../'' @ r) else None)
      else None)"
  by pat_completeness auto
termination
proof (relation "measure (length \<circ> snd)")
  fix url c :: string
  assume "has_path c"
  then have "c \<noteq> []" by auto
  then show "((url, substring c 0 (last_index_of c (CHR ''/''))), url, c) \<in> measure (length \<circ> snd)"
    using last_index_of_lt [of c "CHR ''/''"] by (auto simp: substring_def Let_def)
qed simp

declare getRelativePathToCollection.simps [simp del]

definition getRelativePath :: "string \<Rightarrow> string option \<Rightarrow> string" where
  "getRelativePath url contextURL =
     (case contextURL of
        None \<Rightarrow> url
      | Some context_url \<Rightarrow>
          if context_url = [] then url
          else
            (let contextCollection = substring context_url 0 (last_index_of context_url (CHR ''/''))
             in case getRelativePathToCollection url contextCollection of
                  None \<Rightarrow> url
                | Some r \<Rightarrow> if r \<noteq> [] then r else url))"

section \<open>Building the document\<close>

record ser_state =
  root_children :: "dom list"
  elementMap :: "string \<Rightarrow> nat option"

type_synonym 'a ser_step = "(ser_state, 'a) js_step"

definition rdf_attr :: "string \<Rightarrow> string \<Rightarrow> dom_attr" where
  "rdf_attr l v = \<lparr>at_ns = Some rdf_ns, at_local = l, at_name = ''rdf:'' @ l, at_value = v\<rparr>"

definition add_root_child :: "dom \<Rightarrow> unit ser_step" where
  "add_root_child d = modify (\<lambda>s. s\<lparr>root_children := root_children s @ [d]\<rparr>)"

definition add_to_elem :: "nat \<Rightarrow> dom \<Rightarrow> unit ser_step" where
  "add_to_elem i d = modify (\<lambda>s. s\<lparr>root_children := (root_children s)[i := append_child (root_children s ! i) d]\<rparr>)"

text \<open>An id that is not there reads as \<open>undefined\<close>.\<close>

definition id_text :: "rdf_term \<Rightarrow> string" where
  "id_text t = (case prop_id t of Some i \<Rightarrow> int_str i | None \<Rightarrow> ''undefined'')"

definition local_name :: "string \<Rightarrow> string" where
  "local_name q = (if CHR '':'' \<in> set q then tl (dropWhile (\<lambda>c. c \<noteq> CHR '':'') q) else q)"

definition create_element_ns :: "(string \<Rightarrow> string \<Rightarrow> bool) \<Rightarrow> string \<Rightarrow> string \<Rightarrow> dom ser_step" where
  "create_element_ns name_ok ns qname =
     (if name_ok ns qname then ret (Element (if ns = [] then None else Some ns) (local_name qname) qname [] [])
      else throw (UserError ''InvalidCharacterError''))"

text \<open>
  What the property element is given for the object. The element is in the document before
  its attributes and children are set, but nothing looks at it meanwhile and nothing here
  throws, so it is completed first.
\<close>

definition property_content :: "rdf_term \<Rightarrow> string option \<Rightarrow> dom \<Rightarrow> dom" where
  "property_content obj baseURL elem =
     (case obj of
        RDFSymbol uri \<Rightarrow> set_attr (rdf_attr ''resource'' (getRelativePath uri baseURL)) elem
      | RDFLiteral v lang dt elementValue \<Rightarrow>
          (case elementValue of
             Some d \<Rightarrow> set_attr (rdf_attr ''parseType'' ''Literal'') (foldl append_child elem (children_of d))
           | None \<Rightarrow>
               (let e = append_child elem (TextNode v) in
                case lang of
                  Some l \<Rightarrow>
                    if l \<noteq> [] then
                      set_attr \<lparr>at_ns = None, at_local = ''xml:lang'', at_name = ''xml:lang'', at_value = l\<rparr> e
                    else e
                | None \<Rightarrow> e))
      | _ \<Rightarrow> set_attr (rdf_attr ''nodeID'' (''a'' @ id_text obj)) elem)"

definition subject_key :: "rdf_term \<Rightarrow> string" where
  "subject_key t = (case t of RDFSymbol uri \<Rightarrow> uri | _ \<Rightarrow> id_text t)"

definition subject_element :: "rdf_term \<Rightarrow> string option \<Rightarrow> dom" where
  "subject_element t baseURL =
     Element (Some rdf_ns) ''Description'' ''rdf:Description''
       [case t of RDFSymbol uri \<Rightarrow> rdf_attr ''about'' (getRelativePath uri baseURL)
        | _ \<Rightarrow> rdf_attr ''nodeID'' (''a'' @ id_text t)] []"

definition serialize_statement ::
  "(string \<Rightarrow> string \<Rightarrow> bool) \<Rightarrow> string option \<Rightarrow> rdf_statement \<Rightarrow> unit ser_step" where
  "serialize_statement name_ok baseURL st =
     (let elem = subject_element (st_subject st) baseURL;
          elemId = subject_key (st_subject st) in
      bind_step (\<lambda>s. case elementMap s elemId of
          Some i \<Rightarrow> (Inr i, s)
        | None \<Rightarrow>
            (Inr (length (root_children s) + 1),
             s\<lparr>elementMap := (elementMap s)(elemId \<mapsto> length (root_children s) + 1),
               root_children := root_children s @ [TextNode [CHR 0x0A, CHR 0x09], elem]\<rparr>)) (\<lambda>i.
      then_step (add_to_elem i (TextNode [CHR 0x0A])) (
      then_step (add_to_elem i (TextNode [CHR 0x09, CHR 0x09])) (
      case prop_uri (st_predicate st) of
        None \<Rightarrow> throw TypeError
      | Some uri \<Rightarrow>
          (case splitURI uri of (ns, name) \<Rightarrow>
             bind_step (create_element_ns name_ok ns name) (\<lambda>propertyElem.
               add_to_elem i (property_content (st_object st) baseURL propertyElem)))))))"

fun serialize_loop ::
  "(string \<Rightarrow> string \<Rightarrow> bool) \<Rightarrow> string option \<Rightarrow> rdf_statement list \<Rightarrow> unit ser_step" where
  "serialize_loop name_ok baseURL [] = ret ()"
| "serialize_loop name_ok baseURL (st # sts) =
     then_step (serialize_statement name_ok baseURL st) (serialize_loop name_ok baseURL sts)"

definition rdf_root :: "dom list \<Rightarrow> dom" where
  "rdf_root cs = Element (Some rdf_ns) ''RDF'' ''rdf:RDF'' [] cs"

text \<open>
  The last loop gives every element of the map its closing white space; the elements of the
  root's children are exactly those in the map.
\<close>

definition close_element :: "dom \<Rightarrow> dom" where
  "close_element d =
     (case d of Element _ _ _ _ _ \<Rightarrow> append_child d (TextNode [CHR 0x0A, CHR 0x09]) | _ \<Rightarrow> d)"

definition serialize ::
  "(string \<Rightarrow> string \<Rightarrow> bool) \<Rightarrow> rdf_statement list \<Rightarrow> string option \<Rightarrow> dom js_res" where
  "serialize name_ok sts baseURL =
     (case serialize_loop name_ok baseURL sts \<lparr>root_children = [], elementMap = Map.empty\<rparr> of
        (Inl e, _) \<Rightarrow> Inl e
      | (Inr _, s) \<Rightarrow>
          Inr (rdf_root (map close_element (root_children s @ [TextNode [CHR 0x0A]]))))"

section \<open>Relative paths resolve\<close>

lemma index_of_prefix: "index_of (p @ s) p = 0"
  by (cases "p = []") (simp_all add: index_of_0, simp add: index_of_def index_of_from_def, cases s, simp_all)

lemma relative_to_collection: "getRelativePathToCollection (p @ c # r) p = Some r"
  by (subst getRelativePathToCollection.simps) (simp add: index_of_prefix substring_from_def nat_add_distrib)

lemma relative_path_skips:
  assumes "CHR ''/'' \<notin> set file" "r \<noteq> []"
  shows "getRelativePath (p @ c # r) (Some (p @ CHR ''/'' # file)) = r"
proof -
  have "substring (p @ CHR ''/'' # file) 0 (int (length p)) = p"
    by (simp add: js_str)
  then show ?thesis
    using assms by (simp add: getRelativePath_def js_str relative_to_collection)
qed

lemma hier_uri_slash:
  assumes "dir = [] \<or> last dir = CHR ''/''"
  obtains pre where "\<And>x. hier_uri sch auth dir x = pre @ CHR ''/'' # x"
proof -
  obtain p where p: "CHR ''/'' # dir = p @ ''/''" using assms slash_dir by blast
  have "hier_uri sch auth dir x = (sch @ ''://'' @ auth @ p) @ CHR ''/'' # x" for x
    using arg_cong [OF p, of "\<lambda>d. d @ x"] by (simp add: hier_uri_def)
  then show ?thesis by (rule that)
qed

section \<open>Properties\<close>

text \<open>
  C25. The relative path the serializer writes for a URI in the collection of a hierarchical
  base URI (scheme, authority, path; no hash) resolves, by \<open>Util.uri.join\<close> as
  the parser uses it, to that URI. The rest of the URI after the collection is not empty,
  does not begin with a slash or hash and holds no colon, and neither the collection nor the
  rest has a segment \<open>..\<close> or a segment that ends in a dot (a query or fragment
  with \<open>./\<close> is excluded too). A rest with a colon is read as an absolute URI
  instead: \<open>relative_path_colon\<close>.
\<close>

theorem relative_path_resolves:
  assumes b: "hier_base sch auth dir file" and r: "path_ref r"
    and d: "\<not> sublist ''/../'' (''/'' @ dir @ r)" "\<not> sublist ''./'' (''/'' @ dir @ r)"
  shows "getRelativePath (hier_uri sch auth dir r) (Some (hier_uri sch auth dir file)) = r \<and>
    join_uri r (hier_uri sch auth dir file) = hier_uri sch auth dir r"
proof -
  obtain pre where "\<And>x. hier_uri sch auth dir x = pre @ CHR ''/'' # x"
    using b hier_uri_slash [of dir sch auth] unfolding hier_base_def by blast
  then show ?thesis
    using b r uri_join_hier_plain [OF b r d] by (simp add: relative_path_skips hier_base_def path_ref_def)
qed

theorem relative_path_resolves_witness:
  "getRelativePath (hier_uri ''http'' ''h'' ''a/'' ''c'') (Some (hier_uri ''http'' ''h'' ''a/'' ''b'')) = ''c''"
  using relative_path_resolves [of "''http''" "''h''" "''a/''" "''b''" "''c''"]
  by (simp add: hier_base_def path_ref_def sublist_Cons_right)

text \<open>
  A URI of the collection whose rest has a colon is written as that rest, which \<open>join\<close> takes for an
  absolute URI: \<open>http://h/a/b:c\<close> in a document of \<open>http://h/a/f\<close> comes back as \<open>b:c\<close>.
\<close>

lemma relative_path_colon:
  assumes b: "hier_base sch auth dir file" and r: "CHR '':'' \<in> set r" "hd r \<noteq> CHR ''#''"
  shows "getRelativePath (hier_uri sch auth dir r) (Some (hier_uri sch auth dir file)) = r \<and>
    join_uri r (hier_uri sch auth dir file) = r"
proof -
  obtain pre where "\<And>x. hier_uri sch auth dir x = pre @ CHR ''/'' # x"
    using b hier_uri_slash [of dir sch auth] unfolding hier_base_def by blast
  moreover have "r \<noteq> []" using r by auto
  moreover have "0 \<le> index_of r '':''" using r(1) by (simp add: index_of_char)
  moreover have "index_of r ''#'' \<noteq> 0" using r(2) \<open>r \<noteq> []\<close> by (auto simp: index_of_0 neq_Nil_conv)
  ultimately show ?thesis using b by (simp add: relative_path_skips hier_base_def uri_join_def Let_def)
qed

lemma relative_path_colon_witness:
  "join_uri (getRelativePath (hier_uri ''http'' ''h'' ''a/'' ''b:c'') (Some (hier_uri ''http'' ''h'' ''a/'' ''f'')))
    (hier_uri ''http'' ''h'' ''a/'' ''f'') = ''b:c''"
  using relative_path_colon [of "''http''" "''h''" "''a/''" "''f''" "''b:c''"] by (simp add: hier_base_def)

text \<open>
  The test whether a URI lies in a collection forgets the slash: with the base
  \<open>p/file\<close>, every URI \<open>p\<close>, one more character, \<open>r\<close> is written as \<open>r\<close>, so that different
  URIs, as \<open>http://h/ab/x\<close> and \<open>http://h/ac/x\<close> for the base \<open>http://h/a/f\<close>, get the same
  attribute.
\<close>

lemma relative_path_collides:
  assumes "CHR ''/'' \<notin> set file" "r \<noteq> []"
  shows "getRelativePath (p @ c # r) (Some (p @ ''/'' @ file)) =
    getRelativePath (p @ d # r) (Some (p @ ''/'' @ file))"
  using relative_path_skips [OF assms] by simp

lemma relative_path_collides_witness:
  "getRelativePath (''http://h/a'' @ CHR ''b'' # ''/x'') (Some (''http://h/a'' @ ''/'' @ ''f'')) =
    getRelativePath (''http://h/a'' @ CHR ''c'' # ''/x'') (Some (''http://h/a'' @ ''/'' @ ''f''))"
  by (rule relative_path_collides) simp_all

end
