(* ===== verification/Parser.thy ===== *)
theory Parser
  imports Store Serializer
begin

text \<open>
  \<open>discoscripts/rdfparser.js\<close>: the RDF/XML parser. The chain of frames, each with a link
  to its parent, is a list with the current frame first. A DOM node is held by one frame at
  a time, so the frames hold it by value and the attributes the parser removes are removed
  there. \<open>Object.prototype\<close>'s names as \<open>rdf:nodeID\<close> are outside the model.
\<close>

section \<open>Frames\<close>

datatype frame_type = NODE | ARC

record frame =
  f_element :: "dom option"
  f_lastChild :: nat
  f_base :: string
  f_lang :: string
  f_node :: "rdf_term option"
  f_nodeType :: "frame_type option"
  f_listIndex :: nat
  f_rdfid :: "string option"
  f_datatype :: "string option"
  f_collection :: bool

record parser =
  p_store :: kb
  p_bnodes :: "string \<Rightarrow> rdf_term option"
  p_why :: js_val
  p_reify :: bool
  p_frames :: "frame list"

type_synonym 'a p_step = "(parser, 'a) js_step"

definition frameFactory :: "dom option \<Rightarrow> string \<Rightarrow> string \<Rightarrow> frame" where
  "frameFactory element base lang =
     \<lparr>f_element = element, f_lastChild = 0, f_base = base, f_lang = lang, f_node = None,
      f_nodeType = None, f_listIndex = 1, f_rdfid = None, f_datatype = None, f_collection = False\<rparr>"

definition new_RDFParser :: "kb \<Rightarrow> parser" where
  "new_RDFParser store =
     \<lparr>p_store = store, p_bnodes = Map.empty, p_why = VUndefined, p_reify = False, p_frames = []\<rparr>"

definition on_store :: "(kb, 'a) js_step \<Rightarrow> 'a p_step" where
  "on_store m s = (case m (p_store s) of (r, k) \<Rightarrow> (r, s\<lparr>p_store := k\<rparr>))"

definition upd_frame :: "nat \<Rightarrow> (frame \<Rightarrow> frame) \<Rightarrow> unit p_step" where
  "upd_frame i g = modify (\<lambda>s. s\<lparr>p_frames := (p_frames s)[i := g (p_frames s ! i)]\<rparr>)"

definition the_frame :: "nat \<Rightarrow> frame p_step" where
  "the_frame i s = (if i < length (p_frames s) then (Inr (p_frames s ! i), s) else (Inl TypeError, s))"

text \<open>\<open>Util.uri.join\<close>, its alerts kept with the store's.\<close>

definition p_join :: "string \<Rightarrow> string \<Rightarrow> string p_step" where
  "p_join given base =
     (case uri_join given base of (ms, u) \<Rightarrow>
        then_step (on_store (modify (\<lambda>k. foldl (\<lambda>k m. do_alert m k) k ms))) (ret u))"

section \<open>The methods of a frame\<close>

definition addSymbol :: "frame_type \<Rightarrow> string \<Rightarrow> unit p_step" where
  "addSymbol type uri =
     bind_step (the_frame 0) (\<lambda>f.
     bind_step (p_join uri (f_base f)) (\<lambda>u.
       upd_frame 0 (\<lambda>f. f\<lparr>f_node := Some (RDFSymbol u), f_nodeType := Some type\<rparr>)))"

text \<open>\<open>store.add\<close> of nodes of frames; adding \<open>null\<close> throws.\<close>

definition p_add :: "rdf_term option \<Rightarrow> rdf_term option \<Rightarrow> rdf_term option \<Rightarrow> unit p_step" where
  "p_add a b c s = (case (a, b, c) of
       (Some x, Some y, Some z) \<Rightarrow> on_store (kb_add (VTerm x) (VTerm y) (VTerm z) (p_why s)) s
     | _ \<Rightarrow> (Inl TypeError, s))"

definition rdf_sym :: "string \<Rightarrow> rdf_term option" where
  "rdf_sym l = Some (RDFSymbol (rdf_ns @ l))"

definition loadTriple :: "unit p_step" where
  "loadTriple =
     bind_step (the_frame 0) (\<lambda>f.
     bind_step (the_frame 1) (\<lambda>parent.
     bind_step (the_frame 2) (\<lambda>grand.
     then_step
       (if f_collection grand then
          (case (f_node grand, f_node f) of
             (Some c, Some n) \<Rightarrow> on_store (coll_append c n)
           | _ \<Rightarrow> throw TypeError)
        else p_add (f_node grand) (f_node parent) (f_node f))
       (case f_rdfid parent of
          None \<Rightarrow> ret ()
        | Some i \<Rightarrow>
            bind_step (p_join (CHR ''#'' # i) (f_base f)) (\<lambda>u.
              let triple = Some (RDFSymbol u) in
              then_step (p_add triple (rdf_sym ''type'') (rdf_sym ''Statement'')) (
              then_step (p_add triple (rdf_sym ''subject'') (f_node grand)) (
              then_step (p_add triple (rdf_sym ''predicate'') (f_node parent))
                (p_add triple (rdf_sym ''object'') (f_node f)))))))))"

definition isTripleToLoad :: "frame list \<Rightarrow> bool" where
  "isTripleToLoad fs = (case fs of
       f # parent # grand # _ \<Rightarrow> f_nodeType f = Some NODE \<and> f_nodeType parent = Some ARC \<and>
         f_nodeType grand = Some NODE
     | _ \<Rightarrow> False)"

definition load_if :: "unit p_step" where
  "load_if s = (if isTripleToLoad (p_frames s) then loadTriple s else (Inr (), s))"

definition addNode :: "string \<Rightarrow> unit p_step" where
  "addNode uri = then_step (addSymbol NODE uri) load_if"

definition addCollection :: "unit p_step" where
  "addCollection =
     then_step (upd_frame 0 (\<lambda>f. f\<lparr>f_nodeType := Some NODE\<rparr>)) (
     bind_step (on_store new_collection) (\<lambda>c.
     then_step (upd_frame 0 (\<lambda>f. f\<lparr>f_node := Some c, f_collection := True\<rparr>)) load_if))"

definition addCollectionArc :: "unit p_step" where
  "addCollectionArc = upd_frame 0 (\<lambda>f. f\<lparr>f_nodeType := Some ARC\<rparr>)"

definition addBNode :: "string option \<Rightarrow> unit p_step" where
  "addBNode id0 =
     bind_step (\<lambda>s. case id0 of
          None \<Rightarrow> on_store new_bnode s
        | Some i \<Rightarrow>
            (case p_bnodes s i of
               Some b \<Rightarrow> (Inr b, s)
             | None \<Rightarrow> bind_step (on_store new_bnode)
                 (\<lambda>b s. (Inr b, s\<lparr>p_bnodes := (p_bnodes s)(i \<mapsto> b)\<rparr>)) s)) (\<lambda>b.
     then_step (upd_frame 0 (\<lambda>f. f\<lparr>f_node := Some b, f_nodeType := Some NODE\<rparr>)) load_if)"

definition addArc :: "string \<Rightarrow> unit p_step" where
  "addArc uri =
     (if uri = rdf_ns @ ''li'' then
        bind_step (the_frame 1) (\<lambda>parent.
        then_step (upd_frame 1 (\<lambda>f. f\<lparr>f_listIndex := f_listIndex f + 1\<rparr>))
          (addSymbol ARC (rdf_ns @ ''_'' @ nat_str (f_listIndex parent))))
      else addSymbol ARC uri)"

datatype lit_source = Lit_text string | Lit_dom dom

text \<open>
  \<open>store.literal\<close> on a text or a DOM node; the browser's \<open>XMLSerializer\<close> is a parameter.
\<close>

definition make_literal ::
  "(dom \<Rightarrow> string) \<Rightarrow> lit_source \<Rightarrow> string \<Rightarrow> rdf_term option \<Rightarrow> rdf_term" where
  "make_literal xml v lang dt = (case v of
       Lit_text t \<Rightarrow> literal_of_string t (Some lang) dt
     | Lit_dom d \<Rightarrow> literal_of_dom xml d (Some lang) dt)"

definition addLiteral :: "(dom \<Rightarrow> string) \<Rightarrow> lit_source \<Rightarrow> unit p_step" where
  "addLiteral xml v =
     bind_step (the_frame 0) (\<lambda>f.
     bind_step (the_frame 1) (\<lambda>parent.
     let node = (case f_datatype parent of
           Some dt \<Rightarrow> if dt \<noteq> [] then make_literal xml v [] (Some (RDFSymbol dt))
             else make_literal xml v (f_lang f) None
         | None \<Rightarrow> make_literal xml v (f_lang f) None) in
     then_step (upd_frame 0 (\<lambda>f. f\<lparr>f_node := Some node, f_nodeType := Some NODE\<rparr>)) load_if))"

definition terminateFrame :: "nat \<Rightarrow> unit p_step" where
  "terminateFrame i =
     bind_step (the_frame i) (\<lambda>f.
       if f_collection f then
         (case f_node f of Some c \<Rightarrow> on_store (coll_close c) | None \<Rightarrow> throw TypeError)
       else ret ())"

section \<open>The tree walk\<close>

text \<open>\<open>removeAttribute\<close> takes an attribute by its name.\<close>

definition drop_attr_named :: "string \<Rightarrow> dom \<Rightarrow> dom" where
  "drop_attr_named n d = set_attrs (filter (\<lambda>a. at_name a \<noteq> n) (attrs_of d)) d"

definition build_frame :: "frame \<Rightarrow> dom option \<Rightarrow> frame" where
  "build_frame parent element =
     (let frame = frameFactory element (f_base parent) (f_lang parent) in
      case element of
        None \<Rightarrow> frame
      | Some (TextNode _) \<Rightarrow> frame
      | Some (CDataNode _) \<Rightarrow> frame
      | Some e \<Rightarrow>
          (let frame1 = (case attr_named e ''xml:base'' of
                 Some a \<Rightarrow> frame\<lparr>f_base := at_value a\<rparr> | None \<Rightarrow> frame);
               e1 = drop_attr_named ''xml:base'' e;
               frame2 = (case attr_named e1 ''xml:lang'' of
                 Some a \<Rightarrow> frame1\<lparr>f_lang := at_value a\<rparr> | None \<Rightarrow> frame1);
               e2 = drop_attr_named ''xml:lang'' e1;
               e3 = set_attrs (filter (\<lambda>a. take 3 (at_name a) \<noteq> ''xml'') (attrs_of e2)) e2
           in frame2\<lparr>f_element := Some e3\<rparr>))"

text \<open>\<open>frame = this.buildFrame(frame, element)\<close>, and back to the parent frame.\<close>

definition push_frame :: "dom option \<Rightarrow> unit p_step" where
  "push_frame element =
     bind_step (the_frame 0) (\<lambda>f. modify (\<lambda>s. s\<lparr>p_frames := build_frame f element # p_frames s\<rparr>))"

definition pop_frame :: "unit p_step" where
  "pop_frame = modify (\<lambda>s. s\<lparr>p_frames := tl (p_frames s)\<rparr>)"

text \<open>The frame's element moves to a new frame.\<close>

definition push_same_element :: "unit p_step" where
  "push_same_element =
     bind_step (the_frame 0) (\<lambda>f.
     then_step (push_frame (f_element f)) (upd_frame 1 (\<lambda>f. f\<lparr>f_element := None\<rparr>)))"

text \<open>
  The node being processed, which may be held by a frame below the current one. \<open>None\<close> is
  the climb past the outermost frame, which is a \<open>TypeError\<close>.
\<close>

fun holder :: "frame list \<Rightarrow> nat option" where
  "holder [] = None"
| "holder (f # fs) = (if f_element f \<noteq> None then Some 0 else map_option Suc (holder fs))"

definition the_dom :: "(nat \<times> dom) p_step" where
  "the_dom s = (case holder (p_frames s) of
       None \<Rightarrow> (Inl TypeError, s)
     | Some j \<Rightarrow> (Inr (j, the (f_element (p_frames s ! j))), s))"

definition dom_remove :: "dom_attr \<Rightarrow> unit p_step" where
  "dom_remove a =
     bind_step the_dom (\<lambda>(j, d). upd_frame j (\<lambda>f. f\<lparr>f_element := Some (remove_attr a d)\<rparr>))"

definition uri_of_name :: "string option \<Rightarrow> string \<Rightarrow> string" where
  "uri_of_name ns l = (case ns of Some n \<Rightarrow> n | None \<Rightarrow> ''null'') @ l"

fun elementURI :: "dom \<Rightarrow> string" where
  "elementURI (Element ns l _ _ _) = uri_of_name ns l"
| "elementURI _ = ''undefinedundefined''"

definition attrURI :: "dom_attr \<Rightarrow> string" where
  "attrURI a = uri_of_name (at_ns a) (at_local a)"

fun p_each :: "('x \<Rightarrow> unit p_step) \<Rightarrow> 'x list \<Rightarrow> unit p_step" where
  "p_each g [] = ret ()"
| "p_each g (x # xs) = then_step (g x) (p_each g xs)"

text \<open>A node element: its identity, its type, its property attributes, last to first.\<close>

definition node_identity :: "dom \<Rightarrow> unit p_step" where
  "node_identity d =
     (case (attr_ns d rdf_ns ''about'', attr_ns d rdf_ns ''ID'') of
        (Some _, Some _) \<Rightarrow> throw (UserError (''RDFParser: '' @ dom_name d @
          '' has both rdf:id and rdf:about. Halting. Only one of these properties may be specified on a node.''))
      | (None, Some rdfid) \<Rightarrow> then_step (addNode (CHR ''#'' # at_value rdfid)) (dom_remove rdfid)
      | (None, None) \<Rightarrow>
          (case attr_ns d rdf_ns ''nodeID'' of
             Some bnid \<Rightarrow> then_step (addBNode (Some (at_value bnid))) (dom_remove bnid)
           | None \<Rightarrow> addBNode None)
      | (Some about, None) \<Rightarrow> then_step (addNode (at_value about)) (dom_remove about))"

definition node_type :: "dom \<Rightarrow> unit p_step" where
  "node_type d =
     bind_step (the_frame 0) (\<lambda>f.
       if elementURI d \<noteq> rdf_ns @ ''Description'' then
         bind_step (p_join (elementURI d) (f_base f)) (\<lambda>u.
           p_add (f_node f) (rdf_sym ''type'') (Some (RDFSymbol u)))
       else (case attr_ns d rdf_ns ''type'' of
         None \<Rightarrow> ret ()
       | Some a \<Rightarrow>
           bind_step (p_join (at_value a) (f_base f)) (\<lambda>u.
           then_step (p_add (f_node f) (rdf_sym ''type'') (Some (RDFSymbol u))) (dom_remove a))))"

definition node_element :: "dom \<Rightarrow> unit p_step" where
  "node_element d =
     then_step (node_identity d) (
     then_step (node_type d) (
     bind_step the_dom (\<lambda>(_, d2).
     bind_step (the_frame 0) (\<lambda>f.
       p_each (\<lambda>a. p_add (f_node f) (Some (RDFSymbol (attrURI a)))
           (Some (literal_of_string (at_value a) (Some (f_lang f)) None))) (rev (attrs_of d2))))))"

text \<open>
  A property element. The result is \<open>dig\<close>. The attributes are read and removed one after
  the other; the target of the property, when attributes give it, is a frame of its own.
\<close>

definition take_attr :: "(string \<Rightarrow> frame \<Rightarrow> frame) \<Rightarrow> dom_attr option \<Rightarrow> unit p_step" where
  "take_attr g a = (case a of
       None \<Rightarrow> ret ()
     | Some x \<Rightarrow> then_step (upd_frame 0 (g (at_value x))) (dom_remove x))"

definition parse_type :: "(dom \<Rightarrow> string) \<Rightarrow> dom_attr \<Rightarrow> bool p_step" where
  "parse_type xml a =
     bind_step
       (if at_value a = ''Literal'' then
          then_step (upd_frame 0 (\<lambda>f. f\<lparr>f_datatype := Some (rdf_ns @ ''XMLLiteral'')\<rparr>)) (
          bind_step the_dom (\<lambda>(_, d).
          then_step (push_frame None) (
          then_step (addLiteral xml (Lit_dom d)) (ret False))))
        else if at_value a = ''Resource'' then
          then_step push_same_element (then_step (addBNode None) (ret True))
        else if at_value a = ''Collection'' then
          then_step push_same_element (then_step addCollection (ret True))
        else ret True) (\<lambda>dig.
     then_step (dom_remove a) (ret dig))"

definition attr_property :: "(dom \<Rightarrow> string) \<Rightarrow> dom_attr \<Rightarrow> unit p_step" where
  "attr_property xml a =
     then_step (push_frame None) (
     then_step (addArc (attrURI a)) (
     then_step (push_frame None) (
     then_step (if attrURI a = rdf_ns @ ''type'' then addNode (at_value a)
       else addLiteral xml (Lit_text (at_value a)))
     (then_step pop_frame pop_frame))))"

definition property_target :: "(dom \<Rightarrow> string) \<Rightarrow> unit p_step" where
  "property_target xml =
     bind_step the_dom (\<lambda>(_, d).
     let resource = attr_ns d rdf_ns ''resource''; bnid = attr_ns d rdf_ns ''nodeID'' in
     then_step (push_frame None) (
     then_step
       (case resource of
          Some r \<Rightarrow> then_step (addNode (at_value r)) (dom_remove r)
        | None \<Rightarrow>
            (case bnid of
               Some b \<Rightarrow> then_step (addBNode (Some (at_value b))) (dom_remove b)
             | None \<Rightarrow> addBNode None))
     (bind_step the_dom (\<lambda>(_, d2). p_each (attr_property xml) (rev (attrs_of d2))))))"

definition arc_element :: "(dom \<Rightarrow> string) \<Rightarrow> dom \<Rightarrow> bool p_step" where
  "arc_element xml d =
     then_step (addArc (elementURI d)) (
     then_step (\<lambda>s. if p_reify s
       then take_attr (\<lambda>v f. f\<lparr>f_rdfid := Some v\<rparr>) (attr_ns d rdf_ns ''ID'') s else (Inr (), s)) (
     then_step (take_attr (\<lambda>v f. f\<lparr>f_datatype := Some v\<rparr>) (attr_ns d rdf_ns ''datatype'')) (
     bind_step (case attr_ns d rdf_ns ''parseType'' of
         Some a \<Rightarrow> parse_type xml a | None \<Rightarrow> ret True) (\<lambda>dig.
     bind_step the_dom (\<lambda>(_, d2).
     then_step
       (if attrs_of d2 \<noteq> [] then property_target xml
        else if children_of d2 = [] then
          then_step (push_frame None) (then_step (addLiteral xml (Lit_text [])) pop_frame)
        else ret ())
     (ret dig))))))"

text \<open>The first half of an iteration of the loop: the current frame's node.\<close>

definition process_node :: "(dom \<Rightarrow> string) \<Rightarrow> bool p_step" where
  "process_node xml =
     bind_step (the_frame 0) (\<lambda>frame.
     bind_step (the_frame 1) (\<lambda>parent.
       case f_element frame of
         None \<Rightarrow> throw TypeError
       | Some (TextNode v) \<Rightarrow> then_step (addLiteral xml (Lit_text v)) (ret True)
       | Some (CDataNode v) \<Rightarrow> then_step (addLiteral xml (Lit_text v)) (ret True)
       | Some (OtherNode _) \<Rightarrow> throw TypeError
       | Some (Element ns l n ats cs) \<Rightarrow>
           if uri_of_name ns l = rdf_ns @ ''RDF'' then ret True
           else
             then_step (if f_collection parent then then_step addCollectionArc push_same_element else ret ()) (
             bind_step (the_frame 0) (\<lambda>f.
             bind_step (the_frame 1) (\<lambda>par.
               case f_element f of
                 None \<Rightarrow> throw TypeError
               | Some d \<Rightarrow>
                   if f_nodeType par = None \<or> f_nodeType par = Some ARC
                   then then_step (node_element d) (ret True)
                   else arc_element xml d)))))"

text \<open>
  The second half: find the next node. A frame without an element of its own stands on the
  children of the frame that has it. The measure is the number of frames and of the
  children still to visit.
\<close>

definition frame_work :: "frame \<Rightarrow> nat" where
  "frame_work f = Suc (case f_element f of None \<Rightarrow> 0 | Some d \<Rightarrow> length (children_of d) - f_lastChild f)"

definition skipped :: "dom \<Rightarrow> nat \<Rightarrow> bool" where
  "skipped candidate siblings \<longleftrightarrow>
     (dom_type candidate \<noteq> 1 \<and> dom_type candidate \<noteq> 3 \<and> dom_type candidate \<noteq> 4) \<or>
     ((dom_type candidate = 3 \<or> dom_type candidate = 4) \<and> siblings \<noteq> 1)"

definition p_children :: "frame \<Rightarrow> dom list" where
  "p_children f = (case f_element f of None \<Rightarrow> [] | Some d \<Rightarrow> children_of d)"

lemma holder_lt: "holder fs = Some j \<Longrightarrow> j < length fs \<and> f_element (fs ! j) \<noteq> None"
  by (induction fs arbitrary: j) (auto split: if_splits)

lemma sum_list_drop_le: "sum_list (drop j ns) \<le> sum_list (ns :: nat list)"
  by (metis append_take_drop_id le_add2 sum_list_append)

lemma work_drop: "sum_list (map frame_work (drop j fs)) \<le> sum_list (map frame_work fs)"
  using sum_list_drop_le [of j "map frame_work fs"] by (simp add: drop_map)

lemma work_pop: "j < length fs \<Longrightarrow> sum_list (map frame_work (drop (Suc j) fs)) < sum_list (map frame_work fs)"
proof -
  assume "j < length fs"
  then have "sum_list (map frame_work (drop j fs)) = frame_work (fs ! j) + sum_list (map frame_work (drop (Suc j) fs))"
    by (simp add: Cons_nth_drop_Suc [symmetric])
  then show ?thesis using work_drop [of j fs] by (simp add: frame_work_def)
qed

lemma work_skip:
  assumes "j < length fs" "f_lastChild (fs ! j) < length (p_children (fs ! j))"
  shows "sum_list (map frame_work ((fs ! j)\<lparr>f_lastChild := Suc (f_lastChild (fs ! j))\<rparr> # drop (Suc j) fs))
    < sum_list (map frame_work fs)"
proof -
  have "sum_list (map frame_work (drop j fs)) = frame_work (fs ! j) + sum_list (map frame_work (drop (Suc j) fs))"
    using assms(1) by (simp add: Cons_nth_drop_Suc [symmetric])
  moreover have "frame_work ((fs ! j)\<lparr>f_lastChild := Suc (f_lastChild (fs ! j))\<rparr>) < frame_work (fs ! j)"
    using assms(2) by (auto simp: frame_work_def p_children_def split: option.splits)
  ultimately show ?thesis using work_drop [of j fs] by simp
qed

function dig_loop :: "bool \<Rightarrow> unit p_step" where
  "dig_loop dig s =
     (let fs = p_frames s in
      if length fs < 2 then (if fs = [] then (Inl TypeError, s) else (Inr (), s))
      else case holder fs of
        None \<Rightarrow> (Inl TypeError, s)
      | Some j \<Rightarrow>
          (let frame = fs ! j; siblings = p_children frame; n = f_lastChild frame in
           if n \<ge> length siblings \<or> \<not> dig then
             (case terminateFrame j s of
                (Inl e, s1) \<Rightarrow> (Inl e, s1)
              | (Inr _, s1) \<Rightarrow> dig_loop True (s1\<lparr>p_frames := drop (Suc j) fs\<rparr>))
           else if skipped (siblings ! n) (length siblings) then
             dig_loop dig (s\<lparr>p_frames := frame\<lparr>f_lastChild := Suc n\<rparr> # drop (Suc j) fs\<rparr>)
           else
             then_step (upd_frame j (\<lambda>f. f\<lparr>f_lastChild := Suc n\<rparr>))
               (push_frame (Some (siblings ! n))) s))"
  by pat_completeness auto
termination
proof (relation "measure (\<lambda>(dig, s). sum_list (map frame_work (p_frames s)))", goal_cases)
  case (2 dig s fs j frame siblings n a r s1)
  then show ?case using holder_lt work_pop by auto
next
  case (3 dig s fs j frame siblings n)
  then show ?case using holder_lt [of fs j] work_skip [of j fs] by simp
qed simp

declare dig_loop.simps [simp del]

text \<open>
  The main loop, with the number of iterations it is allowed; \<open>None\<close> is not done by then.
\<close>

fun parse_loop :: "(dom \<Rightarrow> string) \<Rightarrow> nat \<Rightarrow> parser \<Rightarrow> (unit js_res \<times> parser) option" where
  "parse_loop xml 0 s = (if length (p_frames s) < 2 then Some (Inr (), s) else None)"
| "parse_loop xml (Suc n) s =
     (if length (p_frames s) < 2 then Some (Inr (), s)
      else (case then_step (bind_step (process_node xml) dig_loop) (ret ()) s of
          (Inl e, s1) \<Rightarrow> Some (Inl e, s1)
        | (Inr _, s1) \<Rightarrow> parse_loop xml n s1))"

text \<open>What is given to \<open>parse\<close>: a document by its children, or another node.\<close>

datatype parse_input = Document "dom list" | Root dom

definition parse_root :: "parse_input \<Rightarrow> string \<Rightarrow> dom option js_res" where
  "parse_root inp base =
     (case inp of
        Document cs \<Rightarrow> Inr (List.find (\<lambda>c. dom_type c = 1) cs)
      | Root d \<Rightarrow>
          if dom_type d = 1 then Inr (Some d)
          else Inl (UserError (''RDFParser: can't find root in '' @ base @ ''. Halting. '')))"

definition cleanParser :: "parser \<Rightarrow> parser" where
  "cleanParser s = s\<lparr>p_bnodes := Map.empty, p_why := VUndefined\<rparr>"

text \<open>The number of nodes of a tree bounds the iterations.\<close>

primrec node_count :: "dom \<Rightarrow> nat" where
  "node_count (Element ns l n ats cs) = Suc (sum_list (map node_count cs))"
| "node_count (TextNode v) = 1"
| "node_count (CDataNode v) = 1"
| "node_count (OtherNode t) = 1"

definition parse :: "(dom \<Rightarrow> string) \<Rightarrow> parse_input \<Rightarrow> string \<Rightarrow> js_val \<Rightarrow> parser \<Rightarrow> (bool js_res \<times> parser) option"
where
  "parse xml inp base why s0 =
     (let s = cleanParser s0 in
      case parse_root inp base of
        Inl e \<Rightarrow> Some (Inl e, s)
      | Inr root \<Rightarrow>
          (let f = frameFactory None base [];
               s1 = s\<lparr>p_why := why, p_frames := [build_frame f root, f]\<rparr>;
               fuel = (case root of Some d \<Rightarrow> node_count d | None \<Rightarrow> 1)
           in map_option (\<lambda>(r, s2). (map_sum id (\<lambda>_. True) r, s2)) (parse_loop xml fuel s1)))"

end
