(* ===== verification/ParserTerm.thy ===== *)
theory ParserTerm
  imports Parser
begin

text \<open>
  Termination of the parser: what a step does to the shape of the frames, the nodes still to
  visit, and that the number of nodes of the tree is enough iterations.
\<close>

section \<open>Steps that keep the shape\<close>

text \<open>The children a frame stands on, and its position among them.\<close>

definition shape :: "frame \<Rightarrow> dom list option \<times> nat" where
  "shape f = (map_option children_of (f_element f), f_lastChild f)"

definition calm :: "'a p_step \<Rightarrow> bool" where
  "calm m \<longleftrightarrow> (\<forall>s r s'. m s = (Inr r, s') \<longrightarrow> map shape (p_frames s') = map shape (p_frames s))"

named_theorems calms \<open>steps that keep the shape of the frames\<close>

lemma calmD: "calm m \<Longrightarrow> m s = (Inr r, s') \<Longrightarrow> map shape (p_frames s') = map shape (p_frames s)"
  by (simp add: calm_def)

lemma calm_bind [calms]:
  assumes "calm m" and "\<And>a. calm (f a)"
  shows "calm (bind_step m f)"
  unfolding calm_def
proof (intro allI impI)
  fix s r s'
  assume "bind_step m f s = (Inr r, s')"
  then obtain a s1 where "m s = (Inr a, s1)" "f a s1 = (Inr r, s')"
    by (auto simp: bind_step_Inr_iff)
  then show "map shape (p_frames s') = map shape (p_frames s)"
    using calmD [OF assms(1)] calmD [OF assms(2)] by metis
qed

lemma calm_then [calms]: "calm m \<Longrightarrow> calm n \<Longrightarrow> calm (then_step m n)"
  by (simp add: then_step_def calm_bind)

lemma calm_ret [calms]: "calm (ret a)"
  by (simp add: calm_def ret_def)

lemma calm_throw [calms]: "calm (throw e)"
  by (simp add: calm_def throw_def)

lemma calm_on_store [calms]: "calm (on_store m)"
  by (auto simp: calm_def on_store_def split: prod.splits)

lemma calm_the_frame [calms]: "calm (the_frame i)"
  by (simp add: calm_def the_frame_def)

lemma calm_the_dom [calms]: "calm the_dom"
  by (auto simp: calm_def the_dom_def split: option.splits)

lemma calm_upd_frame [calms]:
  assumes "\<And>f. shape (g f) = shape f"
  shows "calm (upd_frame i g)"
  unfolding calm_def
proof (intro allI impI)
  fix s r s'
  assume "upd_frame i g s = (Inr r, s')"
  then have "p_frames s' = (p_frames s)[i := g (p_frames s ! i)]"
    by (auto simp: upd_frame_def modify_def)
  then show "map shape (p_frames s') = map shape (p_frames s)"
    using assms by (metis list_update_id map_update)
qed

lemma calm_if [calms]: "calm a \<Longrightarrow> calm b \<Longrightarrow> calm (if c then a else b)"
  by simp

lemma calm_state: "(\<And>s. calm (m s)) \<Longrightarrow> calm (\<lambda>s. m s s)"
  by (auto simp: calm_def)

lemma calm_option [calms]:
  "calm a \<Longrightarrow> (\<And>x. calm (b x)) \<Longrightarrow> calm (case v of None \<Rightarrow> a | Some x \<Rightarrow> b x)"
  by (cases v) simp_all

lemma calm_dom_remove [calms]: "calm (dom_remove a)"
  unfolding calm_def
proof (intro allI impI)
  fix s r s'
  assume "dom_remove a s = (Inr r, s')"
  then obtain j where j: "holder (p_frames s) = Some j"
    and s': "p_frames s' = (p_frames s)[j := (p_frames s ! j)\<lparr>f_element :=
      Some (remove_attr a (the (f_element (p_frames s ! j))))\<rparr>]"
    by (auto simp: dom_remove_def bind_step_def the_dom_def upd_frame_def modify_def split: option.splits)
  then show "map shape (p_frames s') = map shape (p_frames s)"
    using holder_lt [OF j] by (auto simp: map_update shape_def list_update_same_conv)
qed

lemma shape_simps [simp]:
  "shape (f\<lparr>f_node := x\<rparr>) = shape f" "shape (f\<lparr>f_nodeType := y\<rparr>) = shape f"
  "shape (f\<lparr>f_listIndex := n\<rparr>) = shape f" "shape (f\<lparr>f_rdfid := i\<rparr>) = shape f"
  "shape (f\<lparr>f_datatype := d\<rparr>) = shape f" "shape (f\<lparr>f_collection := c\<rparr>) = shape f"
  "shape (f\<lparr>f_lang := l\<rparr>) = shape f" "shape (f\<lparr>f_base := b\<rparr>) = shape f"
  by (simp_all add: shape_def)

lemma calm_p_join [calms]: "calm (p_join u b)"
  unfolding p_join_def by (cases "uri_join u b") (auto intro!: calms)

lemma calm_p_add [calms]: "calm (p_add a b c)"
proof (cases "(a, b, c)" rule: prod_cases3)
  case (fields x y z)
  show ?thesis
    by (cases a; cases b; cases c)
      (auto simp: p_add_def calm_def on_store_def split: prod.splits)
qed

lemma calm_addSymbol [calms]: "calm (addSymbol t u)"
  unfolding addSymbol_def by (intro calms) simp_all

lemma calm_loadTriple [calms]: "calm loadTriple"
  unfolding loadTriple_def Let_def by (intro calms; simp split: option.splits; intro calms conjI allI impI)

lemma calm_load_if [calms]: "calm load_if"
  using calm_loadTriple by (auto simp: calm_def load_if_def split: if_splits)

lemma calm_addNode [calms]: "calm (addNode u)"
  unfolding addNode_def by (intro calms)

lemma calm_addCollection [calms]: "calm addCollection"
  unfolding addCollection_def by (intro calms) (simp_all add: shape_def)

lemma calm_addCollectionArc [calms]: "calm addCollectionArc"
  unfolding addCollectionArc_def by (intro calms) simp_all

lemma calm_bnode_id [calms]:
  "calm (\<lambda>s. case id0 of
          None \<Rightarrow> on_store new_bnode s
        | Some i \<Rightarrow>
            (case p_bnodes s i of
               Some b \<Rightarrow> (Inr b, s)
             | None \<Rightarrow> bind_step (on_store new_bnode)
                 (\<lambda>b s. (Inr b, s\<lparr>p_bnodes := (p_bnodes s)(i \<mapsto> b)\<rparr>)) s))"
  using calm_on_store [of new_bnode]
  by (auto simp: calm_def bind_step_def on_store_def split: option.splits prod.splits sum.splits)

lemma calm_addBNode [calms]: "calm (addBNode i)"
  unfolding addBNode_def by (intro calms) (simp add: shape_def)

lemma calm_addArc [calms]: "calm (addArc u)"
  unfolding addArc_def by (intro calms) simp_all

lemma calm_addLiteral [calms]: "calm (addLiteral xml v)"
  unfolding addLiteral_def Let_def by (intro calms) (simp add: shape_def)

lemma calm_terminateFrame [calms]: "calm (terminateFrame i)"
  unfolding terminateFrame_def by (intro calms)

section \<open>The nodes still to visit\<close>

fun shape_nodes :: "dom list option \<times> nat \<Rightarrow> nat" where
  "shape_nodes (None, n) = 0"
| "shape_nodes (Some cs, n) = sum_list (map node_count (drop n cs))"

abbreviation view :: "parser \<Rightarrow> (dom list option \<times> nat) list" where
  "view s \<equiv> map shape (p_frames s)"

abbreviation pending :: "(dom list option \<times> nat) list \<Rightarrow> nat" where
  "pending v \<equiv> sum_list (map shape_nodes v)"

lemma children_drop_attr [simp]: "children_of (drop_attr_named n d) = children_of d"
  by (simp add: drop_attr_named_def)

lemma shape_build_frame [simp]: "shape (build_frame p e) = (map_option children_of e, 0)"
proof (cases e)
  case (Some d)
  then show ?thesis
    by (cases d) (simp_all add: build_frame_def shape_def frameFactory_def Let_def split: option.splits)
qed (simp add: build_frame_def shape_def frameFactory_def)

lemma view_push: "push_frame e s = (Inr r, s') \<Longrightarrow> view s' = (map_option children_of e, 0) # view s"
  by (auto simp: push_frame_def bind_step_def the_frame_def modify_def split: if_splits)

lemma view_pop: "pop_frame s = (Inr r, s') \<Longrightarrow> view s' = tl (view s)"
  by (auto simp: pop_frame_def modify_def map_tl)

lemma view_push_same:
  assumes "push_same_element s = (Inr r, s')"
  shows "\<exists>c n v. view s = (c, n) # v \<and> view s' = (c, 0) # (None, n) # v"
proof -
  from assms obtain f fs where fs: "p_frames s = f # fs"
    by (cases "p_frames s") (auto simp: push_same_element_def bind_step_def the_frame_def)
  with assms have "p_frames s' = build_frame f (f_element f) # f\<lparr>f_element := None\<rparr> # fs"
    by (auto simp: push_same_element_def bind_step_def then_step_def push_frame_def the_frame_def
        modify_def upd_frame_def)
  with fs show ?thesis
    using shape_build_frame [of f "f_element f"] by (auto simp: shape_def)
qed

lemma then_step_Inr_iff:
  "then_step m n s = (Inr b, s'') \<longleftrightarrow> (\<exists>a s'. m s = (Inr a, s') \<and> n s' = (Inr b, s''))"
  by (simp add: then_step_def bind_step_Inr_iff)

lemmas run_iff = bind_step_Inr_iff then_step_Inr_iff

text \<open>How a step changes the shapes, as a relation, so that the relations compose.\<close>

definition changes :: "'a p_step \<Rightarrow> ((dom list option \<times> nat) list \<Rightarrow> (dom list option \<times> nat) list \<Rightarrow> bool) \<Rightarrow> bool"
where
  "changes m R \<longleftrightarrow> (\<forall>s r s'. m s = (Inr r, s') \<longrightarrow> R (view s) (view s'))"

lemma changesD: "changes m R \<Longrightarrow> m s = (Inr r, s') \<Longrightarrow> R (view s) (view s')"
  by (simp add: changes_def)

lemma changes_weaken: "changes m R \<Longrightarrow> (\<And>v w. R v w \<Longrightarrow> Q v w) \<Longrightarrow> changes m Q"
  by (simp add: changes_def)

lemma changes_bind: "changes m R \<Longrightarrow> (\<And>a. changes (f a) Q) \<Longrightarrow> changes (bind_step m f) (R OO Q)"
  by (fastforce simp: changes_def bind_step_Inr_iff)

lemma changes_then: "changes m R \<Longrightarrow> changes n Q \<Longrightarrow> changes (then_step m n) (R OO Q)"
  by (simp add: then_step_def changes_bind)

lemma calm_changes: "calm m \<longleftrightarrow> changes m (=)"
  by (auto simp: calm_def changes_def)

definition pushes :: "(dom list option \<times> nat) list \<Rightarrow> (dom list option \<times> nat) list \<Rightarrow> bool" where
  "pushes v w \<longleftrightarrow> w = (None, 0) # v"

lemma changes_push: "changes (push_frame None) pushes"
  using view_push by (fastforce simp: changes_def pushes_def)

lemma changes_pop: "changes pop_frame (\<lambda>v w. w = tl v)"
  using view_pop by (fastforce simp: changes_def)

lemma changes_push_same:
  "changes push_same_element (\<lambda>v w. \<exists>c n t. v = (c, n) # t \<and> w = (c, 0) # (None, n) # t)"
  using view_push_same by (fastforce simp: changes_def)

lemma calm_attr_property [calms]: "calm (attr_property xml a)"
proof -
  have "calm (if attrURI a = rdf_ns @ ''type'' then addNode (at_value a)
      else addLiteral xml (Lit_text (at_value a)))" by (intro calms)
  then have "changes (attr_property xml a)
      (pushes OO (=) OO pushes OO (=) OO (\<lambda>v w. w = tl v) OO (\<lambda>v w. w = tl v))"
    unfolding attr_property_def calm_changes
    by (intro changes_then changes_push changes_pop calm_addArc [unfolded calm_changes])
  then show ?thesis
    unfolding calm_changes by (rule changes_weaken) (auto simp: pushes_def)
qed

lemma calm_p_each [calms]: "(\<And>x. calm (g x)) \<Longrightarrow> calm (p_each g xs)"
  by (induction xs) (auto intro!: calms)

lemma calm_take_attr [calms]:
  "(\<And>v f. shape (g v f) = shape f) \<Longrightarrow> calm (take_attr g a)"
  unfolding take_attr_def by (intro calms)

lemma calm_split [calms]: "(\<And>a b. calm (f a b)) \<Longrightarrow> calm (case p of (a, b) \<Rightarrow> f a b)"
  by (cases p) simp

lemma calm_node_identity [calms]: "calm (node_identity d)"
  unfolding node_identity_def
  by (cases "attr_ns d rdf_ns ''about''"; cases "attr_ns d rdf_ns ''ID''") (simp_all, (intro calms)+)

lemma calm_node_element [calms]: "calm (node_element d)"
  unfolding node_element_def node_type_def by (intro calms)

text \<open>The steps that add a frame without an element.\<close>

lemma changes_property_target: "changes (property_target xml) pushes"
proof -
  have "calm (then_step (case resource of
      Some r \<Rightarrow> then_step (addNode (at_value r)) (dom_remove r)
    | None \<Rightarrow> (case bnid of
         Some b \<Rightarrow> then_step (addBNode (Some (at_value b))) (dom_remove b)
       | None \<Rightarrow> addBNode None))
     (bind_step the_dom (\<lambda>(_, d2). p_each (attr_property xml) (rev (attrs_of d2)))))" for resource bnid
    by (intro calms)
  then have "changes (property_target xml) ((=) OO pushes OO (=))"
    unfolding property_target_def Let_def calm_changes
    by (intro changes_bind calm_the_dom [unfolded calm_changes]) (auto intro!: changes_then changes_push)
  then show ?thesis by (rule changes_weaken) auto
qed

text \<open>Nothing new to visit, for a current frame at its first child.\<close>

definition shrinks :: "(dom list option \<times> nat) list \<Rightarrow> (dom list option \<times> nat) list \<Rightarrow> bool" where
  "shrinks v w \<longleftrightarrow> (\<forall>c t. v = (c, 0) # t \<longrightarrow> pending w \<le> pending v)"

lemma changes_if: "changes a R \<Longrightarrow> changes b R \<Longrightarrow> changes (if c then a else b) R"
  by simp

lemma changes_parse_type: "changes (parse_type xml a) shrinks"
proof -
  have pd: "calm (upd_frame 0 (\<lambda>f. f\<lparr>f_datatype := x\<rparr>))" for x by (intro calms) simp
  let ?tail = "\<lambda>dig. then_step (dom_remove a) (ret dig)"
  have tl: "changes (?tail dig) (=)" for dig :: bool
    unfolding calm_changes [symmetric] by (intro calms)
  have lit: "changes (then_step (upd_frame 0 (\<lambda>f. f\<lparr>f_datatype := Some (rdf_ns @ ''XMLLiteral'')\<rparr>)) (
      bind_step the_dom (\<lambda>(_, d). then_step (push_frame None) (
        then_step (addLiteral xml (Lit_dom d)) (ret False))))) shrinks"
  proof (rule changes_weaken)
    show "changes (then_step (upd_frame 0 (\<lambda>f. f\<lparr>f_datatype := Some (rdf_ns @ ''XMLLiteral'')\<rparr>)) (
      bind_step the_dom (\<lambda>(_, d). then_step (push_frame None) (
        then_step (addLiteral xml (Lit_dom d)) (ret False))))) ((=) OO (=) OO pushes OO (=) OO (=))"
      by (intro changes_then changes_bind pd [unfolded calm_changes] calm_the_dom [unfolded calm_changes])
        (auto intro!: changes_then changes_push calm_addLiteral [unfolded calm_changes]
          calm_ret [unfolded calm_changes])
  qed (auto simp: shrinks_def pushes_def)
  have same: "changes (then_step push_same_element (then_step m (ret True))) shrinks" if "calm m" for m :: "unit p_step"
  proof (rule changes_weaken)
    show "changes (then_step push_same_element (then_step m (ret True)))
      ((\<lambda>v w. \<exists>c n t. v = (c, n) # t \<and> w = (c, 0) # (None, n) # t) OO (=) OO (=))"
      by (intro changes_then changes_push_same that [unfolded calm_changes] calm_ret [unfolded calm_changes])
  qed (auto simp: shrinks_def)
  have none: "changes (ret True) shrinks" by (auto simp: changes_def ret_def shrinks_def)
  have "changes (parse_type xml a) (shrinks OO (=))"
    unfolding parse_type_def
    by (intro changes_bind tl changes_if lit same none calm_addBNode calm_addCollection)
  then show ?thesis by (rule changes_weaken) auto
qed

definition keeps0 :: "(dom list option \<times> nat) list \<Rightarrow> (dom list option \<times> nat) list \<Rightarrow> bool" where
  "keeps0 v w \<longleftrightarrow> (\<forall>c t. v = (c, 0) # t \<longrightarrow> (\<exists>c' t'. w = (c', 0) # t') \<and> pending w \<le> pending v)"

definition lax :: "(dom list option \<times> nat) list \<Rightarrow> (dom list option \<times> nat) list \<Rightarrow> bool" where
  "lax v w \<longleftrightarrow> pending w \<le> pending v"

lemma changes_target:
  "changes (if attrs_of d2 \<noteq> [] then property_target xml
        else if children_of d2 = [] then
          then_step (push_frame None) (then_step (addLiteral xml (Lit_text [])) pop_frame)
        else ret ()) lax"
proof (intro changes_if)
  show "changes (property_target xml) lax"
    by (rule changes_weaken [OF changes_property_target]) (simp add: pushes_def lax_def)
  have "changes (then_step (push_frame None) (then_step (addLiteral xml (Lit_text [])) pop_frame))
      (pushes OO (=) OO (\<lambda>v w. w = tl v))"
    by (intro changes_then changes_push changes_pop calm_addLiteral [unfolded calm_changes])
  then show "changes (then_step (push_frame None) (then_step (addLiteral xml (Lit_text [])) pop_frame)) lax"
    by (rule changes_weaken) (auto simp: pushes_def lax_def)
  show "changes (ret ()) lax" by (auto simp: changes_def ret_def lax_def)
qed

lemma calm_reify [calms]:
  "(\<And>v f. shape (g v f) = shape f) \<Longrightarrow> calm (\<lambda>s. if p_reify s then take_attr g a s else (Inr (), s))"
  using calm_take_attr [of g a] by (auto simp: calm_def)

lemma changes_split: "(\<And>a b. changes (f a b) R) \<Longrightarrow> changes (case p of (a, b) \<Rightarrow> f a b) R"
  by (cases p) simp

lemma changes_arc_element: "changes (arc_element xml d) shrinks"
proof -
  have r: "calm (\<lambda>s. if p_reify s
       then take_attr (\<lambda>v f. f\<lparr>f_rdfid := Some v\<rparr>) (attr_ns d rdf_ns ''ID'') s else (Inr (), s))"
    by (intro calms) simp
  have t: "calm (take_attr (\<lambda>v f. f\<lparr>f_datatype := Some v\<rparr>) (attr_ns d rdf_ns ''datatype''))"
    by (intro calms) simp
  have p: "changes (case attr_ns d rdf_ns ''parseType'' of Some a \<Rightarrow> parse_type xml a | None \<Rightarrow> ret True) shrinks"
    using changes_parse_type by (auto simp: changes_def ret_def shrinks_def split: option.split)
  have "changes (arc_element xml d) ((=) OO (=) OO (=) OO shrinks OO (=) OO lax OO (=))"
    unfolding arc_element_def
    by (intro changes_then changes_bind changes_split changes_target p r [unfolded calm_changes]
        t [unfolded calm_changes] calm_addArc [unfolded calm_changes] calm_the_dom [unfolded calm_changes]
        calm_ret [unfolded calm_changes])
  then show ?thesis by (rule changes_weaken) (fastforce simp: shrinks_def lax_def)
qed

lemma calm_shrinks: "calm m \<Longrightarrow> changes m shrinks"
  unfolding calm_changes by (erule changes_weaken) (simp add: shrinks_def)

lemma changes_process_node: "changes (process_node xml) shrinks"
proof -
  have k: "changes (if c then then_step addCollectionArc push_same_element else ret ()) keeps0" for c
  proof (rule changes_if)
    have "changes (then_step addCollectionArc push_same_element)
        ((=) OO (\<lambda>v w. \<exists>c n t. v = (c, n) # t \<and> w = (c, 0) # (None, n) # t))"
      by (intro changes_then changes_push_same calm_addCollectionArc [unfolded calm_changes])
    then show "changes (then_step addCollectionArc push_same_element) keeps0"
      by (rule changes_weaken) (auto simp: keeps0_def)
  qed (auto simp: changes_def ret_def keeps0_def)
  have e: "changes (case f_element f of None \<Rightarrow> throw TypeError
     | Some d \<Rightarrow> if b f then then_step (node_element d) (ret True) else arc_element xml d) shrinks" for f b
    using changes_arc_element [of xml] calm_shrinks [OF calm_throw]
      calm_shrinks [OF calm_then [OF calm_node_element calm_ret [of True]]]
    by (cases "f_element f") (simp_all add: changes_if)
  have el: "changes (then_step (if c then then_step addCollectionArc push_same_element else ret ()) (
       bind_step (the_frame 0) (\<lambda>f. bind_step (the_frame 1) (\<lambda>par.
         case f_element f of None \<Rightarrow> throw TypeError
         | Some d \<Rightarrow> if f_nodeType par = None \<or> f_nodeType par = Some ARC
             then then_step (node_element d) (ret True) else arc_element xml d)))) shrinks" for c
  proof (rule changes_weaken)
    show "changes (then_step (if c then then_step addCollectionArc push_same_element else ret ()) (
       bind_step (the_frame 0) (\<lambda>f. bind_step (the_frame 1) (\<lambda>par.
         case f_element f of None \<Rightarrow> throw TypeError
         | Some d \<Rightarrow> if f_nodeType par = None \<or> f_nodeType par = Some ARC
             then then_step (node_element d) (ret True) else arc_element xml d)))) (keeps0 OO (=) OO (=) OO shrinks)"
      by (intro changes_then changes_bind k e calm_the_frame [unfolded calm_changes])
  qed (fastforce simp: keeps0_def shrinks_def)
  have lit: "changes (then_step (addLiteral xml x) (ret True)) shrinks" for x
    by (intro calm_shrinks calms)
  have case_dom: "changes (case f_element frame of
         None \<Rightarrow> throw TypeError
       | Some (TextNode v) \<Rightarrow> then_step (addLiteral xml (Lit_text v)) (ret True)
       | Some (CDataNode v) \<Rightarrow> then_step (addLiteral xml (Lit_text v)) (ret True)
       | Some (OtherNode _) \<Rightarrow> throw TypeError
       | Some (Element ns l n ats cs) \<Rightarrow>
           if uri_of_name ns l = rdf_ns @ ''RDF'' then ret True
           else
             then_step (if f_collection parent then then_step addCollectionArc push_same_element else ret ()) (
             bind_step (the_frame 0) (\<lambda>f.
             bind_step (the_frame 1) (\<lambda>par.
               case f_element f of
                 None \<Rightarrow> throw TypeError
               | Some d \<Rightarrow>
                   if f_nodeType par = None \<or> f_nodeType par = Some ARC
                   then then_step (node_element d) (ret True)
                   else arc_element xml d)))) shrinks" for frame parent
  proof (cases "f_element frame")
    case (Some d)
    show ?thesis
    proof (cases d)
      case (Element ns l n ats cs)
      show ?thesis
        unfolding Some Element option.case dom.case by (intro changes_if el calm_shrinks calm_ret)
    qed (use Some lit calm_shrinks [OF calm_throw] in simp_all)
  qed (use calm_shrinks [OF calm_throw] in simp)
  have "changes (process_node xml) ((=) OO (=) OO shrinks)"
    unfolding process_node_def
    by (intro changes_bind case_dom calm_the_frame [unfolded calm_changes])
  then show ?thesis by (rule changes_weaken) auto
qed

section \<open>The search for the next node\<close>

lemma pending_drop: "pending (drop j v) \<le> pending v"
  using sum_list_drop_le [of j "map shape_nodes v"] by (simp add: drop_map)

lemma pending_at:
  assumes "j < length fs" "p_children (fs ! j) = cs" "f_lastChild (fs ! j) = n" "n < length cs"
  shows "pending (map shape fs) = pending (map shape (take j fs)) + node_count (cs ! n) +
      sum_list (map node_count (drop (Suc n) cs)) + pending (map shape (drop (Suc j) fs))"
proof -
  have fs: "fs = take j fs @ fs ! j # drop (Suc j) fs" using assms(1) by (rule id_take_nth_drop)
  have "shape (fs ! j) = (Some cs, n)"
    using assms by (auto simp: p_children_def shape_def split: option.splits)
  then have "shape_nodes (shape (fs ! j)) = node_count (cs ! n) + sum_list (map node_count (drop (Suc n) cs))"
    using assms(4) by (simp add: Cons_nth_drop_Suc [symmetric])
  then show ?thesis by (subst fs) simp
qed

lemma node_count_children: "node_count d = Suc (sum_list (map node_count (children_of d)))"
  by (cases d) simp_all

lemma dig_loop_pending:
  "dig_loop dig s = (Inr r, s') \<Longrightarrow>
   length (p_frames s') = 1 \<or> (\<exists>c v. view s' = (c, 0) # v) \<and> pending (view s') < pending (view s)"
proof (induction dig s arbitrary: r s' rule: dig_loop.induct)
  case (1 dig s)
  let ?fs = "p_frames s"
  show ?case
  proof (cases "length ?fs < 2")
    case True
    then show ?thesis using 1(3) by (subst (asm) dig_loop.simps) (cases ?fs; auto simp: Let_def split: if_splits)
  next
    case long: False
    with 1(3) obtain j where j: "holder ?fs = Some j"
      by (subst (asm) dig_loop.simps) (auto simp: Let_def split: option.splits)
    then have lt: "j < length ?fs" using holder_lt by blast
    define frame cs n where "frame = ?fs ! j" "cs = p_children frame" "n = f_lastChild frame"
    note defs = this
    note step = 1(3) [unfolded dig_loop.simps [of dig s] Let_def, simplified long j option.case if_False,
      folded defs]
    show ?thesis
    proof (cases "length cs \<le> n \<or> \<not> dig")
      case True
      with step obtain r1 s1 where t: "terminateFrame j s = (Inr r1, s1)"
        and d: "dig_loop True (s1\<lparr>p_frames := drop (Suc j) ?fs\<rparr>) = (Inr r, s')"
        by (auto split: prod.splits sum.splits)
      from 1(1) [OF refl long j defs(1-3) True t [symmetric] refl d]
      have "length (p_frames s') = 1 \<or> (\<exists>c v. view s' = (c, 0) # v) \<and>
          pending (view s') < pending (map shape (drop (Suc j) ?fs))" by simp
      then show ?thesis using pending_drop [of "Suc j" "view s"] by (auto simp: drop_map)
    next
      case False
      then have n: "n < length cs" and dig by simp_all
      note at = pending_at [OF lt defs(2,3) [unfolded defs(1), symmetric] n]
      show ?thesis
      proof (cases "skipped (cs ! n) (length cs)")
        case True
        let ?s = "s\<lparr>p_frames := frame\<lparr>f_lastChild := Suc n\<rparr> # drop (Suc j) ?fs\<rparr>"
        have "shape (frame\<lparr>f_lastChild := Suc n\<rparr>) = (Some cs, Suc n)"
          using n defs by (auto simp: p_children_def shape_def split: option.splits)
        then have "pending (view ?s) \<le> pending (view s)" using at by simp
        moreover have "dig_loop dig ?s = (Inr r, s')" using step False True by simp
        ultimately show ?thesis using 1(2) [OF refl long j defs(1-3) False True] by fastforce
      next
        case descend: False
        with step False have "then_step (upd_frame j (\<lambda>f. f\<lparr>f_lastChild := Suc n\<rparr>))
            (push_frame (Some (cs ! n))) s = (Inr r, s')" by simp
        then have v: "view s' = (Some (children_of (cs ! n)), 0) #
            map shape (?fs[j := (?fs ! j)\<lparr>f_lastChild := Suc n\<rparr>])"
          using view_push by (force simp: run_iff upd_frame_def modify_def simp del: step_simps)
        let ?fs' = "?fs[j := (?fs ! j)\<lparr>f_lastChild := Suc n\<rparr>]"
        have "shape (frame\<lparr>f_lastChild := Suc n\<rparr>) = (Some cs, Suc n)"
          using n defs by (auto simp: p_children_def shape_def split: option.splits)
        then have "pending (map shape ?fs') = pending (map shape (take j ?fs)) +
            sum_list (map node_count (drop (Suc n) cs)) + pending (map shape (drop (Suc j) ?fs))"
          using lt by (simp add: upd_conv_take_nth_drop defs(1))
        then have "pending (view s') < pending (view s)"
          using at v node_count_children [of "cs ! n"] by simp
        then show ?thesis using v by (intro disjI2 conjI exI)
      qed
    qed
  qed
qed

section \<open>Enough iterations\<close>

lemma shape_frameFactory: "shape (frameFactory e b l) = (map_option children_of e, 0)"
  by (simp add: shape_def frameFactory_def)

lemma parse_loop_returns:
  "length (p_frames s) < 2 \<or> (\<exists>c v. view s = (c, 0) # v) \<and> pending (view s) < n \<Longrightarrow>
   parse_loop xml n s \<noteq> None"
proof (induction n arbitrary: s)
  case (Suc n)
  show ?case
  proof (cases "length (p_frames s) < 2")
    case False
    let ?m = "then_step (bind_step (process_node xml) dig_loop) (ret ())"
    show ?thesis
    proof (cases "?m s")
      case (Pair r s')
      show ?thesis
      proof (cases r)
        case (Inr u)
        from Pair [unfolded Inr] obtain dig s1 r2 where p: "process_node xml s = (Inr dig, s1)"
          "dig_loop dig s1 = (Inr r2, s')"
          by (auto simp: run_iff ret_def simp del: step_simps)
        have "pending (view s1) \<le> pending (view s)"
          using changesD [OF changes_process_node p(1)] Suc.prems False by (auto simp: shrinks_def)
        with dig_loop_pending [OF p(2)] Suc.prems False
        have "length (p_frames s') < 2 \<or> (\<exists>c v. view s' = (c, 0) # v) \<and> pending (view s') < n" by auto
        from Suc.IH [OF this] show ?thesis using False Pair Inr by simp
      qed (use False Pair in simp)
    qed
  qed simp
qed auto

section \<open>Properties\<close>

text \<open>
  C16. The parser's main loop comes to an end, with the tree walked or an exception, for
  every input: it takes no more iterations than the tree has nodes.
\<close>

theorem parse_terminates: "parse xml inp base why s \<noteq> None"
proof (cases "parse_root inp base")
  case (Inr root)
  have "pending [shape (build_frame (frameFactory None base []) root), shape (frameFactory None base [])] <
      (case root of Some d \<Rightarrow> node_count d | None \<Rightarrow> 1)"
    using node_count_children by (cases root) (simp_all add: shape_frameFactory)
  then show ?thesis
    using Inr parse_loop_returns by (simp add: parse_def Let_def)
qed (simp add: parse_def)

end
