(* ===== verification/RdfUri.thy ===== *)
theory RdfUri
  imports JsPrelude
begin

text \<open>
  \<open>jquery.rdfquery.core-1.0.js\<close>, lines 42 to 308: \<open>$.uri\<close>, the URI objects of rdfQuery with
  their parsing, resolution (RFC 3986), relativisation and cache. The regular expressions
  are written out as scanners. The document's base URI, which the browser gives, is an
  argument; strings that name a property of \<open>Object.prototype\<close> are outside the cache's model.
\<close>

section \<open>Parsing\<close>

record uri =
  u_scheme :: "string option"
  u_authority :: "string option"
  u_path :: string
  u_query :: "string option"
  u_fragment :: "string option"

definition is_alpha :: "char \<Rightarrow> bool" where
  "is_alpha c = (let n = of_char c :: nat in 65 \<le> n \<and> n \<le> 90 \<or> 97 \<le> n \<and> n \<le> 122)"

definition scheme_char :: "char \<Rightarrow> bool" where
  "scheme_char c \<longleftrightarrow> is_alpha c \<or> is_digit c \<or> c \<in> set ''-+.''"

text \<open>The optional parts of \<open>uriRegex\<close>, each with the rest of the text.\<close>

definition scan_scheme :: "string \<Rightarrow> string option \<times> string" where
  "scan_scheme u =
     (let s = takeWhile scheme_char u; r = dropWhile scheme_char u in
      if s \<noteq> [] \<and> is_alpha (hd s) \<and> prefix '':'' r then (Some s, tl r) else (None, u))"

definition auth_char :: "char \<Rightarrow> bool" where
  "auth_char c \<longleftrightarrow> c \<notin> set ''/?#''"

definition scan_authority :: "string \<Rightarrow> string option \<times> string" where
  "scan_authority u =
     (if prefix ''//'' u \<and> takeWhile auth_char (drop 2 u) \<noteq> []
      then (Some (takeWhile auth_char (drop 2 u)), dropWhile auth_char (drop 2 u)) else (None, u))"

definition path_char :: "char \<Rightarrow> bool" where
  "path_char c \<longleftrightarrow> c \<notin> set ''?#''"

definition scan_query :: "string \<Rightarrow> string option \<times> string" where
  "scan_query u =
     (if prefix ''?'' u then (Some (takeWhile (\<lambda>c. c \<noteq> CHR ''#'') (tl u)), dropWhile (\<lambda>c. c \<noteq> CHR ''#'') (tl u))
      else (None, u))"

definition line_end :: "char \<Rightarrow> bool" where
  "line_end c \<longleftrightarrow> c = CHR 0x0A \<or> c = CHR 0x0D"

definition parseURI :: "string \<Rightarrow> uri js_res" where
  "parseURI u =
     (let (sch, u1) = scan_scheme u; (auth, u2) = scan_authority u1;
          path = takeWhile path_char u2; (query, u3) = scan_query (dropWhile path_char u2) in
      if u3 = [] then
        Inr \<lparr>u_scheme = map_option to_lower sch, u_authority = auth, u_path = path, u_query = query,
             u_fragment = None\<rparr>
      else if \<exists>c\<in>set (tl u3). line_end c then Inl (UserError (''Malformed URI: '' @ u))
      else Inr \<lparr>u_scheme = map_option to_lower sch, u_authority = auth, u_path = path, u_query = query,
             u_fragment = Some (tl u3)\<rparr>)"

definition uri_toString :: "uri \<Rightarrow> string" where
  "uri_toString u =
     (case u_scheme u of Some s \<Rightarrow> s @ '':'' | None \<Rightarrow> []) @
     (case u_authority u of Some a \<Rightarrow> ''//'' @ a | None \<Rightarrow> []) @
     u_path u @
     (case u_query u of Some q \<Rightarrow> CHR ''?'' # q | None \<Rightarrow> []) @
     (case u_fragment u of Some f \<Rightarrow> CHR ''#'' # f | None \<Rightarrow> [])"

section \<open>Resolution\<close>

text \<open>\<open>r.replace(/\/?[^\/]+$/, '')\<close> and \<open>path.replace(/[^\/]+$/, '')\<close>.\<close>

definition drop_last_name :: "string \<Rightarrow> string" where
  "drop_last_name r = rev (dropWhile (\<lambda>c. c \<noteq> CHR ''/'') (rev r))"

definition drop_last_segment :: "string \<Rightarrow> string" where
  "drop_last_segment r =
     (let d = drop_last_name r in
      if length d = length r then r else if d \<noteq> [] then butlast d else d)"

text \<open>
  The loop of \<open>removeDotSegments\<close>. A line end after the next slash makes the last regular
  expression fail, and the reading of \<open>m[2]\<close> throw.
\<close>

function dot_loop :: "string \<Rightarrow> string \<Rightarrow> string js_res" where
  "dot_loop u r =
     (if u = [] then Inr r
      else if u = ''.'' \<or> u = ''..'' then Inr r
      else if prefix ''../'' u then dot_loop (drop 3 u) r
      else if prefix ''./'' u then dot_loop (drop 2 u) r
      else if prefix ''/./'' u \<or> u = ''/.'' then dot_loop (CHR ''/'' # drop 3 u) r
      else if prefix ''/../'' u \<or> u = ''/..'' then dot_loop (CHR ''/'' # drop 4 u) (drop_last_segment r)
      else
        (let slash = take 1 u = ''/''; body = (if slash then tl u else u);
             name = takeWhile (\<lambda>c. c \<noteq> CHR ''/'') body; rest = dropWhile (\<lambda>c. c \<noteq> CHR ''/'') body in
         if \<exists>c\<in>set rest. line_end c then Inl TypeError
         else dot_loop rest (r @ (if slash then ''/'' @ name else name))))"
  by pat_completeness auto
termination
proof (relation "measure (length \<circ> fst)", goal_cases)
  case (6 u r slash body name rest)
  then have "length rest \<le> length body"
    using length_dropWhile_le by blast
  moreover have "length rest < length u"
  proof (cases "slash")
    case True
    then show ?thesis using 6 calculation by (cases u) auto
  next
    case False
    then have "body = u" "take 1 u \<noteq> ''/''" using 6 by simp_all
    then show ?thesis using 6 length_dropWhile_le [of "\<lambda>c. c \<noteq> CHR ''/''" "tl u"] by (cases u) auto
  qed
  ultimately show ?case by simp
qed (auto simp: prefix_def)

declare dot_loop.simps [simp del]

definition removeDotSegments :: "string \<Rightarrow> string js_res" where
  "removeDotSegments u = (if CHR ''.'' \<in> set u then dot_loop u [] else Inr u)"

text \<open>The base may be an empty object, whose fields are \<open>undefined\<close>: \<open>None\<close>.\<close>

definition merge_path :: "uri option \<Rightarrow> string \<Rightarrow> string" where
  "merge_path b r = (case b of
       None \<Rightarrow> CHR ''/'' # r
     | Some b \<Rightarrow>
         if u_authority b \<noteq> Some [] \<and> u_path b = [] then CHR ''/'' # r
         else drop_last_name (u_path b) @ r)"

definition uri_inherit :: "uri option \<Rightarrow> uri \<Rightarrow> uri js_res" where
  "uri_inherit base u =
     (let bscheme = (case base of Some b \<Rightarrow> u_scheme b | None \<Rightarrow> None) in
      if u_authority u \<noteq> None then
        bind_res (removeDotSegments (u_path u)) (\<lambda>p. Inr (u\<lparr>u_scheme := bscheme, u_path := p\<rparr>))
      else
        (let u1 = u\<lparr>u_scheme := bscheme,
             u_authority := (case base of Some b \<Rightarrow> u_authority b | None \<Rightarrow> None)\<rparr> in
         if u_path u = [] then
           Inr (u1\<lparr>u_path := (case base of Some b \<Rightarrow> u_path b | None \<Rightarrow> []),
             u_query := (if u_query u = None
               then (case base of Some b \<Rightarrow> u_query b | None \<Rightarrow> None) else u_query u)\<rparr>)
         else
           bind_res (removeDotSegments
               (if take 1 (u_path u) = ''/'' then u_path u else merge_path base (u_path u)))
             (\<lambda>p. Inr (u1\<lparr>u_path := p\<rparr>))))"

definition uri_init :: "string \<Rightarrow> uri option \<Rightarrow> uri js_res" where
  "uri_init relative base =
     bind_res (parseURI relative) (\<lambda>u.
       if u_scheme u \<noteq> None then Inr u
       else
         bind_res (uri_inherit base u) (\<lambda>u2.
           if u_scheme u2 = None then
             Inl (UserError (''Malformed URI: URI is not an absolute URI and no base supplied: '' @ relative))
           else Inr u2))"

section \<open>The cache\<close>

type_synonym uri_mem = "string \<Rightarrow> uri option"

datatype uri_base = No_base | Base_string string | Base_uri uri | Empty_base

definition mem_store :: "uri \<Rightarrow> (uri_mem, uri) js_step" where
  "mem_store u mem =
     (case mem (uri_toString u) of
        Some v \<Rightarrow> (Inr v, mem)
      | None \<Rightarrow> (Inr u, mem(uri_toString u \<mapsto> u)))"

definition uri_absolute :: "string \<Rightarrow> (uri_mem, uri) js_step" where
  "uri_absolute s mem =
     (case mem s of
        Some u \<Rightarrow> (Inr u, mem)
      | None \<Rightarrow> bind_step (lift_res (uri_init s None)) mem_store mem)"

definition the_uri :: "uri \<Rightarrow> string \<Rightarrow> uri_base \<Rightarrow> (uri_mem, uri) js_step" where
  "the_uri doc_base relative base mem =
     (case mem relative of
        Some u \<Rightarrow> (Inr u, mem)
      | None \<Rightarrow>
          bind_step
            (case base of
               No_base \<Rightarrow> ret (Some doc_base)
             | Base_string s \<Rightarrow>
                 if s = [] then ret (Some doc_base) else bind_step (uri_absolute s) (\<lambda>b. ret (Some b))
             | Base_uri b \<Rightarrow> ret (Some b)
             | Empty_base \<Rightarrow> ret None) (\<lambda>b.
          bind_step (lift_res (uri_init relative b)) mem_store) mem)"

definition uri_resolve :: "uri \<Rightarrow> uri \<Rightarrow> string \<Rightarrow> (uri_mem, uri) js_step" where
  "uri_resolve doc_base self relative = the_uri doc_base relative (Base_uri self)"

section \<open>Relative references\<close>

text \<open>The number of equal elements at the front; a missing element is equal to none.\<close>

fun common :: "'a list \<Rightarrow> 'a list \<Rightarrow> nat" where
  "common (a # as) (b # bs) = (if a = b then Suc (common as bs) else 0)"
| "common _ _ = 0"

definition relative_path :: "string \<Rightarrow> string \<Rightarrow> string" where
  "relative_path absolute base =
     (let aPath = split_str ''/'' absolute; bPath = split_str ''/'' base in
      if (if 1 < length aPath then Some (aPath ! 1) else None) \<noteq>
         (if 1 < length bPath then Some (bPath ! 1) else None)
      then absolute
      else
        (let i = common aPath bPath in
         join_str ''/'' (replicate (length bPath - 1 - i) ''..'' @ drop i aPath)))"

definition uri_relative :: "uri \<Rightarrow> uri \<Rightarrow> string" where
  "uri_relative self absolute =
     (let query = (case u_query absolute of Some q \<Rightarrow> CHR ''?'' # q | None \<Rightarrow> []);
          fragment = (case u_fragment absolute of Some f \<Rightarrow> CHR ''#'' # f | None \<Rightarrow> []) in
      if u_scheme absolute \<noteq> u_scheme self \<or> u_authority absolute \<noteq> u_authority self
      then uri_toString absolute
      else if u_path absolute \<noteq> u_path self then relative_path (u_path absolute) (u_path self) @ query @ fragment
      else if u_query absolute \<noteq> None \<and> u_query absolute \<noteq> u_query self then query @ fragment
      else if u_fragment absolute \<noteq> None \<and> u_fragment absolute \<noteq> u_fragment self then fragment
      else [])"

definition uri_relative_to :: "uri \<Rightarrow> string \<Rightarrow> string \<Rightarrow> (uri_mem, string) js_step" where
  "uri_relative_to doc_base absolute base =
     bind_step (the_uri doc_base base Empty_base) (\<lambda>b.
     bind_step (the_uri doc_base absolute Empty_base) (\<lambda>a. ret (uri_relative b a)))"

text \<open>\<open>$.fn.base\<close>: the \<open>href\<close> of the page's \<open>base\<close> element, against the page's location.\<close>

definition document_base :: "uri \<Rightarrow> string option \<Rightarrow> string \<Rightarrow> (uri_mem, uri) js_step" where
  "document_base doc_base base_href location =
     bind_step (uri_absolute location) (\<lambda>docURI.
       case base_href of None \<Rightarrow> ret docURI | Some h \<Rightarrow> the_uri doc_base h (Base_uri docURI))"

section \<open>Dot segments, by segments\<close>

text \<open>An absolute path by its segments, and what the loop does to them.\<close>

definition path_of :: "string list \<Rightarrow> string" where
  "path_of segs = concat (map (\<lambda>s. CHR ''/'' # s) segs)"

definition pop_seg :: "string list \<Rightarrow> string list" where
  "pop_seg st = (if st = [] \<or> last st = [] then st else butlast st)"

fun norm_segs :: "string list \<Rightarrow> string list \<Rightarrow> string list" where
  "norm_segs st [] = st"
| "norm_segs st (s # ss) =
     (if s = ''.'' then (if ss = [] then st @ [[]] else norm_segs st ss)
      else if s = ''..'' then (if ss = [] then pop_seg st @ [[]] else norm_segs (pop_seg st) ss)
      else norm_segs (st @ [s]) ss)"

definition seg_ok :: "string \<Rightarrow> bool" where
  "seg_ok s \<longleftrightarrow> CHR ''/'' \<notin> set s \<and> \<not> (\<exists>c\<in>set s. line_end c)"

lemma path_of_simps [simp]:
  "path_of [] = []" "path_of (s # ss) = CHR ''/'' # s @ path_of ss"
  "path_of (as @ bs) = path_of as @ path_of bs"
  by (simp_all add: path_of_def)

lemma slash_no_line_end [simp]: "\<not> line_end (CHR ''/'')"
  by (simp add: line_end_def)

lemma path_of_line: "\<forall>s\<in>set ss. seg_ok s \<Longrightarrow> \<not> (\<exists>c\<in>set (path_of ss). line_end c)"
proof (induction ss)
  case (Cons s ss)
  then have "\<not> (\<exists>c\<in>set s. line_end c)" "\<not> (\<exists>c\<in>set (path_of ss). line_end c)"
    by (simp_all add: seg_ok_def)
  then show ?case by (simp add: ball_Un)
qed simp

lemma drop_last_name_append: "CHR ''/'' \<notin> set s \<Longrightarrow> drop_last_name (p @ CHR ''/'' # s) = p @ ''/''"
  by (simp add: drop_last_name_def)

lemma drop_last_segment_path:
  "\<forall>s\<in>set st. seg_ok s \<Longrightarrow> drop_last_segment (path_of st) = path_of (pop_seg st)"
proof (cases st rule: rev_cases)
  case (snoc ys y)
  moreover assume "\<forall>s\<in>set st. seg_ok s"
  ultimately have "drop_last_name (path_of ys @ CHR ''/'' # y) = path_of ys @ ''/''"
    by (intro drop_last_name_append) (simp add: seg_ok_def)
  then show ?thesis
    by (simp add: snoc drop_last_segment_def pop_seg_def Let_def butlast_append)
qed (simp add: drop_last_segment_def pop_seg_def drop_last_name_def)

lemma pop_seg_ok: "\<forall>s\<in>set st. P s \<Longrightarrow> \<forall>s\<in>set (pop_seg st). P s"
  by (auto simp: pop_seg_def dest: in_set_butlastD)

lemma path_of_hd: "path_of ss = [] \<and> ss = [] \<or> (\<exists>p. path_of ss = CHR ''/'' # p)"
  by (cases ss) simp_all

lemma dot_names:
  "prefix ''./'' w \<Longrightarrow> takeWhile (\<lambda>c. c \<noteq> CHR ''/'') w = ''.''"
  "prefix ''../'' w \<Longrightarrow> takeWhile (\<lambda>c. c \<noteq> CHR ''/'') w = ''..''"
  by (auto simp: prefix_def)

lemma dot_loop_name:
  assumes s: "seg_ok s" "s \<noteq> ''.''" "s \<noteq> ''..''" and ss: "\<forall>s\<in>set ss. seg_ok s"
  shows "dot_loop (path_of (s # ss)) r = dot_loop (path_of ss) (r @ CHR ''/'' # s)"
proof -
  let ?u = "CHR ''/'' # s @ path_of ss"
  have split: "takeWhile (\<lambda>c. c \<noteq> CHR ''/'') (s @ path_of ss) = s"
    "dropWhile (\<lambda>c. c \<noteq> CHR ''/'') (s @ path_of ss) = path_of ss"
  proof -
    have n: "CHR ''/'' \<notin> set s" using s(1) by (simp add: seg_ok_def)
    then have all: "\<forall>c\<in>set s. c \<noteq> CHR ''/''" by blast
    consider "path_of ss = []" | p where "path_of ss = CHR ''/'' # p" using path_of_hd by blast
    then show "takeWhile (\<lambda>c. c \<noteq> CHR ''/'') (s @ path_of ss) = s"
    proof cases
      case 1
      show ?thesis unfolding 1 append_Nil2 takeWhile_eq_all_conv by (rule all)
    next
      case 2
      show ?thesis unfolding 2 by (rule takeWhile_ne_append [OF n])
    qed
    consider "path_of ss = []" | p where "path_of ss = CHR ''/'' # p" using path_of_hd by blast
    then show "dropWhile (\<lambda>c. c \<noteq> CHR ''/'') (s @ path_of ss) = path_of ss"
    proof cases
      case 1
      show ?thesis unfolding 1 append_Nil2 dropWhile_eq_Nil_conv by (rule all)
    next
      case 2
      show ?thesis unfolding 2 by (rule dropWhile_ne_append [OF n])
    qed
  qed
  have "s @ path_of ss \<noteq> ''.''" "s @ path_of ss \<noteq> ''..''"
    using split(1) s by fastforce+
  then have dots: "\<not> prefix ''/./'' ?u \<and> ?u \<noteq> ''/.'' \<and> \<not> prefix ''/../'' ?u \<and> ?u \<noteq> ''/..'' \<and>
      \<not> prefix ''../'' ?u \<and> \<not> prefix ''./'' ?u \<and> ?u \<noteq> ''.'' \<and> ?u \<noteq> ''..''"
    using s split(1) dot_names [of "s @ path_of ss"] by auto
  show ?thesis
    using dots split path_of_line [OF ss]
    by (simp add: dot_loop.simps [of ?u] Let_def)
qed

lemma dot_loop_segs:
  "\<forall>s\<in>set segs. seg_ok s \<Longrightarrow> \<forall>s\<in>set st. seg_ok s \<Longrightarrow>
   dot_loop (path_of segs) (path_of st) = Inr (path_of (norm_segs st segs))"
proof (induction st segs rule: norm_segs.induct)
  case (1 st)
  then show ?case by (simp add: dot_loop.simps)
next
  case (2 st s ss)
  have last: "dot_loop ''/'' (path_of st') = Inr (path_of (st' @ [[]]))" for st'
    using dot_loop_name [of "[]" "[]" "path_of st'"] by (simp add: seg_ok_def dot_loop.simps [of "[]"])
  consider "s = ''.''" | "s = ''..''" | "s \<noteq> ''.''" "s \<noteq> ''..''" by blast
  then show ?case
  proof cases
    case 1
    show ?thesis
    proof (cases ss)
      case Nil
      then show ?thesis using 1 last by (simp add: dot_loop.simps [of "''/.''"])
    next
      case (Cons t ts)
      then have "dot_loop (path_of (s # ss)) (path_of st) = dot_loop (path_of ss) (path_of st)"
        using 1 by (subst dot_loop.simps) simp
      then show ?thesis using 2 1 Cons by simp
    qed
  next
    case c: 2
    note pop = drop_last_segment_path [OF 2(5)] pop_seg_ok [OF 2(5)]
    show ?thesis
    proof (cases ss)
      case Nil
      then show ?thesis using c last [of "pop_seg st"] pop(1) by (simp add: dot_loop.simps [of "''/..''"])
    next
      case (Cons t ts)
      then have "dot_loop (path_of (s # ss)) (path_of st) = dot_loop (path_of ss) (path_of (pop_seg st))"
        using c pop(1) by (subst dot_loop.simps) simp
      then show ?thesis using 2 c Cons pop(2) by simp
    qed
  next
    case 3
    then show ?thesis using dot_loop_name [of s ss "path_of st"] 2 by simp
  qed
qed

lemma norm_segs_plain: "\<forall>s\<in>set segs. CHR ''.'' \<notin> set s \<Longrightarrow> norm_segs st segs = st @ segs"
  by (induction st segs rule: norm_segs.induct) auto

lemma path_of_dot: "CHR ''.'' \<notin> set (path_of segs) \<longleftrightarrow> (\<forall>s\<in>set segs. CHR ''.'' \<notin> set s)"
  by (induction segs) auto

definition dot_free :: "string \<Rightarrow> bool" where
  "dot_free s \<longleftrightarrow> s \<noteq> ''.'' \<and> s \<noteq> ''..''"

lemma norm_segs_no_dots:
  "\<forall>s\<in>set st. dot_free s \<Longrightarrow> \<forall>s\<in>set (norm_segs st segs). dot_free s"
proof (induction st segs rule: norm_segs.induct)
  case (2 st s ss)
  have nil: "dot_free []" by (simp add: dot_free_def)
  have pop: "\<forall>s\<in>set (pop_seg st). dot_free s" using 2(4) by (rule pop_seg_ok)
  consider "s = ''.''" | "s \<noteq> ''.''" "s = ''..''" | "s \<noteq> ''.''" "s \<noteq> ''..''" by blast
  then show ?case
  proof cases
    case 1
    then show ?thesis using 2(1) [OF 1 _ 2(4)] 2(4) nil by (cases "ss = []") simp_all
  next
    case c: 2
    then show ?thesis using 2(2) [OF c _ pop] pop nil by (cases "ss = []") simp_all
  next
    case c: 3
    then have "\<forall>x\<in>set (st @ [s]). dot_free x" using 2(4) by (simp add: dot_free_def)
    from 2(3) [OF c this] show ?thesis using c by simp
  qed
qed simp

text \<open>An empty segment stops the climb, where RFC 3986 removes it.\<close>

lemma dot_segments_empty_segment: "removeDotSegments ''/a//../b'' = Inr ''/a//b''"
  using dot_loop_segs [of "[''a'', [], ''..'', ''b'']" "[]"]
  by (simp add: removeDotSegments_def seg_ok_def line_end_def pop_seg_def)

section \<open>Parsing what was printed\<close>

definition wf_uri :: "uri \<Rightarrow> bool" where
  "wf_uri u \<longleftrightarrow>
     (\<exists>s. u_scheme u = Some s \<and> s \<noteq> [] \<and> is_alpha (hd s) \<and> (\<forall>c\<in>set s. scheme_char c) \<and> to_lower s = s) \<and>
     (case u_authority u of
        Some a \<Rightarrow> a \<noteq> [] \<and> (\<forall>c\<in>set a. auth_char c) \<and> (u_path u = [] \<or> hd (u_path u) = CHR ''/'')
      | None \<Rightarrow> \<not> (prefix ''//'' (u_path u) \<and> takeWhile auth_char (drop 2 (u_path u)) \<noteq> [])) \<and>
     (\<forall>c\<in>set (u_path u). path_char c) \<and>
     (\<forall>q. u_query u = Some q \<longrightarrow> CHR ''#'' \<notin> set q) \<and>
     (\<forall>f. u_fragment u = Some f \<longrightarrow> \<not> (\<exists>c\<in>set f. line_end c))"

definition tail_text :: "string option \<Rightarrow> string option \<Rightarrow> string" where
  "tail_text q f = (case q of Some q \<Rightarrow> CHR ''?'' # q | None \<Rightarrow> []) @
     (case f of Some f \<Rightarrow> CHR ''#'' # f | None \<Rightarrow> [])"

lemma takeWhile_stop: "\<forall>c\<in>set p. P c \<Longrightarrow> t = [] \<or> \<not> P (hd t) \<Longrightarrow> takeWhile P (p @ t) = p"
  by (induction p; cases t) auto

lemma dropWhile_stop: "\<forall>c\<in>set p. P c \<Longrightarrow> t = [] \<or> \<not> P (hd t) \<Longrightarrow> dropWhile P (p @ t) = t"
  by (induction p; cases t) auto

lemma tail_text_hd: "tail_text q f = [] \<or> hd (tail_text q f) \<in> set ''?#''"
  by (auto simp: tail_text_def split: option.splits)

lemma scan_tail:
  assumes "\<forall>x. q = Some x \<longrightarrow> CHR ''#'' \<notin> set x"
  shows "scan_query (tail_text q f) = (q, tail_text None f)"
proof (cases q)
  case (Some x)
  then have x: "\<forall>c\<in>set x. c \<noteq> CHR ''#''" using assms by auto
  have t: "tail_text None f = [] \<or> \<not> (hd (tail_text None f) \<noteq> CHR ''#'')"
    by (cases f) (simp_all add: tail_text_def)
  have "tail_text q f = CHR ''?'' # x @ tail_text None f" by (simp add: Some tail_text_def)
  then show ?thesis
    using takeWhile_stop [OF x t] dropWhile_stop [OF x t] by (simp add: scan_query_def Some)
next
  case None
  then show ?thesis by (cases f) (simp_all add: scan_query_def tail_text_def)
qed

lemma toString_tail: "uri_toString u =
    (case u_scheme u of Some s \<Rightarrow> s @ '':'' | None \<Rightarrow> []) @
    (case u_authority u of Some a \<Rightarrow> ''//'' @ a | None \<Rightarrow> []) @ u_path u @ tail_text (u_query u) (u_fragment u)"
  by (simp add: uri_toString_def tail_text_def)

lemma scan_path:
  assumes "\<forall>c\<in>set p. path_char c"
  shows "takeWhile path_char (p @ tail_text q f) = p" "dropWhile path_char (p @ tail_text q f) = tail_text q f"
proof -
  have "tail_text q f = [] \<or> \<not> path_char (hd (tail_text q f))"
    using tail_text_hd [of q f] by (auto simp: path_char_def)
  then show "takeWhile path_char (p @ tail_text q f) = p" "dropWhile path_char (p @ tail_text q f) = tail_text q f"
    using assms takeWhile_stop dropWhile_stop by blast+
qed

lemma scan_authority_toString:
  assumes wf: "wf_uri u"
  defines "rest \<equiv> u_path u @ tail_text (u_query u) (u_fragment u)"
  shows "scan_authority ((case u_authority u of Some a \<Rightarrow> ''//'' @ a | None \<Rightarrow> []) @ rest) = (u_authority u, rest)"
proof -
  have t: "tail_text q f = [] \<or> \<not> auth_char (hd (tail_text q f))" for q f
    using tail_text_hd [of q f] by (auto simp: auth_char_def)
  show ?thesis
  proof (cases "u_authority u")
    case (Some a)
    then have a: "a \<noteq> []" "\<forall>c\<in>set a. auth_char c" and p: "u_path u = [] \<or> hd (u_path u) = CHR ''/''"
      using wf by (simp_all add: wf_uri_def)
    have "rest = [] \<or> \<not> auth_char (hd rest)"
      using p t by (cases "u_path u") (auto simp: rest_def auth_char_def)
    then show ?thesis
      using takeWhile_stop [OF a(2)] dropWhile_stop [OF a(2)] a(1) Some by (simp add: scan_authority_def)
  next
    case None
    then have p: "\<not> (prefix ''//'' (u_path u) \<and> takeWhile auth_char (drop 2 (u_path u)) \<noteq> [])"
      using wf by (simp add: wf_uri_def)
    have "\<not> (prefix ''//'' rest \<and> takeWhile auth_char (drop 2 rest) \<noteq> [])"
    proof
      assume r: "prefix ''//'' rest \<and> takeWhile auth_char (drop 2 rest) \<noteq> []"
      then have "prefix ''//'' (u_path u)"
        using tail_text_hd [of "u_query u" "u_fragment u"]
        by (cases "u_path u"; cases "tl (u_path u)"; cases "tail_text (u_query u) (u_fragment u)")
          (auto simp: rest_def)
      then obtain p' where p': "u_path u = ''//'' @ p'" by (auto simp: prefix_def)
      then have "takeWhile auth_char p' = []" using p by simp
      then have "takeWhile auth_char (p' @ tail_text (u_query u) (u_fragment u)) = []"
        using t [of "u_query u" "u_fragment u"]
        by (cases p'; cases "tail_text (u_query u) (u_fragment u)") (auto split: if_splits)
      then show False using r p' by (simp add: rest_def)
    qed
    then show ?thesis using None by (auto simp: scan_authority_def)
  qed
qed

lemma parse_toString:
  assumes wf: "wf_uri u"
  shows "parseURI (uri_toString u) = Inr u"
proof -
  from wf obtain s where s: "u_scheme u = Some s" "s \<noteq> []" "is_alpha (hd s)" "\<forall>c\<in>set s. scheme_char c"
    "to_lower s = s" by (auto simp: wf_uri_def)
  let ?tail = "tail_text (u_query u) (u_fragment u)"
  let ?rest = "(case u_authority u of Some a \<Rightarrow> ''//'' @ a | None \<Rightarrow> []) @ u_path u @ ?tail"
  have str: "uri_toString u = s @ CHR '':'' # ?rest" by (simp add: toString_tail s(1))
  have colon: "\<not> scheme_char (CHR '':'')" by (simp add: scheme_char_def is_alpha_def is_digit_def)
  have "takeWhile scheme_char (s @ CHR '':'' # ?rest) = s" "dropWhile scheme_char (s @ CHR '':'' # ?rest) = CHR '':'' # ?rest"
    using s(4) colon by (simp_all add: takeWhile_stop dropWhile_stop)
  then have sch: "scan_scheme (uri_toString u) = (Some s, ?rest)"
    using s by (simp add: scan_scheme_def str)
  have path: "\<forall>c\<in>set (u_path u). path_char c" and q: "\<forall>x. u_query u = Some x \<longrightarrow> CHR ''#'' \<notin> set x"
    and f: "\<forall>f. u_fragment u = Some f \<longrightarrow> \<not> (\<exists>c\<in>set f. line_end c)"
    using wf by (auto simp: wf_uri_def)
  show ?thesis
    unfolding parseURI_def sch Let_def split_conv
    unfolding scan_authority_toString [OF wf] Let_def split_conv scan_path [OF path] scan_tail [OF q]
    using s(1,5) f by (cases u; cases "u_fragment u") (auto simp: tail_text_def)
qed

section \<open>Which URI objects are well-formed\<close>

lemma lower_char_idem: "lower_char (lower_char c) = lower_char c"
proof -
  let ?n = "of_char c :: nat"
  show ?thesis
  proof (cases "65 \<le> ?n \<and> ?n \<le> 90 \<or> 192 \<le> ?n \<and> ?n \<le> 222 \<and> ?n \<noteq> 215")
    case True
    then have "lower_char c = char_of (?n + 32)" by (simp add: lower_char_def)
    moreover have "?n + 32 < 256" using True by auto
    ultimately have "(of_char (lower_char c) :: nat) = ?n + 32" by simp
    then show ?thesis using True by (auto simp: lower_char_def [of "lower_char c"] Let_def)
  next
    case False
    then have "lower_char c = c" by (simp only: lower_char_def Let_def if_False)
    then show ?thesis by simp
  qed
qed

lemma lower_scheme: "scheme_char c \<Longrightarrow> scheme_char (lower_char c) \<and> (is_alpha c \<longrightarrow> is_alpha (lower_char c))"
proof -
  assume s: "scheme_char c"
  let ?n = "of_char c :: nat"
  show ?thesis
  proof (cases "is_alpha c")
    case True
    then have "?n + 32 < 256" by (auto simp: is_alpha_def Let_def)
    then have "is_alpha (lower_char c)" using True by (auto simp: is_alpha_def lower_char_def Let_def)
    then show ?thesis by (simp add: scheme_char_def)
  next
    case False
    then have "is_digit c \<or> c \<in> set ''-+.''" using s by (simp add: scheme_char_def)
    then have "?n < 65" by (auto simp: is_digit_def)
    then have "lower_char c = c" by (simp add: lower_char_def)
    then show ?thesis using s False by simp
  qed
qed

lemma hd_takeWhile_all: "\<forall>c\<in>set (takeWhile P s). P c"
  using set_takeWhileD by fastforce

lemma scan_scheme_wf:
  "scan_scheme u = (Some s, r) \<Longrightarrow>
   s \<noteq> [] \<and> is_alpha (hd s) \<and> (\<forall>c\<in>set s. scheme_char c)"
  using hd_takeWhile_all [of scheme_char u] by (auto simp: scan_scheme_def Let_def split: if_splits)

lemma scan_authority_wf:
  assumes "scan_authority u = (a, r)"
  shows "(case a of Some a \<Rightarrow> a \<noteq> [] \<and> (\<forall>c\<in>set a. auth_char c) \<and> (r = [] \<or> hd r \<in> set ''/?#'')
      | None \<Rightarrow> r = u \<and> \<not> (prefix ''//'' u \<and> takeWhile auth_char (drop 2 u) \<noteq> []))"
proof -
  have "dropWhile auth_char v = [] \<or> hd (dropWhile auth_char v) \<in> set ''/?#''" for v
    using hd_dropWhile [of auth_char v] by (cases "dropWhile auth_char v = []") (auto simp: auth_char_def)
  then show ?thesis
    using assms hd_takeWhile_all [of auth_char "drop 2 u"] by (auto simp: scan_authority_def split: if_splits)
qed

lemma scan_query_wf: "scan_query u = (Some q, r) \<Longrightarrow> CHR ''#'' \<notin> set q"
  using hd_takeWhile_all [of "\<lambda>c. c \<noteq> CHR ''#''" "tl u"] by (auto simp: scan_query_def split: if_splits)

text \<open>What a successful parse gives, the scheme apart.\<close>

definition wf_parts :: "uri \<Rightarrow> bool" where
  "wf_parts u \<longleftrightarrow>
     (case u_authority u of
        Some a \<Rightarrow> a \<noteq> [] \<and> (\<forall>c\<in>set a. auth_char c) \<and> (u_path u = [] \<or> hd (u_path u) = CHR ''/'')
      | None \<Rightarrow> \<not> (prefix ''//'' (u_path u) \<and> takeWhile auth_char (drop 2 (u_path u)) \<noteq> [])) \<and>
     (\<forall>c\<in>set (u_path u). path_char c) \<and>
     (\<forall>q. u_query u = Some q \<longrightarrow> CHR ''#'' \<notin> set q) \<and>
     (\<forall>f. u_fragment u = Some f \<longrightarrow> \<not> (\<exists>c\<in>set f. line_end c))"

definition wf_scheme :: "string option \<Rightarrow> bool" where
  "wf_scheme sch \<longleftrightarrow>
     (\<exists>s. sch = Some s \<and> s \<noteq> [] \<and> is_alpha (hd s) \<and> (\<forall>c\<in>set s. scheme_char c) \<and> to_lower s = s)"

lemma wf_uri_parts: "wf_uri u \<longleftrightarrow> wf_scheme (u_scheme u) \<and> wf_parts u"
  by (simp add: wf_uri_def wf_scheme_def wf_parts_def)

lemma path_of_authority:
  assumes "\<not> (prefix ''//'' u \<and> takeWhile auth_char (drop 2 u) \<noteq> [])"
  shows "\<not> (prefix ''//'' (takeWhile path_char u) \<and> takeWhile auth_char (drop 2 (takeWhile path_char u)) \<noteq> [])"
proof
  assume p: "prefix ''//'' (takeWhile path_char u) \<and> takeWhile auth_char (drop 2 (takeWhile path_char u)) \<noteq> []"
  have u: "u = takeWhile path_char u @ dropWhile path_char u" by simp
  from p obtain v where v: "takeWhile path_char u = ''//'' @ v" by (auto simp: prefix_def)
  with p have "takeWhile auth_char v \<noteq> []" by simp
  then have "v \<noteq> []" "auth_char (hd v)" by (cases v; auto split: if_splits)+
  then have "takeWhile auth_char (v @ dropWhile path_char u) \<noteq> []" by (cases v) auto
  moreover have "u = ''//'' @ v @ dropWhile path_char u" using u v by simp
  ultimately show False using assms by (metis append_eq_conv_conj length_Cons list.size(3) numeral_2_eq_2 prefixI)
qed

lemma parse_wf:
  assumes "parseURI s = Inr u"
  shows "wf_parts u \<and> (u_scheme u \<noteq> None \<longrightarrow> wf_scheme (u_scheme u))"
proof -
  obtain sch u1 where sch: "scan_scheme s = (sch, u1)" by force
  obtain a u2 where a: "scan_authority u1 = (a, u2)" by force
  obtain q u3 where q: "scan_query (dropWhile path_char u2) = (q, u3)" by force
  let ?p = "takeWhile path_char u2"
  have u: "u_scheme u = map_option to_lower sch" "u_authority u = a" "u_path u = ?p" "u_query u = q"
    "\<forall>f. u_fragment u = Some f \<longrightarrow> \<not> (\<exists>c\<in>set f. line_end c)"
    using assms by (auto simp: parseURI_def sch a q Let_def split: if_splits)
  have scheme: "wf_scheme (u_scheme u)" if "u_scheme u \<noteq> None"
  proof -
    from that u(1) obtain x where x: "sch = Some x" by auto
    note x' = scan_scheme_wf [OF sch [unfolded x]]
    then have "is_alpha (hd (to_lower x))" "to_lower x \<noteq> []" "\<forall>c\<in>set (to_lower x). scheme_char c"
      using lower_scheme by (auto simp: to_lower_def hd_map)
    moreover have "to_lower (to_lower x) = to_lower x" by (simp add: to_lower_def lower_char_idem)
    ultimately show ?thesis using u(1) x by (simp add: wf_scheme_def)
  qed
  have auth: "case a of Some a \<Rightarrow> a \<noteq> [] \<and> (\<forall>c\<in>set a. auth_char c) \<and> (?p = [] \<or> hd ?p = CHR ''/'')
      | None \<Rightarrow> \<not> (prefix ''//'' ?p \<and> takeWhile auth_char (drop 2 ?p) \<noteq> [])"
  proof (cases a)
    case None
    then show ?thesis using scan_authority_wf [OF a] path_of_authority by simp
  next
    case (Some x)
    then show ?thesis using scan_authority_wf [OF a] by (cases u2) (auto simp: path_char_def)
  qed
  have "\<forall>x. q = Some x \<longrightarrow> CHR ''#'' \<notin> set x" using scan_query_wf q by blast
  then have "wf_parts u"
    using auth u hd_takeWhile_all [of path_char u2] unfolding wf_parts_def u(2-4) by blast
  then show ?thesis using scheme by blast
qed

section \<open>The cache is transparent\<close>

definition abs_path :: "string \<Rightarrow> bool" where
  "abs_path p \<longleftrightarrow> p = [] \<or> hd p = CHR ''/''"

lemma drop_last_prefix: "prefix (drop_last_name r) r" "prefix (drop_last_segment r) r"
proof -
  have "r = drop_last_name r @ rev (takeWhile (\<lambda>c. c \<noteq> CHR ''/'') (rev r))"
    unfolding drop_last_name_def rev_append [symmetric] by simp
  then show p: "prefix (drop_last_name r) r" by (metis prefixI)
  have "prefix (butlast (drop_last_name r)) (drop_last_name r)"
    by (cases "drop_last_name r" rule: rev_cases) auto
  then show "prefix (drop_last_segment r) r"
    using p by (auto simp: drop_last_segment_def Let_def)
qed

lemma abs_path_prefix: "prefix q p \<Longrightarrow> abs_path p \<Longrightarrow> abs_path q"
  by (cases q; cases p) (auto simp: abs_path_def)

lemma dot_loop_abs:
  "dot_loop u r = Inr p \<Longrightarrow> abs_path u \<Longrightarrow> abs_path r \<Longrightarrow> \<forall>c\<in>set u \<union> set r. path_char c \<Longrightarrow>
   abs_path p \<and> (\<forall>c\<in>set p. path_char c)"
proof (induction u r rule: dot_loop.induct)
  case (1 u r)
  note abs = 1(7) and r = 1(8) and chars = 1(9)
  have slash: "path_char (CHR ''/'')" by (simp add: path_char_def)
  show ?case
  proof (cases "u = []")
    case True
    then have "p = r" using 1(6) dot_loop.simps [of "[]" r] by simp
    then show ?thesis using r chars by simp
  next
    case False
    then obtain v where u: "u = CHR ''/'' # v" using abs by (cases u) (simp_all add: abs_path_def)
    then have not_rel: "u \<noteq> ''.''" "u \<noteq> ''..''" "\<not> prefix ''../'' u" "\<not> prefix ''./'' u" by simp_all
    have nd: "\<not> (u = ''.'' \<or> u = ''..'')" using not_rel by blast
    note no = False not_rel
    have abs_Cons: "abs_path (CHR ''/'' # x)" for x by (simp add: abs_path_def)
    show ?thesis
    proof (cases "prefix ''/./'' u \<or> u = ''/.''")
      case True
      have "dot_loop (CHR ''/'' # drop 3 u) r = Inr p"
        using 1(6) no True unfolding dot_loop.simps [of u r] by (simp only: if_False if_True simp_thms)
      moreover have "\<forall>c\<in>set (CHR ''/'' # drop 3 u) \<union> set r. path_char c"
        using chars slash by (auto dest: in_set_dropD)
      ultimately show ?thesis
        using 1(3) [OF no(1) nd no(4,5) True] abs_Cons r by blast
    next
      case one: False
      show ?thesis
      proof (cases "prefix ''/../'' u \<or> u = ''/..''")
        case True
        have "dot_loop (CHR ''/'' # drop 4 u) (drop_last_segment r) = Inr p"
          using 1(6) no one True unfolding dot_loop.simps [of u r] by (simp only: if_False if_True simp_thms)
        moreover have "abs_path (drop_last_segment r)" using r drop_last_prefix abs_path_prefix by blast
        moreover have "set (drop_last_segment r) \<subseteq> set r" using drop_last_prefix set_mono_prefix by blast
        then have "\<forall>c\<in>set (CHR ''/'' # drop 4 u) \<union> set (drop_last_segment r). path_char c"
          using chars slash set_drop_subset [of 4 u] by fastforce
        ultimately show ?thesis
          using 1(4) [OF no(1) nd no(4,5) one True] abs_Cons by blast
      next
        case two: False
        let ?name = "takeWhile (\<lambda>c. c \<noteq> CHR ''/'') v" and ?rest = "dropWhile (\<lambda>c. c \<noteq> CHR ''/'') v"
        have step: "dot_loop u r = (if \<exists>c\<in>set ?rest. line_end c then Inl TypeError
            else dot_loop ?rest (r @ CHR ''/'' # ?name))"
          unfolding dot_loop.simps [of u r] using no one two by (simp add: u Let_def)
        then have le: "\<not> (\<exists>c\<in>set ?rest. line_end c)" and d: "dot_loop ?rest (r @ CHR ''/'' # ?name) = Inr p"
          using 1(6) by (simp_all split: if_splits)
        have s: "True = (take 1 u = ''/'')" "v = (if True then tl u else u)" by (simp_all add: u)
        note IH = 1(5) [OF no(1) nd no(4,5) one two s refl refl le, unfolded if_True append.simps]
        have "abs_path ?rest" using hd_dropWhile [of "\<lambda>c. c \<noteq> CHR ''/''" v] by (auto simp: abs_path_def)
        moreover have "abs_path (r @ CHR ''/'' # ?name)" using r by (cases r) (simp_all add: abs_path_def)
        moreover have "\<forall>c\<in>set ?rest \<union> set (r @ CHR ''/'' # ?name). path_char c"
          using chars u slash by (auto dest: set_takeWhileD set_dropWhileD)
        ultimately show ?thesis
          using IH [OF d] by blast
      qed
    qed
  qed
qed

lemma removeDotSegments_abs:
  assumes "removeDotSegments q = Inr p" "abs_path q" "\<forall>c\<in>set q. path_char c"
  shows "abs_path p \<and> (\<forall>c\<in>set p. path_char c)"
  using assms dot_loop_abs [of q "[]" p] by (auto simp: removeDotSegments_def abs_path_def split: if_splits)

lemma merge_path_abs:
  assumes "wf_parts b" "u_authority b \<noteq> None" "\<forall>c\<in>set r. path_char c" "r \<noteq> []"
  shows "abs_path (merge_path (Some b) r) \<and> (\<forall>c\<in>set (merge_path (Some b) r). path_char c)"
proof (cases "u_path b = []")
  case True
  have "u_authority b \<noteq> Some []" using assms(1,2) by (auto simp: wf_parts_def)
  then have "merge_path (Some b) r = CHR ''/'' # r" using True by (simp add: merge_path_def)
  moreover have "path_char (CHR ''/'')" by (simp add: path_char_def)
  ultimately show ?thesis using assms(3) by (simp add: abs_path_def)
next
  case False
  let ?d = "drop_last_name (u_path b)"
  have hd: "hd (u_path b) = CHR ''/''" using assms(1,2) False by (auto simp: wf_parts_def)
  then have "CHR ''/'' \<in> set (u_path b)" using False by (metis hd_in_set)
  then have "?d \<noteq> []" by (simp add: drop_last_name_def)
  then have "hd ?d = CHR ''/''" using drop_last_prefix(1) [of "u_path b"] hd by (metis hd_append2 prefix_def)
  moreover have "set ?d \<subseteq> set (u_path b)" using drop_last_prefix set_mono_prefix by blast
  ultimately show ?thesis
    using assms \<open>?d \<noteq> []\<close> False by (auto simp: merge_path_def abs_path_def wf_parts_def)
qed

text \<open>A base with an authority gives well-formed results.\<close>

lemma uri_init_wf:
  assumes b: "wf_uri b" "u_authority b \<noteq> None" and u: "uri_init relative (Some b) = Inr u"
  shows "wf_uri u"
proof -
  from u obtain p where p: "parseURI relative = Inr p"
    by (auto simp: uri_init_def bind_res_Inr_iff)
  have wfb: "wf_scheme (u_scheme b)" "wf_parts b" using b(1) by (simp_all add: wf_uri_parts)
  note wfp = parse_wf [OF p]
  show ?thesis
  proof (cases "u_scheme p")
    case (Some s)
    then show ?thesis using u p wfp by (simp add: uri_init_def wf_uri_parts)
  next
    case None
    from u p None have init: "uri_inherit (Some b) p = Inr u"
      by (auto simp: uri_init_def bind_res_Inr_iff split: if_splits)
    show ?thesis
    proof (cases "u_authority p = None")
      case False
      with init obtain q where q: "removeDotSegments (u_path p) = Inr q" "u = p\<lparr>u_scheme := u_scheme b, u_path := q\<rparr>"
        by (auto simp: uri_inherit_def bind_res_Inr_iff)
      moreover have "abs_path (u_path p)" "\<forall>c\<in>set (u_path p). path_char c"
        using wfp False by (auto simp: wf_parts_def abs_path_def)
      ultimately show ?thesis
        using removeDotSegments_abs [of "u_path p" q] wfp wfb(1) False
        by (auto simp: wf_uri_parts wf_parts_def abs_path_def)
    next
      case True
      show ?thesis
      proof (cases "u_path p = []")
        case empty: True
        then have "u = p\<lparr>u_scheme := u_scheme b, u_authority := u_authority b, u_path := u_path b,
            u_query := (if u_query p = None then u_query b else u_query p)\<rparr>"
          using init True by (auto simp: uri_inherit_def Let_def)
        then show ?thesis using wfp wfb b(2) by (auto simp: wf_uri_parts wf_parts_def)
      next
        case False
        let ?q = "if take 1 (u_path p) = ''/'' then u_path p else merge_path (Some b) (u_path p)"
        from init True False obtain q where q: "removeDotSegments ?q = Inr q"
          "u = p\<lparr>u_scheme := u_scheme b, u_authority := u_authority b, u_path := q\<rparr>"
          by (auto simp: uri_inherit_def bind_res_Inr_iff Let_def)
        have chars: "\<forall>c\<in>set (u_path p). path_char c" using wfp by (simp add: wf_parts_def)
        have "take 1 (u_path p) = ''/'' \<Longrightarrow> abs_path (u_path p)"
          by (cases "u_path p") (simp_all add: abs_path_def)
        then have "abs_path ?q \<and> (\<forall>c\<in>set ?q. path_char c)"
          using merge_path_abs [OF wfb(2) b(2) chars False] chars by simp
        then have "abs_path q \<and> (\<forall>c\<in>set q. path_char c)" using removeDotSegments_abs [OF q(1)] by blast
        then show ?thesis
          using q(2) wfp wfb b(2) by (auto simp: wf_uri_parts wf_parts_def abs_path_def)
      qed
    qed
  qed
qed

text \<open>The invariant of the cache: every entry is what parsing its key gives.\<close>

definition mem_ok :: "uri_mem \<Rightarrow> bool" where
  "mem_ok mem \<longleftrightarrow> (\<forall>k v. mem k = Some v \<longrightarrow> parseURI k = Inr v \<and> u_scheme v \<noteq> None)"

lemma mem_store_ok:
  assumes "mem_ok mem" "wf_uri u"
  shows "\<exists>mem'. mem_store u mem = (Inr u, mem') \<and> mem_ok mem'"
proof (cases "mem (uri_toString u)")
  case (Some v)
  then have "parseURI (uri_toString u) = Inr v" using assms(1) by (simp add: mem_ok_def)
  then have "v = u" using parse_toString [OF assms(2)] by simp
  then show ?thesis using Some assms(1) by (simp add: mem_store_def)
next
  case None
  have "mem_ok (mem(uri_toString u \<mapsto> u))"
    using assms parse_toString [OF assms(2)] by (auto simp: mem_ok_def wf_uri_def)
  then show ?thesis using None by (simp add: mem_store_def)
qed

text \<open>Resolution against a base, or against that of the document if none is given, does not depend on the cache.\<close>

lemma the_uri_answer:
  assumes "mem_ok mem" "wf_uri b" "u_authority b \<noteq> None" "base = Base_uri b \<or> base = No_base \<and> d = b"
  shows "\<exists>mem'. the_uri d relative base mem = (uri_init relative (Some b), mem') \<and> mem_ok mem'"
proof (cases "mem relative")
  case (Some v)
  then have "parseURI relative = Inr v" "u_scheme v \<noteq> None" using assms(1) by (simp_all add: mem_ok_def)
  then have "uri_init relative (Some b) = Inr v" by (simp add: uri_init_def)
  then show ?thesis using Some assms(1) by (simp add: the_uri_def)
next
  case None
  have base: "(case base of No_base \<Rightarrow> ret (Some d) | Base_string s \<Rightarrow>
      if s = [] then ret (Some d) else bind_step (uri_absolute s) (\<lambda>b. ret (Some b))
    | Base_uri b \<Rightarrow> ret (Some b) | Empty_base \<Rightarrow> ret None) = (ret (Some b) :: (uri_mem, uri option) js_step)"
    using assms(4) by auto
  show ?thesis
  proof (cases "uri_init relative (Some b)")
    case (Inl e)
    then show ?thesis using None assms(1) base by (simp add: the_uri_def throw_def)
  next
    case (Inr u)
    then show ?thesis
      using None mem_store_ok [OF assms(1) uri_init_wf [OF assms(2,3) Inr]] base by (simp add: the_uri_def)
  qed
qed

section \<open>Properties\<close>

text \<open>
  C17. \<open>removeDotSegments\<close> works on an absolute path segment by segment: a \<open>.\<close> is dropped, a
  \<open>..\<close> takes the segment before it unless that is empty, either of them at the end leaves an
  empty segment, and no dot segment remains.
\<close>

theorem removeDotSegments_segments:
  assumes "\<forall>s\<in>set segs. seg_ok s"
  shows "removeDotSegments (path_of segs) = Inr (path_of (norm_segs [] segs)) \<and>
    (\<forall>s\<in>set (norm_segs [] segs). dot_free s)"
proof -
  have "removeDotSegments (path_of segs) = Inr (path_of (norm_segs [] segs))"
    using dot_loop_segs [OF assms, of "[]"] norm_segs_plain [of segs "[]"] path_of_dot [of segs]
    by (simp add: removeDotSegments_def)
  then show ?thesis using norm_segs_no_dots [of "[]" segs] by simp
qed

theorem removeDotSegments_segments_witness:
  "removeDotSegments ''/a/b/c/./../../g'' = Inr ''/a/g''"
  using removeDotSegments_segments [of "[''a'', ''b'', ''c'', ''.'', ''..'', ''..'', ''g'']"]
  by (simp add: seg_ok_def line_end_def pop_seg_def)

text \<open>
  C18. The cache of \<open>$.uri\<close>, which ignores the base, never changes an answer: resolving any
  reference against a well-formed base with an authority gives what resolution without the
  cache gives, error or URI, and the cache stays correct for the next calls.
\<close>

theorem uri_cache_transparent:
  assumes "mem_ok mem" "wf_uri b" "u_authority b \<noteq> None"
  shows "\<exists>mem'. the_uri d relative (Base_uri b) mem = (uri_init relative (Some b), mem') \<and> mem_ok mem'"
  using the_uri_answer [OF assms] by blast

theorem uri_cache_transparent_witness:
  "\<forall>d. \<exists>mem'. the_uri d ''../x'' (Base_uri \<lparr>u_scheme = Some ''http'', u_authority = Some ''h'', u_path = ''/a/b/c'',
      u_query = None, u_fragment = None\<rparr>) Map.empty =
    (Inr \<lparr>u_scheme = Some ''http'', u_authority = Some ''h'', u_path = ''/a/x'', u_query = None,
      u_fragment = None\<rparr>, mem')"
proof -
  let ?b = "\<lparr>u_scheme = Some ''http'', u_authority = Some ''h'', u_path = ''/a/b/c'', u_query = None,
    u_fragment = None\<rparr>"
  have "wf_uri ?b"
    by (simp add: wf_uri_def is_alpha_def scheme_char_def to_lower_def lower_char_def auth_char_def path_char_def)
  moreover have "uri_init ''../x'' (Some ?b) = Inr \<lparr>u_scheme = Some ''http'', u_authority = Some ''h'',
      u_path = ''/a/x'', u_query = None, u_fragment = None\<rparr>" by code_simp
  ultimately have "\<exists>mem'. the_uri d ''../x'' (Base_uri ?b) Map.empty = (Inr \<lparr>u_scheme = Some ''http'',
      u_authority = Some ''h'', u_path = ''/a/x'', u_query = None, u_fragment = None\<rparr>, mem')" for d
    using uri_cache_transparent [of Map.empty ?b d "''../x''"] by (auto simp: mem_ok_def)
  then show ?thesis by (rule allI)
qed

text \<open>
  C20. A URI object that a parse gives, and that has a scheme, is well-formed, and printing and parsing it
  again gives the same object.
\<close>

theorem uri_print_parse:
  assumes "parseURI s = Inr u" "u_scheme u \<noteq> None"
  shows "wf_uri u \<and> parseURI (uri_toString u) = Inr u"
  using parse_wf [OF assms(1)] assms(2) parse_toString by (simp add: wf_uri_parts)

theorem uri_print_parse_witness:
  "parseURI (uri_toString \<lparr>u_scheme = Some ''http'', u_authority = Some ''H'', u_path = [], u_query = Some ''q'',
      u_fragment = Some ''f?''\<rparr>) = Inr \<lparr>u_scheme = Some ''http'', u_authority = Some ''H'', u_path = [],
      u_query = Some ''q'', u_fragment = Some ''f?''\<rparr>"
proof -
  have "parseURI ''HTTP://H?q#f?'' = Inr \<lparr>u_scheme = Some ''http'', u_authority = Some ''H'', u_path = [],
      u_query = Some ''q'', u_fragment = Some ''f?''\<rparr>" by code_simp
  from uri_print_parse [OF this] show ?thesis by simp
qed

end
