(* ===== verification/TypedValue.thy ===== *)
theory TypedValue
  imports RdfUri
begin

text \<open>
  \<open>jquery.rdfquery.core-1.0.js\<close>, lines 516 to 915: \<open>$.typedValue\<close>, literals with an XML
  Schema datatype. The regular expressions are scanners; \<open>parseFloat\<close>'s numbers are kept as
  the text it reads, integers are exact (the engine's are, up to \<open>2 ^ 53\<close>). Datatypes are
  known by the name after \<open>http://www.w3.org/2001/XMLSchema#\<close>. The constructor returns
  the shared prototype object, so all typed values are one cell of the state.
\<close>

section \<open>White space\<close>

definition xml_space :: "char \<Rightarrow> bool" where
  "xml_space c \<longleftrightarrow> c = CHR '' '' \<or> c = CHR 0x09 \<or> c = CHR 0x0A \<or> c = CHR 0x0D"

text \<open>Only the first run of white space is replaced: the expression has no \<open>g\<close> flag.\<close>

definition strip :: "string \<Rightarrow> string" where
  "strip value =
     (let pre = takeWhile (\<lambda>c. \<not> xml_space c) value; rest = dropWhile (\<lambda>c. \<not> xml_space c) value;
          v = (if rest = [] then value else pre @ CHR '' '' # dropWhile xml_space rest);
          v1 = dropWhile (\<lambda>c. c = CHR '' '') v
      in rev (dropWhile (\<lambda>c. c = CHR '' '') (rev v1)))"

section \<open>The regular expressions\<close>

definition drop_sign :: "string \<Rightarrow> string" where
  "drop_sign s = (case s of c # t \<Rightarrow> if c = CHR ''-'' \<or> c = CHR ''+'' then t else s | [] \<Rightarrow> [])"

definition all_digits :: "string \<Rightarrow> bool" where
  "all_digits s \<longleftrightarrow> list_all is_digit s"

definition digits1 :: "string \<Rightarrow> bool" where
  "digits1 s \<longleftrightarrow> s \<noteq> [] \<and> all_digits s"

definition no_lines :: "string \<Rightarrow> bool" where
  "no_lines s \<longleftrightarrow> \<not> (\<exists>c\<in>set s. line_end c)"

definition re_NCName :: "string \<Rightarrow> bool" where
  "re_NCName s = (case s of [] \<Rightarrow> False
     | c # t \<Rightarrow> (is_alpha c \<or> c = CHR ''_'') \<and> t \<noteq> [] \<and>
         (\<forall>d\<in>set t. is_alpha d \<or> is_digit d \<or> d = CHR ''-'' \<or> d = CHR ''.''))"

definition re_boolean :: "string \<Rightarrow> bool" where
  "re_boolean s \<longleftrightarrow> s = ''true'' \<or> s = ''false'' \<or> s = ''1'' \<or> s = ''0''"

definition re_unsigned_decimal :: "string \<Rightarrow> bool" where
  "re_unsigned_decimal s =
     (let ds = takeWhile is_digit s; rest = dropWhile is_digit s in
      if ds \<noteq> [] then rest = [] \<or> (hd rest = CHR ''.'' \<and> all_digits (tl rest))
      else rest \<noteq> [] \<and> hd rest = CHR ''.'' \<and> digits1 (tl rest))"

definition re_decimal :: "string \<Rightarrow> bool" where
  "re_decimal s = re_unsigned_decimal (drop_sign s)"

definition re_integer :: "string \<Rightarrow> bool" where
  "re_integer s = digits1 (drop_sign s)"

definition exp_char :: "char \<Rightarrow> bool" where
  "exp_char c \<longleftrightarrow> c = CHR ''e'' \<or> c = CHR ''E''"

definition re_float :: "string \<Rightarrow> bool" where
  "re_float s \<longleftrightarrow>
     drop_sign s = ''INF'' \<or> s = ''NaN'' \<or>
     (let m = takeWhile (\<lambda>c. \<not> exp_char c) s; e = dropWhile (\<lambda>c. \<not> exp_char c) s in
      re_decimal m \<and> (e = [] \<or> digits1 (drop_sign (tl e))))"

text \<open>An optional number with its letter, \<open>(?:([0-9]+)Y)?\<close>.\<close>

definition opt_field :: "char \<Rightarrow> string \<Rightarrow> string option \<times> string" where
  "opt_field letter s =
     (let ds = takeWhile is_digit s; rest = dropWhile is_digit s in
      if ds \<noteq> [] \<and> rest \<noteq> [] \<and> hd rest = letter then (Some ds, tl rest) else (None, s))"

text \<open>\<open>(?:([0-9]+(?:\.[0-9]+))?S)?\<close>: the fraction is required, the number as a whole is not.\<close>

definition opt_seconds :: "string \<Rightarrow> string option \<times> string" where
  "opt_seconds s =
     (let ds = takeWhile is_digit s; rest = dropWhile is_digit s in
      if ds \<noteq> [] \<and> rest \<noteq> [] \<and> hd rest = CHR ''.'' then
        (let fs = takeWhile is_digit (tl rest); rest2 = dropWhile is_digit (tl rest) in
         if fs \<noteq> [] \<and> rest2 \<noteq> [] \<and> hd rest2 = CHR ''S''
         then (Some (ds @ CHR ''.'' # fs), tl rest2) else (None, s))
      else if take 1 s = ''S'' then (None, tl s)
      else (None, s))"

text \<open>The groups of the expression for durations: sign, years, months, days, hours, minutes, seconds.\<close>

definition re_duration :: "string \<Rightarrow> string option list option" where
  "re_duration s =
     (let s1 = drop_sign s in
      if take 1 s1 \<noteq> ''P'' then None
      else let (y, s2) = opt_field (CHR ''Y'') (tl s1); (mo, s3) = opt_field (CHR ''M'') s2;
               (d, s4) = opt_field (CHR ''D'') s3 in
      if take 1 s4 \<noteq> ''T'' then None
      else let (h, s5) = opt_field (CHR ''H'') (tl s4); (mi, s6) = opt_field (CHR ''M'') s5;
               (se, s7) = opt_seconds s6 in
      if s7 = [] then Some [y, mo, d, h, mi, se] else None)"

definition re_yearMonth :: "string \<Rightarrow> (bool \<times> string option \<times> string option) option" where
  "re_yearMonth s =
     (let s1 = drop_sign s in
      if take 1 s1 \<noteq> ''P'' then None
      else let (y, s2) = opt_field (CHR ''Y'') (tl s1); (mo, s3) = opt_field (CHR ''M'') s2 in
      if s3 = [] then Some (take 1 s = ''-'', y, mo) else None)"

text \<open>A field of exactly \<open>n\<close> digits, and the time zone \<open>(?:[\-\+]([0-9]{2}):([0-9]{2}))|Z\<close>.\<close>

definition fixed_digits :: "nat \<Rightarrow> string \<Rightarrow> (string \<times> string) option" where
  "fixed_digits n s =
     (if n \<le> length s \<and> all_digits (take n s) then Some (take n s, drop n s) else None)"

definition after :: "char \<Rightarrow> string \<Rightarrow> string option" where
  "after c s = (if take 1 s = [c] then Some (tl s) else None)"

definition re_zone :: "string \<Rightarrow> string option option" where
  "re_zone s =
     (if s = [] then Some None
      else if s = ''Z'' then Some (Some s)
      else if length s = 6 \<and> (hd s = CHR ''-'' \<or> hd s = CHR ''+'') \<and> all_digits (take 2 (tl s)) \<and>
        s ! 3 = CHR '':'' \<and> all_digits (drop 4 s) then Some (Some s)
      else None)"

definition re_year :: "string \<Rightarrow> (string \<times> string) option" where
  "re_year s =
     (let minus = take 1 s = ''-''; body = (if minus then tl s else s);
          ds = takeWhile is_digit body; rest = dropWhile is_digit body in
      if length ds \<ge> 4 then Some ((if minus then CHR ''-'' # ds else ds), rest) else None)"

definition bind_opt :: "'a option \<Rightarrow> ('a \<Rightarrow> 'b option) \<Rightarrow> 'b option" where
  "bind_opt x f = (case x of None \<Rightarrow> None | Some a \<Rightarrow> f a)"

text \<open>Year, month, day and time zone; with a time of day in between for \<open>dateTime\<close>.\<close>

definition re_ymd :: "string \<Rightarrow> (string \<times> string \<times> string \<times> string) option" where
  "re_ymd s =
     bind_opt (re_year s) (\<lambda>(y, s1).
     bind_opt (after (CHR ''-'') s1) (\<lambda>s2.
     bind_opt (fixed_digits 2 s2) (\<lambda>(mo, s3).
     bind_opt (after (CHR ''-'') s3) (\<lambda>s4.
     bind_opt (fixed_digits 2 s4) (\<lambda>(d, s5). Some (y, mo, d, s5))))))"

definition re_date :: "string \<Rightarrow> (string \<times> string \<times> string \<times> string option) option" where
  "re_date s =
     bind_opt (re_ymd s) (\<lambda>(y, mo, d, s1).
     bind_opt (re_zone s1) (\<lambda>z. Some (y, mo, d, z)))"

definition drop_fraction :: "string \<Rightarrow> string" where
  "drop_fraction s =
     (if take 1 s = ''.'' \<and> takeWhile is_digit (tl s) \<noteq> [] then dropWhile is_digit (tl s) else s)"

definition re_dateTime :: "string \<Rightarrow> (string \<times> string \<times> string \<times> string option) option" where
  "re_dateTime s =
     bind_opt (re_ymd s) (\<lambda>(y, mo, d, s1).
     bind_opt (after (CHR ''T'') s1) (\<lambda>s2.
     bind_opt (fixed_digits 2 s2) (\<lambda>(_, s3).
     bind_opt (after (CHR '':'') s3) (\<lambda>s4.
     bind_opt (fixed_digits 2 s4) (\<lambda>(_, s5).
     bind_opt (after (CHR '':'') s5) (\<lambda>s6.
     bind_opt (fixed_digits 2 s6) (\<lambda>(_, s7).
     bind_opt (re_zone (drop_fraction s7)) (\<lambda>z. Some (y, mo, d, z)))))))))"

definition re_gYear :: "string \<Rightarrow> bool" where
  "re_gYear s = (case re_year s of Some (_, rest) \<Rightarrow> rest = [] | None \<Rightarrow> False)"

definition re_gMonthDay :: "string \<Rightarrow> (string \<times> string \<times> string option) option" where
  "re_gMonthDay s =
     (if take 2 s \<noteq> ''--'' then None
      else bind_opt (fixed_digits 2 (drop 2 s)) (\<lambda>(mo, s1).
        bind_opt (after (CHR ''-'') s1) (\<lambda>s2.
        bind_opt (fixed_digits 2 s2) (\<lambda>(d, s3).
        bind_opt (re_zone s3) (\<lambda>z. Some (mo, d, z))))))"

section \<open>Validation\<close>

text \<open>\<open>parseInt(s, 10)\<close> of a text that starts with a number.\<close>

definition parse10 :: "string \<Rightarrow> int" where
  "parse10 s =
     (let n = int (digits_val (takeWhile is_digit (drop_sign s)))
      in if take 1 s = ''-'' then - n else n)"

text \<open>The time zone as a number, \<open>+05:30\<close> as 530.\<close>

definition zone_number :: "string option \<Rightarrow> int" where
  "zone_number z = (case z of None \<Rightarrow> 0
     | Some t \<Rightarrow> if t = ''Z'' then 0 else parse10 (filter (\<lambda>c. c \<noteq> CHR '':'') t))"

definition zone_ok :: "string option \<Rightarrow> bool" where
  "zone_ok z \<longleftrightarrow> -1400 \<le> zone_number z \<and> zone_number z \<le> 1400"

definition valid_duration :: "string \<Rightarrow> bool" where
  "valid_duration v = (case re_duration v of None \<Rightarrow> False | Some fs \<Rightarrow> \<exists>f\<in>set fs. f \<noteq> None)"

definition valid_yearMonth :: "string \<Rightarrow> bool" where
  "valid_yearMonth v = (case re_yearMonth v of None \<Rightarrow> False | Some (_, y, mo) \<Rightarrow> y \<noteq> None \<or> mo \<noteq> None)"

text \<open>
  The number that \<open>parseInt\<close> gives is a double. A whole number past \<open>2 ^ 53\<close> is rounded to 53
  significant bits, ties to even, and one past the largest double is \<open>Infinity\<close>, here \<open>None\<close>. A year
  is the one number of these checks that can be that large.
\<close>

function bit_len :: "int \<Rightarrow> nat" where
  "bit_len n = (if n \<le> 0 then 0 else Suc (bit_len (n div 2)))"
  by auto
termination by (relation "measure nat") auto

declare bit_len.simps [simp del]

definition round_double :: "int \<Rightarrow> int option" where
  "round_double n =
     (if n < 9007199254740992 then Some n
      else let k = bit_len n - 53; q = n div 2 ^ k; r = n mod 2 ^ k; half = 2 ^ (k - 1);
               q' = (if r > half \<or> (r = half \<and> odd q) then q + 1 else q)
           in if bit_len (q' * 2 ^ k) > 1024 then None else Some (q' * 2 ^ k))"

definition parse_double :: "string \<Rightarrow> int option" where
  "parse_double s =
     map_option (\<lambda>n. if take 1 s = ''-'' then - n else n)
       (round_double (int (digits_val (takeWhile is_digit (drop_sign s)))))"

text \<open>\<open>Math.abs(year) + 1000\<close> for a year before 100, and the test for a leap year, which \<open>Infinity\<close> fails.\<close>

definition shifted_year :: "int option \<Rightarrow> int option" where
  "shifted_year year = (case year of
     None \<Rightarrow> None
   | Some n \<Rightarrow> if n < 100 then round_double (\<bar>n\<bar> + 1000) else Some n)"

definition leap_double :: "int option \<Rightarrow> bool" where
  "leap_double year = (case year of
     None \<Rightarrow> False | Some n \<Rightarrow> \<not> (n mod 4 \<noteq> 0 \<or> (n mod 100 = 0 \<and> n mod 400 \<noteq> 0)))"

text \<open>The checks of \<open>dateTime\<close>; the \<open>Date\<close> constructor, called last, does not throw.\<close>

definition valid_dateTime :: "string \<Rightarrow> bool" where
  "valid_dateTime v = (case re_dateTime v of
       None \<Rightarrow> False
     | Some (y, mo, d, z) \<Rightarrow>
         (let year0 = parse_double y in
          if year0 = Some 0 \<or> \<not> zone_ok z then False
          else let year = shifted_year year0; month = parse10 mo; day = parse10 d in
          if day > 31 then False
          else if day > 30 \<and> month \<notin> {1, 3, 5, 7, 8, 10, 12} then False
          else if month = 2 then
            (if day > 29 then False
             else \<not> (day = 29 \<and> \<not> leap_double year))
          else True))"

text \<open>The expression of \<open>date\<close> has six groups, so its \<open>m[10]\<close> is never there.\<close>

definition valid_date :: "string \<Rightarrow> bool" where
  "valid_date v = (case re_date v of
       None \<Rightarrow> False
     | Some (y, mo, d, z) \<Rightarrow> \<not> (parse10 y = 0 \<or> parse10 mo > 12 \<or> parse10 d > 31 \<or> \<not> zone_ok None))"

definition valid_gMonthDay :: "string \<Rightarrow> bool" where
  "valid_gMonthDay v = (case re_gMonthDay v of
       None \<Rightarrow> False
     | Some (mo, d, z) \<Rightarrow>
         (let month = parse10 mo; day = parse10 d in
          if month > 12 \<or> day > 31 \<or> \<not> zone_ok z then False
          else if month = 2 \<and> day > 29 then False
          else \<not> (month \<in> {4, 6, 9, 11} \<and> day > 30)))"

section \<open>Values\<close>

datatype tv_value =
    TV_string string
  | TV_bool bool
  | TV_int int
  | TV_float string
  | TV_infinite bool
  | TV_uri uri

definition xsd :: string where
  "xsd = ''http://www.w3.org/2001/XMLSchema#''"

definition float_value :: "string \<Rightarrow> tv_value" where
  "float_value v =
     (if v = ''-INF'' then TV_infinite False
      else if v = ''INF'' \<or> v = ''+INF'' then TV_infinite True
      else TV_float v)"

text \<open>
  \<open>months += years * 12\<close>: \<open>months\<close> is the text of its group when it is there, and then \<open>+=\<close>
  concatenates; the negation makes a number again.
\<close>

definition yearMonth_value :: "string \<Rightarrow> tv_value" where
  "yearMonth_value v = (case re_yearMonth v of
       None \<Rightarrow> TV_string v
     | Some (neg, y, mo) \<Rightarrow>
         (let years = (case y of Some ds \<Rightarrow> int (digits_val ds) | None \<Rightarrow> 0) in
          case mo of
            None \<Rightarrow> TV_int (if neg then -1 * (0 + years * 12) else 0 + years * 12)
          | Some ds \<Rightarrow>
              (let months = ds @ int_str (years * 12) in
               if neg then TV_int (-1 * int (digits_val months)) else TV_string months)))"

datatype tv_type =
    XS_string | XS_token | XS_NCName | XS_boolean | XS_decimal | XS_integer | XS_int | XS_float | XS_double
  | XS_duration | XS_yearMonthDuration | XS_dateTime | XS_date | XS_gYear | XS_gMonthDay | XS_anyURI | RDF_XMLLiteral

text \<open>
  The properties of \<open>$.typedValue.types\<close>; the last one is put there when the RDF script loads
  (line 2054), and its expression, with the flag \<open>m\<close>, lets every text through.
\<close>

definition xml_literal :: string where
  "xml_literal = ''http://www.w3.org/1999/02/22-rdf-syntax-ns#XMLLiteral''"

definition tv_types :: "string \<Rightarrow> tv_type option" where
  "tv_types = (map_of (map (\<lambda>(n, t). (xsd @ n, t))
     [(''string'', XS_string), (''token'', XS_token), (''NCName'', XS_NCName), (''boolean'', XS_boolean),
      (''decimal'', XS_decimal), (''integer'', XS_integer), (''int'', XS_int), (''float'', XS_float),
      (''double'', XS_double), (''duration'', XS_duration), (''yearMonthDuration'', XS_yearMonthDuration),
      (''dateTime'', XS_dateTime), (''date'', XS_date), (''gYear'', XS_gYear), (''gMonthDay'', XS_gMonthDay),
      (''anyURI'', XS_anyURI)]))(xml_literal \<mapsto> RDF_XMLLiteral)"

fun tv_strip :: "tv_type \<Rightarrow> bool" where
  "tv_strip XS_string = False"
| "tv_strip RDF_XMLLiteral = False"
| "tv_strip _ = True"

fun tv_test :: "tv_type \<Rightarrow> string \<Rightarrow> bool" where
  "tv_test XS_string v = no_lines v"
| "tv_test XS_token v = no_lines v"
| "tv_test XS_NCName v = re_NCName v"
| "tv_test XS_boolean v = re_boolean v"
| "tv_test XS_decimal v = re_decimal v"
| "tv_test XS_integer v = re_integer v"
| "tv_test XS_int v = re_integer v"
| "tv_test XS_float v = re_float v"
| "tv_test XS_double v = re_float v"
| "tv_test XS_duration v = valid_duration v"
| "tv_test XS_yearMonthDuration v = valid_yearMonth v"
| "tv_test XS_dateTime v = valid_dateTime v"
| "tv_test XS_date v = valid_date v"
| "tv_test XS_gYear v = (re_gYear v \<and> parse10 v \<noteq> 0)"
| "tv_test XS_gMonthDay v = valid_gMonthDay v"
| "tv_test XS_anyURI v = no_lines v"
| "tv_test RDF_XMLLiteral v = True"

definition tv_valid :: "string \<Rightarrow> string \<Rightarrow> bool" where
  "tv_valid value datatype =
     (case tv_types datatype of
        None \<Rightarrow> True
      | Some d \<Rightarrow> tv_test d (if tv_strip d then strip value else value))"

record typed_value =
  tv_representation :: "string option"
  tv_value :: "tv_value option"
  tv_datatype :: "string option"

text \<open>The prototype object that every call of \<open>$.typedValue\<close> returns, and the cache of \<open>$.uri\<close>.\<close>

record tv_env =
  tv_fn :: typed_value
  tv_mem :: uri_mem

definition on_mem :: "(uri_mem, 'a) js_step \<Rightarrow> (tv_env, 'a) js_step" where
  "on_mem m s = (case m (tv_mem s) of (r, k) \<Rightarrow> (r, s\<lparr>tv_mem := k\<rparr>))"

text \<open>The \<open>value\<close> functions; \<open>anyURI\<close> resolves against the base read when the script loaded.\<close>

definition tv_convert :: "uri \<Rightarrow> tv_type \<Rightarrow> string \<Rightarrow> (tv_env, tv_value) js_step" where
  "tv_convert base d v =
     (case d of
        XS_token \<Rightarrow> ret (TV_string (strip v))
      | XS_NCName \<Rightarrow> ret (TV_string (strip v))
      | XS_boolean \<Rightarrow> ret (TV_bool (v = ''true'' \<or> v = ''1''))
      | XS_integer \<Rightarrow> ret (TV_int (parse10 v))
      | XS_int \<Rightarrow> ret (TV_int (parse10 v))
      | XS_float \<Rightarrow> ret (float_value v)
      | XS_double \<Rightarrow> ret (float_value v)
      | XS_yearMonthDuration \<Rightarrow> ret (yearMonth_value v)
      | XS_gYear \<Rightarrow> ret (TV_int (parse10 v))
      | XS_anyURI \<Rightarrow> bind_step (on_mem (the_uri base v (Base_uri base))) (\<lambda>u. ret (TV_uri u))
      | _ \<Rightarrow> ret (TV_string v))"

text \<open>
  The call fills the shared object: the representation and datatype first, then the value.
\<close>

definition typedValue :: "uri \<Rightarrow> string \<Rightarrow> string \<Rightarrow> (tv_env, unit) js_step" where
  "typedValue base value datatype =
     (if tv_valid value datatype then
        then_step (modify (\<lambda>s. s\<lparr>tv_fn := (tv_fn s)\<lparr>tv_representation := Some value, tv_datatype := Some datatype\<rparr>\<rparr>)) (
        bind_step
          (case tv_types datatype of
             None \<Rightarrow> ret (TV_string (strip value))
           | Some d \<Rightarrow> tv_convert base d (if tv_strip d then strip value else value)) (\<lambda>v.
          modify (\<lambda>s. s\<lparr>tv_fn := (tv_fn s)\<lparr>tv_value := Some v\<rparr>\<rparr>)))
      else throw (UserError (''InvalidValue: '' @ value @ '' is not a valid '' @ datatype @ '' value'')))"

section \<open>Lemmas\<close>

lemma tv_types_simps [simp]:
  "tv_types (xsd @ ''integer'') = Some XS_integer" "tv_types (xsd @ ''duration'') = Some XS_duration"
  "tv_types (xsd @ ''boolean'') = Some XS_boolean" "tv_types (xsd @ ''date'') = Some XS_date"
  "tv_types (xsd @ ''dateTime'') = Some XS_dateTime"
  "tv_types (xsd @ ''yearMonthDuration'') = Some XS_yearMonthDuration"
  by (simp_all add: tv_types_def xsd_def xml_literal_def)

lemma strip_plain: "\<forall>c\<in>set v. \<not> xml_space c \<Longrightarrow> strip v = v"
proof -
  assume v: "\<forall>c\<in>set v. \<not> xml_space c"
  have ns: "dropWhile (\<lambda>c. c = CHR '' '') w = w" if "\<forall>c\<in>set w. \<not> xml_space c" for w
    using that by (cases w) (auto simp: xml_space_def)
  have "dropWhile (\<lambda>c. \<not> xml_space c) v = []" using v by (simp add: dropWhile_eq_Nil_conv)
  then show ?thesis using ns [OF v] ns [of "rev v"] v by (simp add: strip_def Let_def)
qed

lemma digit_not_space: "is_digit c \<Longrightarrow> \<not> xml_space c"
  by (auto simp: is_digit_def xml_space_def)

lemma takeWhile_digits: "list_all is_digit ds \<Longrightarrow> takeWhile is_digit ds = ds"
  by (simp add: takeWhile_eq_all_conv list_all_iff)

lemma int_str_integer: "re_integer (int_str i) \<and> parse10 (int_str i) = i \<and> (\<forall>c\<in>set (int_str i). \<not> xml_space c)"
proof -
  have d: "list_all is_digit (nat_str n)" for n by (rule nat_str_digits)
  have ns: "drop_sign (nat_str n) = nat_str n \<and> take 1 (nat_str n) \<noteq> ''-''" for n
    using d [of n] by (cases "nat_str n") (auto simp: drop_sign_def is_digit_def)
  have sp: "\<forall>c\<in>set (nat_str n). \<not> xml_space c" for n
    using d [of n] digit_not_space by (auto simp: list_all_iff)
  have pos: "parse10 (nat_str n) = int n" for n
    using ns d by (simp add: parse10_def takeWhile_digits)
  have neg: "parse10 (CHR ''-'' # nat_str n) = - int n" for n
    using d by (simp add: parse10_def takeWhile_digits drop_sign_def)
  show ?thesis
  proof (cases "i < 0")
    case True
    then show ?thesis
      using d sp neg [of "nat (- i)"] by (simp add: int_str_def re_integer_def digits1_def all_digits_def drop_sign_def xml_space_def)
  next
    case False
    then show ?thesis
      using d sp ns pos [of "nat i"] by (simp add: int_str_def re_integer_def digits1_def all_digits_def)
  qed
qed

text \<open>What the expressions leave out, and let in.\<close>

lemma duration_rejected:
  "\<not> tv_valid ''P1Y'' (xsd @ ''duration'')" "\<not> tv_valid ''P3DT4H59M5S'' (xsd @ ''duration'')"
  unfolding tv_valid_def tv_types_simps by code_simp+

lemma months_concatenated: "yearMonth_value ''P1Y3M'' = TV_string ''312'' \<and> yearMonth_value ''P3M'' = TV_string ''30''"
  by code_simp

lemma date_accepted:
  "tv_valid ''2010-02-31+99:99'' (xsd @ ''date'')" "tv_valid ''2010-99-12T99:99:99Z'' (xsd @ ''dateTime'')"
  unfolding tv_valid_def tv_types_simps by code_simp+

lemma second_space_kept: "strip '' a  b  c '' = ''a  b  c''" "strip (CHR '' '' # ''42'' @ [CHR 0x0A]) = ''42'' @ [CHR 0x0A]"
  by code_simp+

section \<open>Properties\<close>

text \<open>
  Every integer, printed and surrounded by blanks, is a valid \<open>xsd:integer\<close> and becomes that number.
\<close>

lemma typedValue_integer:
  "\<exists>s'. typedValue base (int_str i) (xsd @ ''integer'') s = (Inr (), s') \<and>
    tv_fn s' = \<lparr>tv_representation = Some (int_str i), tv_value = Some (TV_int i),
      tv_datatype = Some (xsd @ ''integer'')\<rparr>"
  using int_str_integer [of i]
  by (simp add: typedValue_def tv_valid_def strip_plain tv_convert_def bind_step_def then_step_def modify_def ret_def)

text \<open>
  All typed values are one object: creating a second value, of whatever datatype,
  changes what the first one holds.
\<close>

theorem typedValue_shared:
  assumes "tv_valid w dt"
    and "typedValue base v dt0 s = (Inr (), s1)" and "typedValue base w dt s1 = (Inr (), s2)"
  shows "tv_representation (tv_fn s2) = Some w \<and> tv_datatype (tv_fn s2) = Some dt"
proof -
  have keep: "tv_fn s' = tv_fn s" if "tv_convert base d x s = (Inr y, s')" for d x s s' and y :: tv_value
    using that by (auto simp: tv_convert_def ret_def bind_step_def on_mem_def split: tv_type.splits prod.splits sum.splits)
  show ?thesis
    using assms(3) keep
    by (auto simp: typedValue_def assms(1) bind_step_def then_step_def modify_def ret_def
        split: option.splits prod.splits sum.splits)
qed

theorem typedValue_shared_witness:
  "tv_representation (tv_fn (snd (typedValue b ''7'' (xsd @ ''integer'')
      (snd (typedValue b ''true'' (xsd @ ''boolean'') \<lparr>tv_fn = \<lparr>tv_representation = None, tv_value = None,
        tv_datatype = None\<rparr>, tv_mem = Map.empty\<rparr>))))) = Some ''7''"
proof -
  let ?s = "\<lparr>tv_fn = \<lparr>tv_representation = None, tv_value = None, tv_datatype = None\<rparr>, tv_mem = Map.empty\<rparr>"
  have valid: "tv_valid ''true'' (xsd @ ''boolean'')" "tv_valid ''7'' (xsd @ ''integer'')"
    unfolding tv_valid_def tv_types_simps by code_simp+
  have "fst (typedValue b ''true'' (xsd @ ''boolean'') s) = Inr ()" "fst (typedValue b ''7'' (xsd @ ''integer'') s) = Inr ()" for s
    using valid by (simp_all add: typedValue_def tv_convert_def bind_step_def then_step_def modify_def ret_def)
  then show ?thesis
    using typedValue_shared [OF valid(2), of b "''true''" "xsd @ ''boolean''" ?s] by (metis prod.collapse)
qed

section \<open>Days of the month\<close>

definition two_digits :: "nat \<Rightarrow> string" where
  "two_digits n = [char_of (48 + n div 10), char_of (48 + n mod 10)]"

definition days_in_month :: "int \<Rightarrow> nat \<Rightarrow> nat" where
  "days_in_month y m =
     (if m = 2 then (if y mod 4 = 0 \<and> (y mod 100 \<noteq> 0 \<or> y mod 400 = 0) then 29 else 28)
      else if m \<in> {4, 6, 9, 11} then 30 else 31)"

lemma not_digit_sign: "\<not> is_digit CHR ''-''" "\<not> is_digit CHR ''+''"
  by (simp_all add: is_digit_def)

lemma two_digits_facts:
  assumes "n < 100"
  shows "length (two_digits n) = 2" "all_digits (two_digits n)" "parse10 (two_digits n) = int n"
    "\<forall>c\<in>set (two_digits n). \<not> xml_space c"
proof -
  have d: "is_digit (char_of (48 + n div 10))" "is_digit (char_of (48 + n mod 10))" using assms by simp_all
  show "length (two_digits n) = 2" "all_digits (two_digits n)" "\<forall>c\<in>set (two_digits n). \<not> xml_space c"
    using d digit_not_space by (simp_all add: two_digits_def all_digits_def)
  have ns: "char_of (48 + n div 10) \<noteq> CHR ''-''" "char_of (48 + n div 10) \<noteq> CHR ''+''"
    using d not_digit_sign by metis+
  have "digits_val (two_digits n) = n"
    using assms by (simp add: two_digits_def digits_val_def digit_val_def)
  then show "parse10 (two_digits n) = int n"
    using d ns by (simp add: parse10_def drop_sign_def two_digits_def)
qed

lemma fixed_two: "n < 100 \<Longrightarrow> fixed_digits 2 (two_digits n @ s) = Some (two_digits n, s)"
  using two_digits_facts [of n] by (simp add: fixed_digits_def)

definition date_time :: "int \<Rightarrow> nat \<Rightarrow> nat \<Rightarrow> nat \<Rightarrow> nat \<Rightarrow> nat \<Rightarrow> string" where
  "date_time y mo d h mi se =
     int_str y @ ''-'' @ two_digits mo @ ''-'' @ two_digits d @ ''T'' @ two_digits h @ '':'' @ two_digits mi @
     '':'' @ two_digits se @ ''Z''"

lemma nat_str_length: "1000 \<le> n \<Longrightarrow> 4 \<le> length (nat_str n)"
proof -
  assume n: "1000 \<le> n"
  have pos: "1 \<le> length (nat_str k)" for k using nat_str_ne [of k] by (cases "nat_str k") auto
  have step: "10 \<le> k \<Longrightarrow> length (nat_str k) = Suc (length (nat_str (k div 10)))" for k
    by (simp add: nat_str.simps [of k])
  show ?thesis
    using n pos [of "n div 10 div 10 div 10"] step [of n] step [of "n div 10"] step [of "n div 10 div 10"] by simp
qed

lemma re_year_nat: "1000 \<le> n \<Longrightarrow> re_year (nat_str n @ ''-'' @ s) = Some (nat_str n, ''-'' @ s)"
proof -
  assume n: "1000 \<le> n"
  have d: "\<forall>c\<in>set (nat_str n). is_digit c" using nat_str_digits [of n] by (simp add: list_all_iff)
  have nd: "\<not> is_digit (CHR ''-'')" by (simp add: is_digit_def)
  have hd: "take 1 (nat_str n @ ''-'' @ s) \<noteq> ''-''"
    using d nd nat_str_ne [of n] by (cases "nat_str n") auto
  have "takeWhile is_digit (nat_str n @ ''-'' @ s) = nat_str n" "dropWhile is_digit (nat_str n @ ''-'' @ s) = ''-'' @ s"
    using d nd by (auto intro: takeWhile_stop dropWhile_stop)
  then show ?thesis using hd nat_str_length [OF n] by (simp add: re_year_def Let_def)
qed

lemma re_dateTime_printed:
  assumes "1000 \<le> y" "mo < 100" "d < 100" "h < 100" "mi < 100" "se < 100"
  shows "re_dateTime (date_time y mo d h mi se) = Some (int_str y, two_digits mo, two_digits d, Some ''Z'')"
  using assms re_year_nat [of "nat y"]
  by (simp add: re_dateTime_def re_ymd_def bind_opt_def date_time_def int_str_def after_def fixed_two
      drop_fraction_def re_zone_def)

lemma parse_double_int:
  assumes "0 \<le> y" "y < 2 ^ 53"
  shows "parse_double (int_str y) = Some y"
proof -
  have p: "parse10 (int_str y) = y" using int_str_integer [of y] by blast
  have m: "take 1 (int_str y) \<noteq> ''-''"
  proof
    assume "take 1 (int_str y) = ''-''"
    then have "CHR ''-'' \<in> set (nat_str (nat y))"
      using assms(1) by (cases "nat_str (nat y)") (auto simp: int_str_def)
    then show False using nat_str_digits [of "nat y"] not_digit_sign by (auto simp: list_all_iff)
  qed
  have "int (digits_val (takeWhile is_digit (drop_sign (int_str y)))) = y"
    using p m unfolding parse10_def Let_def by simp
  then have "parse_double (int_str y) = map_option (\<lambda>n. if take 1 (int_str y) = ''-'' then - n else n) (round_double y)"
    unfolding parse_double_def by metis
  moreover have "round_double y = Some y" using assms(2) unfolding round_double_def by simp
  ultimately show ?thesis using m by simp
qed

text \<open>Past \<open>2 ^ 53\<close> the year that is tested is not the one that is written: a 29th of February passes.\<close>

lemma dateTime_rounded_year: "leap_double (round_double 9007199254740993)" "(9007199254740993 :: int) mod 4 = 1"
  by code_simp+

text \<open>
  C27. A \<open>dateTime\<close> written with zone \<open>Z\<close> and no fraction of a
  second, whose year is at least 1000 and below \<open>2 ^ 53\<close> (beyond it the
  engine's numbers round the year) and whose month is one of the twelve, is valid exactly
  when the day is no later than the last day of that month in the Gregorian calendar; a day
  zero and any time of day of two-digit fields pass.
\<close>

theorem dateTime_days:
  assumes "1000 \<le> y" "y < 2 ^ 53" "1 \<le> mo" "mo \<le> 12" "d < 100" "h < 100" "mi < 100" "se < 100"
  shows "tv_valid (date_time y mo d h mi se) (xsd @ ''dateTime'') \<longleftrightarrow> d \<le> days_in_month y mo"
proof -
  have y: "parse_double (int_str y) = Some y" "\<forall>c\<in>set (int_str y). \<not> xml_space c" using int_str_integer [of y] parse_double_int [of y] assms(1,2) by simp_all
  have "\<forall>c\<in>set (date_time y mo d h mi se). \<not> xml_space c"
    using assms y(2) two_digits_facts(4) [of mo] two_digits_facts(4) [of d] two_digits_facts(4) [of h]
      two_digits_facts(4) [of mi] two_digits_facts(4) [of se]
    unfolding date_time_def set_append ball_Un by (simp add: xml_space_def)
  then have "tv_valid (date_time y mo d h mi se) (xsd @ ''dateTime'') = valid_dateTime (date_time y mo d h mi se)"
    by (simp add: tv_valid_def strip_plain)
  also have "\<dots> \<longleftrightarrow> d \<le> days_in_month y mo"
  proof -
    have months: "mo = 1 \<or> mo = 2 \<or> mo = 3 \<or> mo = 4 \<or> mo = 5 \<or> mo = 6 \<or> mo = 7 \<or> mo = 8 \<or> mo = 9 \<or>
        mo = 10 \<or> mo = 11 \<or> mo = 12" using assms(3,4) by arith
    have p: "parse10 (two_digits mo) = int mo" "parse10 (two_digits d) = int d"
      using assms two_digits_facts(3) by simp_all
    have z: "zone_ok (Some ''Z'')" by (simp add: zone_ok_def zone_number_def)
    have re: "re_dateTime (date_time y mo d h mi se) = Some (int_str y, two_digits mo, two_digits d, Some ''Z'')"
      using re_dateTime_printed [OF assms(1) _ assms(5-8), of mo] assms(4) by simp
    have year: "y \<noteq> 0" "shifted_year (Some y) = Some y" using assms(1) by (simp_all add: shifted_year_def)
    have v: "valid_dateTime (date_time y mo d h mi se) \<longleftrightarrow> int d \<le> 31 \<and>
        (int d \<le> 30 \<or> int mo \<in> {1, 3, 5, 7, 8, 10, 12}) \<and>
        (mo = 2 \<longrightarrow> d \<le> 29 \<and> \<not> (d = 29 \<and> (y mod 4 \<noteq> 0 \<or> (y mod 100 = 0 \<and> y mod 400 \<noteq> 0))))"
      unfolding valid_dateTime_def re using year p y(1) z by (simp add: Let_def leap_double_def) linarith?
    show ?thesis
      unfolding v using months by (elim disjE) (simp_all add: days_in_month_def, linarith+)
  qed
  finally show ?thesis .
qed

theorem dateTime_days_witness:
  "\<not> tv_valid (date_time 2010 2 29 9 5 7) (xsd @ ''dateTime'') \<and> tv_valid (date_time 2012 2 29 9 5 7) (xsd @ ''dateTime'')"
  using dateTime_days [of 2010 2 29 9 5 7] dateTime_days [of 2012 2 29 9 5 7] by (simp add: days_in_month_def)

end
