(* ===== verification/Curie.thy ===== *)
theory Curie
  imports TypedValue
begin

text \<open>
  \<open>jquery.rdfquery.core-1.0.js\<close>, lines 936 to 1153: CURIEs, their parsing against namespace
  bindings and their making from URIs. The bindings are kept in the order \<open>$.each\<close> sees
  them; those of a jQuery selection, which the page gives, are an argument. Upper case is
  that of the letters with a one-character capital below 256.
\<close>

record curie_opts =
  c_namespaces :: "(string \<times> string) list"
  c_reserved :: "string list"
  c_reservedNamespace :: "string option"
  c_defaultNamespace :: "string option"
  c_charcase :: string

definition curie_defaults :: curie_opts where
  "curie_defaults = \<lparr>c_namespaces = [], c_reserved = [], c_reservedNamespace = None,
     c_defaultNamespace = None, c_charcase = ''preserve''\<rparr>"

definition fn_curie_defaults :: curie_opts where
  "fn_curie_defaults = \<lparr>c_namespaces = [],
     c_reserved = [''alternate'', ''appendix'', ''bookmark'', ''cite'', ''chapter'', ''contents'', ''copyright'',
       ''first'', ''glossary'', ''help'', ''icon'', ''index'', ''last'', ''license'', ''meta'', ''next'',
       ''p3pv1'', ''prev'', ''role'', ''section'', ''stylesheet'', ''subsection'', ''start'', ''top'', ''up''],
     c_reservedNamespace = Some ''http://www.w3.org/1999/xhtml/vocab#'',
     c_defaultNamespace = None, c_charcase = ''lower''\<rparr>"

definition upper_char :: "char \<Rightarrow> char" where
  "upper_char c = (let n = of_char c :: nat in
     if 97 \<le> n \<and> n \<le> 122 \<or> 224 \<le> n \<and> n \<le> 254 \<and> n \<noteq> 247 then char_of (n - 32) else c)"

definition to_upper :: "string \<Rightarrow> string" where
  "to_upper s = map upper_char s"

text \<open>\<open>/^(([^:]*):)?(.+)$/\<close>: the groups 2 and 3.\<close>

definition curie_match :: "string \<Rightarrow> (string option \<times> string) option" where
  "curie_match s =
     (let pre = takeWhile (\<lambda>c. c \<noteq> CHR '':'') s; r = dropWhile (\<lambda>c. c \<noteq> CHR '':'') s in
      if r \<noteq> [] \<and> tl r \<noteq> [] \<and> no_lines (tl r) then Some (Some pre, tl r)
      else if s \<noteq> [] \<and> no_lines s then Some (None, s)
      else None)"

text \<open>\<open>/^:.+/\<close>, which is not anchored at the end.\<close>

definition colon_start :: "string \<Rightarrow> bool" where
  "colon_start s \<longleftrightarrow> prefix '':'' s \<and> tl s \<noteq> [] \<and> \<not> line_end (hd (tl s))"

definition js_undefined :: string where
  "js_undefined = ''undefined''"

text \<open>What a string that may be \<open>undefined\<close> adds to another.\<close>

definition text_of :: "string option \<Rightarrow> string" where
  "text_of v = (case v of Some s \<Rightarrow> s | None \<Rightarrow> js_undefined)"

definition malformed_curie :: "string \<Rightarrow> js_error" where
  "malformed_curie why = UserError (''Malformed CURIE: '' @ why)"

definition no_prefix :: "string \<Rightarrow> js_error" where
  "no_prefix curie = malformed_curie (''No prefix and no default namespace for unprefixed CURIE '' @ curie)"

definition curie_case :: "curie_opts \<Rightarrow> string \<Rightarrow> string" where
  "curie_case opts c =
     (if c_charcase opts = ''lower'' then to_lower c
      else if c_charcase opts = ''upper'' then to_upper c else c)"

text \<open>The namespace and the local name, or the throw.\<close>

definition curie_parts :: "curie_opts \<Rightarrow> string \<Rightarrow> (string option \<times> string) js_res" where
  "curie_parts opts curie =
     (case curie_match curie of
        None \<Rightarrow> Inl TypeError
      | Some (pre, local) \<Rightarrow>
          (let ns = map_of (c_namespaces opts) (text_of pre) in
           if colon_start curie then
             (case c_reservedNamespace opts of
                None \<Rightarrow> Inl (no_prefix curie)
              | Some r \<Rightarrow> Inr (Some r, local))
           else if pre \<noteq> None \<and> pre \<noteq> Some [] then
             (if ns = None
              then Inl (malformed_curie (''No namespace binding for '' @ text_of pre @ '' in CURIE '' @ curie))
              else Inr (ns, local))
           else
             (let c = curie_case opts curie in
              if c \<in> set (c_reserved opts) then Inr (c_reservedNamespace opts, c)
              else case c_defaultNamespace opts of
                None \<Rightarrow> Inl (no_prefix c)
              | Some d \<Rightarrow> Inr (Some d, local))))"

definition parse_curie :: "uri \<Rightarrow> curie_opts \<Rightarrow> string \<Rightarrow> (uri_mem, uri) js_step" where
  "parse_curie doc_base opts curie =
     bind_step (lift_res (curie_parts opts curie)) (\<lambda>(ns, local).
       the_uri doc_base (text_of ns @ local) No_base)"

text \<open>\<open>/^\[([^\]]+)\]$/\<close>\<close>

definition safe_match :: "string \<Rightarrow> string option" where
  "safe_match s =
     (if prefix ''['' s \<and> 3 \<le> length s \<and> last s = CHR '']'' \<and> CHR '']'' \<notin> set (butlast (tl s))
      then Some (butlast (tl s)) else None)"

definition safeCurie :: "uri \<Rightarrow> curie_opts \<Rightarrow> string \<Rightarrow> (uri_mem, uri) js_step" where
  "safeCurie doc_base opts s =
     (case safe_match s of Some c \<Rightarrow> parse_curie doc_base opts c | None \<Rightarrow> the_uri doc_base s No_base)"

text \<open>
  The callback of \<open>$.each\<close> returns \<open>null\<close> after a match, and only \<open>false\<close> ends the loop: the
  last binding that fits gives the CURIE.
\<close>

definition each_binding :: "string \<Rightarrow> string option \<Rightarrow> string \<times> string \<Rightarrow> string option" where
  "each_binding uri curie = (\<lambda>(p, ns).
     if substring uri 0 (int (length ns)) = ns then Some (p @ '':'' @ substring_from uri (int (length ns)))
     else curie)"

definition no_binding :: "string \<Rightarrow> js_error" where
  "no_binding uri = UserError (''No Namespace Binding: '' @
     ''There's no appropriate namespace binding for generating a CURIE from '' @ uri)"

definition createCurie :: "uri \<Rightarrow> curie_opts \<Rightarrow> string \<Rightarrow> (uri_mem, string) js_step" where
  "createCurie doc_base opts uri0 =
     bind_step (the_uri doc_base uri0 No_base) (\<lambda>u.
       let uri = uri_toString u;
           curie =
             (case c_reservedNamespace opts of
                Some r \<Rightarrow>
                  if substring uri 0 (int (length r)) = r then
                    (let c = substring_from uri (int (length r)) in
                     Some (if c \<notin> set (c_reserved opts) then CHR '':'' # c else c))
                  else foldl (each_binding uri) None (c_namespaces opts)
              | None \<Rightarrow> foldl (each_binding uri) None (c_namespaces opts))
       in case curie of
            None \<Rightarrow> throw (no_binding uri)
          | Some c \<Rightarrow> ret c)"

text \<open>The methods of a selection, whose namespaces \<open>this.xmlns()\<close> are given.\<close>

definition fn_curie :: "uri \<Rightarrow> (string \<times> string) list \<Rightarrow> string \<Rightarrow> (uri_mem, uri) js_step" where
  "fn_curie doc_base xmlns c = parse_curie doc_base (fn_curie_defaults\<lparr>c_namespaces := xmlns\<rparr>) c"

definition fn_safeCurie :: "uri \<Rightarrow> (string \<times> string) list \<Rightarrow> string \<Rightarrow> (uri_mem, uri) js_step" where
  "fn_safeCurie doc_base xmlns c = safeCurie doc_base (fn_curie_defaults\<lparr>c_namespaces := xmlns\<rparr>) c"

definition fn_createCurie :: "uri \<Rightarrow> (string \<times> string) list \<Rightarrow> string \<Rightarrow> (uri_mem, string) js_step" where
  "fn_createCurie doc_base xmlns u = createCurie doc_base (fn_curie_defaults\<lparr>c_namespaces := xmlns\<rparr>) u"

section \<open>Lemmas\<close>

lemma substring_prefix: "substring u 0 (int (length n)) = n \<longleftrightarrow> prefix n u"
  by (auto simp: substring_0 prefix_def intro: append_take_drop_id [symmetric] exI [of _ "drop (length n) u"])
    (metis append_take_drop_id)

lemma each_binding_prefix:
  "each_binding uri c (p, ns) = (if prefix ns uri then Some (p @ '':'' @ drop (length ns) uri) else c)"
  by (simp add: each_binding_def substring_prefix substring_from_def)

lemma foldl_binding:
  "foldl (each_binding uri) c0 bs = Some c \<Longrightarrow>
     c0 = Some c \<or> (\<exists>(p, ns)\<in>set bs. prefix ns uri \<and> c = p @ '':'' @ drop (length ns) uri)"
proof (induction bs arbitrary: c0)
  case (Cons b bs)
  obtain p ns where b: "b = (p, ns)" by fastforce
  from Cons.IH [of "each_binding uri c0 b"] Cons.prems
  consider "each_binding uri c0 b = Some c"
    | "\<exists>(p, ns)\<in>set bs. prefix ns uri \<and> c = p @ '':'' @ drop (length ns) uri" by auto
  then show ?case
    by cases (auto simp: b each_binding_prefix split: if_splits)
qed simp

text \<open>The cache holds well-formed URIs under their own text.\<close>

definition mem_wf :: "uri_mem \<Rightarrow> bool" where
  "mem_wf mem \<longleftrightarrow> (\<forall>k v. mem k = Some v \<longrightarrow> wf_uri v \<and> k = uri_toString v)"

lemma mem_wf_empty [simp]: "mem_wf Map.empty"
  by (simp add: mem_wf_def)

lemma wf_uri_scheme: "wf_uri u \<Longrightarrow> u_scheme u \<noteq> None"
  by (auto simp: wf_uri_def)

lemma mem_store_wf:
  assumes "mem_wf mem" "wf_uri u" "mem_store u mem = (Inr v, mem')"
  shows "v = u \<and> mem_wf mem' \<and> mem' (uri_toString u) = Some u"
proof (cases "mem (uri_toString u)")
  case None
  then show ?thesis using assms by (auto simp: mem_store_def mem_wf_def split: if_splits)
next
  case (Some w)
  then have "wf_uri w" "uri_toString u = uri_toString w" using assms(1) by (auto simp: mem_wf_def)
  then have "w = u" using parse_toString assms(2) by (metis Inr_inject)
  then show ?thesis using assms Some by (simp add: mem_store_def)
qed

text \<open>A resolution against a base with an authority gives a well-formed URI, found in the cache from then on.\<close>

lemma the_uri_wf:
  assumes mem: "mem_wf mem" and b: "wf_uri b" "u_authority b \<noteq> None"
    and r: "the_uri d r base mem = (Inr u, mem')" "base = Base_uri b \<or> base = No_base \<and> d = b"
  shows "wf_uri u \<and> mem_wf mem' \<and> mem' (uri_toString u) = Some u"
proof (cases "mem r")
  case (Some v)
  then show ?thesis using mem r(1) by (auto simp: the_uri_def mem_wf_def)
next
  case None
  then have "bind_step (lift_res (uri_init r (Some b))) mem_store mem = (Inr u, mem')"
    using r by (auto simp: the_uri_def)
  then obtain w where w: "uri_init r (Some b) = Inr w" "mem_store w mem = (Inr u, mem')"
    by (auto simp: bind_step_Inr_iff lift_res_def)
  with mem_store_wf [OF mem uri_init_wf [OF b w(1)] w(2)] uri_init_wf [OF b w(1)] show ?thesis by simp
qed

lemma the_uri_known: "mem r = Some u \<Longrightarrow> the_uri d r base mem = (Inr u, mem)"
  by (simp add: the_uri_def)

lemma no_lines_drop: "no_lines s \<Longrightarrow> no_lines (drop n s)"
  by (auto simp: no_lines_def dest: in_set_dropD)

lemma curie_match_bound:
  assumes "CHR '':'' \<notin> set p" "l \<noteq> []" "no_lines l"
  shows "curie_match (p @ CHR '':'' # l) = Some (Some p, l)"
  using assms by (simp add: curie_match_def)

lemma curie_parts_bound:
  assumes "CHR '':'' \<notin> set p" "p \<noteq> []" "l \<noteq> []" "no_lines l" "map_of (c_namespaces opts) p = Some ns"
  shows "curie_parts opts (p @ CHR '':'' # l) = Inr (Some ns, l)"
proof -
  have "\<not> colon_start (p @ CHR '':'' # l)" using assms(1,2) by (cases p) (auto simp: colon_start_def)
  then show ?thesis using assms by (simp add: curie_parts_def curie_match_bound text_of_def)
qed

section \<open>Properties\<close>

text \<open>
  C28. A CURIE made from a URI is read back as that URI, provided every prefix is a name
  without colon that has one binding, no namespace is the whole URI, the local name has no
  line end, and no reserved namespace is in force: whatever the order of the bindings, and
  although the last one that fits is taken.
\<close>

theorem createCurie_roundtrip:
  assumes mem: "mem_wf mem" and d: "wf_uri d" "u_authority d \<noteq> None"
    and opts: "c_reservedNamespace opts = None" "distinct (map fst (c_namespaces opts))"
      "\<forall>(p, ns)\<in>set (c_namespaces opts). p \<noteq> [] \<and> CHR '':'' \<notin> set p"
    and u: "the_uri d r No_base mem = (Inr u, mem')" "no_lines (uri_toString u)"
      "uri_toString u \<notin> snd ` set (c_namespaces opts)"
    and c: "createCurie d opts r mem = (Inr c, mem'')"
  shows "mem'' = mem' \<and> parse_curie d opts c mem'' = (Inr u, mem')"
proof -
  have fold: "foldl (each_binding (uri_toString u)) None (c_namespaces opts) = Some c" "mem'' = mem'"
    using c opts(1) by (auto simp: createCurie_def bind_step_def u(1) ret_def throw_def Let_def split: option.splits)
  then obtain p ns where b: "(p, ns) \<in> set (c_namespaces opts)" "prefix ns (uri_toString u)"
      "c = p @ '':'' @ drop (length ns) (uri_toString u)"
    using foldl_binding [OF fold(1)] by auto
  let ?l = "drop (length ns) (uri_toString u)"
  have split: "uri_toString u = ns @ ?l" using b(2) by (metis append_eq_conv_conj prefix_def)
  have l: "?l \<noteq> []" "no_lines ?l"
    using u(2,3) b(1) split no_lines_drop by (force, blast)
  have "map_of (c_namespaces opts) p = Some ns" "p \<noteq> []" "CHR '':'' \<notin> set p"
    using opts(2,3) b(1) by (auto simp: map_of_eq_Some_iff)
  then have "curie_parts opts c = Inr (Some ns, ?l)"
    using l b(3) curie_parts_bound by simp
  moreover have "mem' (uri_toString u) = Some u"
    using the_uri_wf [OF mem d u(1)] by simp
  ultimately show ?thesis
    using fold(2) split by (simp add: parse_curie_def text_of_def the_uri_known)
qed

text \<open>With the binding of \<open>a\<close> inside that of \<open>ab\<close>, the binding seen last is used.\<close>

theorem createCurie_roundtrip_witness:
  "let d = \<lparr>u_scheme = Some ''http'', u_authority = Some ''h'', u_path = ''/'', u_query = None, u_fragment = None\<rparr>;
       opts = curie_defaults\<lparr>c_namespaces := [(''ab'', ''http://x/y#''), (''a'', ''http://x/'')]\<rparr>;
       mem = snd (createCurie d opts ''http://x/y#z'' Map.empty)
   in fst (createCurie d opts ''http://x/y#z'' Map.empty) = Inr ''a:y#z'' \<and>
      fst (parse_curie d opts ''a:y#z'' mem) = parseURI ''http://x/y#z''"
proof -
  let ?d = "\<lparr>u_scheme = Some ''http'', u_authority = Some ''h'', u_path = ''/'', u_query = None, u_fragment = None\<rparr>"
  let ?o = "curie_defaults\<lparr>c_namespaces := [(''ab'', ''http://x/y#''), (''a'', ''http://x/'')]\<rparr>"
  let ?u = "\<lparr>u_scheme = Some ''http'', u_authority = Some ''x'', u_path = ''/y'', u_query = None, u_fragment = Some ''z''\<rparr>"
  have d: "wf_uri ?d"
    by (simp add: wf_uri_def is_alpha_def scheme_char_def to_lower_def lower_char_def auth_char_def path_char_def)
  have p: "parseURI ''http://x/y#z'' = Inr ?u" "uri_toString ?u = ''http://x/y#z''" by code_simp+
  have u: "the_uri ?d ''http://x/y#z'' No_base Map.empty = (Inr ?u, [''http://x/y#z'' \<mapsto> ?u])"
    by (simp add: the_uri_def uri_init_def p mem_store_def bind_step_def lift_res_def)
  have c: "createCurie ?d ?o ''http://x/y#z'' Map.empty = (Inr ''a:y#z'', [''http://x/y#z'' \<mapsto> ?u])"
    by (simp add: createCurie_def bind_step_def u p curie_defaults_def each_binding_prefix Let_def ret_def)
  have "parse_curie ?d ?o ''a:y#z'' [''http://x/y#z'' \<mapsto> ?u] = (Inr ?u, [''http://x/y#z'' \<mapsto> ?u])"
    using createCurie_roundtrip [OF _ d _ _ _ _ u _ _ c]
    by (simp add: curie_defaults_def p no_lines_def line_end_def)
  then show ?thesis by (simp add: Let_def c p)
qed

text \<open>
  Where the URI is the namespace itself, the CURIE has an empty local name, and is not read.
\<close>

lemma empty_local_name:
  assumes "CHR '':'' \<notin> set p" "no_lines p" "c_reserved opts = []" "c_defaultNamespace opts = None"
  shows "parse_curie d opts (p @ '':'') mem = (Inl (no_prefix (curie_case opts (p @ '':''))), mem)"
proof -
  have "no_lines (p @ '':'')" using assms(2) by (auto simp: no_lines_def line_end_def)
  then have "curie_match (p @ '':'') = Some (None, p @ '':'')" using assms(1) by (simp add: curie_match_def)
  moreover have "\<not> colon_start (p @ '':'')" using assms(1) by (cases p) (auto simp: colon_start_def)
  ultimately show ?thesis
    by (simp add: parse_curie_def curie_parts_def assms(3,4) Let_def lift_res_def bind_step_def throw_def)
qed

end
