(* ===== verification/RdfText.thy ===== *)
theory RdfText
  imports Curie
begin

text \<open>
  \<open>jquery.rdfquery.core-1.0.js\<close>, lines 1192 to 1194 and what they are used for: the regular
  expressions of Turtle texts as scanners, and numbers as text. A number is the decimal text
  that was read, printed as the engine does for up to 15 digits.
\<close>

section \<open>Quoted text\<close>

text \<open>
  The places where \<open>((\\"|[^"])*)"\<close> can end, the one the expression prefers first: a quote
  with a backslash before it is passed over, or else taken as the end after the backslash.
\<close>

fun closings :: "char \<Rightarrow> string \<Rightarrow> (string \<times> string) list" where
  "closings q [] = []"
| "closings q [c] = (if c = q then [([], [])] else [])"
| "closings q (c # d # s) =
     (if c = q then [([], d # s)]
      else if c = CHR 0x5C \<and> d = q then
        map (\<lambda>(b, r). (c # d # b, r)) (closings q s) @ [([c], s)]
      else map (\<lambda>(b, r). (c # b, r)) (closings q (d # s)))"

text \<open>The same for \<open>((\\"|[^"])*)"""\<close>.\<close>

fun long_closings :: "string \<Rightarrow> (string \<times> string) list" where
  "long_closings [] = []"
| "long_closings [c] = []"
| "long_closings (c # d # s) =
     (if c = CHR 0x22 then (if d = CHR 0x22 \<and> take 1 s = [CHR 0x22] then [([], tl s)] else [])
      else if c = CHR 0x5C \<and> d = CHR 0x22 then
        map (\<lambda>(b, r). (c # d # b, r)) (long_closings s) @
        (if take 2 s = [CHR 0x22, CHR 0x22] then [([c], drop 2 s)] else [])
      else map (\<lambda>(b, r). (c # b, r)) (long_closings (d # s)))"

datatype lit_suffix = Plain | Lang_tag string | Typed_by string

definition lower_alpha :: "char \<Rightarrow> bool" where
  "lower_alpha c \<longleftrightarrow> c \<in> set ''abcdefghijklmnopqrstuvwxyz''"

definition lang_tag :: "string \<Rightarrow> bool" where
  "lang_tag t =
     (let parts = split_str ''-'' t in
      hd parts \<noteq> [] \<and> list_all lower_alpha (hd parts) \<and>
      (\<forall>p\<in>set (tl parts). p \<noteq> [] \<and> list_all (\<lambda>c. lower_alpha c \<or> is_digit c) p))"

definition lit_suffix_of :: "string \<Rightarrow> lit_suffix option" where
  "lit_suffix_of r =
     (if r = [] then Some Plain
      else if hd r = CHR ''@'' then (if lang_tag (tl r) then Some (Lang_tag (tl r)) else None)
      else if prefix ''^^'' r \<and> drop 2 r \<noteq> [] \<and> no_lines (drop 2 r) then Some (Typed_by (drop 2 r))
      else None)"

text \<open>\<open>literalRegex\<close>: whether the long form was read, the body and the suffix.\<close>

definition literal_match :: "string \<Rightarrow> (bool \<times> string \<times> lit_suffix) option" where
  "literal_match s =
     (let cands =
        (if prefix [CHR 0x22, CHR 0x22, CHR 0x22] s then map (\<lambda>(b, r). (True, b, r)) (long_closings (drop 3 s)) else []) @
        (if prefix [CHR 0x22] s then map (\<lambda>(b, r). (False, b, r)) (closings (CHR 0x22) (tl s)) else [])
      in List.find (\<lambda>_. True)
        (List.map_filter (\<lambda>(long, b, r). map_option (\<lambda>x. (long, b, x)) (lit_suffix_of r)) cands))"

text \<open>\<open>uriRegex\<close>: the text between the angles.\<close>

fun angle_body :: "string \<Rightarrow> bool" where
  "angle_body [] = True"
| "angle_body [c] = (c \<noteq> CHR ''>'')"
| "angle_body (c # d # s) =
     (if c = CHR 0x5C \<and> d = CHR ''>'' then angle_body s else c \<noteq> CHR ''>'' \<and> angle_body (d # s))"

definition angle_match :: "string \<Rightarrow> string option" where
  "angle_match s =
     (if prefix ''<'' s \<and> 2 \<le> length s \<and> last s = CHR ''>'' \<and> angle_body (butlast (tl s))
      then Some (butlast (tl s)) else None)"

text \<open>
  \<open>tripleRegex\<close>: the texts of the matches. A match goes on while one of the alternatives
  fits: a long string, a string, a URI in angles, a character that is not white space.
\<close>

definition scan_item :: "string \<Rightarrow> (string \<times> string) option" where
  "scan_item s =
     (if prefix [CHR 0x22, CHR 0x22, CHR 0x22] s \<and> long_closings (drop 3 s) \<noteq> [] then
        (let (b, r) = hd (long_closings (drop 3 s)) in Some (take (length s - length r) s, r))
      else if prefix [CHR 0x22] s \<and> closings (CHR 0x22) (tl s) \<noteq> [] then
        (let (b, r) = hd (closings (CHR 0x22) (tl s)) in Some (take (length s - length r) s, r))
      else if prefix ''<'' s \<and> closings (CHR ''>'') (tl s) \<noteq> [] then
        (let (b, r) = hd (closings (CHR ''>'') (tl s)) in Some (take (length s - length r) s, r))
      else case s of [] \<Rightarrow> None | c # t \<Rightarrow> if is_space c then None else Some ([c], t))"

text \<open>The fuel is the length of the text: every item and every skipped character is one at least.\<close>

fun scan_tokens :: "nat \<Rightarrow> string \<Rightarrow> string \<Rightarrow> string list" where
  "scan_tokens 0 cur s = (if cur = [] then [] else [cur])"
| "scan_tokens (Suc n) cur s =
     (case scan_item s of
        Some (item, r) \<Rightarrow> scan_tokens n (cur @ item) r
      | None \<Rightarrow> (if cur = [] then [] else [cur]) @ (if s = [] then [] else scan_tokens n [] (tl s)))"

definition js_trim :: "string \<Rightarrow> string" where
  "js_trim s = rev (dropWhile is_space (rev (dropWhile is_space s)))"

definition triple_tokens :: "string \<Rightarrow> string list" where
  "triple_tokens s = (let t = js_trim s in scan_tokens (Suc (length t)) [] t)"

text \<open>The three parts of a statement, or the throw: no match at all is \<open>null\<close>.\<close>

definition statement_parts :: "string \<Rightarrow> string \<Rightarrow> (string \<times> string \<times> string) js_res" where
  "statement_parts bad s =
     (let m = triple_tokens s in
      if m = [] then Inl TypeError
      else if length m = 3 \<or> (length m = 4 \<and> m ! 3 = ''.'') then Inr (m ! 0, m ! 1, m ! 2)
      else Inl (UserError (bad @ s)))"

section \<open>Numbers\<close>

text \<open>\<open>String(parseFloat(s))\<close>, for a text that fits the expression of \<open>xsd:double\<close>.\<close>

definition number_str :: "string \<Rightarrow> string" where
  "number_str s =
     (if s = ''NaN'' then s
      else
        (let m = takeWhile (\<lambda>c. \<not> exp_char c) (drop_sign s); e = dropWhile (\<lambda>c. \<not> exp_char c) (drop_sign s);
             ip = takeWhile is_digit m; ds0 = ip @ drop (Suc (length ip)) m;
             ds1 = dropWhile (\<lambda>c. c = CHR ''0'') ds0; ds = rev (dropWhile (\<lambda>c. c = CHR ''0'') (rev ds1));
             k = int (length ds);
             n = int (length ip) + (if e = [] then 0 else parse10 (tl e)) - int (length ds0 - length ds1) in
         if ds = [] then ''0''
         else (if prefix ''-'' s then ''-'' else []) @
           (if k \<le> n \<and> n \<le> 21 then ds @ replicate (nat (n - k)) (CHR ''0'')
            else if 0 < n \<and> n \<le> 21 then take (nat n) ds @ ''.'' @ drop (nat n) ds
            else if -6 < n \<and> n \<le> 0 then ''0.'' @ replicate (nat (- n)) (CHR ''0'') @ ds
            else (if k = 1 then ds else hd ds # ''.'' @ tl ds) @ ''e'' @
              (if 0 \<le> n - 1 then ''+'' else []) @ int_str (n - 1))))"

definition tv_string :: "tv_value \<Rightarrow> string" where
  "tv_string v = (case v of
       TV_string s \<Rightarrow> s
     | TV_bool b \<Rightarrow> if b then ''true'' else ''false''
     | TV_int i \<Rightarrow> int_str i
     | TV_float s \<Rightarrow> number_str s
     | TV_infinite b \<Rightarrow> if b then ''Infinity'' else ''-Infinity''
     | TV_uri u \<Rightarrow> uri_toString u)"

end
