(* ===== verification/RdfTerms.thy ===== *)
theory RdfTerms
  imports RdfText
begin

text \<open>
  \<open>jquery.rdfquery.core-1.0.js\<close>, lines 1181 to 1258 and 3549 to 4038: resources, blank nodes,
  literals and triples, each made once and then kept in a table under its Turtle text
  (\<open>memResource\<close>, \<open>memBlank\<close>, \<open>memLiteral\<close>, \<open>memTriple\<close>). As every object comes from its
  table, the identity of the code's objects is equality here. Texts that name a property of
  \<open>Object.prototype\<close> are outside the tables' model. Of the messages put into other messages
  the engine's own are given by the name of their class.
\<close>

section \<open>Nodes and tables\<close>

datatype rdf_node =
    Resource uri
  | Blank string
  | Literal tv_value "string option" "string option"

definition node_toString :: "rdf_node \<Rightarrow> string" where
  "node_toString n = (case n of
       Resource u \<Rightarrow> ''<'' @ uri_toString u @ ''>''
     | Blank i \<Rightarrow> ''_:'' @ i
     | Literal v l d \<Rightarrow> [CHR 0x22] @ tv_string v @ [CHR 0x22] @
         (case l of Some t \<Rightarrow> CHR ''@'' # t
          | None \<Rightarrow> (case d of Some t \<Rightarrow> ''^^<'' @ t @ ''>'' | None \<Rightarrow> [])))"

datatype node_kind = NT_uri | NT_bnode | NT_literal

fun node_type :: "rdf_node \<Rightarrow> node_kind" where
  "node_type (Resource u) = NT_uri"
| "node_type (Blank i) = NT_bnode"
| "node_type (Literal v l d) = NT_literal"

text \<open>\<open>value.toString()\<close> of a node.\<close>

definition node_value :: "rdf_node \<Rightarrow> string" where
  "node_value n = (case n of Resource u \<Rightarrow> uri_toString u | Blank i \<Rightarrow> ''_:'' @ i | Literal v l d \<Rightarrow> tv_string v)"

record rdf_json =
  j_type :: node_kind
  j_value :: string
  j_lang :: "string option"
  j_datatype :: "string option"

definition node_dump :: "rdf_node \<Rightarrow> rdf_json" where
  "node_dump n = (case n of
       Resource u \<Rightarrow> \<lparr>j_type = NT_uri, j_value = node_value n, j_lang = None, j_datatype = None\<rparr>
     | Blank i \<Rightarrow> \<lparr>j_type = NT_bnode, j_value = node_value n, j_lang = None, j_datatype = None\<rparr>
     | Literal v l d \<Rightarrow> \<lparr>j_type = NT_literal, j_value = node_value n, j_lang = l,
         j_datatype = (if l = None then d else None)\<rparr>)"

text \<open>A triple; its source is a text or, by default, the document.\<close>

record rdf_triple =
  t_subject :: rdf_node
  t_property :: rdf_node
  t_object :: rdf_node
  t_graph :: "rdf_node option"
  t_source :: "string option"

text \<open>A pattern: a placeholder is kept as its text, question mark and all.\<close>

datatype pat_term = Var string | Fixed rdf_node

record rdf_pattern =
  p_subject :: pat_term
  p_property :: pat_term
  p_object :: pat_term
  p_optional :: bool

type_synonym memo = "string \<Rightarrow> rdf_node option"

record rdf_env =
  e_tv :: tv_env
  e_resource :: memo
  e_blank :: memo
  e_literal :: memo
  e_triple :: "string \<times> string \<times> string \<times> string \<Rightarrow> rdf_triple option"
  e_pattern :: "string \<times> string \<times> string \<times> bool \<Rightarrow> rdf_pattern option"
  e_seed :: nat

record rdf_opts =
  o_base :: uri_base
  o_namespaces :: "(string \<times> string) list"
  o_lang :: "string option"
  o_datatype :: "string option"
  o_graph :: "string option"
  o_source :: "string option"
  o_optional :: "bool option"

definition no_opts :: rdf_opts where
  "no_opts = \<lparr>o_base = No_base, o_namespaces = [], o_lang = None, o_datatype = None, o_graph = None,
     o_source = None, o_optional = None\<rparr>"

definition on_tv :: "(tv_env, 'a) js_step \<Rightarrow> (rdf_env, 'a) js_step" where
  "on_tv m s = (case m (e_tv s) of (r, k) \<Rightarrow> (r, s\<lparr>e_tv := k\<rparr>))"

definition on_uri :: "(uri_mem, 'a) js_step \<Rightarrow> (rdf_env, 'a) js_step" where
  "on_uri m = on_tv (on_mem m)"

text \<open>\<open>try { m } catch (e) { h(e) }\<close>, and an error put into a message.\<close>

definition try_step :: "('s, 'a) js_step \<Rightarrow> (js_error \<Rightarrow> ('s, 'a) js_step) \<Rightarrow> ('s, 'a) js_step" where
  "try_step m h s = (case m s of (Inl e, s') \<Rightarrow> h e s' | (Inr a, s') \<Rightarrow> (Inr a, s'))"

definition error_text :: "js_error \<Rightarrow> string" where
  "error_text e = (case e of TypeError \<Rightarrow> ''TypeError'' | UserError s \<Rightarrow> s)"

section \<open>Resources\<close>

datatype resource_arg = As_text string | As_uri uri

definition resource_init :: "uri \<Rightarrow> rdf_opts \<Rightarrow> resource_arg \<Rightarrow> (rdf_env, rdf_node) js_step" where
  "resource_init doc opts arg =
     (case arg of
        As_uri u \<Rightarrow> ret (Resource u)
      | As_text value \<Rightarrow>
          bind_step
            (case angle_match value of
               Some body \<Rightarrow> on_uri (the_uri doc (replace_all [CHR 0x5C, CHR ''>''] ''>'' body) (o_base opts))
             | None \<Rightarrow>
                 if take 1 value = '':'' then
                   (case map_of (o_namespaces opts) [] of
                      None \<Rightarrow> throw (UserError (''Malformed Resource: No namespace binding for default namespace in '' @ value))
                    | Some ns \<Rightarrow> on_uri (the_uri doc (ns @ tl value) No_base))
                 else if value \<noteq> [] \<and> last value = CHR '':'' then
                   (case map_of (o_namespaces opts) (butlast value) of
                      None \<Rightarrow> throw (UserError (''Malformed Resource: No namespace binding for prefix '' @
                        butlast value @ '' in '' @ value))
                    | Some ns \<Rightarrow> on_uri (the_uri doc ns No_base))
                 else
                   try_step (on_uri (parse_curie doc (curie_defaults\<lparr>c_namespaces := o_namespaces opts\<rparr>) value))
                     (\<lambda>e. throw (UserError (''Malformed Resource: Bad format for resource '' @ error_text e))))
            (\<lambda>u. ret (Resource u)))"

definition resource_key :: "resource_arg \<Rightarrow> string" where
  "resource_key arg = (case arg of As_text s \<Rightarrow> s | As_uri u \<Rightarrow> uri_toString u)"

definition keep_resource :: "rdf_node \<Rightarrow> (rdf_env, rdf_node) js_step" where
  "keep_resource n s = (case e_resource s (node_toString n) of
       Some m \<Rightarrow> (Inr m, s)
     | None \<Rightarrow> (Inr n, s\<lparr>e_resource := (e_resource s)(node_toString n \<mapsto> n)\<rparr>))"

definition rdf_resource :: "uri \<Rightarrow> rdf_opts \<Rightarrow> resource_arg \<Rightarrow> (rdf_env, rdf_node) js_step" where
  "rdf_resource doc opts arg s = (case e_resource s (resource_key arg) of
       Some n \<Rightarrow> (Inr n, s)
     | None \<Rightarrow> bind_step (resource_init doc opts arg) keep_resource s)"

definition rdfNs :: string where
  "rdfNs = ''http://www.w3.org/1999/02/22-rdf-syntax-ns#''"

text \<open>The constants \<open>$.rdf.type\<close>, \<open>$.rdf.first\<close> and so on, made when the script loads.\<close>

definition rdf_const :: "string \<Rightarrow> rdf_node" where
  "rdf_const name = Resource \<lparr>u_scheme = Some ''http'', u_authority = Some ''www.w3.org'',
     u_path = ''/1999/02/22-rdf-syntax-ns'', u_query = None, u_fragment = Some name\<rparr>"

section \<open>Blank nodes\<close>

fun hex_str :: "nat \<Rightarrow> string" where
  "hex_str n = (if n < 16 then [''0123456789abcdef'' ! n] else hex_str (n div 16) @ [''0123456789abcdef'' ! (n mod 16)])"

declare hex_str.simps [simp del]

definition blankNodeID :: "(rdf_env, string) js_step" where
  "blankNodeID s = (Inr (CHR ''b'' # hex_str (Suc (e_seed s))), s\<lparr>e_seed := Suc (e_seed s)\<rparr>)"

definition blank_init :: "string \<Rightarrow> (rdf_env, rdf_node) js_step" where
  "blank_init value =
     (if value = ''[]'' then bind_step blankNodeID (\<lambda>i. ret (Blank i))
      else if prefix ''_:'' value then ret (Blank (drop 2 value))
      else throw (UserError (''Malformed Blank Node: '' @ value @ '' is not a legal format for a blank node'')))"

definition keep_blank :: "rdf_node \<Rightarrow> (rdf_env, rdf_node) js_step" where
  "keep_blank n s = (case e_blank s (node_toString n) of
       Some m \<Rightarrow> (Inr m, s)
     | None \<Rightarrow> (Inr n, s\<lparr>e_blank := (e_blank s)(node_toString n \<mapsto> n)\<rparr>))"

definition rdf_blank :: "string \<Rightarrow> (rdf_env, rdf_node) js_step" where
  "rdf_blank value s = (case e_blank s value of
       Some n \<Rightarrow> (Inr n, s)
     | None \<Rightarrow> bind_step (blank_init value) keep_blank s)"

section \<open>Literals\<close>

datatype literal_arg = Lit_text string | Lit_bool bool | Lit_number string

definition literal_text :: "literal_arg \<Rightarrow> string" where
  "literal_text a = (case a of
       Lit_text s \<Rightarrow> s | Lit_bool b \<Rightarrow> if b then ''true'' else ''false'' | Lit_number s \<Rightarrow> number_str s)"

text \<open>\<open>$.extend(this, $.typedValue(v, dt))\<close>: what the shared object holds is copied.\<close>

definition typed_literal :: "uri \<Rightarrow> string \<Rightarrow> string \<Rightarrow> (rdf_env, rdf_node) js_step" where
  "typed_literal doc v dt =
     then_step (on_tv (typedValue doc v dt))
       (gets (\<lambda>s. Literal (case tv_value (tv_fn (e_tv s)) of Some x \<Rightarrow> x | None \<Rightarrow> TV_string []) None
         (tv_datatype (tv_fn (e_tv s)))))"

definition not_a_turtle_number :: "string \<Rightarrow> bool" where
  "not_a_turtle_number s \<longleftrightarrow> js_trim s \<in> {''INF'', ''+INF'', ''-INF'', ''NaN''}"

definition turtle_literal :: "uri \<Rightarrow> rdf_opts \<Rightarrow> string \<Rightarrow> (rdf_env, rdf_node) js_step" where
  "turtle_literal doc opts value =
     (case literal_match value of
        None \<Rightarrow> throw (UserError (''Malformed Literal: Couldn't recognise the value '' @ value))
      | Some (long, body, sfx) \<Rightarrow>
          if long \<and> body = [] then throw TypeError
          else
            (let v = replace_all [CHR 0x5C, CHR 0x22] [CHR 0x22] body in
             case sfx of
               Plain \<Rightarrow> ret (Literal (TV_string v) None None)
             | Lang_tag t \<Rightarrow> ret (Literal (TV_string v) (Some t) None)
             | Typed_by t \<Rightarrow> bind_step (rdf_resource doc opts (As_text t)) (\<lambda>d. typed_literal doc v (node_value d))))"

definition literal_init :: "uri \<Rightarrow> rdf_opts \<Rightarrow> literal_arg \<Rightarrow> (rdf_env, rdf_node) js_step" where
  "literal_init doc opts arg =
     (if o_lang opts \<noteq> None \<and> o_datatype opts \<noteq> None then
        throw (UserError (''Malformed Literal: Cannot define both a language and a datatype for a literal ('' @
          literal_text arg @ '')''))
      else case o_datatype opts of
        Some dt \<Rightarrow>
          bind_step (on_uri (safeCurie doc (curie_defaults\<lparr>c_namespaces := o_namespaces opts\<rparr>) dt)) (\<lambda>d.
            typed_literal doc (literal_text arg) (uri_toString d))
      | None \<Rightarrow>
          (case o_lang opts of
             Some l \<Rightarrow> ret (Literal (TV_string (literal_text arg)) (Some l) None)
           | None \<Rightarrow>
               (case arg of
                  Lit_bool b \<Rightarrow> typed_literal doc (literal_text arg) (xsd @ ''boolean'')
                | Lit_number n \<Rightarrow> typed_literal doc (literal_text arg) (xsd @ ''double'')
                | Lit_text value \<Rightarrow>
                    if value = ''true'' \<or> value = ''false'' then typed_literal doc value (xsd @ ''boolean'')
                    else if tv_valid value (xsd @ ''integer'') then typed_literal doc value (xsd @ ''integer'')
                    else if tv_valid value (xsd @ ''decimal'') then typed_literal doc value (xsd @ ''decimal'')
                    else if tv_valid value (xsd @ ''double'') \<and> \<not> not_a_turtle_number value then
                      typed_literal doc value (xsd @ ''double'')
                    else turtle_literal doc opts value)))"

definition keep_literal :: "rdf_node \<Rightarrow> (rdf_env, rdf_node) js_step" where
  "keep_literal n s = (case e_literal s (node_toString n) of
       Some m \<Rightarrow> (Inr m, s)
     | None \<Rightarrow> (Inr n, s\<lparr>e_literal := (e_literal s)(node_toString n \<mapsto> n)\<rparr>))"

text \<open>The table is asked with the value alone: a language or datatype of the options is not part of the key.\<close>

definition rdf_literal :: "uri \<Rightarrow> rdf_opts \<Rightarrow> literal_arg \<Rightarrow> (rdf_env, rdf_node) js_step" where
  "rdf_literal doc opts arg s = (case e_literal s (literal_text arg) of
       Some n \<Rightarrow> (Inr n, s)
     | None \<Rightarrow> bind_step (literal_init doc opts arg) keep_literal s)"

section \<open>Triples\<close>

datatype node_arg = Text string | Node rdf_node

definition arg_text :: "node_arg \<Rightarrow> string" where
  "arg_text a = (case a of Text s \<Rightarrow> s | Node n \<Rightarrow> node_toString n)"

definition rdf_subject :: "uri \<Rightarrow> rdf_opts \<Rightarrow> node_arg \<Rightarrow> (rdf_env, rdf_node) js_step" where
  "rdf_subject doc opts a = (case a of
       Node n \<Rightarrow> ret n
     | Text s \<Rightarrow>
         try_step (rdf_resource doc opts (As_text s)) (\<lambda>_.
         try_step (rdf_blank s) (\<lambda>f.
           throw (UserError (''Bad Triple: Subject '' @ s @ '' is not a resource: '' @ error_text f)))))"

definition rdf_property :: "uri \<Rightarrow> rdf_opts \<Rightarrow> node_arg \<Rightarrow> (rdf_env, rdf_node) js_step" where
  "rdf_property doc opts a = (case a of
       Node n \<Rightarrow> ret n
     | Text s \<Rightarrow>
         if s = ''a'' then ret (rdf_const ''type'')
         else try_step (rdf_resource doc opts (As_text s)) (\<lambda>e.
           throw (UserError (''Bad Triple: Property '' @ s @ '' is not a resource: '' @ error_text e))))"

definition rdf_object :: "uri \<Rightarrow> rdf_opts \<Rightarrow> node_arg \<Rightarrow> (rdf_env, rdf_node) js_step" where
  "rdf_object doc opts a = (case a of
       Node n \<Rightarrow> ret n
     | Text s \<Rightarrow>
         try_step (rdf_resource doc opts (As_text s)) (\<lambda>_.
         try_step (rdf_blank s) (\<lambda>_.
         try_step (rdf_literal doc opts (Lit_text s)) (\<lambda>g.
           throw (UserError (''Bad Triple: Object '' @ s @ '' is not a resource or a literal '' @ error_text g))))))"

definition triple_key :: "rdf_triple \<Rightarrow> string \<times> string \<times> string \<times> string" where
  "triple_key t = ((case t_graph t of Some g \<Rightarrow> node_toString g | None \<Rightarrow> []),
     node_toString (t_subject t), node_toString (t_property t), node_toString (t_object t))"

definition triple_init :: "uri \<Rightarrow> rdf_opts \<Rightarrow> node_arg \<Rightarrow> node_arg \<Rightarrow> node_arg \<Rightarrow> (rdf_env, rdf_triple) js_step" where
  "triple_init doc opts s p ob =
     bind_step (rdf_subject doc opts s) (\<lambda>sn.
     bind_step (rdf_property doc opts p) (\<lambda>pn.
     bind_step (rdf_object doc opts ob) (\<lambda>on.
     bind_step (case o_graph opts of None \<Rightarrow> ret None
         | Some g \<Rightarrow> bind_step (rdf_subject doc opts (Text g)) (\<lambda>n. ret (Some n))) (\<lambda>gn.
     ret \<lparr>t_subject = sn, t_property = pn, t_object = on, t_graph = gn, t_source = o_source opts\<rparr>))))"

definition keep_triple :: "rdf_triple \<Rightarrow> (rdf_env, rdf_triple) js_step" where
  "keep_triple t s = (case e_triple s (triple_key t) of
       Some u \<Rightarrow> (Inr u, s)
     | None \<Rightarrow> (Inr t, s\<lparr>e_triple := (e_triple s)(triple_key t \<mapsto> t)\<rparr>))"

definition make_triple :: "uri \<Rightarrow> rdf_opts \<Rightarrow> node_arg \<Rightarrow> node_arg \<Rightarrow> node_arg \<Rightarrow> (rdf_env, rdf_triple) js_step" where
  "make_triple doc opts s p ob st =
     (case e_triple st ((case o_graph opts of Some g \<Rightarrow> g | None \<Rightarrow> []), arg_text s, arg_text p, arg_text ob) of
        Some t \<Rightarrow> (Inr t, st)
      | None \<Rightarrow> bind_step (triple_init doc opts s p ob) keep_triple st)"

text \<open>\<open>$.rdf.triple\<close> of a statement in one text.\<close>

definition triple_of_text :: "uri \<Rightarrow> rdf_opts \<Rightarrow> string \<Rightarrow> (rdf_env, rdf_triple) js_step" where
  "triple_of_text doc opts text =
     bind_step (lift_res (statement_parts ''Bad Triple: Couldn't parse string '' text)) (\<lambda>(s, p, ob).
       make_triple doc opts (Text s) (Text p) (Text ob))"

definition triple_toString :: "rdf_triple \<Rightarrow> string" where
  "triple_toString t = node_toString (t_subject t) @ '' '' @ node_toString (t_property t) @ '' '' @
     node_toString (t_object t) @ '' .''"

definition triple_dump :: "rdf_triple \<Rightarrow> (string \<times> (string \<times> rdf_json) list) list" where
  "triple_dump t = [(node_value (t_subject t), [(node_value (t_property t), node_dump (t_object t))])]"

end
