(* ===== verification/RdfPattern.thy ===== *)
theory RdfPattern
  imports RdfTerms "HOL-Library.AList"
begin

text \<open>
  \<open>jquery.rdfquery.core-1.0.js\<close>, lines 3216 to 3384 and 1260 to 1275: patterns, their matching
  against triples and their filling with bindings. Bindings are an object, its properties in
  the order in which they were made.
\<close>

type_synonym bindings = "(string \<times> rdf_node) list"

definition pat_text :: "pat_term \<Rightarrow> string" where
  "pat_text t = (case t of Var v \<Rightarrow> v | Fixed n \<Rightarrow> node_toString n)"

definition pattern_toString :: "rdf_pattern \<Rightarrow> string" where
  "pattern_toString p = pat_text (p_subject p) @ '' '' @ pat_text (p_property p) @ '' '' @ pat_text (p_object p)"

fun is_var :: "pat_term \<Rightarrow> bool" where
  "is_var (Var v) = True"
| "is_var (Fixed n) = False"

definition pat_isFixed :: "rdf_pattern \<Rightarrow> bool" where
  "pat_isFixed p \<longleftrightarrow> \<not> is_var (p_subject p) \<and> \<not> is_var (p_property p) \<and> \<not> is_var (p_object p)"

section \<open>Matching\<close>

definition testResource :: "rdf_node \<Rightarrow> pat_term \<Rightarrow> bindings \<Rightarrow> bindings option" where
  "testResource r t existing =
     (case t of
        Var v \<Rightarrow>
          (case map_of existing (tl v) of
             Some n \<Rightarrow> if n \<noteq> r then None else Some (AList.update (tl v) r existing)
           | None \<Rightarrow> Some (AList.update (tl v) r existing))
      | Fixed n \<Rightarrow> if n = r then Some existing else None)"

definition pat_exec :: "rdf_pattern \<Rightarrow> rdf_triple \<Rightarrow> bindings option" where
  "pat_exec p t =
     (case testResource (t_subject t) (p_subject p) [] of
        None \<Rightarrow> None
      | Some b1 \<Rightarrow>
          (case testResource (t_property t) (p_property p) b1 of
             None \<Rightarrow> None
           | Some b2 \<Rightarrow> testResource (t_object t) (p_object p) b2))"

section \<open>Making patterns\<close>

text \<open>A text that starts with a question mark stays, anything else becomes a node.\<close>

definition pat_term_of :: "(node_arg \<Rightarrow> (rdf_env, rdf_node) js_step) \<Rightarrow> node_arg \<Rightarrow> (rdf_env, pat_term) js_step" where
  "pat_term_of mk a =
     (if take 1 (arg_text a) = ''?'' then ret (Var (arg_text a)) else bind_step (mk a) (\<lambda>n. ret (Fixed n)))"

definition pattern_init :: "uri \<Rightarrow> rdf_opts \<Rightarrow> node_arg \<Rightarrow> node_arg \<Rightarrow> node_arg \<Rightarrow> (rdf_env, rdf_pattern) js_step" where
  "pattern_init doc opts s p ob =
     bind_step (pat_term_of (rdf_subject doc opts) s) (\<lambda>sn.
     bind_step (pat_term_of (rdf_property doc opts) p) (\<lambda>pn.
     bind_step (pat_term_of (rdf_object doc opts) ob) (\<lambda>on.
     ret \<lparr>p_subject = sn, p_property = pn, p_object = on,
       p_optional = (case o_optional opts of Some b \<Rightarrow> b | None \<Rightarrow> False)\<rparr>)))"

definition pattern_key :: "rdf_pattern \<Rightarrow> string \<times> string \<times> string \<times> bool" where
  "pattern_key p = (pat_text (p_subject p), pat_text (p_property p), pat_text (p_object p), p_optional p)"

definition keep_pattern :: "rdf_pattern \<Rightarrow> (rdf_env, rdf_pattern) js_step" where
  "keep_pattern p s = (case e_pattern s (pattern_key p) of
       Some q \<Rightarrow> (Inr q, s)
     | None \<Rightarrow> (Inr p, s\<lparr>e_pattern := (e_pattern s)(pattern_key p \<mapsto> p)\<rparr>))"

text \<open>
  The form with three parts looks nothing up at first: its \<open>optional\<close> is still \<open>undefined\<close>.
\<close>

definition make_pattern :: "uri \<Rightarrow> rdf_opts \<Rightarrow> node_arg \<Rightarrow> node_arg \<Rightarrow> node_arg \<Rightarrow> (rdf_env, rdf_pattern) js_step" where
  "make_pattern doc opts s p ob = bind_step (pattern_init doc opts s p ob) keep_pattern"

definition pattern_of_text :: "uri \<Rightarrow> rdf_opts \<Rightarrow> string \<Rightarrow> (rdf_env, rdf_pattern) js_step" where
  "pattern_of_text doc opts text =
     bind_step (lift_res (statement_parts ''Bad Pattern: Couldn't parse string '' text)) (\<lambda>(s, p, ob) st.
       case e_pattern st (s, p, ob, (case o_optional opts of Some b \<Rightarrow> b | None \<Rightarrow> False)) of
         Some q \<Rightarrow> (Inr q, st)
       | None \<Rightarrow> make_pattern doc opts (Text s) (Text p) (Text ob) st)"

definition fill_term :: "bindings \<Rightarrow> pat_term \<Rightarrow> node_arg" where
  "fill_term b t = (case t of
       Var v \<Rightarrow> (case map_of b (tl v) of Some n \<Rightarrow> Node n | None \<Rightarrow> Text v)
     | Fixed n \<Rightarrow> Node n)"

definition pat_fill :: "uri \<Rightarrow> bindings \<Rightarrow> rdf_pattern \<Rightarrow> (rdf_env, rdf_pattern) js_step" where
  "pat_fill doc b p =
     make_pattern doc (no_opts\<lparr>o_optional := Some (p_optional p)\<rparr>)
       (fill_term b (p_subject p)) (fill_term b (p_property p)) (fill_term b (p_object p))"

definition fixed_arg :: "pat_term \<Rightarrow> node_arg" where
  "fixed_arg t = (case t of Fixed n \<Rightarrow> Node n | Var v \<Rightarrow> Text v)"

definition pat_triple :: "uri \<Rightarrow> bindings \<Rightarrow> rdf_pattern \<Rightarrow> (rdf_env, rdf_triple option) js_step" where
  "pat_triple doc b p =
     bind_step (if pat_isFixed p then ret p else pat_fill doc b p) (\<lambda>t.
       if pat_isFixed t then
         bind_step (make_triple doc (no_opts\<lparr>o_source := Some (pattern_toString p)\<rparr>)
           (fixed_arg (p_subject t)) (fixed_arg (p_property t)) (fixed_arg (p_object t))) (\<lambda>tr. ret (Some tr))
       else ret None)"

end
