(* ===== verification/RdfNetwork.thy ===== *)
theory RdfNetwork
  imports RdfPattern
begin

text \<open>
  \<open>jquery.rdfquery.core-1.0.js\<close>, lines 1277 to 1552: the network of queries over the databanks.
  A query holds the matches of its own pattern (its alpha memory) and, for the chain of
  patterns from its parents, the joined matches; adding and removing triples activates the
  registered queries, and these their children and unions. Databanks and queries are kept in
  tables by address, in the order in which they were made. The recursion over queries and over
  unions of databanks has the engine's stack as its fuel; without fuel it throws.
\<close>

section \<open>State\<close>

record rdf_match =
  m_bindings :: bindings
  m_triples :: "rdf_triple list"

text \<open>
  A filter is a pattern or a function of the index, the bindings and the triples of a match;
  \<open>None\<close> is a throw of the function.
\<close>

datatype rdf_filter =
    By_pattern rdf_pattern
  | By_function "nat \<Rightarrow> bindings \<Rightarrow> rdf_triple list \<Rightarrow> bool option"

text \<open>
  The object is used like an array: \<open>q_length\<close> is its length, and \<open>q_items\<close> its elements, those
  included that a reset of the length has left behind.
\<close>

record rdf_query =
  q_parent :: "nat option"
  q_union :: "nat list option"
  q_databank :: nat
  q_children :: "nat list"
  q_partOf :: "nat list"
  q_filter :: "rdf_filter option"
  q_alpha :: "rdf_match list"
  q_matches :: "rdf_match list"
  q_length :: nat
  q_items :: "bindings list"

definition push_items :: "bindings list \<Rightarrow> rdf_query \<Rightarrow> rdf_query" where
  "push_items bs x = x\<lparr>q_length := q_length x + length bs,
     q_items := take (q_length x) (q_items x) @ bs @ drop (q_length x + length bs) (q_items x)\<rparr>"

definition q_bindings :: "rdf_query \<Rightarrow> bindings list" where
  "q_bindings x = take (q_length x) (q_items x)"

type_synonym triple_index = "(string \<times> rdf_triple list) list"

record rdf_bank =
  b_queries :: "string \<times> string \<times> string \<Rightarrow> nat list"
  b_store :: "rdf_triple list"
  b_subject :: triple_index
  b_property :: triple_index
  b_object :: triple_index
  b_base :: uri_base
  b_namespaces :: "(string \<times> string) list"

datatype databank = Bank rdf_bank | Union "nat list"

text \<open>A script element that asks the proxy for a document.\<close>

record rdf_script =
  s_proxy :: string
  s_id :: nat
  s_depth :: int
  s_url :: string

record world =
  w_rdf :: rdf_env
  w_banks :: "nat \<Rightarrow> databank option"
  w_bank_seed :: nat
  w_queries :: "nat \<Rightarrow> rdf_query option"
  w_next_query :: nat
  w_waiting :: "(nat \<times> string) list"
  w_scripts :: "rdf_script list"

definition q_top :: "rdf_query \<Rightarrow> bool" where
  "q_top q \<longleftrightarrow> q_parent q = None \<and> q_union q = None"

definition on_rdf :: "(rdf_env, 'a) js_step \<Rightarrow> (world, 'a) js_step" where
  "on_rdf m w = (case m (w_rdf w) of (r, k) \<Rightarrow> (r, w\<lparr>w_rdf := k\<rparr>))"

text \<open>Reading and writing an object; an address without object is an error of the caller.\<close>

definition the_query :: "nat \<Rightarrow> (world, rdf_query) js_step" where
  "the_query q w = (case w_queries w q of Some x \<Rightarrow> (Inr x, w) | None \<Rightarrow> (Inl TypeError, w))"

definition set_query :: "nat \<Rightarrow> (rdf_query \<Rightarrow> rdf_query) \<Rightarrow> (world, unit) js_step" where
  "set_query q f w = (case w_queries w q of
       Some x \<Rightarrow> (Inr (), w\<lparr>w_queries := (w_queries w)(q \<mapsto> f x)\<rparr>)
     | None \<Rightarrow> (Inl TypeError, w))"

definition the_bank :: "nat \<Rightarrow> (world, databank) js_step" where
  "the_bank d w = (case w_banks w d of Some x \<Rightarrow> (Inr x, w) | None \<Rightarrow> (Inl TypeError, w))"

definition set_bank :: "nat \<Rightarrow> rdf_bank \<Rightarrow> (world, unit) js_step" where
  "set_bank d b = modify (\<lambda>w. w\<lparr>w_banks := (w_banks w)(d \<mapsto> Bank b)\<rparr>)"

text \<open>\<open>$.each(xs, f)\<close> and \<open>$.map(xs, f)\<close> where \<open>f\<close> gives \<open>null\<close> or a value.\<close>

fun each_step :: "('a \<Rightarrow> ('s, unit) js_step) \<Rightarrow> 'a list \<Rightarrow> ('s, unit) js_step" where
  "each_step f [] = ret ()"
| "each_step f (x # xs) = then_step (f x) (each_step f xs)"

fun map_step :: "('a \<Rightarrow> ('s, 'b) js_step) \<Rightarrow> 'a list \<Rightarrow> ('s, 'b list) js_step" where
  "map_step f [] = ret []"
| "map_step f (x # xs) = bind_step (f x) (\<lambda>y. bind_step (map_step f xs) (\<lambda>ys. ret (y # ys)))"

text \<open>\<open>$.unique\<close> keeps the first of equal objects.\<close>

definition js_unique :: "'a list \<Rightarrow> 'a list" where
  "js_unique xs = rev (remdups (rev xs))"

text \<open>\<open>xs.splice($.inArray(x, xs), 1)\<close>: an index of \<open>-1\<close> is that of the last element.\<close>

definition splice_at :: "'a \<Rightarrow> 'a list \<Rightarrow> 'a list" where
  "splice_at x xs = (if x \<in> set xs then remove1 x xs else butlast xs)"

section \<open>Finding matches\<close>

definition match_of :: "rdf_pattern \<Rightarrow> rdf_triple \<Rightarrow> rdf_match option" where
  "match_of p t = map_option (\<lambda>b. \<lparr>m_bindings = b, m_triples = [t]\<rparr>) (pat_exec p t)"

definition node_kind_of :: "pat_term \<Rightarrow> node_kind option" where
  "node_kind_of t = (case t of Var v \<Rightarrow> None | Fixed n \<Rightarrow> Some (node_type n))"

definition index_entry :: "triple_index \<Rightarrow> string \<Rightarrow> rdf_triple list" where
  "index_entry ix k = (case map_of ix k of Some ts \<Rightarrow> ts | None \<Rightarrow> [])"

definition bank_matches :: "rdf_bank \<Rightarrow> rdf_pattern \<Rightarrow> rdf_match list" where
  "bank_matches b p =
     (if node_kind_of (p_subject p) \<noteq> None then
        List.map_filter (match_of p) (index_entry (b_subject b) (pat_text (p_subject p)))
      else if node_kind_of (p_object p) \<in> {Some NT_uri, Some NT_bnode} then
        List.map_filter (match_of p) (index_entry (b_object b) (pat_text (p_object p)))
      else if node_kind_of (p_property p) \<noteq> None then
        List.map_filter (match_of p) (index_entry (b_property b) (pat_text (p_property p)))
      else List.map_filter (match_of p) (b_store b))"

text \<open>\<open>databank.triples()\<close>\<close>

fun bank_triples :: "nat \<Rightarrow> nat \<Rightarrow> (world, rdf_triple list) js_step" where
  "bank_triples 0 d = throw stack_overflow"
| "bank_triples (Suc n) d =
     bind_step (the_bank d) (\<lambda>x. case x of
         Bank b \<Rightarrow> ret (b_store b)
       | Union ds \<Rightarrow> bind_step (map_step (bank_triples n) ds) (\<lambda>tss. ret (js_unique (concat tss))))"

definition findMatches :: "nat \<Rightarrow> nat \<Rightarrow> rdf_pattern \<Rightarrow> (world, rdf_match list) js_step" where
  "findMatches stack d p =
     bind_step (the_bank d) (\<lambda>x. case x of
         Bank b \<Rightarrow> ret (bank_matches b p)
       | Union ds \<Rightarrow> bind_step (bank_triples stack d) (\<lambda>ts. ret (List.map_filter (match_of p) ts)))"

section \<open>Joins\<close>

definition compatible :: "bindings \<Rightarrow> bindings \<Rightarrow> bool" where
  "compatible old new \<longleftrightarrow> (\<forall>(k, b)\<in>set new. map_of old k = None \<or> map_of old k = Some b)"

definition extend_bindings :: "bindings \<Rightarrow> bindings \<Rightarrow> bindings" where
  "extend_bindings old new = foldl (\<lambda>acc (k, b). AList.update k b acc) old new"

definition join_matches :: "rdf_match \<Rightarrow> rdf_match \<Rightarrow> rdf_match" where
  "join_matches old new =
     \<lparr>m_bindings = extend_bindings (m_bindings old) (m_bindings new),
      m_triples = js_unique (m_triples old @ m_triples new)\<rparr>"

definition mergeMatches :: "rdf_match list \<Rightarrow> rdf_match list \<Rightarrow> bool \<Rightarrow> rdf_match list" where
  "mergeMatches old new optional =
     concat (map (\<lambda>m.
       (let fits = filter (\<lambda>n. compatible (m_bindings m) (m_bindings n)) new in
        if fits \<noteq> [] then map (join_matches m) fits
        else if optional then [m] else [])) old)"

section \<open>Registering and activating queries\<close>

definition var_key :: "pat_term \<Rightarrow> string" where
  "var_key t = (case t of Var v \<Rightarrow> [] | Fixed n \<Rightarrow> node_toString n)"

fun registerQuery :: "nat \<Rightarrow> nat \<Rightarrow> nat \<Rightarrow> (world, unit) js_step" where
  "registerQuery 0 d q = throw stack_overflow"
| "registerQuery (Suc n) d q =
     bind_step (the_query q) (\<lambda>x. case q_filter x of
         Some (By_pattern p) \<Rightarrow>
           bind_step (the_bank d) (\<lambda>y. case y of
               Bank b \<Rightarrow>
                 (let k = (var_key (p_subject p), var_key (p_property p), var_key (p_object p)) in
                  set_bank d (b\<lparr>b_queries := (b_queries b)(k := b_queries b k @ [q])\<rparr>))
             | Union ds \<Rightarrow> each_step (\<lambda>e. registerQuery n e q) ds)
       | _ \<Rightarrow> ret ())"

fun resetQuery :: "nat \<Rightarrow> nat \<Rightarrow> (world, unit) js_step" where
  "resetQuery 0 q = throw stack_overflow"
| "resetQuery (Suc n) q =
     then_step (set_query q (\<lambda>x. x\<lparr>q_length := 0, q_matches := []\<rparr>))
     (bind_step (the_query q) (\<lambda>x.
       then_step (each_step (resetQuery n) (q_children x)) (each_step (resetQuery n) (q_partOf x))))"

definition filter_matches :: "(nat \<Rightarrow> bindings \<Rightarrow> rdf_triple list \<Rightarrow> bool option) \<Rightarrow> rdf_match list \<Rightarrow>
    (world, rdf_match list) js_step" where
  "filter_matches f ms =
     (let rs = map (\<lambda>(i, m). (f i (m_bindings m) (m_triples m), m)) (List.enumerate 0 ms) in
      if None \<in> fst ` set rs then throw TypeError
      else ret (map snd (filter (\<lambda>(r, m). r = Some True) rs)))"

text \<open>The matches that a query gets when its parent has some, all of them if none are given.\<close>

definition left_matches :: "rdf_query \<Rightarrow> rdf_match list option \<Rightarrow> (world, rdf_match list) js_step" where
  "left_matches x matches =
     (case q_union x of
        Some qs \<Rightarrow> bind_step (map_step (\<lambda>q. bind_step (the_query q) (\<lambda>y. ret (q_matches y))) qs) (\<lambda>mss. ret (concat mss))
      | None \<Rightarrow>
          (case q_parent x of
             None \<Rightarrow> ret (q_alpha x)
           | Some p \<Rightarrow>
               bind_step (the_query p) (\<lambda>py.
                 if q_top py then ret (q_alpha x)
                 else
                   (let ms = (case matches of Some ms \<Rightarrow> ms | None \<Rightarrow> q_matches py) in
                    case q_filter x of
                      Some (By_function f) \<Rightarrow> filter_matches f ms
                    | Some (By_pattern pt) \<Rightarrow> ret (mergeMatches ms (q_alpha x) (p_optional pt))
                    | None \<Rightarrow> throw TypeError))))"

text \<open>
  \<open>leftActivate\<close>, and \<open>updateQuery\<close>: with matches to hand on, the children, then the unions,
  then the query's own lists. A frame of the stack is counted for each.
\<close>

datatype activation = Left_activate nat "rdf_match list option" | Update_query nat "rdf_match list"

fun activate :: "nat \<Rightarrow> activation \<Rightarrow> (world, unit) js_step" where
  "activate 0 a = throw stack_overflow"
| "activate (Suc n) (Left_activate q matches) =
     bind_step (the_query q) (\<lambda>x.
     bind_step (left_matches x matches) (\<lambda>ms. activate n (Update_query q ms)))"
| "activate (Suc n) (Update_query q ms) =
     (if ms = [] then ret ()
      else
        bind_step (the_query q) (\<lambda>x.
        then_step (each_step (\<lambda>c. activate n (Left_activate c (Some ms))) (q_children x))
        (then_step (each_step (\<lambda>u. activate n (Update_query u ms)) (q_partOf x))
        (set_query q (\<lambda>x. push_items (map m_bindings ms) (x\<lparr>q_matches := q_matches x @ ms\<rparr>))))))"

definition leftActivate :: "nat \<Rightarrow> nat \<Rightarrow> (world, unit) js_step" where
  "leftActivate stack q = activate stack (Left_activate q None)"

definition updateQuery :: "nat \<Rightarrow> nat \<Rightarrow> rdf_match list \<Rightarrow> (world, unit) js_step" where
  "updateQuery stack q ms = activate stack (Update_query q ms)"

definition rightActivate :: "nat \<Rightarrow> nat \<Rightarrow> rdf_pattern \<Rightarrow> rdf_match \<Rightarrow> (world, unit) js_step" where
  "rightActivate stack q p m =
     (if p_optional p then then_step (resetQuery stack q) (leftActivate stack q)
      else
        bind_step (the_query q) (\<lambda>x.
        bind_step
          (case q_parent x of
             None \<Rightarrow> if q_top x then ret [m] else throw TypeError
           | Some pa \<Rightarrow> bind_step (the_query pa) (\<lambda>py.
               ret (if q_top py then [m] else mergeMatches (q_matches py) [m] False)))
          (updateQuery stack q)))"

definition query_pattern :: "rdf_query \<Rightarrow> (world, rdf_pattern) js_step" where
  "query_pattern x = (case q_filter x of Some (By_pattern p) \<Rightarrow> ret p | _ \<Rightarrow> throw TypeError)"

definition addToQuery :: "nat \<Rightarrow> rdf_triple \<Rightarrow> nat \<Rightarrow> (world, unit) js_step" where
  "addToQuery stack t q =
     bind_step (the_query q) (\<lambda>x.
     bind_step (query_pattern x) (\<lambda>p.
       case match_of p t of
         None \<Rightarrow> ret ()
       | Some m \<Rightarrow>
           then_step (set_query q (\<lambda>x. x\<lparr>q_alpha := q_alpha x @ [m]\<rparr>)) (rightActivate stack q p m)))"

text \<open>
  The alpha memory holds matches, not triples: \<open>$.inArray\<close> does not find the triple in it, and
  \<open>splice\<close> takes the last match away.
\<close>

definition removeFromQuery :: "nat \<Rightarrow> nat \<Rightarrow> (world, unit) js_step" where
  "removeFromQuery stack q =
     then_step (set_query q (\<lambda>x. x\<lparr>q_alpha := butlast (q_alpha x)\<rparr>))
     (then_step (resetQuery stack q) (leftActivate stack q))"

text \<open>The keys under which the queries are registered that may match a triple, in the order of the code.\<close>

definition query_keys :: "rdf_triple \<Rightarrow> (string \<times> string \<times> string) list" where
  "query_keys t =
     (let s = node_toString (t_subject t); p = node_toString (t_property t); ob = node_toString (t_object t) in
      [(s, p, ob), (s, p, []), (s, [], ob), (s, [], []), ([], p, ob), ([], p, []), ([], [], ob), ([], [], [])])"

definition queries_at :: "nat \<Rightarrow> string \<times> string \<times> string \<Rightarrow> (world, nat list) js_step" where
  "queries_at d k = bind_step (the_bank d) (\<lambda>x. case x of Bank b \<Rightarrow> ret (b_queries b k) | Union ds \<Rightarrow> throw TypeError)"

fun databank_queries :: "(nat \<Rightarrow> (world, unit) js_step) \<Rightarrow> nat \<Rightarrow> nat \<Rightarrow> rdf_triple \<Rightarrow> (world, unit) js_step" where
  "databank_queries act 0 d t = throw stack_overflow"
| "databank_queries act (Suc n) d t =
     bind_step (the_bank d) (\<lambda>x. case x of
         Bank b \<Rightarrow> each_step (\<lambda>k. bind_step (queries_at d k) (each_step act)) (query_keys t)
       | Union ds \<Rightarrow> each_step (\<lambda>e. databank_queries act n e t) ds)"

definition addToDatabankQueries :: "nat \<Rightarrow> nat \<Rightarrow> rdf_triple \<Rightarrow> (world, unit) js_step" where
  "addToDatabankQueries stack d t = databank_queries (addToQuery stack t) stack d t"

definition removeFromDatabankQueries :: "nat \<Rightarrow> nat \<Rightarrow> rdf_triple \<Rightarrow> (world, unit) js_step" where
  "removeFromDatabankQueries stack d t = databank_queries (removeFromQuery stack) stack d t"

end
