(* ===== verification/RdfDatabank.thy ===== *)
theory RdfDatabank
  imports RdfNetwork
begin

text \<open>
  \<open>jquery.rdfquery.core-1.0.js\<close>, lines 2829 to 3184 and 1554 to 1601: databanks, their
  operations and RDF/JSON. The script elements that a load with a URL puts into the page are
  recorded; what the proxy answers is not part of the code, nor are the callbacks of a load.
\<close>

section \<open>Creation, base and prefixes\<close>

definition new_bank :: "uri_base \<Rightarrow> (string \<times> string) list \<Rightarrow> rdf_bank" where
  "new_bank base ns = \<lparr>b_queries = (\<lambda>_. []), b_store = [], b_subject = [], b_property = [], b_object = [],
     b_base = base, b_namespaces = ns\<rparr>"

definition alloc_bank :: "databank \<Rightarrow> (world, nat) js_step" where
  "alloc_bank b w =
     (let i = Suc (w_bank_seed w) in
      (Inr i, w\<lparr>w_bank_seed := i, w_banks := (w_banks w)(i \<mapsto> b)\<rparr>))"

fun bank_base :: "nat \<Rightarrow> nat \<Rightarrow> (world, uri_base) js_step" where
  "bank_base 0 d = throw stack_overflow"
| "bank_base (Suc n) d =
     bind_step (the_bank d) (\<lambda>x. case x of
         Bank b \<Rightarrow> ret (b_base b)
       | Union ds \<Rightarrow> (case ds of [] \<Rightarrow> throw TypeError | e # _ \<Rightarrow> bank_base n e))"

fun set_base :: "nat \<Rightarrow> uri_base \<Rightarrow> nat \<Rightarrow> (world, unit) js_step" where
  "set_base 0 base d = throw stack_overflow"
| "set_base (Suc n) base d =
     bind_step (the_bank d) (\<lambda>x. case x of
         Bank b \<Rightarrow> set_bank d (b\<lparr>b_base := base\<rparr>)
       | Union ds \<Rightarrow> each_step (set_base n base) ds)"

definition extend_ns :: "(string \<times> string) list \<Rightarrow> (string \<times> string) list \<Rightarrow> (string \<times> string) list" where
  "extend_ns a b = foldl (\<lambda>acc (k, v). AList.update k v acc) a b"

fun bank_prefixes :: "nat \<Rightarrow> nat \<Rightarrow> (world, (string \<times> string) list) js_step" where
  "bank_prefixes 0 d = throw stack_overflow"
| "bank_prefixes (Suc n) d =
     bind_step (the_bank d) (\<lambda>x. case x of
         Bank b \<Rightarrow> ret (b_namespaces b)
       | Union ds \<Rightarrow> bind_step (map_step (bank_prefixes n) ds) (\<lambda>nss. ret (foldl extend_ns [] nss)))"

definition bank_prefix :: "nat \<Rightarrow> nat \<Rightarrow> string \<Rightarrow> (world, string option) js_step" where
  "bank_prefix stack d p = bind_step (bank_prefixes stack d) (\<lambda>ns. ret (map_of ns p))"

fun set_prefix :: "nat \<Rightarrow> string \<Rightarrow> string \<Rightarrow> nat \<Rightarrow> (world, unit) js_step" where
  "set_prefix 0 p u d = throw stack_overflow"
| "set_prefix (Suc n) p u d =
     bind_step (the_bank d) (\<lambda>x. case x of
         Bank b \<Rightarrow> set_bank d (b\<lparr>b_namespaces := AList.update p u (b_namespaces b)\<rparr>)
       | Union ds \<Rightarrow> each_step (set_prefix n p u) ds)"

section \<open>Adding\<close>

record add_opts =
  a_base :: "uri_base option"
  a_namespaces :: "(string \<times> string) list option"
  a_depth :: int
  a_proxy :: "string option"

definition default_add :: add_opts where
  "default_add = \<lparr>a_base = None, a_namespaces = None, a_depth = 0, a_proxy = None\<rparr>"

definition default_proxy :: string where
  "default_proxy = ''http://www.jenitennison.com/rdfquery/proxy.php''"

text \<open>\<open>queue\<close>: whether a load of the document is under way already, and otherwise its entry.\<close>

definition queue_document :: "nat \<Rightarrow> string \<Rightarrow> (world, bool) js_step" where
  "queue_document d url w =
     (if (d, url) \<in> set (w_waiting w) then (Inr True, w)
      else (Inr False, w\<lparr>w_waiting := (d, url) # w_waiting w\<rparr>))"

definition dequeue_document :: "nat \<Rightarrow> string \<Rightarrow> (world, unit) js_step" where
  "dequeue_document d url w =
     (if (d, url) \<in> set (w_waiting w)
      then (Inr (), w\<lparr>w_waiting := filter (\<lambda>x. x \<noteq> (d, url)) (w_waiting w)\<rparr>)
      else (Inl TypeError, w))"

text \<open>
  \<open>load\<close> of a URI or of a text, which \<open>$.uri\<close> reads against the document's address. The queue is
  asked with the text as it is, before it is read.
\<close>

definition load_document :: "uri \<Rightarrow> nat \<Rightarrow> int \<Rightarrow> string option \<Rightarrow> string \<Rightarrow> (world, uri) js_step \<Rightarrow> (world, unit) js_step" where
  "load_document doc d depth proxy key get_uri =
     bind_step (queue_document d key) (\<lambda>queued.
       if queued then ret ()
       else
         bind_step get_uri (\<lambda>u.
         bind_step (on_rdf (on_uri (uri_resolve doc u []))) (\<lambda>v.
         modify (\<lambda>w. w\<lparr>w_scripts := w_scripts w @ [\<lparr>s_proxy = (case proxy of Some p \<Rightarrow> p | None \<Rightarrow> default_proxy),
           s_id = d, s_depth = depth, s_url = uri_toString v\<rparr>]\<rparr>))))"

definition load_url :: "uri \<Rightarrow> nat \<Rightarrow> int \<Rightarrow> string option \<Rightarrow> uri \<Rightarrow> (world, unit) js_step" where
  "load_url doc d depth proxy u = load_document doc d depth proxy (uri_toString u) (ret u)"

definition load_string :: "uri \<Rightarrow> nat \<Rightarrow> int \<Rightarrow> string option \<Rightarrow> string \<Rightarrow> (world, unit) js_step" where
  "load_string doc d depth proxy s = load_document doc d depth proxy s (on_rdf (on_uri (the_uri doc s No_base)))"

text \<open>
  What \<open>add\<close> loads of a node's value: a URI (those that \<open>$.uri\<close> has made have a scheme); the text of a
  blank node or literal, which is taken for the address of a document; a number or boolean is taken
  for RDF/JSON without a subject.
\<close>

definition load_node :: "uri \<Rightarrow> nat \<Rightarrow> add_opts \<Rightarrow> rdf_node \<Rightarrow> (world, unit) js_step" where
  "load_node doc d opts n =
     (case n of
        Resource u \<Rightarrow> load_url doc d (a_depth opts - 1) (a_proxy opts) u
      | Blank i \<Rightarrow> load_string doc d (a_depth opts - 1) (a_proxy opts) (''_:'' @ i)
      | Literal v l dt \<Rightarrow> (case v of
            TV_string s \<Rightarrow> load_string doc d (a_depth opts - 1) (a_proxy opts) s
          | TV_uri u \<Rightarrow> load_url doc d (a_depth opts - 1) (a_proxy opts) u
          | _ \<Rightarrow> ret ()))"

text \<open>An index gets an empty entry for a key it does not have, and then perhaps the document is loaded.\<close>

definition ensure_entry :: "(rdf_bank \<Rightarrow> triple_index) \<Rightarrow> ((triple_index \<Rightarrow> triple_index) \<Rightarrow> rdf_bank \<Rightarrow> rdf_bank) \<Rightarrow>
    (world, unit) js_step \<Rightarrow> nat \<Rightarrow> string \<Rightarrow> (world, unit) js_step" where
  "ensure_entry field update_field load d k =
     bind_step (the_bank d) (\<lambda>x. case x of
         Bank b \<Rightarrow>
           if map_of (field b) k = None
           then then_step (set_bank d (update_field (\<lambda>ix. ix @ [(k, [])]) b)) load
           else ret ()
       | Union ds \<Rightarrow> throw TypeError)"

definition push_entry :: "string \<Rightarrow> rdf_triple \<Rightarrow> triple_index \<Rightarrow> triple_index" where
  "push_entry k t ix = AList.update k (index_entry ix k @ [t]) ix"

definition in_bank :: "nat \<Rightarrow> (rdf_bank \<Rightarrow> rdf_bank) \<Rightarrow> (world, unit) js_step" where
  "in_bank d f = bind_step (the_bank d) (\<lambda>x. case x of Bank b \<Rightarrow> set_bank d (f b) | Union ds \<Rightarrow> throw TypeError)"

definition indexed_object :: "rdf_triple \<Rightarrow> bool" where
  "indexed_object t \<longleftrightarrow> node_type (t_object t) \<in> {NT_uri, NT_bnode}"

definition add_to_bank :: "uri \<Rightarrow> nat \<Rightarrow> nat \<Rightarrow> add_opts \<Rightarrow> rdf_triple \<Rightarrow> (world, unit) js_step" where
  "add_to_bank doc stack d opts t =
     (let sk = node_toString (t_subject t); pk = node_toString (t_property t); ok = node_toString (t_object t);
          deep = a_depth opts > 0 in
      then_step (ensure_entry b_subject b_subject_update
        (if deep \<and> node_type (t_subject t) = NT_uri then load_node doc d opts (t_subject t) else ret ()) d sk)
      (then_step (ensure_entry b_property b_property_update
        (if deep then load_node doc d opts (t_property t) else ret ()) d pk)
      (bind_step (the_bank d) (\<lambda>x. case x of
          Union ds \<Rightarrow> throw TypeError
        | Bank b \<Rightarrow>
            if t \<in> set (index_entry (b_subject b) sk) then ret ()
            else
              then_step (in_bank d (\<lambda>b. b\<lparr>b_store := b_store b @ [t], b_subject := push_entry sk t (b_subject b),
                b_property := push_entry pk t (b_property b)\<rparr>))
              (then_step
                (if indexed_object t then
                   then_step (ensure_entry b_object b_object_update
                     (if deep \<and> node_type (t_object t) = NT_uri then load_node doc d opts (t_object t) else ret ()) d ok)
                   (in_bank d (\<lambda>b. b\<lparr>b_object := push_entry ok t (b_object b)\<rparr>))
                 else ret ())
                (addToDatabankQueries stack d t))))))"

datatype add_arg = Add_text string | Add_triple rdf_triple | Add_databank nat

text \<open>The options under which a text is read: the databank's base and bindings, then those given.\<close>

definition reading_opts :: "nat \<Rightarrow> nat \<Rightarrow> add_opts \<Rightarrow> string \<Rightarrow> (world, rdf_opts) js_step" where
  "reading_opts stack d opts text =
     bind_step (case a_base opts of Some b \<Rightarrow> ret b | None \<Rightarrow> bank_base stack d) (\<lambda>base.
     bind_step (bank_prefixes stack d) (\<lambda>ns.
       ret (no_opts\<lparr>o_base := base, o_namespaces := extend_ns ns (case a_namespaces opts of Some m \<Rightarrow> m | None \<Rightarrow> []),
         o_source := Some text\<rparr>)))"

definition read_triple :: "uri \<Rightarrow> nat \<Rightarrow> nat \<Rightarrow> add_opts \<Rightarrow> string \<Rightarrow> (world, rdf_triple) js_step" where
  "read_triple doc stack d opts text =
     bind_step (reading_opts stack d opts text) (\<lambda>ro. on_rdf (triple_of_text doc ro text))"

text \<open>A triple put into a databank, or into all those of a union, there without the options.\<close>

fun add_triple :: "uri \<Rightarrow> nat \<Rightarrow> nat \<Rightarrow> add_opts \<Rightarrow> nat \<Rightarrow> rdf_triple \<Rightarrow> (world, unit) js_step" where
  "add_triple doc stack 0 opts d t = throw stack_overflow"
| "add_triple doc stack (Suc n) opts d t =
     bind_step (the_bank d) (\<lambda>x. case x of
         Bank b \<Rightarrow> add_to_bank doc stack d opts t
       | Union ds \<Rightarrow> each_step (\<lambda>e. add_triple doc stack n default_add e t) ds)"

text \<open>
  A union as argument has no index, and is taken for a triple: the code throws, after it has
  put the union into the store and the indices, which is not modelled.
\<close>

definition databank_add :: "uri \<Rightarrow> nat \<Rightarrow> nat \<Rightarrow> add_arg \<Rightarrow> add_opts \<Rightarrow> (world, nat) js_step" where
  "databank_add doc stack d arg opts =
     (case arg of
        Add_databank e \<Rightarrow>
          if e = d then ret d
          else
            bind_step (the_bank e) (\<lambda>y. case y of
                Union _ \<Rightarrow> throw TypeError
              | Bank _ \<Rightarrow>
                  bind_step (the_bank d) (\<lambda>x. case x of
                      Bank _ \<Rightarrow> alloc_bank (Union [d, e])
                    | Union ds \<Rightarrow> then_step (modify (\<lambda>w. w\<lparr>w_banks := (w_banks w)(d \<mapsto> Union (ds @ [e]))\<rparr>)) (ret d)))
      | Add_triple t \<Rightarrow> then_step (add_triple doc stack stack opts d t) (ret d)
      | Add_text s \<Rightarrow>
          bind_step (read_triple doc stack d opts s) (\<lambda>t.
          then_step (add_triple doc stack stack opts d t) (ret d)))"

definition make_databank :: "uri \<Rightarrow> nat \<Rightarrow> add_arg list \<Rightarrow> uri_base \<Rightarrow> (string \<times> string) list \<Rightarrow> (world, nat) js_step" where
  "make_databank doc stack ts base ns =
     bind_step (alloc_bank (Bank (new_bank base ns))) (\<lambda>d.
     then_step (each_step (\<lambda>t. then_step (databank_add doc stack d t default_add) (ret ())) ts) (ret d))"

section \<open>Removing\<close>

definition splice_entry :: "string \<Rightarrow> rdf_triple \<Rightarrow> triple_index \<Rightarrow> triple_index" where
  "splice_entry k t ix = (case map_of ix k of Some ts \<Rightarrow> AList.update k (splice_at t ts) ix | None \<Rightarrow> ix)"

definition unlink_triple :: "rdf_triple \<Rightarrow> rdf_bank \<Rightarrow> rdf_bank" where
  "unlink_triple t b =
     (let b1 = b\<lparr>b_store := splice_at t (b_store b),
            b_subject := splice_entry (node_toString (t_subject t)) t (b_subject b),
            b_property := splice_entry (node_toString (t_property t)) t (b_property b)\<rparr> in
      if indexed_object t then b1\<lparr>b_object := splice_entry (node_toString (t_object t)) t (b_object b)\<rparr> else b1)"

datatype triple_arg = From_text string | From_triple rdf_triple

definition databank_remove :: "uri \<Rightarrow> nat \<Rightarrow> nat \<Rightarrow> triple_arg \<Rightarrow> add_opts \<Rightarrow> (world, unit) js_step" where
  "databank_remove doc stack d arg opts =
     bind_step (case arg of
         From_text s \<Rightarrow> read_triple doc stack d opts s
       | From_triple t \<Rightarrow> ret t) (\<lambda>t.
     then_step (in_bank d (unlink_triple t)) (removeFromDatabankQueries stack d t))"

section \<open>Difference, description, size\<close>

definition except_triples :: "triple_index \<Rightarrow> triple_index \<Rightarrow> rdf_triple list" where
  "except_triples mine other =
     concat (map (\<lambda>(s, ts). case map_of other s of
         None \<Rightarrow> ts
       | Some ots \<Rightarrow> filter (\<lambda>t. t \<notin> set ots) ts) mine)"

definition databank_except :: "uri \<Rightarrow> nat \<Rightarrow> nat \<Rightarrow> nat \<Rightarrow> (world, nat) js_step" where
  "databank_except doc stack d e =
     bind_step (the_bank e) (\<lambda>y. bind_step (the_bank d) (\<lambda>x. case (x, y) of
         (Bank b, Bank c) \<Rightarrow> make_databank doc stack (map Add_triple (except_triples (b_subject b) (b_subject c))) No_base []
       | (Bank b, Union _) \<Rightarrow> if b_subject b = [] then make_databank doc stack [] No_base [] else throw TypeError
       | _ \<Rightarrow> throw TypeError))"

definition databank_size :: "nat \<Rightarrow> nat \<Rightarrow> (world, nat) js_step" where
  "databank_size stack d = bind_step (bank_triples stack d) (\<lambda>ts. ret (length ts))"

definition databank_toString :: "nat \<Rightarrow> nat \<Rightarrow> (world, string) js_step" where
  "databank_toString stack d =
     bind_step (databank_size stack d) (\<lambda>n. ret (''[Databank with '' @ nat_str n @ '' triples]''))"

text \<open>
  \<open>describe\<close>: the resources are a stack, here with its top first; the table of those done is
  asked with the text of an element, and the fuel bounds the turns of the loop.
\<close>

definition describe_links :: "rdf_bank \<Rightarrow> string \<Rightarrow> rdf_triple list \<times> rdf_node list" where
  "describe_links b k =
     (let out = index_entry (b_subject b) k; inc = index_entry (b_object b) k in
      (out @ inc,
       rev (map t_object (filter (\<lambda>t. node_type (t_object t) = NT_bnode) out) @
            map t_subject (filter (\<lambda>t. node_type (t_subject t) = NT_bnode) inc))))"

fun describe_loop :: "uri \<Rightarrow> rdf_bank \<Rightarrow> nat \<Rightarrow> string list \<Rightarrow> rdf_triple list \<Rightarrow> node_arg list \<Rightarrow>
    (rdf_env, rdf_triple list option) js_step" where
  "describe_loop doc b n seen acc [] = ret (Some acc)"
| "describe_loop doc b 0 seen acc (r # rs) = ret None"
| "describe_loop doc b (Suc n) seen acc (r # rs) =
     (if arg_text r \<in> set seen then describe_loop doc b n seen acc rs
      else
        bind_step (case r of Node x \<Rightarrow> ret x | Text s \<Rightarrow> rdf_resource doc no_opts (As_text s)) (\<lambda>x.
          let (ts, more_nodes) = describe_links b (node_toString x) in
          describe_loop doc b n (node_toString x # seen) (acc @ ts) (map Node more_nodes @ rs)))"

definition databank_describe :: "uri \<Rightarrow> nat \<Rightarrow> nat \<Rightarrow> node_arg list \<Rightarrow> (world, rdf_triple list option) js_step" where
  "databank_describe doc fuel d resources =
     bind_step (the_bank d) (\<lambda>x. case x of
         Union ds \<Rightarrow>
           if resources = [] then ret (Some [])
           else
             bind_step (case last resources of Node x \<Rightarrow> ret x
                 | Text s \<Rightarrow> on_rdf (rdf_resource doc no_opts (As_text s)))
               (\<lambda>_. throw TypeError)
       | Bank b \<Rightarrow> bind_step (on_rdf (describe_loop doc b fuel [] [] (rev resources))) (\<lambda>r. ret (map_option js_unique r)))"

section \<open>RDF/JSON\<close>

type_synonym json_graph = "(string \<times> (string \<times> rdf_json list) list) list"

definition json_push :: "json_graph \<Rightarrow> rdf_triple \<Rightarrow> json_graph" where
  "json_push e t =
     (let s = node_value (t_subject t); p = node_value (t_property t);
          ps = (case map_of e s of Some ps \<Rightarrow> ps | None \<Rightarrow> []);
          os = (case map_of ps p of Some os \<Rightarrow> os | None \<Rightarrow> [])
      in AList.update s (AList.update p (os @ [node_dump (t_object t)]) ps) e)"

definition createJson :: "rdf_triple list \<Rightarrow> json_graph" where
  "createJson ts = foldl json_push [] ts"

definition json_resource :: "uri \<Rightarrow> string \<Rightarrow> (rdf_env, rdf_node) js_step" where
  "json_resource doc s = rdf_resource doc no_opts (As_text (''<'' @ s @ ''>''))"

definition json_object :: "uri \<Rightarrow> rdf_json \<Rightarrow> (rdf_env, rdf_node) js_step" where
  "json_object doc j =
     (case j_type j of
        NT_uri \<Rightarrow> json_resource doc (j_value j)
      | NT_bnode \<Rightarrow> rdf_blank (j_value j)
      | NT_literal \<Rightarrow>
          (case j_datatype j of
             Some dt \<Rightarrow> rdf_literal doc (no_opts\<lparr>o_datatype := Some dt\<rparr>) (Lit_text (j_value j))
           | None \<Rightarrow> rdf_literal doc (no_opts\<lparr>o_lang := j_lang j\<rparr>) (Lit_text ([CHR 0x22] @ j_value j @ [CHR 0x22]))))"

definition json_triples :: "uri \<Rightarrow> string \<times> (string \<times> rdf_json list) list \<Rightarrow> (rdf_env, rdf_triple list) js_step" where
  "json_triples doc = (\<lambda>(s, ps).
     bind_step (if prefix ''_:'' s then rdf_blank s else json_resource doc s) (\<lambda>sn.
     bind_step (map_step (\<lambda>(p, os).
         bind_step (json_resource doc p) (\<lambda>pn.
         map_step (\<lambda>j. bind_step (json_object doc j) (\<lambda>on. make_triple doc no_opts (Node sn) (Node pn) (Node on))) os)) ps)
       (\<lambda>tss. ret (concat tss))))"

definition parseJson :: "uri \<Rightarrow> json_graph \<Rightarrow> (rdf_env, rdf_triple list) js_step" where
  "parseJson doc data = bind_step (map_step (json_triples doc) data) (\<lambda>tss. ret (concat tss))"

text \<open>\<open>load\<close> of an RDF/JSON object, and of a URL.\<close>

definition load_json :: "uri \<Rightarrow> nat \<Rightarrow> nat \<Rightarrow> json_graph \<Rightarrow> add_opts \<Rightarrow> (world, unit) js_step" where
  "load_json doc stack d data opts =
     bind_step (on_rdf (parseJson doc data)) (each_step (\<lambda>t. add_triple doc stack stack opts d t))"

text \<open>The call that the proxy's answer makes, without the callbacks: the document is read, or missing.\<close>

definition databank_loaded :: "uri \<Rightarrow> nat \<Rightarrow> nat \<Rightarrow> string \<Rightarrow> json_graph option \<Rightarrow> add_opts \<Rightarrow> (world, unit) js_step" where
  "databank_loaded doc stack d url data opts =
     then_step (case data of Some j \<Rightarrow> load_json doc stack d j opts | None \<Rightarrow> ret ()) (dequeue_document d url)"

definition dump_json :: "nat \<Rightarrow> nat \<Rightarrow> (world, json_graph) js_step" where
  "dump_json stack d = bind_step (bank_triples stack d) (\<lambda>ts. ret (createJson ts))"

end
