(* ===== verification/RdfQueries.thy ===== *)
theory RdfQueries
  imports RdfDatabank
begin

text \<open>
  \<open>jquery.rdfquery.core-1.0.js\<close>, lines 2076 to 2704, 2001 to 2033 and 3394 to 3526: the query
  objects that a page works with, \<open>$.rdf(...)\<close>, their operations, and the graph nodes and
  lists over them. Callbacks are functions of what they are given; a callback of \<open>each\<close> is a
  step.
\<close>

section \<open>Creation\<close>

record query_opts =
  qo_parent :: "nat option"
  qo_union :: "nat list option"
  qo_databank :: "nat option"
  qo_filter :: "rdf_filter option"
  qo_triples :: "add_arg list"
  qo_base :: uri_base
  qo_namespaces :: "(string \<times> string) list"

definition no_query_opts :: query_opts where
  "no_query_opts = \<lparr>qo_parent = None, qo_union = None, qo_databank = None, qo_filter = None, qo_triples = [],
     qo_base = No_base, qo_namespaces = []\<rparr>"

definition query_databank :: "nat \<Rightarrow> (world, nat) js_step" where
  "query_databank q = bind_step (the_query q) (\<lambda>x. ret (q_databank x))"

definition init_databank :: "uri \<Rightarrow> nat \<Rightarrow> query_opts \<Rightarrow> (world, nat) js_step" where
  "init_databank doc stack qo =
     (case qo_union qo of
        None \<Rightarrow>
          (case qo_databank qo of
             Some d \<Rightarrow> ret d
           | None \<Rightarrow>
               (case qo_parent qo of
                  None \<Rightarrow> make_databank doc stack (qo_triples qo) (qo_base qo) (qo_namespaces qo)
                | Some p \<Rightarrow> query_databank p))
      | Some qs \<Rightarrow>
          bind_step (map_step query_databank qs) (\<lambda>ds.
            case js_unique ds of
              [] \<Rightarrow> throw TypeError
            | [d] \<Rightarrow> ret d
            | us \<Rightarrow> alloc_bank (Union us)))"

definition alloc_query :: "rdf_query \<Rightarrow> (world, nat) js_step" where
  "alloc_query x w =
     (Inr (w_next_query w), w\<lparr>w_next_query := Suc (w_next_query w), w_queries := (w_queries w)(w_next_query w \<mapsto> x)\<rparr>)"

definition rdf_init :: "uri \<Rightarrow> nat \<Rightarrow> query_opts \<Rightarrow> (world, nat) js_step" where
  "rdf_init doc stack qo =
     bind_step (init_databank doc stack qo) (\<lambda>d.
     bind_step (alloc_query \<lparr>q_parent = qo_parent qo, q_union = qo_union qo, q_databank = d, q_children = [],
       q_partOf = [], q_filter = qo_filter qo, q_alpha = [], q_matches = [], q_length = 0, q_items = []\<rparr>) (\<lambda>q.
     then_step (case qo_filter qo of
         Some (By_pattern p) \<Rightarrow>
           then_step (registerQuery stack d q)
             (bind_step (findMatches stack d p) (\<lambda>ms. set_query q (\<lambda>x. x\<lparr>q_alpha := ms\<rparr>)))
       | _ \<Rightarrow> ret ())
     (then_step (leftActivate stack q) (ret q))))"

section \<open>Narrowing\<close>

datatype pattern_arg = Pattern_text string | Pattern rdf_pattern | Pattern_triple rdf_triple

definition add_child :: "nat \<Rightarrow> nat \<Rightarrow> (world, unit) js_step" where
  "add_child q c = set_query q (\<lambda>x. x\<lparr>q_children := q_children x @ [c]\<rparr>)"

definition read_pattern :: "uri \<Rightarrow> nat \<Rightarrow> nat \<Rightarrow> add_opts \<Rightarrow> bool option \<Rightarrow> string \<Rightarrow> (world, rdf_pattern) js_step" where
  "read_pattern doc stack q opts optional text =
     bind_step (query_databank q) (\<lambda>d.
     bind_step (reading_opts stack d opts text) (\<lambda>ro.
       on_rdf (pattern_of_text doc (ro\<lparr>o_optional := optional\<rparr>) text)))"

definition pattern_of_triple :: "rdf_triple \<Rightarrow> rdf_pattern" where
  "pattern_of_triple t = \<lparr>p_subject = Fixed (t_subject t), p_property = Fixed (t_property t),
     p_object = Fixed (t_object t), p_optional = False\<rparr>"

definition rdf_where :: "uri \<Rightarrow> nat \<Rightarrow> nat \<Rightarrow> string + rdf_pattern \<Rightarrow> add_opts \<Rightarrow> bool \<Rightarrow> (world, nat) js_step" where
  "rdf_where doc stack q f opts optional =
     bind_step (case f of Inl text \<Rightarrow> read_pattern doc stack q opts (Some optional) text | Inr p \<Rightarrow> ret p) (\<lambda>p.
     bind_step (rdf_init doc stack (no_query_opts\<lparr>qo_parent := Some q, qo_filter := Some (By_pattern p)\<rparr>)) (\<lambda>c.
     then_step (add_child q c) (ret c)))"

definition rdf_optional :: "uri \<Rightarrow> nat \<Rightarrow> nat \<Rightarrow> string + rdf_pattern \<Rightarrow> add_opts \<Rightarrow> (world, nat) js_step" where
  "rdf_optional doc stack q f opts = rdf_where doc stack q f opts True"

definition rdf_about :: "uri \<Rightarrow> nat \<Rightarrow> nat \<Rightarrow> string \<Rightarrow> add_opts \<Rightarrow> (world, nat) js_step" where
  "rdf_about doc stack q r opts = rdf_where doc stack q (Inl (r @ '' ?property ?value'')) opts False"

text \<open>The conditions of \<open>filter\<close> with a variable: a regular expression, as its test, or a value.\<close>

datatype filter_value = Same_text string | Same_node rdf_node | Test "string \<Rightarrow> bool"

text \<open>The value of a literal is compared as a string; a variable without value throws.\<close>

definition filter_condition :: "string \<Rightarrow> filter_value \<Rightarrow> nat \<Rightarrow> bindings \<Rightarrow> rdf_triple list \<Rightarrow> bool option" where
  "filter_condition v cond i b ts =
     (case map_of b v of
        None \<Rightarrow> None
      | Some n \<Rightarrow> Some
          (case cond of
             Test f \<Rightarrow> f (node_value n)
           | Same_text s \<Rightarrow> (case n of Literal (TV_string x) l d \<Rightarrow> x = s | _ \<Rightarrow> False)
           | Same_node m \<Rightarrow> node_type n \<noteq> NT_literal \<and> n = m))"

definition rdf_filter_fun :: "uri \<Rightarrow> nat \<Rightarrow> nat \<Rightarrow> (nat \<Rightarrow> bindings \<Rightarrow> rdf_triple list \<Rightarrow> bool option) \<Rightarrow> (world, nat) js_step" where
  "rdf_filter_fun doc stack q f =
     bind_step (rdf_init doc stack (no_query_opts\<lparr>qo_parent := Some q, qo_filter := Some (By_function f)\<rparr>)) (\<lambda>c.
     then_step (add_child q c) (ret c))"

definition rdf_eq :: "uri \<Rightarrow> nat \<Rightarrow> nat \<Rightarrow> nat \<Rightarrow> (world, nat) js_step" where
  "rdf_eq doc stack q n = rdf_filter_fun doc stack q (\<lambda>i b ts. Some (i = n))"

text \<open>\<open>reset\<close> and \<open>end\<close>; the chain of parents has the stack's bound too.\<close>

fun rdf_reset :: "nat \<Rightarrow> nat \<Rightarrow> (world, nat) js_step" where
  "rdf_reset 0 q = throw stack_overflow"
| "rdf_reset (Suc n) q = bind_step (the_query q) (\<lambda>x. case q_parent x of Some p \<Rightarrow> rdf_reset n p | None \<Rightarrow> ret q)"

definition rdf_end :: "nat \<Rightarrow> (world, nat option) js_step" where
  "rdf_end q = bind_step (the_query q) (\<lambda>x. ret (q_parent x))"

section \<open>Reading the matches\<close>

definition rdf_size :: "nat \<Rightarrow> (world, nat) js_step" where
  "rdf_size q = bind_step (the_query q) (\<lambda>x. ret (q_length x))"

definition rdf_get :: "nat \<Rightarrow> nat \<Rightarrow> (world, bindings option) js_step" where
  "rdf_get q i = bind_step (the_query q) (\<lambda>x. ret (if i < length (q_items x) then Some (q_items x ! i) else None))"

definition rdf_sources :: "nat \<Rightarrow> (world, rdf_triple list list) js_step" where
  "rdf_sources q = bind_step (the_query q) (\<lambda>x. ret (map m_triples (q_matches x)))"

definition rdf_dump_json :: "nat \<Rightarrow> (world, json_graph) js_step" where
  "rdf_dump_json q = bind_step (the_query q) (\<lambda>x. ret (createJson (concat (map m_triples (q_matches x)))))"

definition rdf_each :: "nat \<Rightarrow> (nat \<Rightarrow> bindings \<Rightarrow> rdf_triple list \<Rightarrow> (world, unit) js_step) \<Rightarrow> (world, unit) js_step" where
  "rdf_each q f = bind_step (the_query q) (\<lambda>x.
     each_step (\<lambda>(i, m). f i (m_bindings m) (m_triples m)) (List.enumerate 0 (q_matches x)))"

definition rdf_map :: "nat \<Rightarrow> (nat \<Rightarrow> bindings \<Rightarrow> rdf_triple list \<Rightarrow> 'a option) \<Rightarrow> (world, 'a list) js_step" where
  "rdf_map q f = bind_step (the_query q) (\<lambda>x.
     ret (List.map_filter (\<lambda>(i, m). f i (m_bindings m) (m_triples m)) (List.enumerate 0 (q_matches x))))"

text \<open>\<open>select\<close>: a variable without value becomes a property with the value \<open>undefined\<close>.\<close>

definition rdf_select :: "nat \<Rightarrow> string list option \<Rightarrow> (world, (string \<times> rdf_node option) list list) js_step" where
  "rdf_select q vars = bind_step (the_query q) (\<lambda>x.
     ret (map (\<lambda>b. case vars of
         None \<Rightarrow> map (\<lambda>(k, n). (k, Some n)) b
       | Some vs \<Rightarrow> foldl (\<lambda>acc v. AList.update v (map_of b v) acc) [] vs) (q_bindings x)))"

text \<open>The arguments of \<open>describe\<close>: texts, those with a question mark for the values of a variable.\<close>

definition describe_args :: "bindings list \<Rightarrow> string \<Rightarrow> node_arg option list" where
  "describe_args items r =
     (if prefix ''?'' r then map (\<lambda>b. map_option Node (map_of b (tl r))) items else [Some (Text r)])"

definition rdf_describe :: "uri \<Rightarrow> nat \<Rightarrow> nat \<Rightarrow> string list \<Rightarrow> (world, rdf_triple list option) js_step" where
  "rdf_describe doc fuel q rs =
     bind_step (the_query q) (\<lambda>x.
       let args = concat (map (describe_args (q_bindings x)) rs) in
       if None \<in> set args then throw TypeError
       else databank_describe doc fuel (q_databank x) (List.map_filter id args))"

section \<open>Adding and removing\<close>

datatype rdf_add_arg = Add_pattern pattern_arg | Add_query nat

text \<open>Bindings that are given with \<open>add\<close> and \<open>remove\<close> take the place of the databank's, unlike those of \<open>where\<close>.\<close>

definition read_given_pattern :: "uri \<Rightarrow> nat \<Rightarrow> nat \<Rightarrow> add_opts \<Rightarrow> string \<Rightarrow> (world, rdf_pattern) js_step" where
  "read_given_pattern doc stack q opts text =
     bind_step (query_databank q) (\<lambda>d.
     bind_step (reading_opts stack d opts text) (\<lambda>ro.
       on_rdf (pattern_of_text doc
         (case a_namespaces opts of Some m \<Rightarrow> ro\<lparr>o_namespaces := m\<rparr> | None \<Rightarrow> ro) text)))"

definition arg_pattern :: "uri \<Rightarrow> nat \<Rightarrow> nat \<Rightarrow> add_opts \<Rightarrow> pattern_arg \<Rightarrow> (world, rdf_pattern) js_step" where
  "arg_pattern doc stack q opts a = (case a of
       Pattern_text s \<Rightarrow> read_given_pattern doc stack q opts s
     | Pattern p \<Rightarrow> ret p
     | Pattern_triple t \<Rightarrow> ret (pattern_of_triple t))"

text \<open>The triples an argument stands for: itself, or one for every match that binds all its variables.\<close>

definition arg_triples :: "uri \<Rightarrow> nat \<Rightarrow> (rdf_triple \<Rightarrow> (world, unit) js_step) \<Rightarrow> pattern_arg \<Rightarrow> rdf_pattern \<Rightarrow> (world, unit) js_step" where
  "arg_triples doc q act a p =
     (case a of
        Pattern_triple t \<Rightarrow> act t
      | _ \<Rightarrow>
          if pat_isFixed p then
            bind_step (on_rdf (pat_triple doc [] p)) (\<lambda>r. case r of Some t \<Rightarrow> act t | None \<Rightarrow> throw TypeError)
          else
            rdf_each q (\<lambda>i b ts.
              bind_step (on_rdf (pat_triple doc b p)) (\<lambda>r. case r of Some t \<Rightarrow> act t | None \<Rightarrow> ret ())))"

definition rdf_add_patterns :: "uri \<Rightarrow> nat \<Rightarrow> nat \<Rightarrow> pattern_arg \<Rightarrow> add_opts \<Rightarrow> (world, nat) js_step" where
  "rdf_add_patterns doc stack q a opts =
     bind_step (arg_pattern doc stack q opts a) (\<lambda>p.
     bind_step (query_databank q) (\<lambda>d.
     then_step (arg_triples doc q (\<lambda>t. add_triple doc stack stack opts d t) a p) (ret q)))"

definition rdf_add_query :: "uri \<Rightarrow> nat \<Rightarrow> nat \<Rightarrow> nat \<Rightarrow> (world, nat) js_step" where
  "rdf_add_query doc stack q r =
     bind_step (the_query q) (\<lambda>x. bind_step (the_query r) (\<lambda>y.
       if q_top y then
         bind_step (databank_add doc stack (q_databank x) (Add_databank (q_databank y)) default_add) (\<lambda>d.
         rdf_init doc stack (no_query_opts\<lparr>qo_parent := q_parent x, qo_databank := Some d\<rparr>))
       else if q_top x then
         bind_step (databank_add doc stack (q_databank y) (Add_databank (q_databank x)) default_add) (\<lambda>d.
         rdf_init doc stack (no_query_opts\<lparr>qo_parent := q_parent y, qo_databank := Some d\<rparr>))
       else if q_union x = None then
         bind_step (rdf_init doc stack (no_query_opts\<lparr>qo_union := Some [q, r]\<rparr>)) (\<lambda>u.
         then_step (set_query q (\<lambda>x. x\<lparr>q_partOf := q_partOf x @ [u]\<rparr>))
         (then_step (set_query r (\<lambda>x. x\<lparr>q_partOf := q_partOf x @ [u]\<rparr>)) (ret u)))
       else
         then_step (set_query q (\<lambda>x. x\<lparr>q_union := map_option (\<lambda>us. us @ [r]) (q_union x)\<rparr>))
         (then_step (set_query r (\<lambda>x. x\<lparr>q_partOf := q_partOf x @ [q]\<rparr>)) (ret q))))"

definition rdf_add :: "uri \<Rightarrow> nat \<Rightarrow> nat \<Rightarrow> rdf_add_arg \<Rightarrow> add_opts \<Rightarrow> (world, nat) js_step" where
  "rdf_add doc stack q arg opts =
     (case arg of
        Add_query r \<Rightarrow> rdf_add_query doc stack q r
      | Add_pattern a \<Rightarrow> rdf_add_patterns doc stack q a opts)"

definition rdf_remove :: "uri \<Rightarrow> nat \<Rightarrow> nat \<Rightarrow> pattern_arg \<Rightarrow> add_opts \<Rightarrow> (world, nat) js_step" where
  "rdf_remove doc stack q a opts =
     bind_step (arg_pattern doc stack q opts a) (\<lambda>p.
     bind_step (query_databank q) (\<lambda>d.
     then_step (arg_triples doc q (\<lambda>t. databank_remove doc stack d (From_triple t) opts) a p) (ret q)))"

definition rdf_except :: "uri \<Rightarrow> nat \<Rightarrow> nat \<Rightarrow> nat \<Rightarrow> (world, nat) js_step" where
  "rdf_except doc stack q r =
     bind_step (query_databank q) (\<lambda>d. bind_step (query_databank r) (\<lambda>e.
     bind_step (databank_except doc stack d e) (\<lambda>c.
     rdf_init doc stack (no_query_opts\<lparr>qo_databank := Some c\<rparr>))))"

section \<open>Base and prefixes\<close>

definition rdf_base :: "nat \<Rightarrow> nat \<Rightarrow> (world, uri_base) js_step" where
  "rdf_base stack q = bind_step (query_databank q) (bank_base stack)"

definition rdf_set_base :: "nat \<Rightarrow> nat \<Rightarrow> uri_base \<Rightarrow> (world, unit) js_step" where
  "rdf_set_base stack q b = bind_step (query_databank q) (set_base stack b)"

definition rdf_prefix :: "nat \<Rightarrow> nat \<Rightarrow> string \<Rightarrow> (world, string option) js_step" where
  "rdf_prefix stack q p = bind_step (query_databank q) (\<lambda>d. bank_prefix stack d p)"

definition rdf_set_prefix :: "nat \<Rightarrow> nat \<Rightarrow> string \<Rightarrow> string \<Rightarrow> (world, unit) js_step" where
  "rdf_set_prefix stack q p u = bind_step (query_databank q) (set_prefix stack p u)"

section \<open>Grouping\<close>

datatype group_value = One "rdf_node option" | Many "rdf_node option list"

type_synonym group_row = "(string \<times> group_value) list"

definition collect_binding :: "group_row \<Rightarrow> string \<times> rdf_node \<Rightarrow> group_row" where
  "collect_binding base = (\<lambda>(v, n).
     case map_of base v of
       None \<Rightarrow> AList.update v (Many [Some n]) base
     | Some (Many ns) \<Rightarrow> AList.update v (Many (ns @ [Some n])) base
     | Some (One None) \<Rightarrow> AList.update v (Many [Some n]) base
     | Some (One (Some _)) \<Rightarrow> base)"

definition group_key :: "string \<Rightarrow> bindings \<Rightarrow> string" where
  "group_key v b = (case map_of b v of Some n \<Rightarrow> node_toString n | None \<Rightarrow> js_undefined)"

definition put_group :: "string \<Rightarrow> (string \<times> bindings list) list \<Rightarrow> bindings \<Rightarrow> (string \<times> bindings list) list" where
  "put_group v gs b =
     (let k = group_key v b in AList.update k ((case map_of gs k of Some bs \<Rightarrow> bs | None \<Rightarrow> []) @ [b]) gs)"

text \<open>
  \<open>variables.splice(1, 1)\<close> is the array of the second variable alone: any further variable is lost.
\<close>

function group_rows :: "bindings list \<Rightarrow> string list \<Rightarrow> group_row \<Rightarrow> group_row list" where
  "group_rows bs [] base = [foldl (\<lambda>acc b. foldl collect_binding acc b) base bs]"
| "group_rows bs (v # vs) base =
     concat (map (\<lambda>(k, g). group_rows g (take 1 vs)
         (AList.update v (One (case g of b # _ \<Rightarrow> map_of b v | [] \<Rightarrow> None)) base))
       (foldl (put_group v) [] bs))"
  by pat_completeness auto
termination by (relation "measure (\<lambda>(bs, vs, base). length vs)") auto

definition rdf_group :: "nat \<Rightarrow> string list \<Rightarrow> (world, group_row list) js_step" where
  "rdf_group q vs = bind_step (the_query q) (\<lambda>x. ret (group_rows (q_bindings x) vs []))"

section \<open>Graph nodes and lists\<close>

text \<open>
  A graph node is a resource with the query it is looked up in. \<open>get\<close> makes a new query, a
  child of the old one that stays registered, and gives the nodes found, or \<open>null\<close>.
\<close>

definition found_nodes :: "string \<Rightarrow> bindings list \<Rightarrow> rdf_node list" where
  "found_nodes v bs = List.map_filter (\<lambda>b. map_of b v) bs"

definition node_get :: "uri \<Rightarrow> nat \<Rightarrow> nat \<Rightarrow> rdf_node \<Rightarrow> rdf_node \<Rightarrow> (world, rdf_node list option) js_step" where
  "node_get doc stack q n prop =
     bind_step (rdf_where doc stack q (Inl (node_toString n @ '' '' @ node_toString prop @ '' ?object'')) default_add False) (\<lambda>c.
     bind_step (the_query c) (\<lambda>x.
       let ns = found_nodes ''object'' (map m_bindings (q_matches x)) in ret (if ns = [] then None else Some ns)))"

definition node_getInverse :: "uri \<Rightarrow> nat \<Rightarrow> nat \<Rightarrow> rdf_node \<Rightarrow> rdf_node \<Rightarrow> (world, rdf_node list option) js_step" where
  "node_getInverse doc stack q n prop =
     bind_step (rdf_where doc stack q (Inl (''?subject '' @ node_toString prop @ '' '' @ node_toString n)) default_add False) (\<lambda>c.
     bind_step (the_query c) (\<lambda>x.
       let ns = found_nodes ''subject'' (map m_bindings (q_matches x)) in ret (if ns = [] then None else Some ns)))"

definition nodes_contain :: "rdf_node list \<Rightarrow> rdf_node \<Rightarrow> bool" where
  "nodes_contain ns n \<longleftrightarrow> (\<exists>m\<in>set ns. node_toString m = node_toString n)"

text \<open>
  \<open>rdfList\<close> has one object for all lists, the prototype that \<open>init\<close> is called on; its state is
  the node where it stands, \<open>None\<close> for \<open>null\<close>. \<open>next\<close> gives the first of the nodes found.
\<close>

definition list_next :: "uri \<Rightarrow> nat \<Rightarrow> nat \<Rightarrow> rdf_node option \<Rightarrow> (world, rdf_node option \<times> rdf_node option) js_step" where
  "list_next doc stack q at_node =
     (case at_node of
        None \<Rightarrow> throw TypeError
      | Some n \<Rightarrow>
          if node_toString n = node_toString (rdf_const ''nil'') then ret (None, at_node)
          else
            bind_step (node_get doc stack q n (rdf_const ''first'')) (\<lambda>r.
            bind_step (node_get doc stack q n (rdf_const ''rest'')) (\<lambda>rest.
              ret (map_option hd r, map_option hd rest))))"

text \<open>The elements that \<open>each\<close> collects before it calls the function; \<open>None\<close> when the fuel ends first.\<close>

fun list_elements :: "uri \<Rightarrow> nat \<Rightarrow> nat \<Rightarrow> nat \<Rightarrow> rdf_node option \<Rightarrow> (world, rdf_node list option) js_step" where
  "list_elements doc stack 0 q at_node = ret None"
| "list_elements doc stack (Suc n) q at_node =
     bind_step (list_next doc stack q at_node) (\<lambda>(r, at').
       case r of
         None \<Rightarrow> ret (Some [])
       | Some x \<Rightarrow> bind_step (list_elements doc stack n q at') (\<lambda>xs. ret (map_option (\<lambda>ys. x # ys) xs)))"

end
