(* ===== verification/RdfBankInv.thy ===== *)
theory RdfBankInv
  imports RdfQueries
begin

text \<open>
  The invariant of a databank that is not a union: its store holds no triple twice, and each
  index lists, for every key, the triples of the store with that key in the order of the
  store. Adding and removing are insertion and deletion, and the search by pattern is the
  search of the whole store. What the store promises its clients is the locale \<open>triple_store\<close>.
\<close>

section \<open>Indices\<close>

definition index_ok :: "(rdf_triple \<Rightarrow> bool) \<Rightarrow> (rdf_triple \<Rightarrow> string) \<Rightarrow> triple_index \<Rightarrow> rdf_triple list \<Rightarrow> bool" where
  "index_ok sel key ix ts \<longleftrightarrow>
     distinct (map fst ix) \<and> (\<forall>k. index_entry ix k = filter (\<lambda>t. sel t \<and> key t = k) ts)"

abbreviation subject_key :: "rdf_triple \<Rightarrow> string" where
  "subject_key t \<equiv> node_toString (t_subject t)"

abbreviation property_key :: "rdf_triple \<Rightarrow> string" where
  "property_key t \<equiv> node_toString (t_property t)"

abbreviation object_key :: "rdf_triple \<Rightarrow> string" where
  "object_key t \<equiv> node_toString (t_object t)"

definition bank_wf :: "rdf_bank \<Rightarrow> bool" where
  "bank_wf b \<longleftrightarrow> distinct (b_store b) \<and>
     index_ok (\<lambda>_. True) subject_key (b_subject b) (b_store b) \<and>
     index_ok (\<lambda>_. True) property_key (b_property b) (b_store b) \<and>
     index_ok indexed_object object_key (b_object b) (b_store b)"

lemma index_entry_update [simp]:
  "index_entry (AList.update k v ix) k' = (if k' = k then v else index_entry ix k')"
  by (simp add: index_entry_def update_conv')

lemma index_entry_none: "map_of ix k = None \<Longrightarrow> index_entry ix k = []"
  by (simp add: index_entry_def)

definition ensure_key :: "string \<Rightarrow> triple_index \<Rightarrow> triple_index" where
  "ensure_key k ix = (if map_of ix k = None then ix @ [(k, [])] else ix)"

lemma index_ok_ensure: "index_ok sel key ix ts \<Longrightarrow> index_ok sel key (ensure_key k ix) ts"
  by (auto simp: index_ok_def ensure_key_def index_entry_def map_add_def map_of_eq_None_iff split: option.splits)

lemma index_ok_push:
  assumes "index_ok sel key ix ts" "sel t"
  shows "index_ok sel key (push_entry (key t) t ix) (ts @ [t])"
  using assms by (auto simp: index_ok_def push_entry_def distinct_update)

lemma index_ok_skip: "index_ok sel key ix ts \<Longrightarrow> \<not> sel t \<Longrightarrow> index_ok sel key ix (ts @ [t])"
  by (simp add: index_ok_def)

lemma splice_entry_entry:
  "index_entry (splice_entry k t ix) k' =
     (if k' = k \<and> map_of ix k \<noteq> None then splice_at t (index_entry ix k) else index_entry ix k')"
  by (simp add: splice_entry_def index_entry_def update_conv' split: option.splits)

lemma splice_entry_distinct: "distinct (map fst ix) \<Longrightarrow> distinct (map fst (splice_entry k t ix))"
  by (simp add: splice_entry_def distinct_update split: option.splits)

lemma index_ok_splice:
  assumes ok: "index_ok sel key ix ts" and t: "t \<in> set ts" "sel t"
  shows "index_ok sel key (splice_entry (key t) t ix) (remove1 t ts)"
proof -
  have e: "index_entry ix k = filter (\<lambda>t. sel t \<and> key t = k) ts" for k
    using ok by (simp add: index_ok_def)
  then have "t \<in> set (index_entry ix (key t))" using t by simp
  then have here: "map_of ix (key t) \<noteq> None" using index_entry_none [of ix "key t"] by fastforce
  have "index_entry (splice_entry (key t) t ix) k = filter (\<lambda>t. sel t \<and> key t = k) (remove1 t ts)" for k
  proof (cases "k = key t")
    case True
    then show ?thesis using here e t by (simp add: splice_entry_entry splice_at_def filter_remove1_in)
  next
    case False
    then show ?thesis using e by (simp add: splice_entry_entry filter_remove1_out)
  qed
  then show ?thesis using ok splice_entry_distinct by (simp add: index_ok_def)
qed

lemma index_ok_unsel: "index_ok sel key ix ts \<Longrightarrow> \<not> sel t \<Longrightarrow> index_ok sel key ix (remove1 t ts)"
  by (simp add: index_ok_def filter_remove1_out)

section \<open>The contract of a triple store\<close>

locale triple_store =
  fixes put :: "'t \<Rightarrow> 's \<Rightarrow> 's"
    and take_out :: "'t \<Rightarrow> 's \<Rightarrow> 's"
    and contents :: "'s \<Rightarrow> 't set"
    and inv :: "'s \<Rightarrow> bool"
  assumes put_inv: "inv s \<Longrightarrow> inv (put t s)"
    and put_contents: "inv s \<Longrightarrow> contents (put t s) = insert t (contents s)"
    and out_inv: "inv s \<Longrightarrow> t \<in> contents s \<Longrightarrow> inv (take_out t s)"
    and out_contents: "inv s \<Longrightarrow> t \<in> contents s \<Longrightarrow> contents (take_out t s) = contents s - {t}"
begin

lemma put_all: "inv s \<Longrightarrow> inv (fold put ts s) \<and> contents (fold put ts s) = contents s \<union> set ts"
  by (induction ts arbitrary: s) (auto simp: put_inv put_contents)

lemma take_out_all:
  "inv s \<Longrightarrow> set ts \<subseteq> contents s \<Longrightarrow> distinct ts \<Longrightarrow>
     inv (fold take_out ts s) \<and> contents (fold take_out ts s) = contents s - set ts"
proof (induction ts arbitrary: s)
  case (Cons t ts)
  have t: "t \<in> contents s" using Cons.prems by simp
  moreover have "set ts \<subseteq> contents (take_out t s)" using Cons.prems out_contents [OF _ t] by auto
  ultimately show ?case using Cons out_inv out_contents by auto
qed simp

text \<open>Going from one state of a page to another by what is gone and what is new.\<close>

lemma replace_contents:
  assumes "inv s" "set gone = contents s - new" "distinct gone" "set fresh = new - contents s"
  shows "inv (fold put fresh (fold take_out gone s)) \<and> contents (fold put fresh (fold take_out gone s)) = new"
  using assms take_out_all [of s gone] put_all [of "fold take_out gone s" fresh] by auto

end

section \<open>Adding and removing, without the queries\<close>

definition bank_insert :: "rdf_triple \<Rightarrow> rdf_bank \<Rightarrow> rdf_bank" where
  "bank_insert t b =
     (if t \<in> set (b_store b) then b
      else
        (let b1 = b\<lparr>b_store := b_store b @ [t],
               b_subject := push_entry (subject_key t) t (ensure_key (subject_key t) (b_subject b)),
               b_property := push_entry (property_key t) t (ensure_key (property_key t) (b_property b))\<rparr> in
         if indexed_object t
         then b1\<lparr>b_object := push_entry (object_key t) t (ensure_key (object_key t) (b_object b))\<rparr> else b1))"

lemma bank_insert_wf: "bank_wf b \<Longrightarrow> bank_wf (bank_insert t b)"
  by (cases "indexed_object t")
    (auto simp: bank_wf_def bank_insert_def Let_def intro: index_ok_push index_ok_ensure index_ok_skip)

lemma bank_insert_store: "set (b_store (bank_insert t b)) = insert t (set (b_store b))"
  by (auto simp: bank_insert_def Let_def)

lemma unlink_store: "b_store (unlink_triple t b) = splice_at t (b_store b)"
  by (simp add: unlink_triple_def Let_def)

lemma unlink_wf: "bank_wf b \<Longrightarrow> t \<in> set (b_store b) \<Longrightarrow> bank_wf (unlink_triple t b)"
  by (cases "indexed_object t")
    (auto simp: bank_wf_def unlink_triple_def Let_def splice_at_def intro: index_ok_splice index_ok_unsel)

lemma bank_wf_distinct: "bank_wf b \<Longrightarrow> distinct (b_store b)"
  by (simp add: bank_wf_def)

interpretation bank: triple_store bank_insert unlink_triple "\<lambda>b. set (b_store b)" bank_wf
  by unfold_locales
    (auto simp: bank_insert_wf bank_insert_store unlink_wf unlink_store splice_at_def bank_wf_distinct)

section \<open>Patterns against triples\<close>

text \<open>What a term of a pattern stands for under an assignment.\<close>

definition inst_term :: "(string \<Rightarrow> rdf_node option) \<Rightarrow> pat_term \<Rightarrow> rdf_node option" where
  "inst_term f t = (case t of Var v \<Rightarrow> f (tl v) | Fixed n \<Rightarrow> Some n)"

definition instance_of :: "(string \<Rightarrow> rdf_node option) \<Rightarrow> rdf_pattern \<Rightarrow> rdf_triple \<Rightarrow> bool" where
  "instance_of f p t \<longleftrightarrow>
     inst_term f (p_subject p) = Some (t_subject t) \<and> inst_term f (p_property p) = Some (t_property t) \<and>
     inst_term f (p_object p) = Some (t_object t)"

definition term_vars :: "pat_term \<Rightarrow> string set" where
  "term_vars t = (case t of Var v \<Rightarrow> {tl v} | Fixed n \<Rightarrow> {})"

definition pattern_vars :: "rdf_pattern \<Rightarrow> string set" where
  "pattern_vars p = term_vars (p_subject p) \<union> term_vars (p_property p) \<union> term_vars (p_object p)"

lemma testResource_Some:
  "testResource r t b = Some b' \<Longrightarrow>
     inst_term (map_of b') t = Some r \<and> map_of b \<subseteq>\<^sub>m map_of b' \<and> dom (map_of b') = dom (map_of b) \<union> term_vars t"
  by (auto simp: testResource_def inst_term_def term_vars_def update_conv' map_le_def split: pat_term.splits option.splits if_splits)

lemma testResource_complete:
  assumes i: "inst_term f t = Some r" and le: "map_of b \<subseteq>\<^sub>m f"
  shows "\<exists>b'. testResource r t b = Some b' \<and> map_of b' \<subseteq>\<^sub>m f"
proof (cases t)
  case (Var v)
  then have f: "f (tl v) = Some r" using i by (simp add: inst_term_def)
  then have upd: "(map_of b)(tl v \<mapsto> r) \<subseteq>\<^sub>m f" using le by (auto simp: map_le_def)
  show ?thesis
  proof (cases "map_of b (tl v)")
    case None
    then show ?thesis using Var upd by (simp add: testResource_def update_conv')
  next
    case (Some n)
    then have "n = r" using f le by (force simp: map_le_def dom_def)
    then show ?thesis using Var Some upd by (simp add: testResource_def update_conv')
  qed
next
  case (Fixed n)
  then show ?thesis using i le by (simp add: testResource_def inst_term_def)
qed

lemma inst_term_mono: "inst_term f t = Some r \<Longrightarrow> f \<subseteq>\<^sub>m g \<Longrightarrow> inst_term g t = Some r"
  by (auto simp: inst_term_def map_le_def dom_def split: pat_term.splits)

lemma pat_exec_sound:
  assumes "pat_exec p t = Some b"
  shows "instance_of (map_of b) p t \<and> dom (map_of b) = pattern_vars p"
proof -
  obtain b1 b2 where 1: "testResource (t_subject t) (p_subject p) [] = Some b1"
    and 2: "testResource (t_property t) (p_property p) b1 = Some b2"
    and 3: "testResource (t_object t) (p_object p) b2 = Some b"
    using assms by (auto simp: pat_exec_def split: option.splits)
  note r1 = testResource_Some [OF 1] and r2 = testResource_Some [OF 2] and r3 = testResource_Some [OF 3]
  have le: "map_of b1 \<subseteq>\<^sub>m map_of b" "map_of b2 \<subseteq>\<^sub>m map_of b"
    using map_le_trans [of "map_of b1" "map_of b2"] r2 r3 by blast+
  have "inst_term (map_of b) (p_subject p) = Some (t_subject t)" using inst_term_mono r1 le(1) by blast
  moreover have "inst_term (map_of b) (p_property p) = Some (t_property t)" using inst_term_mono r2 le(2) by blast
  moreover have "inst_term (map_of b) (p_object p) = Some (t_object t)" using r3 by blast
  moreover have "dom (map_of b) = pattern_vars p" using r1 r2 r3 by (simp add: pattern_vars_def)
  ultimately show ?thesis by (simp add: instance_of_def)
qed

lemma pat_exec_complete:
  assumes "instance_of f p t"
  shows "\<exists>b. pat_exec p t = Some b \<and> map_of b \<subseteq>\<^sub>m f"
proof -
  obtain b1 where 1: "testResource (t_subject t) (p_subject p) [] = Some b1" "map_of b1 \<subseteq>\<^sub>m f"
    using assms testResource_complete [of f "p_subject p" "t_subject t" "[]"] by (auto simp: instance_of_def)
  obtain b2 where 2: "testResource (t_property t) (p_property p) b1 = Some b2" "map_of b2 \<subseteq>\<^sub>m f"
    using assms 1(2) testResource_complete by (metis instance_of_def)
  show ?thesis using assms 1(1) 2 testResource_complete by (auto simp: instance_of_def pat_exec_def)
qed

lemma match_of_fixed:
  assumes "match_of p t = Some m"
  shows "p_subject p = Fixed n \<Longrightarrow> t_subject t = n" "p_property p = Fixed n \<Longrightarrow> t_property t = n"
    "p_object p = Fixed n \<Longrightarrow> t_object t = n"
  using assms pat_exec_sound [of p t] by (auto simp: match_of_def instance_of_def inst_term_def)

lemma map_filter_filter:
  "(\<And>x y. f x = Some y \<Longrightarrow> P x) \<Longrightarrow> List.map_filter f (filter P xs) = List.map_filter f xs"
  by (induction xs) (auto simp: map_filter_simps split: option.splits)

lemma set_map_filter_Some: "set (List.map_filter f xs) = {y. \<exists>x\<in>set xs. f x = Some y}"
  by (induction xs) (auto simp: map_filter_simps split: option.splits)

lemma bank_matches_store:
  assumes "bank_wf b"
  shows "bank_matches b p = List.map_filter (match_of p) (b_store b)"
proof -
  have ix: "index_entry (b_subject b) k = filter (\<lambda>t. subject_key t = k) (b_store b)"
    "index_entry (b_property b) k = filter (\<lambda>t. property_key t = k) (b_store b)"
    "index_entry (b_object b) k = filter (\<lambda>t. indexed_object t \<and> object_key t = k) (b_store b)" for k
    using assms by (simp_all add: bank_wf_def index_ok_def)
  show ?thesis
    by (cases "p_subject p"; cases "p_object p"; cases "p_property p")
      (auto simp: bank_matches_def node_kind_of_def pat_text_def ix indexed_object_def dest: match_of_fixed
        intro!: map_filter_filter)
qed

section \<open>The network changes queries only\<close>

named_theorems net_keeps \<open>steps of the network keep what does not speak of queries\<close>

definition about_banks :: "(world \<Rightarrow> bool) \<Rightarrow> bool" where
  "about_banks I \<longleftrightarrow> (\<forall>w f. I w \<longrightarrow> I (w\<lparr>w_queries := f\<rparr>))"

lemma keeps_each [net_keeps]: "(\<And>x. keeps I (f x)) \<Longrightarrow> keeps I (each_step f xs)"
  by (induction xs) (auto intro: keeps_then)

lemma keeps_map_step [net_keeps]: "(\<And>x. keeps I (f x)) \<Longrightarrow> keeps I (map_step f xs)"
  by (induction xs) (auto intro!: keeps_bind)

lemma keeps_the_query [net_keeps]: "keeps I (the_query q)"
  by (auto simp: keeps_def the_query_def split: option.splits)

lemma keeps_the_bank [net_keeps]: "keeps I (the_bank d)"
  by (auto simp: keeps_def the_bank_def split: option.splits)

lemma keeps_set_query [net_keeps]: "about_banks I \<Longrightarrow> keeps I (set_query q f)"
  by (auto simp: keeps_def set_query_def about_banks_def split: option.splits)


lemma keeps_left_matches [net_keeps]: "keeps I (left_matches x ms)"
  by (auto simp: left_matches_def filter_matches_def Let_def intro!: keeps_bind keeps_then net_keeps
      split: option.splits rdf_filter.splits)

lemma keeps_resetQuery [net_keeps]: "about_banks I \<Longrightarrow> keeps I (resetQuery n q)"
  by (induction n q rule: resetQuery.induct) (auto intro!: keeps_bind keeps_then net_keeps)

lemma keeps_activate [net_keeps]: "about_banks I \<Longrightarrow> keeps I (activate n a)"
  by (induction n a rule: activate.induct) (auto intro!: keeps_bind keeps_then net_keeps)

lemma keeps_rightActivate [net_keeps]: "about_banks I \<Longrightarrow> keeps I (rightActivate n q p m)"
  by (auto simp: rightActivate_def leftActivate_def updateQuery_def intro!: keeps_bind keeps_then net_keeps split: option.splits)

lemma keeps_query_pattern [net_keeps]: "keeps I (query_pattern x)"
  by (auto simp: query_pattern_def split: option.splits rdf_filter.splits)

lemma keeps_addToQuery [net_keeps]: "about_banks I \<Longrightarrow> keeps I (addToQuery n t q)"
  by (auto simp: addToQuery_def intro!: keeps_bind keeps_then net_keeps split: option.splits)

lemma keeps_removeFromQuery [net_keeps]: "about_banks I \<Longrightarrow> keeps I (removeFromQuery n q)"
  by (auto simp: removeFromQuery_def leftActivate_def intro!: keeps_bind keeps_then net_keeps)

lemma keeps_queries_at [net_keeps]: "keeps I (queries_at d k)"
  by (auto simp: queries_at_def intro!: keeps_bind keeps_then net_keeps split: databank.splits)

lemma keeps_databank_queries [net_keeps]:
  "(\<And>q. keeps I (act q)) \<Longrightarrow> keeps I (databank_queries act n d t)"
  by (induction n arbitrary: d) (auto intro!: keeps_bind keeps_then net_keeps split: databank.splits)

lemma about_banks_eq: "about_banks (\<lambda>w. w_banks w = B)"
  by (simp add: about_banks_def)

lemma network_banks:
  "w_banks (snd (addToDatabankQueries n d t w)) = w_banks w"
  "w_banks (snd (removeFromDatabankQueries n d t w)) = w_banks w"
  using keepsD [of "\<lambda>v. w_banks v = w_banks w" "addToDatabankQueries n d t" w]
    keepsD [of "\<lambda>v. w_banks v = w_banks w" "removeFromDatabankQueries n d t" w]
    keeps_databank_queries about_banks_eq keeps_addToQuery keeps_removeFromQuery
  by (simp_all add: addToDatabankQueries_def removeFromDatabankQueries_def)

section \<open>The steps of a databank\<close>

abbreviation with_bank :: "world \<Rightarrow> nat \<Rightarrow> rdf_bank \<Rightarrow> world" where
  "with_bank w d b \<equiv> w\<lparr>w_banks := (w_banks w)(d \<mapsto> Bank b)\<rparr>"

lemma with_bank_same: "w_banks w d = Some (Bank b) \<Longrightarrow> with_bank w d b = w"
  by (simp add: map_upd_triv)

lemma ensure_entry_shallow:
  assumes "w_banks w d = Some (Bank b)" "upd (\<lambda>ix. ix) b = b"
    "upd (\<lambda>ix. ix @ [(k, [])]) b = upd (\<lambda>_. ensure_key k (field b)) b \<or> map_of (field b) k \<noteq> None"
    "upd (\<lambda>_. field b) b = b"
  shows "ensure_entry field upd (ret ()) d k w = (Inr (), with_bank w d (upd (\<lambda>_. ensure_key k (field b)) b))"
  using assms
  by (auto simp: ensure_entry_def the_bank_def set_bank_def bind_step_def then_step_def modify_def ret_def
      ensure_key_def map_upd_triv)

lemma in_bank_step: "w_banks w d = Some (Bank b) \<Longrightarrow> in_bank d f w = (Inr (), with_bank w d (f b))"
  by (simp add: in_bank_def the_bank_def set_bank_def bind_step_def modify_def)

text \<open>Without depth, the step of the code is \<open>bank_insert\<close>, and the queries hear of a new triple.\<close>

lemma add_to_bank_step:
  assumes w: "w_banks w d = Some (Bank b)" and wf: "bank_wf b" and depth: "a_depth opts \<le> 0"
  shows "add_to_bank doc stack d opts t w =
    (if t \<in> set (b_store b) then (Inr (), w) else addToDatabankQueries stack d t (with_bank w d (bank_insert t b)))"
proof -
  have sub: "index_entry (b_subject b) k = filter (\<lambda>t. subject_key t = k) (b_store b)"
    "index_entry (b_property b) k = filter (\<lambda>t. property_key t = k) (b_store b)" for k
    using wf by (simp_all add: bank_wf_def index_ok_def)
  have there: "ensure_key (subject_key t) (b_subject b) = b_subject b"
    "ensure_key (property_key t) (b_property b) = b_property b" if "t \<in> set (b_store b)"
    using that sub(1) [of "subject_key t"] sub(2) [of "property_key t"]
    by (simp_all add: ensure_key_def index_entry_def filter_empty_conv split: if_splits option.splits)
      (metis (mono_tags, lifting) filter_empty_conv)+
  have ensured: "index_entry (ensure_key k ix) k' = index_entry ix k'" for k k' ix
    by (auto simp: ensure_key_def index_entry_def map_add_def split: option.splits)
  let ?b1 = "b\<lparr>b_subject := ensure_key (subject_key t) (b_subject b)\<rparr>"
  let ?b2 = "?b1\<lparr>b_property := ensure_key (property_key t) (b_property b)\<rparr>"
  have e1: "ensure_entry b_subject b_subject_update (ret ()) d (subject_key t) w = (Inr (), with_bank w d ?b1)"
    using w by (subst ensure_entry_shallow [where b = b]) (auto simp: ensure_key_def)
  have e2: "ensure_entry b_property b_property_update (ret ()) d (property_key t) (with_bank w d ?b1) =
      (Inr (), with_bank w d ?b2)"
    by (subst ensure_entry_shallow [where b = ?b1]) (auto simp: ensure_key_def)
  show ?thesis
  proof (cases "t \<in> set (b_store b)")
    case True
    then have "?b2 = b" using there by simp
    moreover have "t \<in> set (index_entry (b_subject ?b2) (subject_key t))"
      using True by (simp add: ensured sub)
    ultimately show ?thesis
      using True depth e1 e2 with_bank_same [OF w] w
      by (simp add: add_to_bank_def Let_def then_step_def bind_step_def the_bank_def ret_def)
  next
    case False
    then have new: "t \<notin> set (index_entry (b_subject ?b2) (subject_key t))" by (simp add: ensured sub)
    let ?b3 = "?b2\<lparr>b_store := b_store b @ [t], b_subject := push_entry (subject_key t) t (b_subject ?b2),
        b_property := push_entry (property_key t) t (b_property ?b2)\<rparr>"
    have o1: "ensure_entry b_object b_object_update (ret ()) d (object_key t) (with_bank w d ?b3) =
        (Inr (), with_bank w d (?b3\<lparr>b_object := ensure_key (object_key t) (b_object b)\<rparr>))"
      by (subst ensure_entry_shallow [where b = ?b3]) (auto simp: ensure_key_def)
    show ?thesis
      using False depth e1 e2 new o1
      by (simp add: add_to_bank_def Let_def then_step_def bind_step_def the_bank_def ret_def in_bank_step
          bank_insert_def)
  qed
qed

end
