(* ===== verification/RdfBankProps.thy ===== *)
theory RdfBankProps
  imports RdfBankInv
begin

text \<open>
  What adding, removing, searching, the difference and the description do to the databanks of
  a page, whatever the queries do with the news.
\<close>

section \<open>Adding, removing and searching\<close>

lemma add_triple_bank:
  "w_banks w d = Some (Bank b) \<Longrightarrow> add_triple doc stack (Suc n) opts d t w = add_to_bank doc stack d opts t w"
  by (simp add: the_bank_def bind_step_def)

lemma then_step_snd_banks:
  "(\<And>v. w_banks (snd (n v)) = w_banks v) \<Longrightarrow> w_banks (snd (then_step m n w)) = w_banks (snd (m w))"
  by (simp add: then_step_def bind_step_def split: prod.splits sum.splits)

lemma ret_snd [simp]: "snd (ret a w) = w"
  by (simp add: ret_def)

text \<open>
  C29. Adding a triple to a databank without going into linked documents inserts it into the
  set of triples and keeps the indices right, even where a query of the page throws at the
  news; a triple that is there already changes nothing at all.
\<close>

theorem databank_add_spec:
  assumes "w_banks w d = Some (Bank b)" "bank_wf b" "a_depth opts \<le> 0" "0 < stack"
  shows "\<exists>b'. w_banks (snd (databank_add doc stack d (Add_triple t) opts w)) = (w_banks w)(d \<mapsto> Bank b') \<and>
    bank_wf b' \<and> set (b_store b') = insert t (set (b_store b)) \<and>
    (t \<in> set (b_store b) \<longrightarrow> databank_add doc stack d (Add_triple t) opts w = (Inr d, w))"
proof -
  obtain n where n: "stack = Suc n" using assms(4) by (cases stack) auto
  have step: "add_triple doc stack stack opts d t w =
    (if t \<in> set (b_store b) then (Inr (), w) else addToDatabankQueries stack d t (with_bank w d (bank_insert t b)))"
    using add_triple_bank [OF assms(1)] add_to_bank_step [OF assms(1-3)] n by simp
  have "w_banks (snd (databank_add doc stack d (Add_triple t) opts w)) = w_banks (snd (add_triple doc stack stack opts d t w))"
    by (simp add: databank_add_def then_step_snd_banks)
  also have "\<dots> = (w_banks w)(d \<mapsto> Bank (bank_insert t b))"
    using step assms(1) by (auto simp: network_banks bank_insert_def map_upd_triv)
  finally have "w_banks (snd (databank_add doc stack d (Add_triple t) opts w)) = (w_banks w)(d \<mapsto> Bank (bank_insert t b))" .
  moreover have "t \<in> set (b_store b) \<longrightarrow> databank_add doc stack d (Add_triple t) opts w = (Inr d, w)"
    using step by (simp add: databank_add_def then_step_def bind_step_def ret_def)
  ultimately show ?thesis
    using bank_insert_wf [OF assms(2)] bank_insert_store by blast
qed

text \<open>
  C30. Removing a triple that a databank holds deletes it and keeps the indices right. A triple
  that is not there takes the last triple of the store away instead: \<open>splice\<close> is called with
  the index \<open>-1\<close>.
\<close>

theorem databank_remove_spec:
  assumes "w_banks w d = Some (Bank b)" "bank_wf b"
  shows "\<exists>b'. w_banks (snd (databank_remove doc stack d (From_triple t) opts w)) = (w_banks w)(d \<mapsto> Bank b') \<and>
    (t \<in> set (b_store b) \<longrightarrow> bank_wf b' \<and> set (b_store b') = set (b_store b) - {t}) \<and>
    (t \<notin> set (b_store b) \<longrightarrow> b_store b' = butlast (b_store b))"
proof -
  have "w_banks (snd (databank_remove doc stack d (From_triple t) opts w)) = (w_banks w)(d \<mapsto> Bank (unlink_triple t b))"
    using in_bank_step [OF assms(1), of "unlink_triple t"]
    by (simp add: databank_remove_def then_step_snd_banks network_banks)
  moreover have "b_store (unlink_triple t b) = butlast (b_store b)" if "t \<notin> set (b_store b)"
    using that by (simp add: unlink_store splice_at_def)
  ultimately show ?thesis
    using bank.out_inv [OF assms(2)] bank.out_contents [OF assms(2)] by blast
qed

text \<open>
  C31. The search for a pattern, whichever index it goes through, returns a match for exactly
  the triples of the databank that are instances of the pattern, with the assignment of the
  pattern's variables that makes them one.
\<close>

theorem findMatches_spec:
  assumes "w_banks w d = Some (Bank b)" "bank_wf b"
  shows "\<exists>ms. findMatches stack d p w = (Inr ms, w) \<and>
    (\<forall>t. [t] \<in> m_triples ` set ms \<longleftrightarrow> t \<in> set (b_store b) \<and> (\<exists>f. instance_of f p t)) \<and>
    (\<forall>m\<in>set ms. \<exists>t\<in>set (b_store b). m_triples m = [t] \<and> instance_of (map_of (m_bindings m)) p t \<and>
      dom (map_of (m_bindings m)) = pattern_vars p)"
proof -
  let ?ms = "List.map_filter (match_of p) (b_store b)"
  have "findMatches stack d p w = (Inr ?ms, w)"
    using assms by (simp add: findMatches_def the_bank_def bind_step_def ret_def bank_matches_store)
  moreover have "\<exists>t\<in>set (b_store b). m_triples m = [t] \<and> instance_of (map_of (m_bindings m)) p t \<and>
      dom (map_of (m_bindings m)) = pattern_vars p" if "m \<in> set ?ms" for m
    using that pat_exec_sound by (fastforce simp: match_of_def set_map_filter_Some)
  moreover have "[t] \<in> m_triples ` set ?ms" if st: "t \<in> set (b_store b)" and i: "instance_of f p t" for t f
  proof -
    obtain bs where "pat_exec p t = Some bs" using pat_exec_complete [OF i] by blast
    then have "match_of p t = Some \<lparr>m_bindings = bs, m_triples = [t]\<rparr>" by (simp add: match_of_def)
    then show ?thesis using st by (force simp: set_map_filter_Some)
  qed
  ultimately show ?thesis by (intro exI [of _ ?ms]) fastforce
qed

section \<open>New databanks\<close>

lemma new_bank_wf [simp]: "bank_wf (new_bank base ns)" and new_bank_store [simp]: "b_store (new_bank base ns) = []"
  by (simp_all add: bank_wf_def new_bank_def index_ok_def index_entry_def)

lemma bank_insert_queries [simp]: "b_queries (bank_insert t b) = b_queries b"
  by (simp add: bank_insert_def Let_def)

lemma no_queries_each:
  assumes "w_banks w d = Some (Bank b)" "b_queries b = (\<lambda>_. [])"
  shows "each_step (\<lambda>k. bind_step (queries_at d k) (each_step act)) ks w = (Inr (), w)"
  by (induction ks)
    (simp_all add: queries_at_def the_bank_def bind_step_def then_step_def ret_def assms)

lemma no_queries:
  assumes "w_banks w d = Some (Bank b)" "b_queries b = (\<lambda>_. [])"
  shows "addToDatabankQueries (Suc n) d t w = (Inr (), w)"
  using no_queries_each [OF assms]
  by (simp add: addToDatabankQueries_def the_bank_def bind_step_def assms(1))

lemma then_step_Inr: "m w = (Inr (), w') \<Longrightarrow> then_step m n w = n w'"
  by (simp add: then_step_def bind_step_def)

lemma fill_new_bank:
  assumes "w_banks w d = Some (Bank b)" "bank_wf b" "b_queries b = (\<lambda>_. [])"
  shows "each_step (\<lambda>t. then_step (databank_add doc (Suc n) d t default_add) (ret ())) (map Add_triple ts) w =
    (Inr (), with_bank w d (fold bank_insert ts b))"
  using assms
proof (induction ts arbitrary: w b)
  case Nil
  then show ?case by (simp add: ret_def map_upd_triv)
next
  case (Cons t ts)
  let ?w = "with_bank w d (bank_insert t b)"
  have "add_to_bank doc (Suc n) d default_add t w = (Inr (), ?w)"
  proof (cases "t \<in> set (b_store b)")
    case True
    then have "?w = w" using Cons.prems(1) by (simp add: bank_insert_def map_upd_triv)
    then show ?thesis using True add_to_bank_step [OF Cons.prems(1,2), of default_add doc "Suc n" t]
      by (simp add: default_add_def)
  next
    case False
    then show ?thesis
      using add_to_bank_step [OF Cons.prems(1,2), of default_add doc "Suc n" t] Cons.prems(3)
        no_queries [of ?w d "bank_insert t b" n t]
      by (simp add: default_add_def)
  qed
  then have "add_triple doc (Suc n) (Suc n) default_add d t w = (Inr (), ?w)"
    using add_triple_bank [OF Cons.prems(1)] by metis
  then have "then_step (databank_add doc (Suc n) d (Add_triple t) default_add) (ret ()) w = (Inr (), ?w)"
    by (simp add: databank_add_def then_step_def bind_step_def ret_def)
  moreover have "each_step (\<lambda>t. then_step (databank_add doc (Suc n) d t default_add) (ret ())) (map Add_triple ts) ?w =
      (Inr (), with_bank ?w d (fold bank_insert ts (bank_insert t b)))"
    using Cons.prems by (intro Cons.IH) (simp_all add: bank_insert_wf)
  ultimately show ?case unfolding list.map each_step.simps by (subst then_step_Inr) auto
qed

lemma index_pairs:
  assumes "index_ok sel key ix ts"
  shows "(k, us) \<in> set ix \<Longrightarrow> us = filter (\<lambda>t. sel t \<and> key t = k) ts"
    and "t \<in> set ts \<Longrightarrow> sel t \<Longrightarrow> \<exists>us. (key t, us) \<in> set ix \<and> t \<in> set us"
proof -
  have d: "distinct (map fst ix)" and e: "index_entry ix k = filter (\<lambda>t. sel t \<and> key t = k) ts" for k
    using assms by (simp_all add: index_ok_def)
  show "us = filter (\<lambda>t. sel t \<and> key t = k) ts" if "(k, us) \<in> set ix"
  proof -
    have "map_of ix k = Some us" using that d by simp
    then show ?thesis using e [of k] by (simp add: index_entry_def)
  qed
  show "\<exists>us. (key t, us) \<in> set ix \<and> t \<in> set us" if "t \<in> set ts" "sel t"
  proof -
    have t: "t \<in> set (index_entry ix (key t))" using that e by simp
    then obtain us where "map_of ix (key t) = Some us" using index_entry_none [of ix "key t"] by fastforce
    then show ?thesis using t map_of_SomeD by (fastforce simp: index_entry_def)
  qed
qed

lemma except_triples_set:
  assumes "bank_wf b" "bank_wf c"
  shows "set (except_triples (b_subject b) (b_subject c)) = set (b_store b) - set (b_store c)"
proof -
  have b: "index_ok (\<lambda>_. True) subject_key (b_subject b) (b_store b)"
    and c: "index_entry (b_subject c) k = filter (\<lambda>t. subject_key t = k) (b_store c)" for k
    using assms by (simp_all add: bank_wf_def index_ok_def)
  have pick: "set (case map_of (b_subject c) k of None \<Rightarrow> us | Some ots \<Rightarrow> filter (\<lambda>t. t \<notin> set ots) us) =
      set us - {t \<in> set (b_store c). subject_key t = k}" for k us
  proof (cases "map_of (b_subject c) k")
    case None
    then have "filter (\<lambda>t. subject_key t = k) (b_store c) = []" using c [of k] by (simp add: index_entry_def)
    then show ?thesis using None by (auto simp: filter_empty_conv)
  next
    case (Some ots)
    then show ?thesis using c [of k] by (auto simp: index_entry_def)
  qed
  have "set (except_triples (b_subject b) (b_subject c)) =
      (\<Union>(k, us)\<in>set (b_subject b). set us - {t \<in> set (b_store c). subject_key t = k})"
    by (force simp: except_triples_def pick)
  also have "\<dots> = set (b_store b) - set (b_store c)"
    using index_pairs(1) [OF b] index_pairs(2) [OF b] by fastforce
  finally show ?thesis .
qed

text \<open>
  The difference of two databanks is a new one that holds exactly the triples of the first
  that the second does not hold, properly indexed; all others stay as they are. It has neither
  the namespace bindings nor the base of the first.
\<close>

lemma databank_except_spec:
  assumes "w_banks w d = Some (Bank b)" "bank_wf b" "w_banks w e = Some (Bank c)" "bank_wf c" "0 < stack"
  shows "\<exists>x. databank_except doc stack d e w =
      (Inr (Suc (w_bank_seed w)), w\<lparr>w_bank_seed := Suc (w_bank_seed w),
        w_banks := (w_banks w)(Suc (w_bank_seed w) \<mapsto> Bank x)\<rparr>) \<and>
    bank_wf x \<and> set (b_store x) = set (b_store b) - set (b_store c) \<and> b_namespaces x = [] \<and> b_base x = No_base"
proof -
  obtain n where n: "stack = Suc n" using assms(5) by (cases stack) auto
  let ?ts = "except_triples (b_subject b) (b_subject c)" and ?i = "Suc (w_bank_seed w)"
  let ?x = "fold bank_insert ?ts (new_bank No_base [])"
  let ?w = "w\<lparr>w_bank_seed := ?i, w_banks := (w_banks w)(?i \<mapsto> Bank (new_bank No_base []))\<rparr>"

  have fold: "each_step (\<lambda>t. then_step (databank_add doc stack ?i t default_add) (ret ())) (map Add_triple ?ts) ?w =
      (Inr (), with_bank ?w ?i ?x)"
    unfolding n by (rule fill_new_bank) (simp_all, simp add: new_bank_def)
  have "databank_except doc stack d e w = (Inr ?i, with_bank ?w ?i ?x)"
    using fold by (simp add: databank_except_def make_databank_def alloc_bank_def the_bank_def bind_step_def
        then_step_def ret_def Let_def assms(1,3))
  moreover have "bank_wf ?x" "set (b_store ?x) = set (b_store b) - set (b_store c)"
    using bank.put_all [OF new_bank_wf [of No_base "[]"], of ?ts] except_triples_set [OF assms(2,4)] by simp_all
  moreover have "b_namespaces (fold bank_insert ts y) = b_namespaces y \<and> b_base (fold bank_insert ts y) = b_base y" for ts y
    by (induction ts arbitrary: y) (simp_all add: bank_insert_def Let_def)
  ultimately show ?thesis by (intro exI [of _ ?x]) (simp add: new_bank_def)
qed

section \<open>Witnesses\<close>

definition http_node :: "string \<Rightarrow> rdf_node" where
  "http_node h = Resource \<lparr>u_scheme = Some ''http'', u_authority = Some h, u_path = [], u_query = None, u_fragment = None\<rparr>"

definition tr :: "string \<Rightarrow> string \<Rightarrow> rdf_node \<Rightarrow> rdf_triple" where
  "tr s p ob = \<lparr>t_subject = http_node s, t_property = http_node p, t_object = ob, t_graph = None, t_source = None\<rparr>"

definition bank_of :: "rdf_triple list \<Rightarrow> rdf_bank" where
  "bank_of ts = fold bank_insert ts (new_bank No_base [])"



lemma bank_of_wf: "bank_wf (bank_of ts)" and bank_of_store: "set (b_store (bank_of ts)) = set ts"
  using bank.put_all [of "new_bank No_base []" ts] by (simp_all add: bank_of_def)

definition page :: "rdf_bank \<Rightarrow> world" where
  "page b = \<lparr>w_rdf = \<lparr>e_tv = \<lparr>tv_fn = \<lparr>tv_representation = None, tv_value = None, tv_datatype = None\<rparr>,
       tv_mem = Map.empty\<rparr>, e_resource = Map.empty, e_blank = Map.empty, e_literal = Map.empty,
       e_triple = Map.empty, e_pattern = Map.empty, e_seed = 0\<rparr>,
     w_banks = [1 \<mapsto> Bank b], w_bank_seed = 1, w_queries = Map.empty, w_next_query = 0, w_waiting = [], w_scripts = []\<rparr>"

lemma page_bank [simp]: "w_banks (page b) 1 = Some (Bank b)" "w_banks (page b) (Suc 0) = Some (Bank b)"
  by (simp_all add: page_def)

theorem databank_add_spec_witness:
  "\<exists>b'. w_banks (snd (databank_add \<lparr>u_scheme = None, u_authority = None, u_path = [], u_query = None, u_fragment = None\<rparr>
      9 1 (Add_triple (tr ''s'' ''p'' (Blank ''x''))) default_add (page (bank_of [])))) 1 = Some (Bank b') \<and>
    set (b_store b') = {tr ''s'' ''p'' (Blank ''x'')}"
  using databank_add_spec [of "page (bank_of [])" 1 "bank_of []" default_add 9
      "\<lparr>u_scheme = None, u_authority = None, u_path = [], u_query = None, u_fragment = None\<rparr>" "tr ''s'' ''p'' (Blank ''x'')"]
  by (auto simp: bank_of_wf bank_of_store default_add_def)

theorem databank_remove_spec_witness:
  "\<exists>b'. w_banks (snd (databank_remove \<lparr>u_scheme = None, u_authority = None, u_path = [], u_query = None, u_fragment = None\<rparr>
      9 1 (From_triple (tr ''s'' ''p'' (Blank ''y''))) default_add
      (page (bank_of [tr ''s'' ''p'' (Blank ''x'')])))) 1 = Some (Bank b') \<and> b_store b' = []"
proof -
  let ?d = "\<lparr>u_scheme = None, u_authority = None, u_path = [], u_query = None, u_fragment = None\<rparr>"
  let ?b = "bank_of [tr ''s'' ''p'' (Blank ''x'')]"
  have store: "b_store ?b = [tr ''s'' ''p'' (Blank ''x'')]"
    by (simp add: bank_of_def bank_insert_def Let_def)
  then have "tr ''s'' ''p'' (Blank ''y'') \<notin> set (b_store ?b)" by (simp add: tr_def)
  then show ?thesis
    using databank_remove_spec [OF page_bank(1) [of ?b] bank_of_wf, where doc = ?d and stack = 9
        and t = "tr ''s'' ''p'' (Blank ''y'')" and opts = default_add] store by auto
qed

theorem findMatches_spec_witness:
  "\<exists>ms. findMatches 9 1 \<lparr>p_subject = Var ''?x'', p_property = Fixed (http_node ''p''), p_object = Var ''?x'', p_optional = False\<rparr>
      (page (bank_of [tr ''s'' ''p'' (http_node ''s''), tr ''s'' ''p'' (Blank ''x'')])) =
      (Inr ms, page (bank_of [tr ''s'' ''p'' (http_node ''s''), tr ''s'' ''p'' (Blank ''x'')])) \<and>
    [tr ''s'' ''p'' (http_node ''s'')] \<in> m_triples ` set ms \<and> [tr ''s'' ''p'' (Blank ''x'')] \<notin> m_triples ` set ms"
proof -
  let ?p = "\<lparr>p_subject = Var ''?x'', p_property = Fixed (http_node ''p''), p_object = Var ''?x'', p_optional = False\<rparr>"
  have "instance_of [''x'' \<mapsto> http_node ''s''] ?p (tr ''s'' ''p'' (http_node ''s''))"
    by (simp add: instance_of_def inst_term_def tr_def)
  moreover have "\<not> instance_of f ?p (tr ''s'' ''p'' (Blank ''x''))" for f
    by (simp add: instance_of_def inst_term_def tr_def http_node_def)
  moreover let ?ts = "[tr ''s'' ''p'' (http_node ''s''), tr ''s'' ''p'' (Blank ''x'')]"
  obtain ms where "findMatches 9 1 ?p (page (bank_of ?ts)) = (Inr ms, page (bank_of ?ts))"
    "\<forall>t. [t] \<in> m_triples ` set ms \<longleftrightarrow> t \<in> set (b_store (bank_of ?ts)) \<and> (\<exists>f. instance_of f ?p t)"
    using findMatches_spec [OF page_bank(1) [of "bank_of ?ts"] bank_of_wf, of 9 ?p] by blast
  ultimately show ?thesis by (intro exI [of _ ms]) (auto simp: bank_of_store)
qed

lemma databank_except_spec_witness:
  "\<exists>x. w_banks (snd (databank_except \<lparr>u_scheme = None, u_authority = None, u_path = [], u_query = None, u_fragment = None\<rparr>
      9 1 2 ((page (bank_of [tr ''s'' ''p'' (Blank ''x''), tr ''s'' ''p'' (Blank ''y'')]))\<lparr>w_bank_seed := 2,
        w_banks := [1 \<mapsto> Bank (bank_of [tr ''s'' ''p'' (Blank ''x''), tr ''s'' ''p'' (Blank ''y'')]),
          2 \<mapsto> Bank (bank_of [tr ''s'' ''p'' (Blank ''x'')])]\<rparr>))) 3 = Some (Bank x) \<and>
    set (b_store x) = {tr ''s'' ''p'' (Blank ''y'')}"
proof -
  let ?d = "\<lparr>u_scheme = None, u_authority = None, u_path = [], u_query = None, u_fragment = None\<rparr>"
  let ?b = "bank_of [tr ''s'' ''p'' (Blank ''x''), tr ''s'' ''p'' (Blank ''y'')]" and ?c = "bank_of [tr ''s'' ''p'' (Blank ''x'')]"
  let ?w = "(page ?b)\<lparr>w_bank_seed := 2, w_banks := [1 \<mapsto> Bank ?b, 2 \<mapsto> Bank ?c]\<rparr>"
  have w: "w_banks ?w 1 = Some (Bank ?b)" "w_banks ?w 2 = Some (Bank ?c)" by simp_all
  obtain x where "databank_except ?d 9 1 2 ?w = (Inr (Suc (w_bank_seed ?w)), ?w\<lparr>w_bank_seed := Suc (w_bank_seed ?w),
        w_banks := (w_banks ?w)(Suc (w_bank_seed ?w) \<mapsto> Bank x)\<rparr>)"
      "set (b_store x) = set (b_store ?b) - set (b_store ?c)"
    using databank_except_spec [OF w(1) bank_of_wf w(2) bank_of_wf, of 9 ?d] by auto
  then show ?thesis by (intro exI [of _ x]) (auto simp: bank_of_store tr_def)
qed

end
