(* ===== verification/RdfLive.thy ===== *)
theory RdfLive
  imports RdfBankProps "HOL-Library.Multiset"
begin

text \<open>
  The queries of a page stay true: in a network of chains of patterns (no unions, no optional
  patterns, no functions) adding a triple brings every query, through the activations alone,
  to the answer that a fresh evaluation of its chain over the new store gives, match for match.
\<close>

section \<open>Joins as multisets\<close>

lemma merge_plain:
  "mergeMatches A N False = concat (map (\<lambda>m. map (join_matches m) (filter (\<lambda>n. compatible (m_bindings m) (m_bindings n)) N)) A)"
  by (auto simp: mergeMatches_def Let_def intro!: arg_cong [of _ _ concat])

lemma merge_append_left: "mergeMatches (A @ B) N False = mergeMatches A N False @ mergeMatches B N False"
  by (simp add: merge_plain)

lemma merge_append_right:
  "mset (mergeMatches A (N @ N') False) = mset (mergeMatches A N False) + mset (mergeMatches A N' False)"
  by (induction A) (simp_all add: merge_plain)

lemma mset_concat_map: "mset (concat (map f A)) = sum_mset (image_mset (\<lambda>a. mset (f a)) (mset A))"
  by (induction A) simp_all

lemma merge_mset: "mset A = mset B \<Longrightarrow> mset (mergeMatches A N False) = mset (mergeMatches B N False)"
  by (simp add: merge_plain mset_concat_map)

section \<open>The shape of the network\<close>

type_synonym query_table = "nat \<Rightarrow> rdf_query option"

text \<open>A query without its memories, and a table of such queries: what an activation never changes.\<close>

definition frame_of :: "rdf_query \<Rightarrow> rdf_query" where
  "frame_of x = x\<lparr>q_alpha := [], q_matches := [], q_length := 0, q_items := []\<rparr>"

definition frames :: "query_table \<Rightarrow> query_table" where
  "frames Q q = map_option frame_of (Q q)"

text \<open>
  Chains of patterns: no unions, no optional patterns, no functions; a parent is made before
  its children and lists them.
\<close>

definition chain_frame :: "nat \<Rightarrow> query_table \<Rightarrow> nat \<Rightarrow> rdf_query \<Rightarrow> bool" where
  "chain_frame N Q q x \<longleftrightarrow>
     q < N \<and> q_union x = None \<and> q_partOf x = [] \<and> distinct (q_children x) \<and>
     (\<forall>c\<in>set (q_children x). \<exists>y. Q c = Some y \<and> q_parent y = Some q) \<and>
     (case q_parent x of
        None \<Rightarrow> q_filter x = None
      | Some p \<Rightarrow> p < q \<and> (\<exists>px. Q p = Some px \<and> q \<in> set (q_children px)) \<and>
          (\<exists>pt. q_filter x = Some (By_pattern pt) \<and> \<not> p_optional pt))"

definition net_shape :: "nat \<Rightarrow> query_table \<Rightarrow> bool" where
  "net_shape N Q \<longleftrightarrow> (\<forall>q x. frames Q q = Some x \<longrightarrow> chain_frame N (frames Q) q x)"

lemma frame_of_fields [simp]:
  "q_parent (frame_of x) = q_parent x" "q_union (frame_of x) = q_union x" "q_databank (frame_of x) = q_databank x"
  "q_children (frame_of x) = q_children x" "q_partOf (frame_of x) = q_partOf x" "q_filter (frame_of x) = q_filter x"
  by (simp_all add: frame_of_def)

lemma frame_eqD: "frame_of x = frame_of y \<Longrightarrow> q_parent x = q_parent y \<and> q_children x = q_children y \<and> q_filter x = q_filter y \<and> q_union x = q_union y \<and> q_databank x = q_databank y"
  by (metis frame_of_fields)

lemma frames_Some [simp]: "frames Q q = Some y \<longleftrightarrow> (\<exists>x. Q q = Some x \<and> y = frame_of x)"
  by (auto simp: frames_def)

lemma net_shape_frame: "net_shape N Q \<Longrightarrow> Q q = Some x \<Longrightarrow> chain_frame N (frames Q) q (frame_of x)"
  by (auto simp: net_shape_def)

lemma net_query:
  assumes "net_shape N Q" "Q q = Some x"
  shows "q < N" "q_union x = None" "q_partOf x = []" "distinct (q_children x)"
    "c \<in> set (q_children x) \<Longrightarrow> \<exists>y. Q c = Some y \<and> q_parent y = Some q"
    "q_parent x = None \<Longrightarrow> q_filter x = None"
    "q_parent x = Some p \<Longrightarrow> p < q \<and> (\<exists>px. Q p = Some px \<and> q \<in> set (q_children px)) \<and>
      (\<exists>pt. q_filter x = Some (By_pattern pt) \<and> \<not> p_optional pt)"
  using net_shape_frame [OF assms] by (fastforce simp: chain_frame_def)+

lemma net_shape_same: "net_shape N Q \<Longrightarrow> frames R = frames Q \<Longrightarrow> net_shape N R"
  by (simp add: net_shape_def)

lemma frames_upd: "Q q = Some x \<Longrightarrow> frame_of y = frame_of x \<Longrightarrow> frames (Q(q \<mapsto> y)) = frames Q"
  by (auto simp: frames_def)

section \<open>Ancestors\<close>

definition parents :: "query_table \<Rightarrow> nat \<Rightarrow> nat option" where
  "parents Q q = (case Q q of Some x \<Rightarrow> q_parent x | None \<Rightarrow> None)"

lemma parents_same: "frames R = frames Q \<Longrightarrow> parents R = parents Q"
proof (rule ext)
  fix q assume "frames R = frames Q"
  then have "map_option frame_of (R q) = map_option frame_of (Q q)" by (metis frames_def)
  then show "parents R q = parents Q q" by (auto simp: parents_def dest: frame_eqD split: option.splits)
qed

inductive under :: "(nat \<Rightarrow> nat option) \<Rightarrow> nat \<Rightarrow> nat \<Rightarrow> bool" for pa where
  under_refl [intro]: "under pa q q"
| under_step: "pa y = Some p \<Longrightarrow> under pa q p \<Longrightarrow> under pa q y"

definition upward :: "(nat \<Rightarrow> nat option) \<Rightarrow> bool" where
  "upward pa \<longleftrightarrow> (\<forall>y p. pa y = Some p \<longrightarrow> p < y)"

lemma net_upward: "net_shape N Q \<Longrightarrow> upward (parents Q)"
  by (auto simp: upward_def parents_def dest: net_query(7) split: option.splits)

lemma under_le: "under pa q y \<Longrightarrow> upward pa \<Longrightarrow> q \<le> y"
  by (induction rule: under.induct) (auto simp: upward_def dest: less_imp_le order_trans)

lemma under_child: "under pa c y \<Longrightarrow> pa c = Some q \<Longrightarrow> under pa q y"
  by (induction rule: under.induct) (auto intro: under_step)

lemma under_parent: "upward pa \<Longrightarrow> pa c = Some q \<Longrightarrow> \<not> under pa c q"
  using under_le [of pa c q] unfolding upward_def by (metis leD)

lemma under_sibling:
  assumes "upward pa" "pa c = Some q" "pa e = Some q" "c \<noteq> e"
  shows "\<not> under pa c e"
  using assms under_parent [OF assms(1,2)] by (auto elim: under.cases)

section \<open>What an activation does\<close>

definition grow :: "rdf_match list \<Rightarrow> rdf_query \<Rightarrow> rdf_query" where
  "grow ms x = push_items (map m_bindings ms) (x\<lparr>q_matches := q_matches x @ ms\<rparr>)"

lemma grow_Nil [simp]: "grow [] x = x"
  by (simp add: grow_def push_items_def)

lemma grow_fields [simp]:
  "frame_of (grow ms x) = frame_of x" "q_alpha (grow ms x) = q_alpha x" "q_matches (grow ms x) = q_matches x @ ms"
  "q_parent (grow ms x) = q_parent x" "q_union (grow ms x) = q_union x" "q_filter (grow ms x) = q_filter x"
  "q_databank (grow ms x) = q_databank x" "q_children (grow ms x) = q_children x"
  by (simp_all add: grow_def push_items_def frame_of_def)

text \<open>The items of the array are the matches' bindings.\<close>

definition array_ok :: "rdf_query \<Rightarrow> bool" where
  "array_ok x \<longleftrightarrow> q_length x \<le> length (q_items x) \<and> q_bindings x = map m_bindings (q_matches x)"

lemma array_ok_grow: "array_ok x \<Longrightarrow> array_ok (grow ms x)"
proof -
  assume ok: "array_ok x"
  then have len: "q_length x = length (q_matches x)"
    unfolding array_ok_def q_bindings_def by (metis length_map length_take min.absorb2)
  then have items: "take (length (q_matches x)) (q_items x) = map m_bindings (q_matches x)"
    using ok by (simp add: array_ok_def q_bindings_def)
  show ?thesis by (simp add: array_ok_def grow_def push_items_def q_bindings_def len items)
qed

text \<open>A query holds the join of its parent's matches with its own memory.\<close>

definition joined :: "query_table \<Rightarrow> nat \<Rightarrow> bool" where
  "joined Q q \<longleftrightarrow> (\<forall>x. Q q = Some x \<longrightarrow> array_ok x \<and>
     (\<forall>p px. q_parent x = Some p \<longrightarrow> Q p = Some px \<longrightarrow>
        mset (q_matches x) = mset (if q_top px then q_alpha x else mergeMatches (q_matches px) (q_alpha x) False)))"

definition effect :: "query_table \<Rightarrow> query_table \<Rightarrow> nat \<Rightarrow> rdf_match list \<Rightarrow> bool" where
  "effect Q R q ms \<longleftrightarrow>
     frames R = frames Q \<and>
     (\<forall>y. map_option q_alpha (R y) = map_option q_alpha (Q y)) \<and>
     (\<forall>y. \<not> under (parents Q) q y \<longrightarrow> R y = Q y) \<and>
     R q = map_option (grow ms) (Q q) \<and>
     (\<forall>y. y \<noteq> q \<longrightarrow> joined Q y \<longrightarrow> joined R y)"

definition kids :: "query_table \<Rightarrow> query_table \<Rightarrow> rdf_match list \<Rightarrow> nat list \<Rightarrow> bool" where
  "kids Q R ms cs \<longleftrightarrow>
     frames R = frames Q \<and>
     (\<forall>y. map_option q_alpha (R y) = map_option q_alpha (Q y)) \<and>
     (\<forall>y. (\<forall>c\<in>set cs. \<not> under (parents Q) c y) \<longrightarrow> R y = Q y) \<and>
     (\<forall>c\<in>set cs. R c = map_option (\<lambda>y. grow (mergeMatches ms (q_alpha y) False) y) (Q c)) \<and>
     (\<forall>y. y \<notin> set cs \<longrightarrow> joined Q y \<longrightarrow> joined R y)"

lemma kids_Nil [simp]: "kids Q Q ms []"
  by (simp add: kids_def)

lemma kids_Cons:
  assumes "effect Q P c (mergeMatches ms (q_alpha y) False)" "Q c = Some y" "kids P R ms cs" "c \<notin> set cs"
    and up: "upward (parents Q)" "\<forall>e\<in>set (c # cs). parents Q e = Some q"
  shows "kids Q R ms (c # cs)"
proof -
  have pa: "parents P = parents Q" using assms(1) by (intro parents_same) (simp add: effect_def)
  have apart: "\<not> under (parents Q) e c" "\<not> under (parents Q) c e" if "e \<in> set cs" for e
    using under_sibling [OF up(1), of c q e] under_sibling [OF up(1), of e q c] up(2) assms(4) that by auto
  have "R c = P c" using assms(3) apart pa by (simp add: kids_def)
  moreover have "P e = Q e" if "e \<in> set cs" for e using assms(1) apart(2) [OF that] by (simp add: effect_def)
  ultimately show ?thesis using assms(1-3) pa by (simp add: kids_def effect_def)
qed

lemma each_child:
  assumes "net_shape N Q" "Q q = Some x" "q_parent x = Some p" "set cs \<subseteq> set (q_children x)" "distinct cs"
    and step: "\<And>c y P. c \<in> set (q_children x) \<Longrightarrow> net_shape N P \<Longrightarrow> P c = Some y \<Longrightarrow> q_parent y = Some q \<Longrightarrow>
      P q = Some x \<Longrightarrow>
      \<exists>R. f c (w\<lparr>w_queries := P\<rparr>) = (Inr (), w\<lparr>w_queries := R\<rparr>) \<and> effect P R c (mergeMatches ms (q_alpha y) False)"
  shows "\<exists>R. each_step f cs (w\<lparr>w_queries := Q\<rparr>) = (Inr (), w\<lparr>w_queries := R\<rparr>) \<and> kids Q R ms cs"
  using assms(1-5)
proof (induction cs arbitrary: Q)
  case Nil
  then show ?case by (auto simp: ret_def)
next
  case (Cons c cs)
  have parent: "\<exists>y. Q e = Some y \<and> q_parent y = Some q" if "e \<in> set (c # cs)" for e
    using Cons.prems that net_query(5) [OF Cons.prems(1,2)] by blast
  obtain y where y: "Q c = Some y" "q_parent y = Some q" using parent by auto
  obtain P where P: "f c (w\<lparr>w_queries := Q\<rparr>) = (Inr (), w\<lparr>w_queries := P\<rparr>)"
      "effect Q P c (mergeMatches ms (q_alpha y) False)"
    using step [OF _ Cons.prems(1) y Cons.prems(2)] Cons.prems(4) by auto
  have up: "upward (parents Q)" "\<forall>e\<in>set (c # cs). parents Q e = Some q"
    using net_upward [OF Cons.prems(1)] parent by (fastforce simp: parents_def)+
  have "net_shape N P" using P(2) net_shape_same [OF Cons.prems(1)] by (simp add: effect_def)
  moreover have "P q = Some x"
    using P(2) under_parent [OF up(1)] up(2) Cons.prems(2) by (simp add: effect_def)
  ultimately obtain R where R: "each_step f cs (w\<lparr>w_queries := P\<rparr>) = (Inr (), w\<lparr>w_queries := R\<rparr>)" "kids P R ms cs"
    using Cons.IH [of P] Cons.prems by auto
  have "kids Q R ms (c # cs)" using kids_Cons [OF P(2) y(1) R(2) _ up] Cons.prems(5) by simp
  then show ?case using P(1) R(1) by (auto simp: then_step_Inr)
qed

lemma joined_other:
  assumes "joined Q y" "y \<noteq> q" "\<And>x. Q y = Some x \<Longrightarrow> q_parent x \<noteq> Some q"
  shows "joined (Q(q := x)) y"
  using assms by (auto simp: joined_def)

lemma effect_from_kids:
  assumes net: "net_shape N Q" and q: "Q q = Some x" "q_parent x = Some p"
    and kids: "kids Q R ms (q_children x)" "R q = Some x"
  shows "effect Q (R(q \<mapsto> grow ms x)) q ms"
proof -
  let ?R = "R(q \<mapsto> grow ms x)"
  have fr: "frames ?R = frames Q" using kids by (simp add: frames_upd kids_def)
  have netR: "net_shape N R" using kids(1) net_shape_same [OF net] by (simp add: kids_def)
  have child: "parents Q c = Some q" if "c \<in> set (q_children x)" for c
    using net_query(5) [OF net q(1) that] by (auto simp: parents_def)
  have "?R y = Q y" if "\<not> under (parents Q) q y" for y
  proof -
    have "\<not> under (parents Q) c y" if "c \<in> set (q_children x)" for c
      using \<open>\<not> under (parents Q) q y\<close> under_child child [OF that] by blast
    moreover have "y \<noteq> q" using that by auto
    ultimately show ?thesis using kids by (simp add: kids_def)
  qed
  moreover have "joined ?R y" if y: "y \<noteq> q" "joined Q y" for y
  proof (cases "y \<in> set (q_children x)")
    case True
    obtain z where z: "Q y = Some z" "q_parent z = Some q" using net_query(5) [OF net q(1) True] by blast
    then have "R y = Some (grow (mergeMatches ms (q_alpha z) False) z)" using kids True by (simp add: kids_def)
    moreover have "array_ok z" "mset (q_matches z) = mset (mergeMatches (q_matches x) (q_alpha z) False)"
      using y(2) z q by (auto simp: joined_def q_top_def)
    ultimately show ?thesis using y(1) z q
      by (auto simp: joined_def array_ok_grow q_top_def merge_append_left)
  next
    case False
    then have "joined R y" using kids y(2) by (simp add: kids_def)
    moreover have "q_parent z \<noteq> Some q" if "R y = Some z" for z
      using net_query(7) [OF netR that, of q] False kids(2) by auto
    ultimately show ?thesis using y(1) joined_other by blast
  qed
  moreover have "map_option q_alpha (?R y) = map_option q_alpha (Q y)" for y
    using kids q by (simp add: kids_def)
  ultimately show ?thesis using fr q(1) by (simp add: effect_def)
qed

lemma left_matches_chain:
  assumes "net_shape N Q" "Q q = Some x" "q_parent x = Some p" "Q p = Some px"
  shows "left_matches x ms (w\<lparr>w_queries := Q\<rparr>) =
    (Inr (if q_top px then q_alpha x
          else mergeMatches (case ms of Some m \<Rightarrow> m | None \<Rightarrow> q_matches px) (q_alpha x) False), w\<lparr>w_queries := Q\<rparr>)"
  using net_query(2,7) [OF assms(1,2)] assms(3,4)
  by (auto simp: left_matches_def bind_step_def the_query_def ret_def Let_def)

lemma effect_Nil: "effect Q Q q []"
  by (cases "Q q") (simp_all add: effect_def)

lemma activate_update:
  assumes "net_shape N Q" "Q q = Some x" "q_parent x = Some p" "2 * (N - q) < n"
  shows "\<exists>R. activate n (Update_query q ms) (w\<lparr>w_queries := Q\<rparr>) = (Inr (), w\<lparr>w_queries := R\<rparr>) \<and> effect Q R q ms"
  using assms
proof (induction n arbitrary: Q q x p ms rule: less_induct)
  case (less n)
  obtain m where n: "n = Suc m" using less.prems(4) by (cases n) auto
  show ?case
  proof (cases "ms = []")
    case True
    then show ?thesis using n effect_Nil by (auto simp: ret_def)
  next
    case False
    have step: "\<exists>R. activate m (Left_activate c (Some ms)) (w\<lparr>w_queries := P\<rparr>) = (Inr (), w\<lparr>w_queries := R\<rparr>) \<and>
        effect P R c (mergeMatches ms (q_alpha y) False)"
      if P: "net_shape N P" "P c = Some y" "q_parent y = Some q" "P q = Some x" for c y P
    proof -
      have c: "q < c" "c < N" using net_query(1,7) [OF P(1,2)] P(3) by auto
      then obtain k where k: "m = Suc k" "2 * (N - c) < k" "k < n"
        using less.prems(4) n by (cases m) auto
      have "\<not> q_top x" using less.prems(3) by (simp add: q_top_def)
      then have "activate m (Left_activate c (Some ms)) (w\<lparr>w_queries := P\<rparr>) =
          activate k (Update_query c (mergeMatches ms (q_alpha y) False)) (w\<lparr>w_queries := P\<rparr>)"
        using left_matches_chain [OF P] k(1) P(2) by (simp add: bind_step_def the_query_def)
      then show ?thesis using less.IH [OF k(3) P(1-3) k(2)] by simp
    qed
    obtain R where R: "each_step (\<lambda>c. activate m (Left_activate c (Some ms))) (q_children x) (w\<lparr>w_queries := Q\<rparr>) =
        (Inr (), w\<lparr>w_queries := R\<rparr>)" "kids Q R ms (q_children x)"
      using each_child [OF less.prems(1-3) order_refl net_query(4) [OF less.prems(1,2)] step] by blast
    have "\<not> under (parents Q) c q" if "c \<in> set (q_children x)" for c
      using net_query(5) [OF less.prems(1,2) that] under_parent [OF net_upward [OF less.prems(1)]]
      by (auto simp: parents_def)
    then have q: "R q = Some x" using R(2) less.prems(2) by (simp add: kids_def)
    have "activate n (Update_query q ms) (w\<lparr>w_queries := Q\<rparr>) =
        (Inr (), w\<lparr>w_queries := R(q \<mapsto> grow ms x)\<rparr>)"
      using False n less.prems(2) q net_query(3) [OF less.prems(1,2)]
      by (simp add: bind_step_def the_query_def R(1) set_query_def grow_def then_step_def ret_def)
    then show ?thesis using effect_from_kids [OF less.prems(1-3) R(2) q] by blast
  qed
qed

section \<open>The news of a triple\<close>

text \<open>What a triple adds to the own memory of a query.\<close>

definition hit :: "rdf_triple \<Rightarrow> rdf_query \<Rightarrow> rdf_match list" where
  "hit t x = (case q_filter x of Some (By_pattern p) \<Rightarrow> (case match_of p t of Some m \<Rightarrow> [m] | None \<Rightarrow> []) | _ \<Rightarrow> [])"

definition remember :: "rdf_triple \<Rightarrow> nat list \<Rightarrow> query_table \<Rightarrow> query_table \<Rightarrow> bool" where
  "remember t qs Q R \<longleftrightarrow> frames R = frames Q \<and>
     (\<forall>y. map_option q_alpha (R y) = map_option (\<lambda>x. q_alpha x @ (if y \<in> set qs then hit t x else [])) (Q y))"

lemma remember_step:
  assumes net: "net_shape N Q" and all: "\<forall>y. joined Q y" and q: "Q q = Some x" "q_filter x = Some (By_pattern p)"
    and n: "2 * N < n"
  shows "\<exists>R. addToQuery n t q (w\<lparr>w_queries := Q\<rparr>) = (Inr (), w\<lparr>w_queries := R\<rparr>) \<and>
    (\<forall>y. joined R y) \<and> remember t [q] Q R"
proof (cases "match_of p t")
  case None
  then have "addToQuery n t q (w\<lparr>w_queries := Q\<rparr>) = (Inr (), w\<lparr>w_queries := Q\<rparr>)"
    using q by (simp add: addToQuery_def bind_step_def the_query_def query_pattern_def ret_def)
  moreover have "map_option q_alpha (Q y) = map_option (\<lambda>x. q_alpha x @ (if y \<in> set [q] then hit t x else [])) (Q y)" for y
    using None q by (cases "Q y") (auto simp: hit_def)
  then have "remember t [q] Q Q" by (simp add: remember_def)
  ultimately show ?thesis using all by blast
next
  case (Some m)
  obtain pa where pa: "q_parent x = Some pa" using net_query(6) [OF net q(1)] q(2) by fastforce
  then obtain px where px: "Q pa = Some px" "pa < q" "\<not> p_optional p" using net_query(7) [OF net q(1)] q(2) by fastforce
  let ?x = "x\<lparr>q_alpha := q_alpha x @ [m]\<rparr>"
  let ?P = "Q(q \<mapsto> ?x)" and ?ms = "if q_top px then [m] else mergeMatches (q_matches px) [m] False"
  have fr: "frames ?P = frames Q" using q(1) by (intro frames_upd) (auto simp: frame_of_def)
  have netP: "net_shape N ?P" using net_shape_same [OF net fr] .
  obtain R where R: "activate n (Update_query q ?ms) (w\<lparr>w_queries := ?P\<rparr>) = (Inr (), w\<lparr>w_queries := R\<rparr>)"
      "effect ?P R q ?ms"
  proof -
    have "2 * (N - q) < n" using n by simp
    then show thesis using activate_update [OF netP, of q ?x pa n ?ms w] pa that by fastforce
  qed
  have "addToQuery n t q (w\<lparr>w_queries := Q\<rparr>) = (Inr (), w\<lparr>w_queries := R\<rparr>)"
    using R(1) q pa px Some
    by (simp add: addToQuery_def bind_step_def the_query_def query_pattern_def ret_def set_query_def then_step_def
        rightActivate_def updateQuery_def split: if_splits)
  moreover have "remember t [q] Q R"
    using R(2) fr q Some by (auto simp: remember_def effect_def hit_def)
  moreover have "joined R y" for y
  proof (cases "y = q")
    case True
    have "R pa = Some px"
      using R(2) px under_parent [OF net_upward [OF netP], of q pa] pa by (simp add: effect_def parents_def)
    moreover have "R q = Some (grow ?ms ?x)" using R(2) by (simp add: effect_def)
    moreover have "array_ok ?x" "mset (q_matches x) = mset (if q_top px then q_alpha x else mergeMatches (q_matches px) (q_alpha x) False)"
      using all q pa px by (auto simp: joined_def array_ok_def q_bindings_def)
    ultimately show ?thesis using True pa by (auto simp: joined_def array_ok_grow merge_append_right)
  next
    case False
    have "joined ?P y" using all False q(1) unfolding joined_def by (auto simp: q_top_def)
    then show ?thesis using R(2) False by (simp add: effect_def)
  qed
  ultimately show ?thesis by blast
qed

lemma frame_hit: "frame_of x = frame_of y \<Longrightarrow> hit t x = hit t y"
  using frame_eqD [of x y] by (simp add: hit_def)

lemma remember_Nil [simp]: "remember t [] Q Q"
  by (simp add: remember_def)

lemma rememberD:
  assumes "remember t qs Q R" "Q y = Some x"
  obtains z where "R y = Some z" "frame_of z = frame_of x" "q_alpha z = q_alpha x @ (if y \<in> set qs then hit t x else [])"
proof -
  have "frames R y = frames Q y" using assms(1) by (simp add: remember_def)
  then obtain z where z: "R y = Some z" "frame_of z = frame_of x" using assms(2) by (auto simp: frames_def)
  have "map_option q_alpha (R y) = map_option (\<lambda>x. q_alpha x @ (if y \<in> set qs then hit t x else [])) (Q y)"
    using assms(1) unfolding remember_def by blast
  then show thesis using that z assms(2) by simp
qed

lemma remember_append:
  assumes "remember t qs Q P" "remember t rs P R" "set qs \<inter> set rs = {}"
  shows "remember t (qs @ rs) Q R"
proof -
  have "map_option q_alpha (R y) = map_option (\<lambda>x. q_alpha x @ (if y \<in> set (qs @ rs) then hit t x else [])) (Q y)" for y
  proof (cases "Q y")
    case None
    have "frames R y = frames Q y" using assms(1,2) by (simp add: remember_def)
    then show ?thesis using None by (simp add: frames_def)
  next
    case (Some x)
    obtain z where z: "P y = Some z" "frame_of z = frame_of x" "q_alpha z = q_alpha x @ (if y \<in> set qs then hit t x else [])"
      using rememberD [OF assms(1) Some] .
    obtain u where "R y = Some u" "q_alpha u = q_alpha z @ (if y \<in> set rs then hit t z else [])"
      using rememberD [OF assms(2) z(1)] .
    then show ?thesis using Some assms(3) z frame_hit [OF z(2)] by auto
  qed
  then show ?thesis using assms(1,2) by (simp add: remember_def)
qed

text \<open>Every query of a list is one of the table with a pattern.\<close>

definition patterns_at :: "query_table \<Rightarrow> nat list \<Rightarrow> bool" where
  "patterns_at Q qs \<longleftrightarrow> (\<forall>q\<in>set qs. \<exists>x p. Q q = Some x \<and> q_filter x = Some (By_pattern p))"

lemma patterns_same:
  assumes "frames R = frames Q" "patterns_at Q qs"
  shows "patterns_at R qs"
  unfolding patterns_at_def
proof
  fix q assume "q \<in> set qs"
  then obtain x p where x: "Q q = Some x" "q_filter x = Some (By_pattern p)" using assms(2) by (auto simp: patterns_at_def)
  then have "frames R q = Some (frame_of x)" using assms(1) by simp
  then show "\<exists>x p. R q = Some x \<and> q_filter x = Some (By_pattern p)" using x(2) by (auto dest: frame_eqD)
qed

lemma remember_list:
  assumes "net_shape N Q" "\<forall>y. joined Q y" "patterns_at Q qs" "distinct qs" "2 * N < n"
  shows "\<exists>R. each_step (addToQuery n t) qs (w\<lparr>w_queries := Q\<rparr>) = (Inr (), w\<lparr>w_queries := R\<rparr>) \<and>
    (\<forall>y. joined R y) \<and> remember t qs Q R"
  using assms
proof (induction qs arbitrary: Q)
  case Nil
  then show ?case by (auto simp: ret_def)
next
  case (Cons q qs)
  obtain x p where q: "Q q = Some x" "q_filter x = Some (By_pattern p)" using Cons.prems(3) by (auto simp: patterns_at_def)
  obtain P where P: "addToQuery n t q (w\<lparr>w_queries := Q\<rparr>) = (Inr (), w\<lparr>w_queries := P\<rparr>)" "\<forall>y. joined P y"
      "remember t [q] Q P"
    using remember_step [OF Cons.prems(1,2) q Cons.prems(5)] by blast
  have fr: "frames P = frames Q" using P(3) by (simp add: remember_def)
  have "patterns_at Q qs" using Cons.prems(3) by (simp add: patterns_at_def)
  then have "patterns_at P qs" using patterns_same [OF fr] by blast
  then obtain R where R: "each_step (addToQuery n t) qs (w\<lparr>w_queries := P\<rparr>) = (Inr (), w\<lparr>w_queries := R\<rparr>)"
      "\<forall>y. joined R y" "remember t qs P R"
    using Cons.IH [OF net_shape_same [OF Cons.prems(1) fr] P(2)] Cons.prems by auto
  have "remember t (q # qs) Q R" using remember_append [OF P(3) R(3)] Cons.prems(4) by simp
  then show ?case using P(1) R(1,2) by (auto simp: then_step_Inr)
qed

lemma remember_keys:
  assumes bank: "w_banks w d = Some (Bank b)"
    and "net_shape N Q" "\<forall>y. joined Q y" "patterns_at Q (concat (map (b_queries b) ks))"
      "distinct (concat (map (b_queries b) ks))" "2 * N < n"
  shows "\<exists>R. each_step (\<lambda>k. bind_step (queries_at d k) (each_step (addToQuery n t))) ks (w\<lparr>w_queries := Q\<rparr>) =
      (Inr (), w\<lparr>w_queries := R\<rparr>) \<and> (\<forall>y. joined R y) \<and> remember t (concat (map (b_queries b) ks)) Q R"
  using assms(2-)
proof (induction ks arbitrary: Q)
  case Nil
  then show ?case by (auto simp: ret_def)
next
  case (Cons k ks)
  obtain P where P: "each_step (addToQuery n t) (b_queries b k) (w\<lparr>w_queries := Q\<rparr>) = (Inr (), w\<lparr>w_queries := P\<rparr>)"
      "\<forall>y. joined P y" "remember t (b_queries b k) Q P"
    using remember_list [OF Cons.prems(1,2) _ _ Cons.prems(5), of "b_queries b k" t w] Cons.prems(3,4)
    by (auto simp: patterns_at_def)
  have fr: "frames P = frames Q" using P(3) by (simp add: remember_def)
  have "patterns_at Q (concat (map (b_queries b) ks))" using Cons.prems(3) by (simp add: patterns_at_def)
  then have "patterns_at P (concat (map (b_queries b) ks))" using patterns_same [OF fr] by blast
  then obtain R where R: "each_step (\<lambda>k. bind_step (queries_at d k) (each_step (addToQuery n t))) ks (w\<lparr>w_queries := P\<rparr>) =
      (Inr (), w\<lparr>w_queries := R\<rparr>)" "\<forall>y. joined R y" "remember t (concat (map (b_queries b) ks)) P R"
    using Cons.IH [OF net_shape_same [OF Cons.prems(1) fr] P(2)] Cons.prems by auto
  have "remember t (concat (map (b_queries b) (k # ks))) Q R" using remember_append [OF P(3) R(3)] Cons.prems(4) by simp
  moreover have "bind_step (queries_at d k) (each_step (addToQuery n t)) (w\<lparr>w_queries := Q\<rparr>) = (Inr (), w\<lparr>w_queries := P\<rparr>)"
    using P(1) bank by (simp add: queries_at_def bind_step_def the_bank_def ret_def)
  ultimately show ?case using R by (auto simp: then_step_Inr)
qed

end
