(* ===== verification/RdfAnswers.thy ===== *)
theory RdfAnswers
  imports RdfLive
begin

text \<open>
  What the queries of a page answer. For chains of patterns over one databank the matches of a
  query are the solutions of its patterns over the triples of the databank: after a query has
  been narrowed with \<open>where\<close>, and after triples have been added.
\<close>

section \<open>Registered queries\<close>

definition pattern_key :: "rdf_pattern \<Rightarrow> string \<times> string \<times> string" where
  "pattern_key p = (var_key (p_subject p), var_key (p_property p), var_key (p_object p))"

definition bank_live :: "query_table \<Rightarrow> nat \<Rightarrow> rdf_bank \<Rightarrow> bool" where
  "bank_live Q d b \<longleftrightarrow>
     (\<forall>q x p. Q q = Some x \<longrightarrow> q_databank x = d \<longrightarrow> q_filter x = Some (By_pattern p) \<longrightarrow>
        q_alpha x = List.map_filter (match_of p) (b_store b) \<and> q \<in> set (b_queries b (pattern_key p))) \<and>
     (\<forall>k. distinct (b_queries b k) \<and> (\<forall>q\<in>set (b_queries b k).
        \<exists>x p. Q q = Some x \<and> q_databank x = d \<and> q_filter x = Some (By_pattern p) \<and> pattern_key p = k))"

text \<open>A page whose queries are all chains of patterns, with true memories.\<close>

definition live :: "world \<Rightarrow> bool" where
  "live w \<longleftrightarrow> net_shape (w_next_query w) (w_queries w) \<and> (\<forall>q. joined (w_queries w) q) \<and>
     (\<forall>d b. w_banks w d = Some (Bank b) \<longrightarrow> bank_wf b \<and> bank_live (w_queries w) d b)"

lemma liveD:
  assumes "live w"
  shows "net_shape (w_next_query w) (w_queries w)" "joined (w_queries w) q"
    "w_banks w d = Some (Bank b) \<Longrightarrow> bank_wf b" "w_banks w d = Some (Bank b) \<Longrightarrow> bank_live (w_queries w) d b"
  using assms by (simp_all add: live_def)

lemma node_text_nonempty [simp]: "node_toString n \<noteq> []" "[] \<noteq> node_toString n"
  by (cases n; simp add: node_toString_def)+

lemma distinct_query_keys [simp]: "distinct (query_keys t)"
  by (simp add: query_keys_def Let_def)

lemma match_key: "match_of p t = Some m \<Longrightarrow> pattern_key p \<in> set (query_keys t)"
  by (cases "p_subject p"; cases "p_property p"; cases "p_object p")
    (auto simp: pattern_key_def query_keys_def Let_def var_key_def dest: match_of_fixed)

lemma bank_live_query:
  assumes "bank_live Q d b" "q \<in> set (b_queries b k)"
  obtains x p where "Q q = Some x" "q_databank x = d" "q_filter x = Some (By_pattern p)" "pattern_key p = k"
  using assms unfolding bank_live_def by metis

lemma bank_live_distinct:
  assumes "bank_live Q d b" "distinct ks"
  shows "distinct (concat (map (b_queries b) ks))"
  using assms(2)
proof (induction ks)
  case (Cons k ks)
  have "set (b_queries b k) \<inter> set (b_queries b l) = {}" if "l \<in> set ks" for l
  proof -
    have "k \<noteq> l" using Cons.prems that by auto
    then have "q \<notin> set (b_queries b l)" if "q \<in> set (b_queries b k)" for q
      using bank_live_query [OF assms(1)] that by (metis option.inject rdf_filter.inject(1))
    then show ?thesis by blast
  qed
  moreover have "distinct (b_queries b k)" using assms(1) unfolding bank_live_def by blast
  ultimately show ?case using Cons by auto
qed simp

lemma bank_live_patterns: "bank_live Q d b \<Longrightarrow> patterns_at Q (concat (map (b_queries b) ks))"
  by (fastforce simp: bank_live_def patterns_at_def)

text \<open>The memories of a databank after the news of a triple at its end.\<close>

lemma bank_live_remember:
  assumes live: "bank_live Q d b" and R: "remember t (concat (map (b_queries b) (query_keys t))) Q R"
    and c: "b_store c = b_store b @ [t]" "b_queries c = b_queries b"
  shows "bank_live R d c"
proof -
  have before: "\<exists>x. Q q = Some x \<and> frame_of x = frame_of y \<and>
      q_alpha y = q_alpha x @ (if q \<in> set (concat (map (b_queries b) (query_keys t))) then hit t x else [])"
    if Ry: "R q = Some y" for q y
  proof -
    have "frames Q q = frames R q" using R by (simp add: remember_def)
    then obtain x where x: "Q q = Some x" using Ry by (auto simp: frames_def)
    then show ?thesis using rememberD [OF R x] Ry by (metis option.inject)
  qed
  have "q_alpha y = List.map_filter (match_of p) (b_store c) \<and> q \<in> set (b_queries c (pattern_key p))"
    if y: "R q = Some y" "q_databank y = d" "q_filter y = Some (By_pattern p)" for q y p
  proof -
    obtain x where x: "Q q = Some x" "frame_of x = frame_of y"
      "q_alpha y = q_alpha x @ (if q \<in> set (concat (map (b_queries b) (query_keys t))) then hit t x else [])"
      using before [OF y(1)] by blast
    then have old: "q_alpha x = List.map_filter (match_of p) (b_store b)" "q \<in> set (b_queries b (pattern_key p))"
      using live y frame_eqD [OF x(2)] by (auto simp: bank_live_def)
    have f: "q_filter x = Some (By_pattern p)" using frame_eqD [OF x(2)] y(3) by simp
    have "(if q \<in> set (concat (map (b_queries b) (query_keys t))) then hit t x else []) = List.map_filter (match_of p) [t]"
    proof (cases "match_of p t")
      case (Some m)
      then show ?thesis using match_key [OF Some] old(2) f by (auto simp: hit_def map_filter_simps)
    qed (simp add: hit_def f map_filter_simps)
    then show ?thesis using x(3) old c by (simp add: map_filter_def)
  qed
  moreover have "\<exists>y p. R q = Some y \<and> q_databank y = d \<and> q_filter y = Some (By_pattern p) \<and> pattern_key p = k"
    if q: "q \<in> set (b_queries c k)" for q k
  proof -
    obtain x p where x: "Q q = Some x" "q_databank x = d" "q_filter x = Some (By_pattern p)" "pattern_key p = k"
      using bank_live_query [OF live] q c(2) by metis
    obtain y where "R q = Some y" "frame_of y = frame_of x" using rememberD [OF R x(1)] by blast
    then show ?thesis using x frame_eqD by metis
  qed
  ultimately show ?thesis using live c(2) by (simp add: bank_live_def)
qed

text \<open>Other databanks have other queries.\<close>

lemma bank_live_other:
  assumes live: "bank_live Q e b" and d: "bank_live Q d c" "e \<noteq> d"
    and R: "remember t (concat (map (b_queries c) ks)) Q R"
  shows "bank_live R e b"
proof -
  have before: "\<exists>x. Q q = Some x \<and> frame_of x = frame_of y \<and> (q_databank y = e \<longrightarrow> q_alpha y = q_alpha x)"
    if Ry: "R q = Some y" for q y
  proof -
    have "frames Q q = frames R q" using R by (simp add: remember_def)
    then obtain x where x: "Q q = Some x" using Ry by (auto simp: frames_def)
    have z: "frame_of y = frame_of x" "q_alpha y = q_alpha x @ (if q \<in> set (concat (map (b_queries c) ks)) then hit t x else [])"
      using rememberD [OF R x] Ry by (metis option.inject)+
    moreover have "q \<notin> set (concat (map (b_queries c) ks))" if "q_databank y = e"
      using that frame_eqD [OF z(1)] x d unfolding bank_live_def by fastforce
    ultimately show ?thesis using x by auto
  qed
  have "q_alpha y = List.map_filter (match_of p) (b_store b) \<and> q \<in> set (b_queries b (pattern_key p))"
    if y: "R q = Some y" "q_databank y = e" "q_filter y = Some (By_pattern p)" for q y p
    using before [OF y(1)] y live frame_eqD unfolding bank_live_def by metis
  moreover have "\<exists>y p. R q = Some y \<and> q_databank y = e \<and> q_filter y = Some (By_pattern p) \<and> pattern_key p = k"
    if q: "q \<in> set (b_queries b k)" for q k
  proof -
    obtain x p where x: "Q q = Some x" "q_databank x = e" "q_filter x = Some (By_pattern p)" "pattern_key p = k"
      using bank_live_query [OF live q] by metis
    obtain y where "R q = Some y" "frame_of y = frame_of x" using rememberD [OF R x(1)] by blast
    then show ?thesis using x frame_eqD by metis
  qed
  ultimately show ?thesis using live by (simp add: bank_live_def)
qed

section \<open>Solutions\<close>

text \<open>The assignments of the variables that make every pattern a triple of the set.\<close>

definition solutions :: "rdf_triple set \<Rightarrow> rdf_pattern list \<Rightarrow> (string \<Rightarrow> rdf_node option) set" where
  "solutions S ps = {f. dom f = (\<Union>p\<in>set ps. pattern_vars p) \<and> (\<forall>p\<in>set ps. \<exists>t\<in>S. instance_of f p t)}"

abbreviation assignments :: "rdf_match list \<Rightarrow> (string \<Rightarrow> rdf_node option) set" where
  "assignments ms \<equiv> (\<lambda>m. map_of (m_bindings m)) ` set ms"

lemma instance_mono: "instance_of f p t \<Longrightarrow> f \<subseteq>\<^sub>m g \<Longrightarrow> instance_of g p t"
  by (auto simp: instance_of_def intro: inst_term_mono)

lemma instance_restrict: "instance_of f p t \<Longrightarrow> pattern_vars p \<subseteq> A \<Longrightarrow> instance_of (f |` A) p t"
  by (auto simp: instance_of_def inst_term_def pattern_vars_def term_vars_def split: pat_term.splits)

lemma instance_vars: "instance_of f p t \<Longrightarrow> pattern_vars p \<subseteq> dom f"
  by (auto simp: instance_of_def inst_term_def pattern_vars_def term_vars_def split: pat_term.splits)

lemma testResource_distinct: "testResource r t b = Some b' \<Longrightarrow> distinct (map fst b) \<Longrightarrow> distinct (map fst b')"
  by (auto simp: testResource_def distinct_update split: pat_term.splits option.splits if_splits)

lemma pat_exec_distinct: "pat_exec p t = Some b \<Longrightarrow> distinct (map fst b)"
  by (auto simp: pat_exec_def dest!: testResource_distinct split: option.splits)

lemma single_solutions: "assignments (List.map_filter (match_of p) S) = solutions (set S) [p]"
proof
  show "assignments (List.map_filter (match_of p) S) \<subseteq> solutions (set S) [p]"
    using pat_exec_sound by (fastforce simp: set_map_filter_Some match_of_def solutions_def)
  show "solutions (set S) [p] \<subseteq> assignments (List.map_filter (match_of p) S)"
  proof
    fix f assume "f \<in> solutions (set S) [p]"
    then obtain t where t: "t \<in> set S" "instance_of f p t" "dom f = pattern_vars p" by (auto simp: solutions_def)
    then obtain bs where bs: "pat_exec p t = Some bs" "map_of bs \<subseteq>\<^sub>m f" using pat_exec_complete by blast
    then have "map_of bs = f" using pat_exec_sound [OF bs(1)] t(3) by (metis map_le_antisym map_le_def)
    then show "f \<in> assignments (List.map_filter (match_of p) S)"
      using t(1) bs(1) by (force simp: set_map_filter_Some match_of_def)
  qed
qed

definition agree :: "(string \<Rightarrow> rdf_node option) \<Rightarrow> (string \<Rightarrow> rdf_node option) \<Rightarrow> bool" where
  "agree f g \<longleftrightarrow> (\<forall>k\<in>dom f \<inter> dom g. f k = g k)"

lemma compatible_agree: "distinct (map fst new) \<Longrightarrow> compatible old new \<longleftrightarrow> agree (map_of old) (map_of new)"
proof -
  assume "distinct (map fst new)"
  then have "compatible old new \<longleftrightarrow> (\<forall>k v. map_of new k = Some v \<longrightarrow> map_of old k = None \<or> map_of old k = Some v)"
    by (auto simp: compatible_def)
  also have "\<dots> \<longleftrightarrow> agree (map_of old) (map_of new)"  proof (intro iffI)
    assume l: "\<forall>k v. map_of new k = Some v \<longrightarrow> map_of old k = None \<or> map_of old k = Some v"
    show "agree (map_of old) (map_of new)" unfolding agree_def using l by fastforce
  next
    assume r: "agree (map_of old) (map_of new)"
    show "\<forall>k v. map_of new k = Some v \<longrightarrow> map_of old k = None \<or> map_of old k = Some v"
    proof (intro allI impI)
      fix k v assume "map_of new k = Some v"
      then show "map_of old k = None \<or> map_of old k = Some v"
        using bspec [OF r [unfolded agree_def], of k] by (cases "map_of old k") auto
    qed
  qed
  finally show ?thesis .
qed

lemma extend_bindings_map: "distinct (map fst new) \<Longrightarrow> map_of (extend_bindings old new) = map_of old ++ map_of new"
proof (induction new arbitrary: old)
  case (Cons kb new)
  obtain k v where kb: "kb = (k, v)" by (cases kb)
  have "map_of (extend_bindings old (kb # new)) = (map_of old)(k \<mapsto> v) ++ map_of new"
    using Cons kb by (simp add: extend_bindings_def update_conv')
  also have "\<dots> = map_of old ++ map_of (kb # new)"
    using Cons.prems kb by (simp add: map_add_upd_left dom_map_of_conv_image_fst)
  finally show ?case .
qed (simp add: extend_bindings_def)

lemma merge_assignments:
  assumes "\<forall>n\<in>set N. distinct (map fst (m_bindings n))"
  shows "assignments (mergeMatches A N False) = {f ++ g |f g. f \<in> assignments A \<and> g \<in> assignments N \<and> agree f g}"
  using assms by (force simp: merge_plain join_matches_def extend_bindings_map compatible_agree)

lemma solutions_snoc:
  "solutions S (ps @ [p]) = {f ++ g |f g. f \<in> solutions S ps \<and> g \<in> solutions S [p] \<and> agree f g}" (is "_ = ?R")
proof
  show "solutions S (ps @ [p]) \<subseteq> ?R"
  proof
    fix h assume h: "h \<in> solutions S (ps @ [p])"
    let ?V = "\<Union>p\<in>set ps. pattern_vars p"
    have d: "dom h = ?V \<union> pattern_vars p" using h by (auto simp: solutions_def)
    have "h |` ?V \<in> solutions S ps"
      using h d by (auto simp: solutions_def intro!: instance_restrict) (metis UN_upper instance_restrict)
    moreover have "h |` pattern_vars p \<in> solutions S [p]"
      using h d by (auto simp: solutions_def intro: instance_restrict)
    moreover have "h |` ?V ++ h |` pattern_vars p = h"
    proof
      fix k show "(h |` ?V ++ h |` pattern_vars p) k = h k"
        using d by (cases "h k") (auto simp: map_add_def restrict_map_def split: option.splits)
    qed
    moreover have "agree (h |` ?V) (h |` pattern_vars p)" by (auto simp: agree_def restrict_map_def split: if_splits)
    ultimately show "h \<in> ?R" by (metis (mono_tags, lifting) mem_Collect_eq)
  qed
  show "?R \<subseteq> solutions S (ps @ [p])"
  proof
    fix h assume "h \<in> ?R"
    then obtain f g where h: "h = f ++ g" "f \<in> solutions S ps" "g \<in> solutions S [p]" "agree f g" by blast
    have "h k = f k" if "k \<in> dom f" for k
      using h(1,4) that by (cases "k \<in> dom g") (simp_all add: agree_def map_add_dom_app_simps)
    then have "f \<subseteq>\<^sub>m h" by (simp add: map_le_def)
    moreover have "g \<subseteq>\<^sub>m h" using h(1) by (simp add: map_le_map_add)
    ultimately have "\<exists>t\<in>S. instance_of h r t" if r: "r \<in> set (ps @ [p])" for r
    proof (cases "r = p")
      case True
      then show ?thesis using h(3) \<open>g \<subseteq>\<^sub>m h\<close> instance_mono [of g r _ h] by (auto simp: solutions_def)
    next
      case False
      then obtain t where "t \<in> S" "instance_of f r t" using r h(2) by (auto simp: solutions_def)
      then show ?thesis using \<open>f \<subseteq>\<^sub>m h\<close> instance_mono by blast
    qed
    moreover have "dom h = (\<Union>r\<in>set (ps @ [p]). pattern_vars r)"
      using h(1-3) by (simp add: solutions_def Un_commute)
    ultimately show "h \<in> solutions S (ps @ [p])" by (simp add: solutions_def)
  qed
qed

section \<open>Chains\<close>

text \<open>The patterns from the top query to a query, all over one databank.\<close>

inductive chain :: "query_table \<Rightarrow> nat \<Rightarrow> nat \<Rightarrow> rdf_pattern list \<Rightarrow> bool" for Q d where
  chain_top: "Q q = Some x \<Longrightarrow> q_parent x = None \<Longrightarrow> q_databank x = d \<Longrightarrow> chain Q d q []"
| chain_step: "Q q = Some x \<Longrightarrow> q_parent x = Some r \<Longrightarrow> q_databank x = d \<Longrightarrow> q_filter x = Some (By_pattern p) \<Longrightarrow>
    chain Q d r ps \<Longrightarrow> chain Q d q (ps @ [p])"

lemma chain_top_iff:
  assumes "chain Q d q ps" "Q q = Some x" "q_union x = None"
  shows "q_top x \<longleftrightarrow> ps = []"
  using assms by (cases rule: chain.cases) (auto simp: q_top_def)

lemma chain_answers:
  assumes "chain Q d q ps" "ps \<noteq> []" "net_shape N Q" "\<forall>q. joined Q q" "bank_live Q d b"
  shows "\<exists>x. Q q = Some x \<and> assignments (q_matches x) = solutions (set (b_store b)) ps \<and>
    q_bindings x = map m_bindings (q_matches x)"
  using assms
proof (induction rule: chain.induct)
  case (chain_step q x r p ps)
  have alpha: "q_alpha x = List.map_filter (match_of p) (b_store b)"
    using chain_step by (auto simp: bank_live_def)
  have dist: "\<forall>n\<in>set (q_alpha x). distinct (map fst (m_bindings n))"
    using pat_exec_distinct by (auto simp: alpha set_map_filter_Some match_of_def)
  obtain px where px: "Q r = Some px" using net_query(7) [OF chain_step.prems(2) chain_step.hyps(1,2)] by blast
  have ok: "array_ok x" "mset (q_matches x) = mset (if q_top px then q_alpha x else mergeMatches (q_matches px) (q_alpha x) False)"
    using chain_step.prems(3) chain_step.hyps(1,2) px by (auto simp: joined_def)
  have ms: "set (q_matches x) = set (if q_top px then q_alpha x else mergeMatches (q_matches px) (q_alpha x) False)"
    using ok(2) mset_eq_setD by blast
  have top: "q_top px \<longleftrightarrow> ps = []"
    using chain_top_iff [OF chain_step.hyps(5) px] net_query(2) [OF chain_step.prems(2) px] by simp
  have "assignments (q_matches x) = solutions (set (b_store b)) (ps @ [p])"
  proof (cases "ps = []")
    case True
    then show ?thesis using ms top single_solutions [of p] alpha by simp
  next
    case False
    then have "assignments (q_matches px) = solutions (set (b_store b)) ps"
      using chain_step.IH [OF False] chain_step.prems px by auto
    then show ?thesis
      using ms top False merge_assignments [OF dist, of "q_matches px"] single_solutions [of p "b_store b"] alpha
      by (simp add: solutions_snoc [of _ ps])
  qed
  then show ?case using chain_step.hyps(1) ok(1) by (simp add: array_ok_def)
qed simp

lemma chain_frames:
  assumes "chain Q d q ps" "frames R = frames Q"
  shows "chain R d q ps"
  using assms(1)
proof (induction rule: chain.induct)
  case (chain_top q x)
  have "frames R q = Some (frame_of x)" using assms(2) chain_top by simp
  then obtain y where "R q = Some y" "frame_of x = frame_of y" by auto
  then show ?case using chain_top frame_eqD [of x y] by (intro chain.chain_top [of R q y]) auto
next
  case (chain_step q x r p ps)
  have "frames R q = Some (frame_of x)" using assms(2) chain_step by simp
  then obtain y where "R q = Some y" "frame_of x = frame_of y" by auto
  then show ?case using chain_step frame_eqD [of x y] by (intro chain.chain_step [of R q y r]) auto
qed

lemma frames_empty_dom: "frames R = frames Q \<Longrightarrow> R q = None \<longleftrightarrow> Q q = None"
  by (metis frames_def map_option_is_None)

section \<open>Adding a triple\<close>

lemma bank_insert_fresh: "t \<notin> set (b_store b) \<Longrightarrow> b_store (bank_insert t b) = b_store b @ [t]"
  by (simp add: bank_insert_def Let_def)

text \<open>The step of the code on a page with true memories.\<close>

lemma live_news:
  assumes live: "live w" and b: "w_banks w d = Some (Bank b)" and t: "t \<notin> set (b_store b)"
    and n: "2 * w_next_query w < n"
  shows "\<exists>R. addToDatabankQueries n d t (with_bank w d (bank_insert t b)) =
      (Inr (), (with_bank w d (bank_insert t b))\<lparr>w_queries := R\<rparr>) \<and>
    frames R = frames (w_queries w) \<and> live ((with_bank w d (bank_insert t b))\<lparr>w_queries := R\<rparr>)"
proof -
  let ?c = "bank_insert t b" and ?v = "with_bank w d (bank_insert t b)" and ?Q = "w_queries w"
  have bl: "bank_live ?Q d b" using liveD(4) [OF live b] .
  have v: "w_banks ?v d = Some (Bank ?c)" by simp
  obtain R where R: "each_step (\<lambda>k. bind_step (queries_at d k) (each_step (addToQuery n t))) (query_keys t) (?v\<lparr>w_queries := ?Q\<rparr>) =
      (Inr (), ?v\<lparr>w_queries := R\<rparr>)" "\<forall>y. joined R y" "remember t (concat (map (b_queries b) (query_keys t))) ?Q R"
    using remember_keys [OF v liveD(1) [OF live], of "query_keys t" n t] liveD(2) [OF live] bank_live_patterns [OF bl]
      bank_live_distinct [OF bl distinct_query_keys] n by auto
  have fr: "frames R = frames ?Q" using R(3) by (simp add: remember_def)
  obtain m where m: "n = Suc m" using n by (cases n) auto
  have "addToDatabankQueries n d t ?v = (Inr (), ?v\<lparr>w_queries := R\<rparr>)"
    using R(1) m by (simp add: addToDatabankQueries_def bind_step_def the_bank_def)
  moreover have "bank_live R d ?c" using bank_live_remember [OF bl R(3)] bank_insert_fresh [OF t] by simp
  moreover have "bank_live R e x" if "w_banks w e = Some (Bank x)" "e \<noteq> d" for e x
    using bank_live_other [OF liveD(4) [OF live that(1)] bl that(2) R(3)] .
  moreover have "net_shape (w_next_query w) R" using net_shape_same [OF liveD(1) [OF live] fr] .
  moreover have "bank_wf ?c" using bank_insert_wf liveD(3) [OF live b] by blast
  moreover have "bank_wf x" if "w_banks w e = Some (Bank x)" for e x using liveD(3) [OF live that] .
  ultimately have "live (?v\<lparr>w_queries := R\<rparr>)" using R(2) by (simp add: live_def)
  then show ?thesis using \<open>addToDatabankQueries n d t ?v = _\<close> fr by blast
qed

lemma add_to_bank_live:
  assumes "live w" "w_banks w d = Some (Bank b)" "a_depth opts \<le> 0" "2 * w_next_query w < stack"
  shows "\<exists>w'. add_to_bank doc stack d opts t w = (Inr (), w') \<and> live w' \<and> frames (w_queries w') = frames (w_queries w) \<and>
    w_banks w' = (w_banks w)(d \<mapsto> Bank (bank_insert t b)) \<and> w_rdf w' = w_rdf w \<and> w_next_query w' = w_next_query w \<and>
    w_bank_seed w' = w_bank_seed w"
proof (cases "t \<in> set (b_store b)")
  case True
  then show ?thesis
    using add_to_bank_step [OF assms(2) liveD(3) [OF assms(1,2)] assms(3), of doc stack t] assms(1,2)
    by (simp add: bank_insert_def fun_upd_idem)
next
  case False
  then show ?thesis
    using add_to_bank_step [OF assms(2) liveD(3) [OF assms(1,2)] assms(3), of doc stack t]
      live_news [OF assms(1,2) False assms(4)] by fastforce
qed

text \<open>
  C3. The incremental queries are right: when a triple is added, without loading what it
  points to (a depth of at most 0), to a databank of a page whose queries are chains of
  patterns, the activations bring every query over this databank to exactly the solutions of
  its patterns over the triples with the new one, and the page stays in such a state. A
  stack of two frames for every query of the page is enough.
\<close>

theorem databank_add_answers:
  assumes "live w" "w_banks w d = Some (Bank b)" "a_depth opts \<le> 0" "2 * w_next_query w < stack"
  shows "\<exists>w'. databank_add doc stack d (Add_triple t) opts w = (Inr d, w') \<and> live w' \<and>
    (\<forall>q ps. chain (w_queries w) d q ps \<longrightarrow> ps \<noteq> [] \<longrightarrow>
      (\<exists>x. w_queries w' q = Some x \<and> map_of ` set (q_bindings x) = solutions (insert t (set (b_store b))) ps))"
proof -
  obtain n where n: "stack = Suc n" using assms(4) by (cases stack) auto
  have "\<exists>w'. add_to_bank doc stack d opts t w = (Inr (), w') \<and> live w' \<and> frames (w_queries w') = frames (w_queries w) \<and>
      w_banks w' d = Some (Bank (bank_insert t b))"
    using add_to_bank_live [OF assms, of doc t] by auto
  then obtain w' where w': "add_to_bank doc stack d opts t w = (Inr (), w')" "live w'"
      "frames (w_queries w') = frames (w_queries w)" "w_banks w' d = Some (Bank (bank_insert t b))" by blast
  have "add_triple doc stack stack opts d t w = (Inr (), w')" using add_triple_bank [OF assms(2)] w'(1) n by metis
  then have "databank_add doc stack d (Add_triple t) opts w = (Inr d, w')"
    by (simp add: databank_add_def then_step_def bind_step_def ret_def)
  moreover have "\<exists>x. w_queries w' q = Some x \<and> map_of ` set (q_bindings x) = solutions (insert t (set (b_store b))) ps"
    if ch: "chain (w_queries w) d q ps" and ne: "ps \<noteq> []" for q ps
  proof -
    have "chain (w_queries w') d q ps" using chain_frames [OF ch w'(3)] .
    then obtain x where "w_queries w' q = Some x" "assignments (q_matches x) = solutions (set (b_store (bank_insert t b))) ps"
        "q_bindings x = map m_bindings (q_matches x)"
      using chain_answers [OF _ ne liveD(1) [OF w'(2)]] liveD(2) [OF w'(2)] liveD(4) [OF w'(2,4)] by blast
    then show ?thesis by (intro exI [of _ x]) (simp add: bank_insert_store image_image)
  qed
  ultimately show ?thesis using w'(2) by blast
qed

section \<open>Narrowing a query\<close>

lemma net_shape_raw: "net_shape N Q \<longleftrightarrow> (\<forall>q x. Q q = Some x \<longrightarrow> chain_frame N Q q x)"
proof -
  have "chain_frame N (frames Q) q (frame_of x) \<longleftrightarrow> chain_frame N Q q x" for q x
    by (auto simp: chain_frame_def split: option.splits)
  moreover have "net_shape N Q \<longleftrightarrow> (\<forall>q x. Q q = Some x \<longrightarrow> chain_frame N (frames Q) q (frame_of x))"
    unfolding net_shape_def frames_Some by blast
  ultimately show ?thesis by simp
qed

lemma activate_leaf:
  assumes "w_queries w c = Some y" "q_children y = []" "q_partOf y = []"
  shows "activate (Suc n) (Update_query c ms) w = (Inr (), w\<lparr>w_queries := (w_queries w)(c \<mapsto> grow ms y)\<rparr>)"
  using assms
proof (cases "ms = []")
  case True
  then show ?thesis using assms by (simp add: ret_def map_upd_triv)
next
  case False
  then show ?thesis using assms
    by (simp add: bind_step_def then_step_def the_query_def set_query_def ret_def grow_def)
qed

text \<open>The query that \<open>where\<close> makes, and the page with it.\<close>

definition narrowed :: "nat \<Rightarrow> rdf_query \<Rightarrow> rdf_pattern \<Rightarrow> rdf_bank \<Rightarrow> rdf_query" where
  "narrowed q x p b =
     (let alpha = List.map_filter (match_of p) (b_store b) in
      grow (if q_top x then alpha else mergeMatches (q_matches x) alpha False)
        \<lparr>q_parent = Some q, q_union = None, q_databank = q_databank x, q_children = [], q_partOf = [],
         q_filter = Some (By_pattern p), q_alpha = alpha, q_matches = [], q_length = 0, q_items = []\<rparr>)"

definition registered :: "nat \<Rightarrow> rdf_pattern \<Rightarrow> rdf_bank \<Rightarrow> rdf_bank" where
  "registered c p b = b\<lparr>b_queries := (b_queries b)(pattern_key p := b_queries b (pattern_key p) @ [c])\<rparr>"

definition with_child :: "query_table \<Rightarrow> nat \<Rightarrow> rdf_query \<Rightarrow> nat \<Rightarrow> rdf_query \<Rightarrow> query_table" where
  "with_child Q q x c y = Q(c \<mapsto> y, q \<mapsto> x\<lparr>q_children := q_children x @ [c]\<rparr>)"

lemma rdf_where_step:
  assumes "w_queries w q = Some x" "w_banks w (q_databank x) = Some (Bank b)" "bank_wf b" "\<not> p_optional p"
    "q \<noteq> w_next_query w" "q_union x = None"
  shows "rdf_where doc (Suc (Suc n)) q (Inr p) opts optional w =
    (Inr (w_next_query w), w\<lparr>w_next_query := Suc (w_next_query w),
       w_banks := (w_banks w)(q_databank x \<mapsto> Bank (registered (w_next_query w) p b)),
       w_queries := with_child (w_queries w) q x (w_next_query w) (narrowed q x p b)\<rparr>)"
proof -
  have m: "bank_matches (b\<lparr>b_queries := f\<rparr>) p = List.map_filter (match_of p) (b_store b)" for f
    using bank_matches_store [of "b\<lparr>b_queries := f\<rparr>" p] assms(3) by (simp add: bank_wf_def)
  show ?thesis using assms
    by (simp add: rdf_where_def rdf_init_def init_databank_def query_databank_def no_query_opts_def the_query_def
        alloc_query_def bind_step_def then_step_def ret_def set_bank_def modify_def findMatches_def the_bank_def
        m set_query_def leftActivate_def left_matches_def add_child_def Let_def narrowed_def registered_def
        with_child_def pattern_key_def activate_leaf del: activate.simps(3))
qed

lemma narrowed_fields [simp]:
  "q_parent (narrowed q x p b) = Some q" "q_union (narrowed q x p b) = None" "q_partOf (narrowed q x p b) = []"
  "q_databank (narrowed q x p b) = q_databank x" "q_children (narrowed q x p b) = []"
  "q_filter (narrowed q x p b) = Some (By_pattern p)"
  "q_alpha (narrowed q x p b) = List.map_filter (match_of p) (b_store b)"
  by (simp_all add: narrowed_def Let_def) (simp add: grow_def push_items_def)

lemma narrowed_joined:
  "array_ok (narrowed q x p b)"
  "q_matches (narrowed q x p b) =
     (if q_top x then q_alpha (narrowed q x p b) else mergeMatches (q_matches x) (q_alpha (narrowed q x p b)) False)"
proof -
  show "array_ok (narrowed q x p b)" unfolding narrowed_def Let_def
    by (rule array_ok_grow) (simp add: array_ok_def q_bindings_def)
  show "q_matches (narrowed q x p b) =
     (if q_top x then q_alpha (narrowed q x p b) else mergeMatches (q_matches x) (q_alpha (narrowed q x p b)) False)"
    by (simp add: narrowed_fields(7)) (simp add: narrowed_def Let_def)
qed

lemma net_with_child:
  assumes net: "net_shape c Q" and q: "Q q = Some x"
    and y: "q_parent y = Some q" "q_union y = None" "q_partOf y = []" "q_children y = []"
      "q_filter y = Some (By_pattern p)" "\<not> p_optional p"
  shows "net_shape (Suc c) (with_child Q q x c y)"
proof -
  let ?x = "x\<lparr>q_children := q_children x @ [c]\<rparr>" and ?R = "with_child Q q x c y"
  have lt: "r < c" if "Q r = Some u" for r u using net_query(1) [OF net that] .
  then have old: "Q c = None" "q < c" using q by (auto, metis not_None_eq order_less_irrefl)
  have R: "?R q = Some ?x" "?R c = Some y" "?R r = (if r = c then Some y else if r = q then Some ?x else Q r)" for r
    using old(2) by (auto simp: with_child_def)
  have all: "chain_frame c Q r u" if "Q r = Some u" for r u using net that by (simp add: net_shape_raw)
  have none: "q_parent u \<noteq> Some c" if "Q r = Some u" for r u
    using net_query(7) [OF net that, of c] old by auto
  have "chain_frame (Suc c) ?R r u" if u: "?R r = Some u" for r u
  proof -
    consider "r = c" "u = y" | "r = q" "u = ?x" | "r \<noteq> c" "r \<noteq> q" "Q r = Some u"
      using u R(3) [of r] by (auto split: if_splits)
    then show ?thesis
    proof cases
      case 1
      then show ?thesis using y old R by (simp add: chain_frame_def)
    next
      case 2
      have ch: "c \<notin> set (q_children x)" using net_query(5) [OF net q] old(1) by fastforce
      have "\<exists>z. ?R e = Some z \<and> q_parent z = Some q" if "e \<in> set (q_children ?x)" for e
      proof (cases "e = c")
        case False
        then obtain z where z: "Q e = Some z" "q_parent z = Some q"
          using \<open>e \<in> set (q_children ?x)\<close> net_query(5) [OF net q, of e] by auto
        then have "e \<noteq> q" using net_query(7) [OF net z] by simp
        then show ?thesis using z R(3) [of e] False by simp
      qed (simp add: R y)
      moreover have "\<exists>pa. ?R s = Some pa \<and> q \<in> set (q_children pa)" if "q_parent x = Some s" for s
        using net_query(7) [OF net q that] old(1) R(3) [of s] by auto
      ultimately show ?thesis using 2 all [OF q] ch R(3) by (auto simp: chain_frame_def split: option.splits)
    next
      case 3
      have "\<exists>z. ?R e = Some z \<and> q_parent z = Some r" if e: "e \<in> set (q_children u)" for e
      proof -
        obtain z where "Q e = Some z" "q_parent z = Some r" using net_query(5) [OF net 3(3) e] by blast
        then show ?thesis using R(3) [of e] old(1) q by auto
      qed
      moreover have "\<exists>pa. ?R s = Some pa \<and> r \<in> set (q_children pa)" if "q_parent u = Some s" for s
        using net_query(7) [OF net 3(3) that] old(1) q R(3) [of s] by auto
      ultimately show ?thesis using all [OF 3(3)] by (auto simp: chain_frame_def split: option.splits)
    qed
  qed
  then show ?thesis by (simp add: net_shape_raw)
qed

lemma live_with_child:
  assumes live: "live w" and x: "w_queries w q = Some x" and b: "w_banks w (q_databank x) = Some (Bank b)"
    and p: "\<not> p_optional p"
  shows "live (w\<lparr>w_next_query := Suc (w_next_query w),
       w_banks := (w_banks w)(q_databank x \<mapsto> Bank (registered (w_next_query w) p b)),
       w_queries := with_child (w_queries w) q x (w_next_query w) (narrowed q x p b)\<rparr>)"
proof -
  let ?Q = "w_queries w" and ?c = "w_next_query w" and ?y = "narrowed q x p b" and ?d = "q_databank x"
  let ?x = "x\<lparr>q_children := q_children x @ [?c]\<rparr>" and ?R = "with_child ?Q q x ?c ?y" and ?b = "registered ?c p b"
  have net: "net_shape ?c ?Q" using liveD(1) [OF live] .
  have lt: "r < ?c" if "?Q r = Some u" for r u using net_query(1) [OF net that] .
  then have old: "?Q ?c = None" "q < ?c" using x by (auto, metis not_None_eq order_less_irrefl)
  have R: "?R r = (if r = ?c then Some ?y else if r = q then Some ?x else ?Q r)" for r
    using old(2) by (auto simp: with_child_def)
  have j: "joined ?Q r" for r using liveD(2) [OF live] .
  have none: "q_parent u \<noteq> Some ?c" if "?Q r = Some u" for r u
    using net_query(7) [OF net that, of ?c] old by auto
  have top: "q_top ?x = q_top x" by (simp add: q_top_def)
  have "joined ?R r" for r
  proof (cases "r = ?c")
    case True
    then show ?thesis using R old(2) narrowed_joined [of q x p b] top by (auto simp: joined_def)
  next
    case False
    show ?thesis
    proof (cases "?Q r")
      case None
      then show ?thesis using False R x by (auto simp: joined_def)
    next
      case (Some u)
      have mem: "?R r = Some (if r = q then ?x else u)" using False R Some by simp
      have "array_ok (if r = q then ?x else u)" "q_parent (if r = q then ?x else u) = q_parent u"
        "q_matches (if r = q then ?x else u) = q_matches u" "q_alpha (if r = q then ?x else u) = q_alpha u"
        using j [of r] Some x by (auto simp: joined_def array_ok_def q_bindings_def)
      then show ?thesis using j [of r] Some mem none [OF Some] R x top unfolding joined_def by auto
    qed
  qed
  moreover have "bank_live ?R ?d ?b"
  proof -
    have bl: "bank_live ?Q ?d b" using liveD(4) [OF live b] .
    have "q_alpha u = List.map_filter (match_of r) (b_store ?b) \<and> s \<in> set (b_queries ?b (pattern_key r))"
      if u: "?R s = Some u" "q_databank u = ?d" "q_filter u = Some (By_pattern r)" for s u r
    proof (cases "s = ?c")
      case True
      then show ?thesis using u R by (auto simp: registered_def)
    next
      case False
      then obtain v where "?Q s = Some v" "q_databank v = ?d" "q_filter v = Some (By_pattern r)" "q_alpha u = q_alpha v"
        using u R x by (auto split: if_splits)
      moreover have "q_alpha v = List.map_filter (match_of r) (b_store b) \<and> s \<in> set (b_queries b (pattern_key r))"
        using bl calculation(1-3) unfolding bank_live_def by blast
      ultimately show ?thesis
        by (cases "pattern_key r = pattern_key p") (auto simp: registered_def)
    qed
    moreover have "distinct (b_queries ?b k) \<and> (\<forall>s\<in>set (b_queries ?b k).
        \<exists>u r. ?R s = Some u \<and> q_databank u = ?d \<and> q_filter u = Some (By_pattern r) \<and> pattern_key r = k)" for k
    proof -
      have "\<forall>s\<in>set (b_queries b k). ?c \<noteq> s \<and>
          (\<exists>u r. ?R s = Some u \<and> q_databank u = ?d \<and> q_filter u = Some (By_pattern r) \<and> pattern_key r = k)"
      proof
        fix s assume s: "s \<in> set (b_queries b k)"
        obtain u r where u: "?Q s = Some u" "q_databank u = ?d" "q_filter u = Some (By_pattern r)" "pattern_key r = k"
          using bank_live_query [OF bl s] .
        then have "?c \<noteq> s" using old(1) by auto
        moreover have "\<exists>u. ?R s = Some u \<and> q_databank u = ?d \<and> q_filter u = Some (By_pattern r)"
          using u R x old(1) by auto
        ultimately show "?c \<noteq> s \<and> (\<exists>u r. ?R s = Some u \<and> q_databank u = ?d \<and> q_filter u = Some (By_pattern r) \<and> pattern_key r = k)"
          using u(4) by blast
      qed
      moreover have "distinct (b_queries b k)" using bl unfolding bank_live_def by blast
      moreover have "?R ?c = Some ?y" "q_databank ?y = ?d" "q_filter ?y = Some (By_pattern p)" using R by simp_all
      ultimately show ?thesis by (cases "k = pattern_key p") (simp_all add: registered_def, blast)
    qed
    ultimately show ?thesis unfolding bank_live_def by blast
  qed
  moreover have "bank_live ?R e z" if e: "w_banks w e = Some (Bank z)" "e \<noteq> ?d" for e z
  proof -
    have bl: "bank_live ?Q e z" using liveD(4) [OF live e(1)] .
    have "q_alpha u = List.map_filter (match_of r) (b_store z) \<and> s \<in> set (b_queries z (pattern_key r))"
      if u: "?R s = Some u" "q_databank u = e" "q_filter u = Some (By_pattern r)" for s u r
    proof -
      have "?Q s = Some u" using u R x e(2) by (auto split: if_splits)
      then show ?thesis using bl u(2,3) unfolding bank_live_def by blast
    qed
    moreover have "\<exists>u r. ?R s = Some u \<and> q_databank u = e \<and> q_filter u = Some (By_pattern r) \<and> pattern_key r = k"
      if s: "s \<in> set (b_queries z k)" for s k
    proof -
      obtain u r where "?Q s = Some u" "q_databank u = e" "q_filter u = Some (By_pattern r)" "pattern_key r = k"
        using bank_live_query [OF bl s] .
      moreover from this have "?R s = Some u" using R x e(2) old(1) by auto
      ultimately show ?thesis by blast
    qed
    moreover have "distinct (b_queries z k)" for k using bl unfolding bank_live_def by blast
    ultimately show ?thesis unfolding bank_live_def by blast
  qed
  moreover have "net_shape (Suc ?c) ?R" using net_with_child [OF net x _ _ _ _ _ p] by simp
  moreover have "bank_wf ?b" using liveD(3) [OF live b] by (simp add: registered_def bank_wf_def)
  moreover have "bank_wf z" if "w_banks w e = Some (Bank z)" for e z using liveD(3) [OF live that] .
  ultimately show ?thesis by (simp add: live_def)
qed

lemma chain_with_child:
  assumes "chain Q d q ps" "net_shape c Q" "Q q = Some x" "q_parent y = Some q" "q_databank y = d" "q_filter y = Some (By_pattern p)"
  shows "chain (with_child Q q x c y) d c (ps @ [p])"
proof -
  let ?R = "with_child Q q x c y"
  have lt: "r < c" if "Q r = Some u" for r u using net_query(1) [OF assms(2) that] .
  have "chain ?R d r rs" if "chain Q d r rs" for r rs
    using that
  proof (induction rule: chain.induct)
    case (chain_top r u)
    have "?R r = Some (if r = q then x\<lparr>q_children := q_children x @ [c]\<rparr> else u)"
      using lt [OF chain_top(1)] chain_top(1) assms(3) by (auto simp: with_child_def)
    then show ?case using chain_top assms(3)
      by (intro chain.chain_top [of _ _ "if r = q then x\<lparr>q_children := q_children x @ [c]\<rparr> else u"]) auto
  next
    case (chain_step r u s rp rs)
    have "?R r = Some (if r = q then x\<lparr>q_children := q_children x @ [c]\<rparr> else u)"
      using lt [OF chain_step(1)] chain_step(1) assms(3) by (auto simp: with_child_def)
    then show ?case using chain_step assms(3)
      by (intro chain.chain_step [of _ _ "if r = q then x\<lparr>q_children := q_children x @ [c]\<rparr> else u" s]) auto
  qed
  then have "chain ?R d q ps" using assms(1) .
  moreover have "?R c = Some y" using lt [OF assms(3)] by (simp add: with_child_def)
  ultimately show ?thesis using assms(4-6) by (intro chain.chain_step [where r = q]) auto
qed

text \<open>
  C4. Narrowing a query with a pattern that is not optional makes a query that holds exactly
  the solutions of the patterns so far and the new one over the triples of the databank, and
  that takes part in the page's incremental answers from then on.
\<close>

theorem rdf_where_answers:
  assumes "live w" "chain (w_queries w) d q ps" "w_banks w d = Some (Bank b)" "\<not> p_optional p" "1 < stack"
  shows "\<exists>w'. rdf_where doc stack q (Inr p) opts optional w = (Inr (w_next_query w), w') \<and> live w' \<and>
    chain (w_queries w') d (w_next_query w) (ps @ [p]) \<and>
    (\<exists>y. w_queries w' (w_next_query w) = Some y \<and>
      map_of ` set (q_bindings y) = solutions (set (b_store b)) (ps @ [p]))"
proof -
  obtain x where x: "w_queries w q = Some x" "q_databank x = d" using assms(2) by (cases rule: chain.cases) auto
  define n where "n = stack - 2"
  then have n: "stack = Suc (Suc n)" using assms(5) by simp
  let ?c = "w_next_query w" and ?y = "narrowed q x p b"
  let ?R = "with_child (w_queries w) q x ?c ?y"
  let ?w = "w\<lparr>w_next_query := Suc ?c, w_banks := (w_banks w)(d \<mapsto> Bank (registered ?c p b)), w_queries := ?R\<rparr>"
  have net: "net_shape ?c (w_queries w)" using liveD(1) [OF assms(1)] .
  have "q \<noteq> ?c" "q_union x = None" using net_query(1,2) [OF net x(1)] by auto
  then have step: "rdf_where doc stack q (Inr p) opts optional w = (Inr ?c, ?w)"
    using rdf_where_step [of w q x b p doc n opts optional] x assms(3,4) liveD(3) [OF assms(1,3)] n by simp
  have live: "live ?w" using live_with_child [OF assms(1) x(1) _ assms(4)] x(2) assms(3) by simp
  have ch: "chain ?R d ?c (ps @ [p])" using chain_with_child [OF assms(2) net x(1)] x(2) by simp
  have bl: "bank_live ?R d (registered ?c p b)" "net_shape (Suc ?c) ?R" "\<forall>r. joined ?R r"
    using liveD(4) [OF live, of d "registered ?c p b"] liveD(1,2) [OF live] by simp_all
  have "\<exists>y. ?R ?c = Some y \<and> assignments (q_matches y) = solutions (set (b_store (registered ?c p b))) (ps @ [p]) \<and>
      q_bindings y = map m_bindings (q_matches y)"
    using chain_answers [OF ch _ bl(2,3,1)] by simp
  then have "\<exists>y. ?R ?c = Some y \<and> map_of ` set (q_bindings y) = solutions (set (b_store b)) (ps @ [p])"
    by (auto simp: registered_def image_image)
  then show ?thesis using step live ch by (intro exI [of _ ?w]) simp
qed

section \<open>Removing a triple\<close>

text \<open>
  When a triple is removed, a query that may match it forgets the match of the last triple
  that it has matched, whichever triple is removed: the triple is looked for among the matches,
  is not found, and \<open>splice\<close> with the index \<open>-1\<close> takes the last one. Stated for a query
  directly below the top that has no queries below it.
\<close>

lemma removeFromQuery_drops_last:
  assumes "w_queries w q = Some x" "q_parent x = Some r" "q_union x = None" "q_children x = []" "q_partOf x = []"
    and "w_queries w r = Some px" "q_top px" "q \<noteq> r" "1 < stack"
  shows "\<exists>w' y. removeFromQuery stack q w = (Inr (), w') \<and> w_queries w' q = Some y \<and>
    q_alpha y = butlast (q_alpha x) \<and> q_matches y = butlast (q_alpha x) \<and>
    q_bindings y = map m_bindings (butlast (q_alpha x))"
proof -
  define n where "n = stack - 2"
  then have n: "stack = Suc (Suc n)" using assms(9) by simp
  let ?x = "x\<lparr>q_alpha := butlast (q_alpha x), q_length := 0, q_matches := []\<rparr>"
  let ?y = "grow (butlast (q_alpha x)) ?x"
  have "removeFromQuery stack q w = (Inr (), w\<lparr>w_queries := (w_queries w)(q \<mapsto> ?y)\<rparr>)"
    using assms n
    by (simp add: removeFromQuery_def then_step_def bind_step_def set_query_def the_query_def ret_def
        leftActivate_def left_matches_def activate_leaf del: activate.simps(3))
  moreover have "q_matches ?y = butlast (q_alpha x)" "q_alpha ?y = butlast (q_alpha x)" by simp_all
  moreover have "q_bindings ?y = map m_bindings (butlast (q_alpha x))"
    by (simp add: q_bindings_def grow_def push_items_def)
  ultimately show ?thesis by auto
qed

section \<open>Witnesses\<close>

definition top_query :: rdf_query where
  "top_query = \<lparr>q_parent = None, q_union = None, q_databank = 1, q_children = [], q_partOf = [], q_filter = None,
     q_alpha = [], q_matches = [], q_length = 0, q_items = []\<rparr>"

definition top_page :: "rdf_bank \<Rightarrow> world" where
  "top_page b = (page b)\<lparr>w_queries := [0 \<mapsto> top_query], w_next_query := 1\<rparr>"

lemma bank_of_queries [simp]: "b_queries (bank_of ts) = (\<lambda>_. [])"
proof -
  have "b_queries (fold bank_insert ts c) = b_queries c" for c by (induction ts arbitrary: c) simp_all
  then show ?thesis by (simp add: bank_of_def new_bank_def)
qed

lemma top_page_live: "live (top_page (bank_of ts))"
  by (auto simp: live_def top_page_def page_def net_shape_raw chain_frame_def joined_def array_ok_def top_query_def
      q_bindings_def bank_of_wf bank_live_def split: if_splits)

lemma top_page_chain: "chain (w_queries (top_page b)) 1 0 []"
  by (rule chain_top [of _ _ top_query]) (simp_all add: top_page_def top_query_def)

definition x_knows :: rdf_pattern where
  "x_knows = \<lparr>p_subject = Var ''?x'', p_property = Fixed (http_node ''p''), p_object = Var ''?y'', p_optional = False\<rparr>"

lemma x_knows_solutions:
  "solutions {tr ''s'' ''p'' n} [x_knows] = {[''x'' \<mapsto> http_node ''s'', ''y'' \<mapsto> n]}"
proof -
  have "f = [''x'' \<mapsto> http_node ''s'', ''y'' \<mapsto> n]"
    if "dom f = {''x'', ''y''}" "f ''x'' = Some (http_node ''s'')" "f ''y'' = Some n" for f :: "string \<Rightarrow> rdf_node option"
  proof
    fix k show "f k = [''x'' \<mapsto> http_node ''s'', ''y'' \<mapsto> n] k" using that by (cases "k \<in> dom f") auto
  qed
  then show ?thesis
    by (auto simp: solutions_def x_knows_def instance_of_def inst_term_def tr_def pattern_vars_def term_vars_def
        split: if_splits)
qed

theorem rdf_where_answers_witness:
  "\<exists>y. w_queries (snd (rdf_where \<lparr>u_scheme = None, u_authority = None, u_path = [], u_query = None, u_fragment = None\<rparr>
      9 0 (Inr x_knows) default_add False (top_page (bank_of [tr ''s'' ''p'' (Blank ''b'')])))) 1 = Some y \<and>
    map_of ` set (q_bindings y) = {[''x'' \<mapsto> http_node ''s'', ''y'' \<mapsto> Blank ''b'']}"
proof -
  let ?d = "\<lparr>u_scheme = None, u_authority = None, u_path = [], u_query = None, u_fragment = None\<rparr>"
  let ?b = "bank_of [tr ''s'' ''p'' (Blank ''b'')]"
  have b: "w_banks (top_page ?b) 1 = Some (Bank ?b)" "w_next_query (top_page ?b) = 1" by (simp_all add: top_page_def)
  show ?thesis
    using rdf_where_answers [OF top_page_live top_page_chain b(1), where p = x_knows and stack = 9 and doc = ?d and
        opts = default_add and optional = False] b(2) x_knows_solutions
    by (auto simp: x_knows_def bank_of_store)
qed

theorem databank_add_answers_witness:
  "\<exists>x. w_queries (snd (databank_add \<lparr>u_scheme = None, u_authority = None, u_path = [], u_query = None, u_fragment = None\<rparr>
      9 1 (Add_triple (tr ''s'' ''p'' (Blank ''b''))) default_add
      ((top_page (bank_of []))\<lparr>w_next_query := 2,
        w_banks := [1 \<mapsto> Bank (registered 1 x_knows (bank_of []))],
        w_queries := with_child [0 \<mapsto> top_query] 0 top_query 1 (narrowed 0 top_query x_knows (bank_of []))\<rparr>))) 1 = Some x \<and>
    map_of ` set (q_bindings x) = {[''x'' \<mapsto> http_node ''s'', ''y'' \<mapsto> Blank ''b'']}"
proof -
  let ?d = "\<lparr>u_scheme = None, u_authority = None, u_path = [], u_query = None, u_fragment = None\<rparr>"
  let ?w = "top_page (bank_of [])" and ?y = "narrowed 0 top_query x_knows (bank_of [])"
  let ?v = "?w\<lparr>w_next_query := 2, w_banks := [1 \<mapsto> Bank (registered 1 x_knows (bank_of []))],
        w_queries := with_child [0 \<mapsto> top_query] 0 top_query 1 ?y\<rparr>"
  have top: "w_queries ?w = [0 \<mapsto> top_query]" "w_banks ?w = [1 \<mapsto> Bank (bank_of [])]" "w_next_query ?w = 1"
    "q_databank top_query = 1"
    by (simp_all add: top_page_def page_def top_query_def)
  have live: "live ?v"
    using live_with_child [OF top_page_live [of "[]"], of 0 top_query "bank_of []" x_knows] top by (simp add: x_knows_def numeral_2_eq_2)
  have "chain (w_queries ?v) 1 1 ([] @ [x_knows])"
    using chain_with_child [OF top_page_chain [of "bank_of []"], of 1 top_query ?y x_knows] top liveD(1) [OF top_page_live [of "[]"]]
    by simp
  moreover have "w_banks ?v 1 = Some (Bank (registered 1 x_knows (bank_of [])))" "a_depth default_add \<le> 0"
    "2 * w_next_query ?v < 9" "set (b_store (registered 1 x_knows (bank_of []))) = {}"
    by (simp_all add: default_add_def registered_def bank_of_store)
  ultimately show ?thesis
    using databank_add_answers [OF live, of 1 "registered 1 x_knows (bank_of [])" default_add 9 ?d "tr ''s'' ''p'' (Blank ''b'')"]
      x_knows_solutions [of "Blank ''b''"] by fastforce
qed

lemma removeFromQuery_drops_last_witness:
  "\<exists>y. w_queries (snd (removeFromQuery 9 1 ((top_page (bank_of []))\<lparr>w_queries := with_child [0 \<mapsto> top_query] 0 top_query 1
      (narrowed 0 top_query x_knows
        (new_bank No_base []\<lparr>b_store := [tr ''s'' ''p'' (Blank ''a''), tr ''s'' ''p'' (Blank ''b'')]\<rparr>))\<rparr>))) 1 = Some y \<and>
    q_matches y = List.map_filter (match_of x_knows) [tr ''s'' ''p'' (Blank ''a'')]"
proof -
  let ?a = "tr ''s'' ''p'' (Blank ''a'')" and ?b = "tr ''s'' ''p'' (Blank ''b'')"
  let ?y = "narrowed 0 top_query x_knows (new_bank No_base []\<lparr>b_store := [?a, ?b]\<rparr>)"
  let ?w = "(top_page (bank_of []))\<lparr>w_queries := with_child [0 \<mapsto> top_query] 0 top_query 1 ?y\<rparr>"
  have w: "w_queries ?w 1 = Some ?y" "w_queries ?w 0 = Some (top_query\<lparr>q_children := [1]\<rparr>)"
    by (simp_all add: with_child_def top_query_def)
  have "\<exists>ma mb. match_of x_knows ?a = Some ma \<and> match_of x_knows ?b = Some mb"
    by (simp add: match_of_def pat_exec_def testResource_def x_knows_def tr_def)
  then have "butlast (q_alpha ?y) = List.map_filter (match_of x_knows) [?a]"
    by (auto simp: map_filter_simps)
  moreover have "q_top (top_query\<lparr>q_children := [1]\<rparr>)" by (simp add: q_top_def top_query_def)
  ultimately show ?thesis
    using removeFromQuery_drops_last [OF w(1), of 0 "top_query\<lparr>q_children := [1]\<rparr>" 9] w(2) by auto
qed

end
