(* ===== verification/RdfXml.thy ===== *)
theory RdfXml
  imports RdfDatabank Dom
begin

text \<open>
  \<open>jquery.rdfquery.core-1.0.js\<close>, lines 1603 to 2000: triples from and to RDF/XML documents. What
  the browser's serializer and parser do is a parameter.
\<close>

section \<open>The document's parts\<close>

text \<open>
  \<open>XMLSerializer\<close>, \<open>nodeValue\<close>, \<open>DOMParser\<close> (the nodes inside the root) and the qualified names
  that \<open>createElementNS\<close> accepts, all of the browser.
\<close>

record xml_env =
  xe_serialize :: "dom \<Rightarrow> string"
  xe_value :: "dom \<Rightarrow> string option"
  xe_parse :: "string \<Rightarrow> dom list"
  xe_name :: "string \<Rightarrow> bool"

definition xmlNs :: string where
  "xmlNs = ''http://www.w3.org/XML/1998/namespace''"

definition xmlnsNs :: string where
  "xmlnsNs = ''http://www.w3.org/2000/xmlns/''"

definition is_element :: "dom \<Rightarrow> bool" where
  "is_element d \<longleftrightarrow> dom_type d = 1"

definition element_ns :: "dom \<Rightarrow> string option" where
  "element_ns d = (case d of Element ns l n ats cs \<Rightarrow> ns | _ \<Rightarrow> None)"

definition getLocalName :: "dom \<Rightarrow> string" where
  "getLocalName d = (case d of Element ns l n ats cs \<Rightarrow> l | _ \<Rightarrow> [])"

definition hasAttributeNS :: "dom \<Rightarrow> string \<Rightarrow> string \<Rightarrow> bool" where
  "hasAttributeNS d ns l \<longleftrightarrow> attr_ns d ns l \<noteq> None"

text \<open>\<open>null\<close> and the empty text are both false.\<close>

definition getAttributeNS :: "dom \<Rightarrow> string \<Rightarrow> string \<Rightarrow> string" where
  "getAttributeNS d ns l = (case attr_ns d ns l of Some a \<Rightarrow> at_value a | None \<Rightarrow> [])"

definition has_elements :: "dom \<Rightarrow> bool" where
  "has_elements d \<longleftrightarrow> (\<exists>c\<in>set (children_of d). is_element c)"

text \<open>A missing namespace joins a text as \<open>null\<close>.\<close>

definition ns_text :: "string option \<Rightarrow> string" where
  "ns_text ns = (case ns of Some s \<Rightarrow> s | None \<Rightarrow> ''null'')"

definition attr_prefix :: "dom_attr \<Rightarrow> string option" where
  "attr_prefix a = (if CHR '':'' \<in> set (at_name a) then Some (takeWhile (\<lambda>c. c \<noteq> CHR '':'') (at_name a)) else None)"

definition angled :: "string \<Rightarrow> string" where
  "angled s = ''<'' @ s @ ''>''"

definition inherit_lang :: "dom \<Rightarrow> string \<Rightarrow> string" where
  "inherit_lang d lang = (let l = getAttributeNS d xmlNs ''lang'' in if l = [] then lang else l)"

definition inherit_base :: "dom \<Rightarrow> uri_base \<Rightarrow> uri_base" where
  "inherit_base d base = (let b = getAttributeNS d xmlNs ''base'' in if b = [] then base else Base_string b)"

section \<open>Reading\<close>

definition xml_resource :: "uri \<Rightarrow> uri_base \<Rightarrow> string \<Rightarrow> (rdf_env, rdf_node) js_step" where
  "xml_resource doc base s = rdf_resource doc (no_opts\<lparr>o_base := base\<rparr>) (As_text (angled s))"

definition parseRdfXmlSubject :: "uri \<Rightarrow> uri_base \<Rightarrow> dom \<Rightarrow> (rdf_env, rdf_node) js_step" where
  "parseRdfXmlSubject doc base elem =
     (if hasAttributeNS elem rdfNs ''about'' then xml_resource doc base (getAttributeNS elem rdfNs ''about'')
      else if hasAttributeNS elem rdfNs ''ID'' then xml_resource doc base (CHR ''#'' # getAttributeNS elem rdfNs ''ID'')
      else if hasAttributeNS elem rdfNs ''nodeID'' then rdf_blank (''_:'' @ getAttributeNS elem rdfNs ''nodeID'')
      else rdf_blank ''[]'')"

text \<open>A text with a language as it is, one without between quotes.\<close>

definition xml_literal_text :: "uri \<Rightarrow> string option \<Rightarrow> string \<Rightarrow> (rdf_env, rdf_node) js_step" where
  "xml_literal_text doc lit s = (case lit of
       Some l \<Rightarrow> rdf_literal doc (no_opts\<lparr>o_lang := Some l\<rparr>) (Lit_text s)
     | None \<Rightarrow> rdf_literal doc no_opts (Lit_text ([CHR 0x22] @ s @ [CHR 0x22])))"

text \<open>The attribute \<open>p\<close> of a description: a property, a type, or none.\<close>

definition property_attr :: "dom_attr \<Rightarrow> bool" where
  "property_attr p \<longleftrightarrow> at_ns p \<noteq> Some xmlnsNs \<and> at_ns p \<noteq> Some xmlNs \<and>
     attr_prefix p \<noteq> Some ''xmlns'' \<and> attr_prefix p \<noteq> Some ''xml''"

fun xml_attributes :: "uri \<Rightarrow> uri_base \<Rightarrow> string option \<Rightarrow> rdf_node \<Rightarrow> rdf_node option \<Rightarrow> dom_attr list \<Rightarrow>
    (rdf_env, rdf_node option \<times> rdf_triple list) js_step" where
  "xml_attributes doc base lit subject ob [] = ret (ob, [])"
| "xml_attributes doc base lit subject ob (p # ps) =
     (if property_attr p \<and> at_ns p \<noteq> Some rdfNs then
        bind_step (rdf_resource doc no_opts (As_text (angled (ns_text (at_ns p) @ at_local p)))) (\<lambda>property.
        bind_step (xml_literal_text doc lit (at_value p)) (\<lambda>on.
        bind_step (make_triple doc no_opts (Node subject) (Node property) (Node on)) (\<lambda>t.
        bind_step (xml_attributes doc base lit subject (Some on) ps) (\<lambda>(r, ts). ret (r, t # ts)))))
      else if property_attr p \<and> at_local p = ''type'' then
        bind_step (xml_resource doc base (at_value p)) (\<lambda>on.
        bind_step (make_triple doc no_opts (Node subject) (Node (rdf_const ''type'')) (Node on)) (\<lambda>t.
        bind_step (xml_attributes doc base lit subject (Some on) ps) (\<lambda>(r, ts). ret (r, t # ts))))
      else xml_attributes doc base lit subject ob ps)"

text \<open>The triple of a typed node; its object stays in the variable that the properties share.\<close>

definition xml_type :: "uri \<Rightarrow> bool \<Rightarrow> rdf_node \<Rightarrow> dom \<Rightarrow> (rdf_env, rdf_node option \<times> rdf_triple list) js_step" where
  "xml_type doc isDescription subject elem =
     (if isDescription \<and> (element_ns elem \<noteq> Some rdfNs \<or> getLocalName elem \<noteq> ''Description'') then
        bind_step (rdf_resource doc no_opts (As_text (angled (ns_text (element_ns elem) @ getLocalName elem)))) (\<lambda>on.
        bind_step (make_triple doc no_opts (Node subject) (Node (rdf_const ''type'')) (Node on)) (\<lambda>t. ret (Some on, [t])))
      else ret (None, []))"

text \<open>
  \<open>parseType=\"Literal\"\<close>: the first element inside; without one the serializer throws, and the
  handler joins a property \<open>xml\<close> of the children, which is \<open>undefined\<close> but in one browser.
\<close>

definition xml_literal_value :: "xml_env \<Rightarrow> dom \<Rightarrow> string" where
  "xml_literal_value env p = (case filter is_element (children_of p) of
       e # _ \<Rightarrow> xe_serialize env e
     | [] \<Rightarrow> concat (map (\<lambda>c. ''undefined'') (children_of p)))"

definition xml_datatype_value :: "uri \<Rightarrow> xml_env \<Rightarrow> dom \<Rightarrow> (rdf_env, rdf_node) js_step" where
  "xml_datatype_value doc env p =
     (let dt = getAttributeNS p rdfNs ''datatype'' in
      case children_of p of
        [] \<Rightarrow> throw TypeError
      | c # _ \<Rightarrow>
          (case xe_value env c of
             Some v \<Rightarrow> rdf_literal doc (no_opts\<lparr>o_datatype := Some dt\<rparr>) (Lit_text v)
           | None \<Rightarrow> bind_step (on_uri (safeCurie doc curie_defaults dt)) (\<lambda>d. throw TypeError)))"

definition xml_text_value :: "uri \<Rightarrow> xml_env \<Rightarrow> string option \<Rightarrow> dom \<Rightarrow> (rdf_env, rdf_node) js_step" where
  "xml_text_value doc env lit c = (case xe_value env c of
       Some v \<Rightarrow> xml_literal_text doc lit v
     | None \<Rightarrow> if lit = None then xml_literal_text doc lit ''null'' else throw TypeError)"

definition xml_reified :: "uri \<Rightarrow> uri_base \<Rightarrow> dom \<Rightarrow> rdf_node \<Rightarrow> rdf_node \<Rightarrow> rdf_node \<Rightarrow> (rdf_env, rdf_triple list) js_step" where
  "xml_reified doc base p subject property on =
     (if hasAttributeNS p rdfNs ''ID'' then
        bind_step (xml_resource doc base (CHR ''#'' # getAttributeNS p rdfNs ''ID'')) (\<lambda>r.
        map_step (\<lambda>(l, n). make_triple doc no_opts (Node r) (Node (rdf_const l)) (Node n))
          [(''subject'', subject), (''property'', property), (''object'', on)])
      else ret [])"

text \<open>The elements that a property adds to the description's list of collection items.\<close>

definition collection_items :: "dom \<Rightarrow> dom list" where
  "collection_items p =
     (if \<not> hasAttributeNS p rdfNs ''resource'' \<and> \<not> hasAttributeNS p rdfNs ''nodeID'' \<and>
         hasAttributeNS p rdfNs ''parseType'' \<and> getAttributeNS p rdfNs ''parseType'' = ''Collection''
      then filter is_element (children_of p) else [])"

lemma bind_step_fun_cong [fundef_cong]: "m = m' \<Longrightarrow> (\<And>a. f a = g a) \<Longrightarrow> bind_step m f = bind_step m' g"
  by presburger

lemma size_children: "size_list size (children_of d) \<le> size d"
  by (cases d) auto

lemma size_filter: "size_list size (filter P xs) \<le> size_list size xs"
  by (induction xs) auto

lemma size_items: "size_list size (collection_items p) \<le> size p"
  using size_children [of p] size_filter [of is_element "children_of p"] by (auto simp: collection_items_def)

lemma size_list_append: "size_list f (xs @ ys) = size_list f xs + size_list f ys"
  by (induction xs) auto

definition xml_measure where
  "xml_measure = case_sum
     (case_sum (\<lambda>(doc :: uri, env :: xml_env, i :: bool, b :: uri_base, l :: string, e). 4 * Suc (size e))
       (\<lambda>(doc :: uri, env :: xml_env, s :: rdf_node, b :: uri_base, li :: nat, l :: string, lit :: string option, items, ob :: rdf_node option, ps).
          4 * (size_list size items + size_list size ps) + 3))
     (case_sum (\<lambda>(doc :: uri, env :: xml_env, b :: uri_base, l :: string, lit :: string option, items, ob :: rdf_node option, p).
          4 * max (Suc (size p)) (size_list size items) + 2)
       (case_sum (\<lambda>(doc :: uri, env :: xml_env, b :: uri_base, l :: string, c :: rdf_node, es). 4 * size_list size es + 1)
         (\<lambda>(doc :: uri, env :: xml_env, b :: uri_base, l :: string, ob :: rdf_node option, es). 4 * size_list size es + 1)))"

text \<open>
  A description, its properties from left to right, the object of one, the items of a
  collection, and the nodes inside a property. The list of collection items and the variable
  with the last object are those of the whole description.
\<close>

function (sequential)
  parseRdfXmlDescription :: "uri \<Rightarrow> xml_env \<Rightarrow> bool \<Rightarrow> uri_base \<Rightarrow> string \<Rightarrow> dom \<Rightarrow> (rdf_env, rdf_triple list) js_step" and
  xml_properties :: "uri \<Rightarrow> xml_env \<Rightarrow> rdf_node \<Rightarrow> uri_base \<Rightarrow> nat \<Rightarrow> string \<Rightarrow> string option \<Rightarrow> dom list \<Rightarrow>
    rdf_node option \<Rightarrow> dom list \<Rightarrow> (rdf_env, rdf_triple list) js_step" and
  xml_object :: "uri \<Rightarrow> xml_env \<Rightarrow> uri_base \<Rightarrow> string \<Rightarrow> string option \<Rightarrow> dom list \<Rightarrow> rdf_node option \<Rightarrow> dom \<Rightarrow>
    (rdf_env, rdf_node option \<times> rdf_triple list) js_step" and
  xml_collection :: "uri \<Rightarrow> xml_env \<Rightarrow> uri_base \<Rightarrow> string \<Rightarrow> rdf_node \<Rightarrow> dom list \<Rightarrow> (rdf_env, rdf_triple list) js_step" and
  xml_striped :: "uri \<Rightarrow> xml_env \<Rightarrow> uri_base \<Rightarrow> string \<Rightarrow> rdf_node option \<Rightarrow> dom list \<Rightarrow>
    (rdf_env, rdf_node option \<times> rdf_triple list) js_step"
where
  "parseRdfXmlDescription doc env isDescription base0 lang0 elem =
     (let lang = inherit_lang elem lang0; base = inherit_base elem base0;
          lit = (if lang = [] then None else Some lang) in
      bind_step (parseRdfXmlSubject doc base elem) (\<lambda>subject.
      bind_step (xml_type doc isDescription subject elem) (\<lambda>(ob, tt).
      bind_step (xml_attributes doc base lit subject ob (attrs_of elem)) (\<lambda>(ob, ats).
      bind_step (xml_properties doc env subject base 1 lang lit [] ob (children_of elem)) (\<lambda>ts.
      ret (tt @ ats @ ts))))))"
| "xml_properties doc env subject base li lang lit items ob [] = ret []"
| "xml_properties doc env subject base li lang0 lit0 items0 ob (p # ps) =
     (if is_element p then
        (let is_li = (element_ns p = Some rdfNs \<and> getLocalName p = ''li'');
             name = (if is_li then rdfNs @ ''_'' @ nat_str li else ns_text (element_ns p) @ getLocalName p);
             lang = inherit_lang p lang0; lit = (if lang = [] then lit0 else Some lang);
             items = items0 @ collection_items p in
         bind_step (rdf_resource doc no_opts (As_text (angled name))) (\<lambda>property.
         bind_step (xml_object doc env base lang lit items ob p) (\<lambda>(ob, ots).
         case ob of
           None \<Rightarrow> throw TypeError
         | Some on \<Rightarrow>
             bind_step (make_triple doc no_opts (Node subject) (Node property) (Node on)) (\<lambda>t.
             bind_step (xml_reified doc base p subject property on) (\<lambda>rs.
             bind_step (xml_properties doc env subject base (if is_li then li + 1 else li) lang lit items (Some on) ps) (\<lambda>ts.
             ret (ots @ t # rs @ ts)))))))
      else xml_properties doc env subject base li lang0 lit0 items0 ob ps)"
| "xml_object doc env base lang lit items ob p =
     (if hasAttributeNS p rdfNs ''resource'' then
        bind_step (xml_resource doc base (getAttributeNS p rdfNs ''resource'')) (\<lambda>n. ret (Some n, []))
      else if hasAttributeNS p rdfNs ''nodeID'' then
        bind_step (rdf_blank (''_:'' @ getAttributeNS p rdfNs ''nodeID'')) (\<lambda>n. ret (Some n, []))
      else if hasAttributeNS p rdfNs ''parseType'' then
        (let pt = getAttributeNS p rdfNs ''parseType'' in
         if pt = ''Literal'' then
           bind_step (rdf_literal doc (no_opts\<lparr>o_datatype := Some (rdfNs @ ''XMLLiteral'')\<rparr>)
             (Lit_text (xml_literal_value env p))) (\<lambda>n. ret (Some n, []))
         else if pt = ''Resource'' then
           bind_step (parseRdfXmlDescription doc env False base lang p) (\<lambda>ts.
             if ts \<noteq> [] then ret (Some (t_subject (last ts)), ts)
             else bind_step (rdf_blank ''[]'') (\<lambda>n. ret (Some n, [])))
         else if pt = ''Collection'' then
           (if has_elements p then
              bind_step (rdf_blank ''[]'') (\<lambda>c.
              bind_step (xml_collection doc env base lang c items) (\<lambda>ts. ret (Some c, ts)))
            else ret (Some (rdf_const ''nil''), []))
         else ret (ob, []))
      else if hasAttributeNS p rdfNs ''datatype'' then
        bind_step (xml_datatype_value doc env p) (\<lambda>n. ret (Some n, []))
      else if has_elements p then xml_striped doc env base lang ob (children_of p)
      else case children_of p of
        c # _ \<Rightarrow> bind_step (xml_text_value doc env lit c) (\<lambda>n. ret (Some n, []))
      | [] \<Rightarrow>
          bind_step (parseRdfXmlDescription doc env False base lang p) (\<lambda>ts.
            if ts \<noteq> [] then ret (Some (t_subject (last ts)), ts)
            else bind_step (rdf_blank ''[]'') (\<lambda>n. ret (Some n, []))))"
| "xml_collection doc env base lang c [] = ret []"
| "xml_collection doc env base lang c (e # es) =
     bind_step (parseRdfXmlDescription doc env True base lang e) (\<lambda>ots.
     bind_step (if ots \<noteq> [] then ret (t_subject (last ots)) else parseRdfXmlSubject doc No_base e) (\<lambda>item.
     bind_step (make_triple doc no_opts (Node c) (Node (rdf_const ''first'')) (Node item)) (\<lambda>t.
     if es = [] then
       bind_step (make_triple doc no_opts (Node c) (Node (rdf_const ''rest'')) (Node (rdf_const ''nil''))) (\<lambda>r.
         ret (ots @ [t, r]))
     else
       bind_step (rdf_blank ''[]'') (\<lambda>c2.
       bind_step (make_triple doc no_opts (Node c) (Node (rdf_const ''rest'')) (Node c2)) (\<lambda>r.
       bind_step (xml_collection doc env base lang c2 es) (\<lambda>ts. ret (ots @ t # r # ts)))))))"
| "xml_striped doc env base lang ob [] = ret (ob, [])"
| "xml_striped doc env base lang ob (e # es) =
     (if is_element e then
        bind_step (parseRdfXmlDescription doc env True base lang e) (\<lambda>ots.
        bind_step (if ots \<noteq> [] then ret (t_subject (last ots)) else parseRdfXmlSubject doc No_base e) (\<lambda>n.
        bind_step (xml_striped doc env base lang (Some n) es) (\<lambda>(r, ts). ret (r, ots @ ts))))
      else xml_striped doc env base lang ob es)"
  by pat_completeness auto

termination
proof (relation "measure xml_measure", goal_cases)
  case (2 doc env isDescription base0 lang0 elem)
  then show ?case using size_children [of elem] by (simp add: xml_measure_def)
next
  case (3 doc env subject base li lang0 lit0 items0 ob p ps)
  then show ?case using size_items [of p] by (simp add: xml_measure_def size_list_append max_def)
next
  case (4 doc env subject base li lang0 lit0 items0 ob p ps)
  then show ?case using size_items [of p] by (simp add: xml_measure_def size_list_append)
next
  case (8 doc env base lang lit items ob p)
  then show ?case using size_children [of p] by (simp add: xml_measure_def max_def)
qed (auto simp: xml_measure_def max_def)

text \<open>A whole document, and one without \<open>rdf:RDF\<close>.\<close>

definition parseRdfXml :: "uri \<Rightarrow> xml_env \<Rightarrow> dom \<Rightarrow> (rdf_env, rdf_triple list) js_step" where
  "parseRdfXml doc env root =
     (if element_ns root = Some rdfNs \<and> getLocalName root = ''RDF'' then
        (let lang = getAttributeNS root xmlNs ''lang''; base = inherit_base root (Base_uri doc) in
         bind_step (map_step (\<lambda>d. if is_element d then parseRdfXmlDescription doc env True base lang d else ret [])
           (children_of root)) (\<lambda>tss. ret (concat tss)))
      else parseRdfXmlDescription doc env True No_base [] root)"

text \<open>\<open>load\<close> of an RDF/XML document.\<close>

definition load_xml :: "uri \<Rightarrow> xml_env \<Rightarrow> nat \<Rightarrow> nat \<Rightarrow> dom \<Rightarrow> add_opts \<Rightarrow> (world, unit) js_step" where
  "load_xml doc env stack d root opts =
     bind_step (on_rdf (parseRdfXml doc env root)) (each_step (\<lambda>t. add_triple doc stack stack opts d t))"

section \<open>Writing\<close>

definition addAttribute :: "string option \<Rightarrow> string \<Rightarrow> string \<Rightarrow> dom \<Rightarrow> dom" where
  "addAttribute ns name v d =
     set_attr \<lparr>at_ns = ns,
       at_local = (if CHR '':'' \<in> set name then tl (dropWhile (\<lambda>c. c \<noteq> CHR '':'') name) else name),
       at_name = name, at_value = v\<rparr> d"

definition createXmlnsAtt :: "string \<Rightarrow> string option \<Rightarrow> dom \<Rightarrow> dom" where
  "createXmlnsAtt ns p d = (case p of
       Some q \<Rightarrow> if q = [] then addAttribute None ''xmlns'' ns d else addAttribute (Some xmlnsNs) (''xmlns:'' @ q) ns d
     | None \<Rightarrow> addAttribute None ''xmlns'' ns d)"

definition rdf_document :: dom where
  "rdf_document = createXmlnsAtt rdfNs (Some ''rdf'') (Element (Some rdfNs) ''RDF'' ''rdf:RDF'' [] [])"

definition createElementNS :: "xml_env \<Rightarrow> string \<Rightarrow> string option \<Rightarrow> string \<Rightarrow> dom js_res" where
  "createElementNS env ns p l =
     (let name = (case p of Some q \<Rightarrow> q | None \<Rightarrow> ''undefined'') @ '':'' @ l in
      if xe_name env name then Inr (Element (Some ns) l name [] []) else Inl (UserError ''InvalidCharacterError''))"

text \<open>
  \<open>/(.+[#\/])([^#\/]+)/\<close>, the two groups: the longest text without line ends that ends in a
  hash or slash before another character, and the characters up to the next hash or slash.
\<close>

definition hash_slash :: "char \<Rightarrow> bool" where
  "hash_slash c \<longleftrightarrow> c = CHR ''#'' \<or> c = CHR ''/''"

definition splits_at :: "string \<Rightarrow> nat \<Rightarrow> bool" where
  "splits_at s i \<longleftrightarrow> i + 1 < length s \<and> hash_slash (s ! i) \<and> \<not> hash_slash (s ! (i + 1)) \<and> (\<forall>c\<in>set (take i s). \<not> line_end c)"

fun ns_split :: "string \<Rightarrow> (string \<times> string) option" where
  "ns_split [] = None"
| "ns_split (c # s) =
     (case filter (splits_at (c # s)) (rev [1..<length (c # s)]) of
        i # _ \<Rightarrow> Some (take (i + 1) (c # s), takeWhile (\<lambda>x. \<not> hash_slash x) (drop (i + 1) (c # s)))
      | [] \<Rightarrow> ns_split s)"

text \<open>The prefix of a namespace; without one that of the last search stays.\<close>

definition find_prefix :: "(string \<times> string) list \<Rightarrow> string \<Rightarrow> string option \<Rightarrow> string option" where
  "find_prefix namespaces ns old = (case List.find (\<lambda>b. snd b = ns) namespaces of Some b \<Rightarrow> Some (fst b) | None \<Rightarrow> old)"

definition xml_type_uri :: string where
  "xml_type_uri = rdfNs @ ''type''"

definition with_value :: "xml_env \<Rightarrow> rdf_json \<Rightarrow> dom \<Rightarrow> dom" where
  "with_value env v pe =
     (case j_type v of
        NT_uri \<Rightarrow> addAttribute (Some rdfNs) ''rdf:resource'' (j_value v) pe
      | NT_bnode \<Rightarrow> addAttribute (Some rdfNs) ''rdf:nodeID'' (drop 2 (j_value v)) pe
      | NT_literal \<Rightarrow>
          (case j_datatype v of
             Some dt \<Rightarrow>
               if dt = rdfNs @ ''XMLLiteral'' then
                 foldl append_child (addAttribute (Some rdfNs) ''rdf:parseType'' ''Literal'' pe) (xe_parse env (j_value v))
               else append_child (addAttribute (Some rdfNs) ''rdf:datatype'' dt pe) (TextNode (j_value v))
           | None \<Rightarrow>
               (case j_lang v of
                  Some l \<Rightarrow> append_child (addAttribute (Some xmlNs) ''xml:lang'' l pe) (TextNode (j_value v))
                | None \<Rightarrow> append_child pe (TextNode (j_value v)))))"

fun value_elements :: "xml_env \<Rightarrow> string \<Rightarrow> string option \<Rightarrow> string \<Rightarrow> rdf_json list \<Rightarrow> dom list js_res" where
  "value_elements env ns p l [] = Inr []"
| "value_elements env ns p l (v # vs) =
     bind_res (createElementNS env ns p l) (\<lambda>pe.
     bind_res (value_elements env ns p l vs) (\<lambda>ds. Inr (with_value env v pe # ds)))"

definition values_of :: "string \<times> rdf_json list \<Rightarrow> rdf_json list" where
  "values_of = (\<lambda>(p, vs). if p = xml_type_uri then drop 1 vs else vs)"

fun property_elements :: "xml_env \<Rightarrow> (string \<times> string) list \<Rightarrow> string option \<Rightarrow> (string \<times> rdf_json list) list \<Rightarrow>
    (string option \<times> dom list) js_res" where
  "property_elements env namespaces old [] = Inr (old, [])"
| "property_elements env namespaces old ((p, vs) # ps) =
     (if p \<noteq> xml_type_uri \<or> 1 < length vs then
        (case ns_split p of
           None \<Rightarrow> Inl TypeError
         | Some (ns, l) \<Rightarrow>
             (let pr = find_prefix namespaces ns old in
              bind_res (value_elements env ns pr l (values_of (p, vs))) (\<lambda>ds.
              bind_res (property_elements env namespaces pr ps) (\<lambda>(r, es). Inr (r, ds @ es)))))
      else property_elements env namespaces old ps)"

definition subject_element :: "xml_env \<Rightarrow> (string \<times> string) list \<Rightarrow> string option \<Rightarrow> (string \<times> rdf_json list) list \<Rightarrow>
    (string option \<times> dom) js_res" where
  "subject_element env namespaces old ps = (case map_of ps xml_type_uri of
       None \<Rightarrow> Inr (old, Element (Some rdfNs) ''Description'' ''rdf:Description'' [] [])
     | Some [] \<Rightarrow> Inl TypeError
     | Some (v # _) \<Rightarrow>
         (case ns_split (j_value v) of
            None \<Rightarrow> Inl TypeError
          | Some (ns, l) \<Rightarrow>
              (let pr = find_prefix namespaces ns old in
               bind_res (createElementNS env ns pr l) (\<lambda>se. Inr (pr, se)))))"

definition with_subject :: "string \<Rightarrow> dom \<Rightarrow> dom" where
  "with_subject s se =
     (if prefix ''_:'' s then addAttribute (Some rdfNs) ''rdf:nodeID'' (drop 2 s) se
      else addAttribute (Some rdfNs) ''rdf:about'' s se)"

fun subject_elements :: "xml_env \<Rightarrow> (string \<times> string) list \<Rightarrow> string option \<Rightarrow> json_graph \<Rightarrow> dom list js_res" where
  "subject_elements env namespaces old [] = Inr []"
| "subject_elements env namespaces old ((s, ps) # ss) =
     bind_res (subject_element env namespaces old ps) (\<lambda>(p1, se).
     bind_res (property_elements env namespaces p1 ps) (\<lambda>(p2, ds).
     bind_res (subject_elements env namespaces p2 ss) (\<lambda>es.
       Inr (foldl append_child (with_subject s se) ds # es))))"

definition createRdfXml :: "xml_env \<Rightarrow> (string \<times> string) list \<Rightarrow> rdf_triple list \<Rightarrow> dom js_res" where
  "createRdfXml env namespaces triples =
     bind_res (subject_elements env namespaces None (createJson triples)) (\<lambda>es.
       Inr (foldl append_child (foldl (\<lambda>d (n, ns). createXmlnsAtt ns (Some n) d) rdf_document namespaces) es))"

definition dump_xml :: "xml_env \<Rightarrow> (string \<times> string) list \<Rightarrow> nat \<Rightarrow> nat \<Rightarrow> (world, dom) js_step" where
  "dump_xml env namespaces stack d =
     bind_step (bank_triples stack d) (\<lambda>ts. lift_res (createRdfXml env namespaces ts))"

section \<open>Lemmas\<close>

lemma splits_shift: "splits_at s i \<Longrightarrow> \<not> line_end c \<Longrightarrow> splits_at (c # s) (Suc i)"
  by (simp add: splits_at_def)

lemma ns_split_exists:
  "ns_split s = Some r \<Longrightarrow> \<forall>c\<in>set s. \<not> line_end c \<Longrightarrow> \<exists>i\<in>set [1..<length s]. splits_at s i"
proof (induction s arbitrary: r)
  case (Cons c s)
  show ?case
  proof (cases "filter (splits_at (c # s)) (rev [1..<length (c # s)])")
    case Nil
    then have "ns_split s = Some r" using Cons.prems(1) by simp
    then obtain i where "i \<in> set [1..<length s]" "splits_at s i" using Cons.IH Cons.prems(2) by auto
    then show ?thesis using splits_shift [of s i c] Cons.prems(2) by (intro bexI [of _ "Suc i"]) auto
  next
    case (Cons i js)
    then have "i \<in> set (filter (splits_at (c # s)) (rev [1..<length (c # s)]))" by (metis list.set_intros(1))
    then show ?thesis by auto
  qed
qed simp

lemma rev_upt_greatest:
  assumes "filter P (rev [m..<n]) = i # js" "j \<in> set [m..<n]" "P j"
  shows "j \<le> i"
proof -
  have "sorted (rev (filter P (rev [m..<n])))" using sorted_filter [of id "[m..<n]" P] by (simp add: rev_filter)
  then have "sorted (rev js @ [i])" using assms(1) by simp
  moreover have "j \<in> set (i # js)" using assms by (metis (mono_tags) mem_Collect_eq set_filter set_rev)
  ultimately show ?thesis by (auto simp: sorted_append)
qed

text \<open>A name of a property that ends in another character is split without loss.\<close>

definition splittable :: "string \<Rightarrow> bool" where
  "splittable s \<longleftrightarrow> s \<noteq> [] \<and> (\<forall>c\<in>set s. \<not> line_end c) \<and> \<not> hash_slash (last s)"

lemma no_split_after:
  assumes "splittable s" "\<And>j. i < j \<Longrightarrow> splits_at s j \<Longrightarrow> False"
  shows "\<forall>c\<in>set (drop (i + 1) s). \<not> hash_slash c"
proof (rule ccontr)
  assume "\<not> ?thesis"
  then obtain k where "k < length s - (i + 1)" "hash_slash (drop (i + 1) s ! k)" by (metis in_set_conv_nth length_drop)
  then have ex: "\<exists>j. i < j \<and> j < length s \<and> hash_slash (s ! j)" by (intro exI [of _ "i + 1 + k"]) (simp add: less_diff_conv)
  define j where "j = Max {j. i < j \<and> j < length s \<and> hash_slash (s ! j)}"
  have fin: "finite {j. i < j \<and> j < length s \<and> hash_slash (s ! j)}" by simp
  have j: "i < j" "j < length s" "hash_slash (s ! j)" using Max_in [OF fin] ex unfolding j_def by blast+
  have max: "k \<le> j" if "i < k" "k < length s" "hash_slash (s ! k)" for k using Max_ge [OF fin] that unfolding j_def by simp
  have "s ! (length s - 1) = last s" using assms(1) by (simp add: splittable_def last_conv_nth)
  then have "j \<noteq> length s - 1" using assms(1) j(3) unfolding splittable_def by metis
  then have "j + 1 < length s" using j(2) by linarith
  moreover from this have "\<not> hash_slash (s ! (j + 1))" using max [of "j + 1"] j(1) by auto
  ultimately have "splits_at s j" using j assms(1) by (auto simp: splits_at_def splittable_def dest: in_set_takeD)
  then show False using assms(2) j(1) by blast
qed

lemma ns_split_join:
  assumes "ns_split s = Some (ns, l)" "splittable s"
  shows "ns @ l = s"
proof -
  obtain c t where s: "s = c # t" using assms(1) by (cases s) auto
  obtain j where "j \<in> set [1..<length s]" "splits_at s j"
    using ns_split_exists [OF assms(1)] assms(2) unfolding splittable_def by blast
  then have "filter (splits_at s) (rev [1..<length s]) \<noteq> []" by (auto simp: filter_empty_conv)
  then obtain i js where i: "filter (splits_at s) (rev [1..<length s]) = i # js" by (cases "filter (splits_at s) (rev [1..<length s])") auto
  then have parts: "ns = take (i + 1) s" "l = takeWhile (\<lambda>x. \<not> hash_slash x) (drop (i + 1) s)"
    using assms(1) s by auto
  have "j \<le> i" if "splits_at s j" for j
  proof (cases "j = 0")
    case False
    then have "j \<in> set [1..<length s]" using that by (auto simp: splits_at_def)
    then show ?thesis using rev_upt_greatest [OF i _ that] by blast
  qed simp
  then have "\<forall>c\<in>set (drop (i + 1) s). \<not> hash_slash c" using no_split_after [OF assms(2), of i] by fastforce
  then have "l = drop (i + 1) s" using parts(2) by (simp add: takeWhile_eq_all_conv)
  then show ?thesis using parts(1) by simp
qed

section \<open>Reading back what has been written\<close>

text \<open>
  The meaning of the document's parts by the RDF/XML rules, as far as written documents use
  them (no parsed literals, no attributes of properties, no nested descriptions): an element is
  its URI, the property \<open>rdf:li\<close> is the next of \<open>rdf:_1\<close>, \<open>rdf:_2\<close> and so on, as in
  \<open>parseRdfXmlDescription\<close>, and the names of the syntax are neither properties nor types.
\<close>

definition syntax_name :: "string \<Rightarrow> bool" where
  "syntax_name u \<longleftrightarrow> u \<in> (@) rdfNs ` {''RDF'', ''ID'', ''about'', ''parseType'', ''resource'', ''nodeID'', ''datatype'',
     ''Description'', ''li'', ''aboutEach'', ''aboutEachPrefix'', ''bagID''}"

definition element_uri :: "dom \<Rightarrow> string" where
  "element_uri d = ns_text (element_ns d) @ getLocalName d"

definition read_subject :: "dom \<Rightarrow> string" where
  "read_subject se = (if hasAttributeNS se rdfNs ''about'' then getAttributeNS se rdfNs ''about''
     else ''_:'' @ getAttributeNS se rdfNs ''nodeID'')"

definition element_text :: "dom \<Rightarrow> string" where
  "element_text d = concat (map (\<lambda>c. case c of TextNode t \<Rightarrow> t | _ \<Rightarrow> []) (children_of d))"

definition read_value :: "dom \<Rightarrow> rdf_json" where
  "read_value pe =
     (if hasAttributeNS pe rdfNs ''resource'' then
        \<lparr>j_type = NT_uri, j_value = getAttributeNS pe rdfNs ''resource'', j_lang = None, j_datatype = None\<rparr>
      else if hasAttributeNS pe rdfNs ''nodeID'' then
        \<lparr>j_type = NT_bnode, j_value = ''_:'' @ getAttributeNS pe rdfNs ''nodeID'', j_lang = None, j_datatype = None\<rparr>
      else
        \<lparr>j_type = NT_literal, j_value = element_text pe, j_lang = map_option at_value (attr_ns pe xmlNs ''lang''),
         j_datatype = map_option at_value (attr_ns pe rdfNs ''datatype'')\<rparr>)"

lemma append_children [simp]:
  "children_of (foldl append_child (Element ns l n ats cs) ds) = cs @ ds"
  "element_uri (foldl append_child (Element ns l n ats cs) ds) = ns_text ns @ l"
  "attrs_of (foldl append_child (Element ns l n ats cs) ds) = ats"
  by (induction ds arbitrary: cs) (auto simp: element_uri_def element_ns_def getLocalName_def)

lemma rdf_attr [simp]:
  "addAttribute a n v (Element ns l m ats cs) = Element ns l m (attrs_of (addAttribute a n v (Element ns l m ats cs))) cs"
  by (simp add: addAttribute_def set_attr_def)

lemma read_with_value:
  assumes "j_datatype (node_dump n) \<noteq> Some (rdfNs @ ''XMLLiteral'')"
  shows "element_uri (with_value env (node_dump n) (Element (Some ns) l m [] [])) = ns @ l"
    "read_value (with_value env (node_dump n) (Element (Some ns) l m [] [])) = node_dump n"
proof -
  show "element_uri (with_value env (node_dump n) (Element (Some ns) l m [] [])) = ns @ l"
    by (cases n) (use assms in \<open>auto simp: with_value_def node_dump_def addAttribute_def set_attr_def element_uri_def
      element_ns_def getLocalName_def ns_text_def split: option.splits if_splits\<close>)
  show "read_value (with_value env (node_dump n) (Element (Some ns) l m [] [])) = node_dump n"
    by (cases n) (use assms in \<open>auto simp: with_value_def node_dump_def node_value_def addAttribute_def set_attr_def
      read_value_def hasAttributeNS_def getAttributeNS_def attr_ns_def element_text_def rdfNs_def xmlNs_def split: option.splits if_splits\<close>)
qed

definition plain_value :: "rdf_json \<Rightarrow> bool" where
  "plain_value v \<longleftrightarrow> v \<in> range node_dump \<and> j_datatype v \<noteq> Some (rdfNs @ ''XMLLiteral'')"

lemma createElement_Inr:
  "createElementNS env ns p l = Inr d \<Longrightarrow> \<exists>name. d = Element (Some ns) l name [] []"
  by (auto simp: createElementNS_def Let_def split: if_splits)

lemma value_elements_read:
  "value_elements env ns p l vs = Inr ds \<Longrightarrow> \<forall>v\<in>set vs. plain_value v \<Longrightarrow>
     map (\<lambda>d. (element_uri d, read_value d)) ds = map (Pair (ns @ l)) vs"
proof (induction vs arbitrary: ds)
  case (Cons v vs)
  obtain pe es where pe: "createElementNS env ns p l = Inr pe" "value_elements env ns p l vs = Inr es" "ds = with_value env v pe # es"
    using Cons.prems(1) by (auto simp: bind_res_Inr_iff)
  obtain name where "pe = Element (Some ns) l name [] []" using createElement_Inr [OF pe(1)] by blast
  moreover obtain n where "v = node_dump n" "j_datatype (node_dump n) \<noteq> Some (rdfNs @ ''XMLLiteral'')"
    using Cons.prems(2) by (auto simp: plain_value_def)
  ultimately show ?case using Cons pe(2,3) read_with_value by auto
qed simp

lemma property_elements_read:
  "property_elements env namespaces old ps = Inr (r, ds) \<Longrightarrow>
     \<forall>(p, vs)\<in>set ps. splittable p \<and> (\<forall>v\<in>set vs. plain_value v) \<Longrightarrow>
     map (\<lambda>d. (element_uri d, read_value d)) ds = concat (map (\<lambda>(p, vs). map (Pair p) (values_of (p, vs))) ps)"
proof (induction ps arbitrary: old r ds)
  case (Cons pv ps)
  obtain p vs where pv: "pv = (p, vs)" by (cases pv)
  show ?case
  proof (cases "p \<noteq> xml_type_uri \<or> 1 < length vs")
    case True
    then obtain ns l where split: "ns_split p = Some (ns, l)" using Cons.prems(1) pv by (auto split: option.splits)
    then obtain d1 es where d: "value_elements env ns (find_prefix namespaces ns old) l (values_of (p, vs)) = Inr d1"
        "property_elements env namespaces (find_prefix namespaces ns old) ps = Inr (r, es)" "ds = d1 @ es"
      using Cons.prems(1) pv True by (auto simp: bind_res_Inr_iff Let_def)
    have "ns @ l = p" using ns_split_join [OF split] Cons.prems(2) pv by simp
    moreover have "\<forall>v\<in>set (values_of (p, vs)). plain_value v"
      using Cons.prems(2) pv by (auto simp: values_of_def dest: in_set_dropD)
    ultimately show ?thesis using value_elements_read [OF d(1)] Cons.IH [OF d(2)] Cons.prems(2) pv d(3) by simp
  next
    case False
    then have "values_of (p, vs) = []" by (cases vs) (auto simp: values_of_def)
    then show ?thesis using False Cons pv by simp
  qed
qed simp

lemma subject_element_read:
  assumes "subject_element env namespaces old ps = Inr (r, se)"
    "\<forall>v vs. map_of ps xml_type_uri = Some (v # vs) \<longrightarrow> splittable (j_value v)"
  shows "\<exists>ns l name. se = Element (Some ns) l name [] [] \<and>
    ns @ l = (case map_of ps xml_type_uri of Some (v # _) \<Rightarrow> j_value v | _ \<Rightarrow> rdfNs @ ''Description'')"
proof (cases "map_of ps xml_type_uri")
  case None
  then show ?thesis using assms(1) by (auto simp: subject_element_def)
next
  case (Some vs)
  then obtain v ws where v: "vs = v # ws" using assms(1) by (cases vs) (auto simp: subject_element_def)
  then obtain ns l where split: "ns_split (j_value v) = Some (ns, l)"
    using assms(1) Some by (auto simp: subject_element_def split: option.splits)
  then have "\<exists>name. se = Element (Some ns) l name [] []"
    using assms(1) Some v createElement_Inr by (auto simp: subject_element_def bind_res_Inr_iff Let_def)
  then show ?thesis using ns_split_join [OF split] assms(2) Some v by auto
qed

lemma with_subject_Element:
  "\<exists>ats. with_subject s (Element ns l n [] []) = Element ns l n ats [] \<and>
     (\<forall>cs. read_subject (Element ns l n ats cs) = s)"
proof (cases "prefix ''_:'' s")
  case True
  then obtain z where "s = ''_:'' @ z" by (auto simp: prefix_def)
  then show ?thesis
    by (simp add: with_subject_def addAttribute_def set_attr_def read_subject_def hasAttributeNS_def getAttributeNS_def attr_ns_def)
qed (simp add: with_subject_def addAttribute_def set_attr_def read_subject_def hasAttributeNS_def getAttributeNS_def attr_ns_def)

lemma foldl_append_Element:
  "foldl append_child (Element ns l n ats cs) ds = Element ns l n ats (cs @ ds)"
  by (induction ds arbitrary: cs) simp_all

lemma declared_root:
  "\<exists>ats. foldl (\<lambda>d (n, ns). createXmlnsAtt ns (Some n) d) rdf_document namespaces = Element (Some rdfNs) ''RDF'' ''rdf:RDF'' ats []"
proof -
  have keep: "\<exists>ats'. createXmlnsAtt ns p (Element a b c ats []) = Element a b c ats' []" for ns p a b c ats
    by (simp add: createXmlnsAtt_def addAttribute_def set_attr_def split: option.splits)
  have "\<exists>ats'. foldl (\<lambda>d (n, ns). createXmlnsAtt ns (Some n) d) (Element a b c ats []) nss = Element a b c ats' []" for a b c ats nss
  proof (induction nss arbitrary: ats)
    case (Cons x nss)
    then show ?case using keep [of "snd x" "Some (fst x)" a b c ats] by (auto simp: split_def)
  qed simp
  then show ?thesis unfolding rdf_document_def using keep by metis
qed

text \<open>What is read from a subject's element: the type or description, the subject, the properties.\<close>

fun read_properties :: "nat \<Rightarrow> dom list \<Rightarrow> (string \<times> rdf_json) list" where
  "read_properties li [] = []"
| "read_properties li (d # ds) =
     (if element_uri d = rdfNs @ ''li'' then (rdfNs @ ''_'' @ nat_str li, read_value d) # read_properties (li + 1) ds
      else (element_uri d, read_value d) # read_properties li ds)"

lemma read_properties_plain:
  "rdfNs @ ''li'' \<notin> fst ` set pvs \<Longrightarrow> map (\<lambda>d. (element_uri d, read_value d)) ds = pvs \<Longrightarrow> read_properties li ds = pvs"
  by (induction ds arbitrary: pvs) auto

definition read_description :: "dom \<Rightarrow> string \<times> string \<times> (string \<times> rdf_json) list" where
  "read_description se = (element_uri se, read_subject se, read_properties 1 (children_of se))"

definition described :: "string \<times> (string \<times> rdf_json list) list \<Rightarrow> string \<times> string \<times> (string \<times> rdf_json) list" where
  "described = (\<lambda>(s, ps). (case map_of ps xml_type_uri of Some (v # _) \<Rightarrow> j_value v | _ \<Rightarrow> rdfNs @ ''Description'', s,
     concat (map (\<lambda>(p, vs). map (Pair p) (values_of (p, vs))) ps)))"

definition writable :: "string \<times> (string \<times> rdf_json list) list \<Rightarrow> bool" where
  "writable = (\<lambda>(s, ps). (\<forall>(p, vs)\<in>set ps. splittable p \<and> \<not> syntax_name p \<and> (\<forall>v\<in>set vs. plain_value v)) \<and>
     (\<forall>v vs. map_of ps xml_type_uri = Some (v # vs) \<longrightarrow> splittable (j_value v)))"

lemma subject_elements_read:
  "subject_elements env namespaces old ss = Inr es \<Longrightarrow> \<forall>x\<in>set ss. writable x \<Longrightarrow>
     map read_description es = map described ss"
proof (induction ss arbitrary: old es)
  case (Cons x ss)
  obtain s ps where x: "x = (s, ps)" by (cases x)
  obtain p1 se p2 ds fs where parts: "subject_element env namespaces old ps = Inr (p1, se)"
      "property_elements env namespaces p1 ps = Inr (p2, ds)" "subject_elements env namespaces p2 ss = Inr fs"
      "es = foldl append_child (with_subject s se) ds # fs"
    using Cons.prems(1) x by (auto simp: bind_res_Inr_iff)
  have w: "writable (s, ps)" using Cons.prems(2) x by simp
  then obtain ns l name where se: "se = Element (Some ns) l name [] []"
      "ns @ l = (case map_of ps xml_type_uri of Some (v # _) \<Rightarrow> j_value v | _ \<Rightarrow> rdfNs @ ''Description'')"
    using subject_element_read [OF parts(1)] by (auto simp: writable_def)
  obtain ats where ats: "with_subject s se = Element (Some ns) l name ats []" "read_subject (Element (Some ns) l name ats ds) = s"
    using with_subject_Element se(1) by blast
  have "map (\<lambda>d. (element_uri d, read_value d)) ds = concat (map (\<lambda>(p, vs). map (Pair p) (values_of (p, vs))) ps)"
    using property_elements_read [OF parts(2)] w by (fastforce simp: writable_def)
  moreover have "rdfNs @ ''li'' \<notin> fst ` set (concat (map (\<lambda>(p, vs). map (Pair p) (values_of (p, vs))) ps))"
    using w by (auto simp: writable_def syntax_name_def)
  ultimately have "read_properties 1 ds = concat (map (\<lambda>(p, vs). map (Pair p) (values_of (p, vs))) ps)"
    by (intro read_properties_plain)
  then have "read_description (foldl append_child (with_subject s se) ds) = described (s, ps)"
    using ats se(2) by (simp add: read_description_def described_def foldl_append_Element element_uri_def element_ns_def
        getLocalName_def ns_text_def)
  then show ?case using Cons.IH [OF parts(3)] Cons.prems(2) parts(4) x by simp
qed simp

text \<open>
  The statements of a subject's element: its type, but for a plain description, and its
  properties; those of the JSON form, and that of a triple.
\<close>

definition statements_of :: "string \<times> string \<times> (string \<times> rdf_json) list \<Rightarrow> (string \<times> string \<times> rdf_json) set" where
  "statements_of = (\<lambda>(u, s, pvs).
     (if u = rdfNs @ ''Description'' then {}
      else {(s, xml_type_uri, \<lparr>j_type = NT_uri, j_value = u, j_lang = None, j_datatype = None\<rparr>)}) \<union> Pair s ` set pvs)"

definition document_statements :: "dom \<Rightarrow> (string \<times> string \<times> rdf_json) set" where
  "document_statements root = (\<Union>se\<in>set (children_of root). statements_of (read_description se))"

definition json_holds :: "json_graph \<Rightarrow> string \<times> string \<times> rdf_json \<Rightarrow> bool" where
  "json_holds g = (\<lambda>(s, p, v). \<exists>ps vs. map_of g s = Some ps \<and> map_of ps p = Some vs \<and> v \<in> set vs)"

definition statement :: "rdf_triple \<Rightarrow> string \<times> string \<times> rdf_json" where
  "statement t = (node_value (t_subject t), node_value (t_property t), node_dump (t_object t))"

text \<open>Every subject and property has one entry, and every entry a value.\<close>

definition json_ok :: "json_graph \<Rightarrow> bool" where
  "json_ok g \<longleftrightarrow> distinct (map fst g) \<and>
     (\<forall>(s, ps)\<in>set g. distinct (map fst ps) \<and> (\<forall>(p, vs)\<in>set ps. vs \<noteq> []))"

lemma update_subset: "set (AList.update k v al) \<subseteq> insert (k, v) (set al)"
  by (induction al) auto

lemma json_push_holds: "json_holds (json_push g t) x \<longleftrightarrow> x = statement t \<or> json_holds g x"
  by (cases x) (auto simp: json_holds_def json_push_def statement_def update_conv' Let_def split: option.splits if_splits)

lemma json_push_ok:
  assumes "json_ok g"
  shows "json_ok (json_push g t)"
proof -
  let ?s = "node_value (t_subject t)" and ?p = "node_value (t_property t)"
  let ?ps = "case map_of g ?s of Some ps \<Rightarrow> ps | None \<Rightarrow> []"
  let ?os = "case map_of ?ps ?p of Some os \<Rightarrow> os | None \<Rightarrow> []"
  let ?new = "AList.update ?p (?os @ [node_dump (t_object t)]) ?ps"
  have ps: "distinct (map fst ?ps) \<and> (\<forall>(p, vs)\<in>set ?ps. vs \<noteq> [])"
  proof (cases "map_of g ?s")
    case (Some qs)
    then show ?thesis using assms map_of_SomeD [OF Some] by (auto simp: json_ok_def)
  qed simp
  then have new: "distinct (map fst ?new)" "\<forall>(p, vs)\<in>set ?new. vs \<noteq> []"
    using update_subset [of ?p "?os @ [node_dump (t_object t)]" ?ps] by (auto simp: distinct_update)
  have "distinct (map fst (AList.update ?s ?new g))" using assms by (simp add: json_ok_def distinct_update)
  moreover have "\<forall>(s, ps)\<in>set (AList.update ?s ?new g). distinct (map fst ps) \<and> (\<forall>(p, vs)\<in>set ps. vs \<noteq> [])"
    using new assms update_subset [of ?s ?new g] unfolding json_ok_def by fast
  ultimately show ?thesis by (simp add: json_ok_def json_push_def Let_def)
qed

lemma createJson_statements: "json_ok (createJson ts)" "{x. json_holds (createJson ts) x} = statement ` set ts"
proof -
  have "json_ok g \<Longrightarrow> json_ok (foldl json_push g ts)" for g
    by (induction ts arbitrary: g) (simp_all add: json_push_ok)
  moreover have "json_ok []" by (simp add: json_ok_def)
  ultimately show "json_ok (createJson ts)" unfolding createJson_def by blast
  have "{x. json_holds (foldl json_push g ts) x} = {x. json_holds g x} \<union> statement ` set ts" for g
    by (induction ts arbitrary: g) (auto simp: json_push_holds)
  from this [of "[]"] show "{x. json_holds (createJson ts) x} = statement ` set ts"
    by (simp add: createJson_def json_holds_def split_def)
qed

lemma json_holds_iff:
  assumes "json_ok g"
  shows "json_holds g (s, p, v) \<longleftrightarrow> (\<exists>ps vs. (s, ps) \<in> set g \<and> (p, vs) \<in> set ps \<and> v \<in> set vs)"
  using assms by (fastforce simp: json_holds_def json_ok_def)

text \<open>The first type of a subject stands in the name of its element, and the others among the properties.\<close>

definition typing :: "rdf_json \<Rightarrow> bool" where
  "typing v \<longleftrightarrow> v = \<lparr>j_type = NT_uri, j_value = j_value v, j_lang = None, j_datatype = None\<rparr> \<and>
     \<not> syntax_name (j_value v) \<and> splittable (j_value v)"

lemma described_statements:
  assumes "distinct (map fst ps)" "\<forall>(p, vs)\<in>set ps. vs \<noteq> []" "\<forall>vs. (xml_type_uri, vs) \<in> set ps \<longrightarrow> Ball (set vs) typing"
  shows "statements_of (described (s, ps)) = {(s, p, v) | p v. \<exists>vs. (p, vs) \<in> set ps \<and> v \<in> set vs}"
proof (cases "map_of ps xml_type_uri")
  case None
  then have "values_of x = snd x" if "x \<in> set ps" for x
    using that by (force simp: values_of_def map_of_eq_None_iff split: prod.splits)
  then have "(\<Union>x\<in>set ps. Pair s ` Pair (fst x) ` set (values_of x)) = (\<Union>x\<in>set ps. Pair s ` Pair (fst x) ` set (snd x))"
    by simp
  also have "\<dots> = {(s, p, v) | p v. \<exists>vs. (p, vs) \<in> set ps \<and> v \<in> set vs}"
    by (auto simp: image_iff)
  finally have "(\<Union>x\<in>set ps. Pair s ` Pair (fst x) ` set (values_of x)) = {(s, p, v) | p v. \<exists>vs. (p, vs) \<in> set ps \<and> v \<in> set vs}" .
  then show ?thesis using None by (simp add: statements_of_def described_def split_def image_UN)
next
  case (Some ts)
  have mem: "(xml_type_uri, ts) \<in> set ps" using map_of_SomeD [OF Some] .
  then obtain v vs where ts: "ts = v # vs" using assms(2) by (cases ts) auto
  have typing: "typing v" using assms(3) mem ts by auto
  have eq: "ws = ts" if "(xml_type_uri, ws) \<in> set ps" for ws
    using that mem assms(1) eq_key_imp_eq_value by fastforce
  have "(\<Union>x\<in>set ps. Pair s ` Pair (fst x) ` set (values_of x)) \<union> {(s, xml_type_uri, v)} =
      {(s, p, v) | p v. \<exists>vs. (p, vs) \<in> set ps \<and> v \<in> set vs}" (is "?l = ?r")
  proof (intro set_eqI iffI)
    fix y assume "y \<in> ?l"
    then show "y \<in> ?r" using mem ts by (force simp: values_of_def dest: in_set_dropD split: prod.splits if_splits)
  next
    fix y assume "y \<in> ?r"
    then obtain p w ws where y: "y = (s, p, w)" "(p, ws) \<in> set ps" "w \<in> set ws" by blast
    have "w \<in> set (values_of (p, ws)) \<or> p = xml_type_uri \<and> w = v"
      using y(2,3) eq [of ws] ts by (auto simp: values_of_def)
    then show "y \<in> ?l" using y(1,2) by force
  qed
  moreover have "v = \<lparr>j_type = NT_uri, j_value = j_value v, j_lang = None, j_datatype = None\<rparr>" "j_value v \<noteq> rdfNs @ ''Description''"
    using typing by (auto simp: typing_def syntax_name_def)
  ultimately show ?thesis using Some ts by (simp add: statements_of_def described_def split_def image_UN Un_commute)
qed

text \<open>
  A triple that RDF/XML can say as it is written: its property can be split (it is not empty, has no
  line end and does not end in a hash or slash) and is no name of the syntax, it has no parsed
  literal, and a type is a resource whose name can be split and is no name of the syntax.
\<close>

definition writable_triple :: "rdf_triple \<Rightarrow> bool" where
  "writable_triple t \<longleftrightarrow> splittable (node_value (t_property t)) \<and> \<not> syntax_name (node_value (t_property t)) \<and>
     j_datatype (node_dump (t_object t)) \<noteq> Some (rdfNs @ ''XMLLiteral'') \<and>
     (node_value (t_property t) = xml_type_uri \<longrightarrow> typing (node_dump (t_object t)))"

lemma json_entry_writable:
  assumes "json_ok g" "\<And>x. json_holds g x \<Longrightarrow> \<exists>t. writable_triple t \<and> x = statement t" "(s, ps) \<in> set g"
  shows "writable (s, ps)" "\<forall>vs. (xml_type_uri, vs) \<in> set ps \<longrightarrow> Ball (set vs) typing"
proof -
  have val: "splittable p \<and> \<not> syntax_name p \<and> plain_value v \<and> (p = xml_type_uri \<longrightarrow> typing v)" if "(p, vs) \<in> set ps" "v \<in> set vs" for p v vs
  proof -
    have "json_holds g (s, p, v)" using json_holds_iff [OF assms(1)] assms(3) that by blast
    then obtain t where "writable_triple t" "(s, p, v) = statement t" using assms(2) by blast
    then show ?thesis by (simp add: writable_triple_def statement_def plain_value_def)
  qed
  then show type: "\<forall>vs. (xml_type_uri, vs) \<in> set ps \<longrightarrow> Ball (set vs) typing" by blast
  have "splittable p \<and> \<not> syntax_name p \<and> (\<forall>v\<in>set vs. plain_value v)" if "(p, vs) \<in> set ps" for p vs
    using val [OF that] assms(1,3) that by (cases vs) (auto simp: json_ok_def)
  then show "writable (s, ps)"
    using type by (auto simp: writable_def typing_def dest: map_of_SomeD)
qed

section \<open>Properties\<close>

text \<open>
  C38. A document that has been written says what the triples say: read by the rules of
  RDF/XML, where a type names the element of its subject and \<open>rdf:li\<close> counts,
  it has exactly their statements, with every value, language and datatype, and no statement
  is lost when subjects and properties are grouped. This holds for the document as a tree
  and for triples (\<open>writable_triple\<close>) whose properties have no line end, do not
  end in a hash or slash and are no names of the syntax (\<open>rdf:li\<close> and
  \<open>rdf:Description\<close> among them), whose types are resources with such names, and
  without parsed literals.
\<close>

theorem createRdfXml_read:
  assumes "createRdfXml env namespaces ts = Inr root" "\<forall>t\<in>set ts. writable_triple t"
  shows "document_statements root = statement ` set ts"
proof -
  obtain es where es: "subject_elements env namespaces None (createJson ts) = Inr es"
      "root = foldl append_child (foldl (\<lambda>d (n, ns). createXmlnsAtt ns (Some n) d) rdf_document namespaces) es"
    using assms(1) by (auto simp: createRdfXml_def bind_res_Inr_iff)
  have root: "children_of root = es" using es(2) declared_root [of namespaces] by (auto simp: foldl_append_Element)
  let ?g = "createJson ts"
  note ok = createJson_statements(1) [of ts] and all = createJson_statements(2) [of ts]
  have holds: "\<exists>t. writable_triple t \<and> x = statement t" if "json_holds ?g x" for x
    using that all assms(2) by blast
  have parts: "statements_of (described (s, ps)) = {(s, p, v) | p v. \<exists>vs. (p, vs) \<in> set ps \<and> v \<in> set vs}"
    if "(s, ps) \<in> set ?g" for s ps
  proof (rule described_statements)
    show "distinct (map fst ps)" "\<forall>(p, vs)\<in>set ps. vs \<noteq> []" using ok that by (auto simp: json_ok_def)
    show "\<forall>vs. (xml_type_uri, vs) \<in> set ps \<longrightarrow> Ball (set vs) typing" by (rule json_entry_writable(2) [OF ok holds that])
  qed
  have "map read_description es = map described ?g"
    using subject_elements_read [OF es(1)] json_entry_writable(1) [OF ok holds] by fast
  then have "read_description ` set es = described ` set ?g" by (metis set_map)
  then have "document_statements root = (\<Union>x\<in>set ?g. statements_of (described x))"
    unfolding document_statements_def root by (metis image_image)
  also have "\<dots> = {x. json_holds ?g x}"
  proof (intro set_eqI)
    fix x :: "string \<times> string \<times> rdf_json"
    obtain s p v where x: "x = (s, p, v)" by (cases x)
    have "x \<in> (\<Union>y\<in>set ?g. statements_of (described y)) \<longleftrightarrow> (\<exists>t ps. (t, ps) \<in> set ?g \<and> x \<in> statements_of (described (t, ps)))"
      by auto
    also have "\<dots> \<longleftrightarrow> (\<exists>t ps. (t, ps) \<in> set ?g \<and> x \<in> {(t, p, v) | p v. \<exists>vs. (p, vs) \<in> set ps \<and> v \<in> set vs})"
      by (simp add: parts cong: conj_cong)
    also have "\<dots> \<longleftrightarrow> (\<exists>ps vs. (s, ps) \<in> set ?g \<and> (p, vs) \<in> set ps \<and> v \<in> set vs)"
      by (auto simp: x)
    finally show "x \<in> (\<Union>y\<in>set ?g. statements_of (described y)) \<longleftrightarrow> x \<in> {x. json_holds ?g x}"
      using json_holds_iff [OF ok, of s p v] x by simp
  qed
  finally show ?thesis using all by simp
qed

definition http_uri :: "string \<Rightarrow> rdf_node" where
  "http_uri p = Resource \<lparr>u_scheme = Some ''http'', u_authority = Some ''h'', u_path = p, u_query = None, u_fragment = None\<rparr>"

definition plain_env :: xml_env where
  "plain_env = \<lparr>xe_serialize = (\<lambda>d. []), xe_value = (\<lambda>d. None), xe_parse = (\<lambda>s. []), xe_name = (\<lambda>n. True)\<rparr>"

theorem createRdfXml_read_witness:
  "\<exists>root. createRdfXml plain_env [(''e'', ''http://h/'')] [\<lparr>t_subject = Blank ''s'', t_property = http_uri ''/p'',
      t_object = http_uri ''/o'', t_graph = None, t_source = None\<rparr>] = Inr root \<and>
    document_statements root = {(''_:s'', ''http://h/p'', node_dump (http_uri ''/o''))}"
proof -
  let ?t = "\<lparr>t_subject = Blank ''s'', t_property = http_uri ''/p'', t_object = http_uri ''/o'', t_graph = None, t_source = None\<rparr>"
  have v: "node_value (http_uri ''/p'') = ''http://h/p''" "node_value (Blank ''s'') = ''_:s''"
    by (simp_all add: node_value_def http_uri_def uri_toString_def)
  have type: "xml_type_uri \<noteq> ''http://h/p''" "\<not> syntax_name ''http://h/p''"
    by (auto simp: xml_type_uri_def rdfNs_def syntax_name_def)
  have json: "createJson [?t] = [(''_:s'', [(''http://h/p'', [node_dump (http_uri ''/o'')])])]"
    by (simp add: createJson_def json_push_def v)
  have "ns_split ''http://h/p'' \<noteq> None"
    by (simp add: splits_at_def hash_slash_def line_end_def upt_rec)
  then obtain r where "createRdfXml plain_env [(''e'', ''http://h/'')] [?t] = Inr r"
    using type by (auto simp: createRdfXml_def json subject_element_def createElementNS_def plain_env_def values_of_def Let_def
        simp del: ns_split.simps)
  moreover have "writable_triple ?t"
    using type by (simp add: writable_triple_def splittable_def v line_end_def hash_slash_def)
      (simp add: node_dump_def http_uri_def)
  ultimately show ?thesis using createRdfXml_read [of plain_env "[(''e'', ''http://h/'')]" "[?t]" r] v by (auto simp: statement_def)
qed

text \<open>A name that ends in a slash loses it.\<close>

lemma trailing_slash_lost: "ns_split ''http://h/p/'' = Some (''http://h/'', ''p'')"
  by (simp add: splits_at_def hash_slash_def line_end_def upt_rec)

text \<open>
  What the conditions exclude. A property \<open>rdf:li\<close> is written as such, and read, by the parser of
  this script too, as \<open>rdf:_1\<close>; a type \<open>rdf:Description\<close> names the element that states no type; and a
  type that is a literal comes back as a resource.
\<close>

lemma li_renumbered:
  assumes "element_uri d = rdfNs @ ''li''"
  shows "read_properties 1 [d] = [(rdfNs @ ''_1'', read_value d)]"
proof -
  have "nat_str 1 = ''1''" by code_simp
  then show ?thesis using assms by simp
qed

lemma description_type_lost: "statements_of (rdfNs @ ''Description'', s, []) = {}"
  by (simp add: statements_of_def)

end
