(* ===== verification/IdEncoder.thy ===== *)
theory IdEncoder
  imports JsPrelude "HOL-Library.Word"
begin

text \<open>
  \<open>id-encoder.js\<close>: texts as ids of elements. Strings are here lists of 16-bit code units, since
  codes of any size are written and read. \<open>encodeId\<close> is injective; \<open>decodeId\<close> undoes it where the
  text has no digits, and may fail otherwise, since it replaces by patterns everywhere.
\<close>

section \<open>Code units\<close>

type_synonym units = "16 word list"

definition code_units :: "string \<Rightarrow> units" where
  "code_units s = map (\<lambda>c. word_of_nat (of_char c)) s"

definition units_text :: "units \<Rightarrow> string" where
  "units_text us = map (\<lambda>u. char_of (unat u)) us"

definition digit_unit :: "16 word \<Rightarrow> bool" where
  "digit_unit u \<longleftrightarrow> 48 \<le> u \<and> u \<le> 57"

text \<open>\<open>[-A-Za-z0-9]\<close>\<close>

definition id_unit :: "16 word \<Rightarrow> bool" where
  "id_unit u \<longleftrightarrow> u = 45 \<or> (65 \<le> u \<and> u \<le> 90) \<or> (97 \<le> u \<and> u \<le> 122) \<or> digit_unit u"

section \<open>Encoding\<close>

definition code_token :: "16 word \<Rightarrow> units" where
  "code_token u = code_units (''_'' @ nat_str (unat u) @ ''_'')"

definition encodeId :: "units \<Rightarrow> units" where
  "encodeId s = concat (map (\<lambda>u. if id_unit u then [u] else code_token u) s)"

section \<open>Decoding\<close>

text \<open>A match of \<open>_[0-9]+_\<close> at the start, and all of them from left to right.\<close>

definition token_here :: "units \<Rightarrow> units option" where
  "token_here s = (case s of
       [] \<Rightarrow> None
     | u # t \<Rightarrow>
         if u = 95 \<and> takeWhile digit_unit t \<noteq> [] \<and> take 1 (dropWhile digit_unit t) = [95]
         then Some (95 # takeWhile digit_unit t @ [95]) else None)"

fun tokens_go :: "units \<Rightarrow> nat \<Rightarrow> units list" where
  "tokens_go [] k = []"
| "tokens_go (u # s) (Suc k) = tokens_go s k"
| "tokens_go (u # s) 0 = (case token_here (u # s) of
       Some m \<Rightarrow> m # tokens_go s (length m - 1)
     | None \<Rightarrow> tokens_go s 0)"

text \<open>
  A decimal text as a number: from \<open>2^53\<close> on the nearest multiple of a power of two, the even
  one of two, as a double. \<open>fromCharCode\<close> keeps the lowest 16 bits; infinity, which it takes for
  \<open>0\<close>, stands only for numbers that are multiples of \<open>2^16\<close> too.
\<close>

fun bit_count :: "nat \<Rightarrow> nat" where
  "bit_count n = (if n = 0 then 0 else Suc (bit_count (n div 2)))"

declare bit_count.simps [simp del]

definition to_double :: "nat \<Rightarrow> nat" where
  "to_double n =
     (if n < 2 ^ 53 then n
      else
        (let p = 2 ^ (bit_count n - 53); q = n div p; r = n mod p in
         if 2 * r > p \<or> (2 * r = p \<and> odd q) then (q + 1) * p else q * p))"

definition from_char_code :: "units \<Rightarrow> 16 word" where
  "from_char_code ds = word_of_nat (to_double (digits_val (units_text ds)))"

definition decode_token :: "units \<Rightarrow> units \<Rightarrow> units" where
  "decode_token new m = replace_all m [from_char_code (filter (\<lambda>u. u \<noteq> 95) m)] new"

definition decodeId :: "units \<Rightarrow> units" where
  "decodeId s = foldl decode_token s (tokens_go s 0)"

section \<open>Lemmas\<close>

lemma units_append [simp]: "code_units (s @ t) = code_units s @ code_units t"
  by (simp add: code_units_def)

definition unit_digits :: "16 word \<Rightarrow> units" where
  "unit_digits u = code_units (nat_str (unat u))"

lemma code_token_parts: "code_token u = 95 # unit_digits u @ [95]"
  by (simp add: code_token_def unit_digits_def code_units_def)

lemma char_unit [simp]: "unat (word_of_nat (of_char c) :: 16 word) = of_char c"
proof -
  have "(of_char c :: nat) < 2 ^ LENGTH(16)" using nat_of_char_less_256 [of c] by (rule less_trans) simp
  then show ?thesis unfolding unat_of_nat by (rule mod_less)
qed

lemma units_text_code_units [simp]: "units_text (code_units s) = s"
  by (simp add: units_text_def code_units_def comp_def)

lemma unit_digits_digits: "\<forall>d\<in>set (unit_digits u). digit_unit d"
proof
  fix d assume "d \<in> set (unit_digits u)"
  then obtain c where c: "c \<in> set (nat_str (unat u))" "d = word_of_nat (of_char c)"
    by (auto simp: unit_digits_def code_units_def)
  then have "48 \<le> (of_char c :: nat)" "of_char c \<le> (57 :: nat)"
    using nat_str_digits [of "unat u"] by (auto simp: list_all_iff is_digit_def)
  then show "digit_unit d" using c(2) by (simp add: digit_unit_def word_le_nat_alt)
qed

lemma unit_digits_ne [simp]: "unit_digits u \<noteq> []"
  by (simp add: unit_digits_def code_units_def)

lemma unit_digits_inj: "unit_digits u = unit_digits v \<longleftrightarrow> u = v"
proof
  assume "unit_digits u = unit_digits v"
  then have "units_text (unit_digits u) = units_text (unit_digits v)" by simp
  then show "u = v" by (simp add: unit_digits_def nat_str_inj word_unat_eq_iff)
qed simp

lemma score_not_digit [simp]: "\<not> digit_unit 95"
  by (simp add: digit_unit_def)

lemma score_not_id [simp]: "\<not> id_unit 95"
  by (simp add: id_unit_def)

lemma take_digits:
  "takeWhile digit_unit (unit_digits u @ 95 # s) = unit_digits u"
  "dropWhile digit_unit (unit_digits u @ 95 # s) = 95 # s"
  using unit_digits_digits [of u] by (simp_all add: takeWhile_append dropWhile_append)

lemma from_char_code_token: "from_char_code (filter (\<lambda>u. u \<noteq> 95) (code_token u)) = u"
proof -
  have "filter (\<lambda>u. u \<noteq> 95) (unit_digits u) = unit_digits u"
    using unit_digits_digits by (fastforce intro: filter_True)
  then have "filter (\<lambda>u. u \<noteq> 95) (code_token u) = unit_digits u" by (simp add: code_token_parts)
  moreover have "unat u < 2 ^ 53" using unsigned_less [of u, where ?'a = nat] by simp
  ultimately show ?thesis by (simp add: from_char_code_def unit_digits_def to_double_def)
qed

lemma decode_token_code: "decode_token s (code_token c) = replace_all (code_token c) [c] s"
  by (simp add: decode_token_def from_char_code_token)

section \<open>Texts with some characters encoded\<close>

definition render :: "(bool \<times> 16 word) list \<Rightarrow> units" where
  "render xs = concat (map (\<lambda>(e, u). if e then code_token u else [u]) xs)"

lemma render_simps [simp]:
  "render [] = []" "render ((True, u) # xs) = 95 # unit_digits u @ 95 # render xs"
  "render ((False, u) # xs) = u # render xs"
  by (simp_all add: render_def code_token_parts)

definition no_digits :: "(bool \<times> 16 word) list \<Rightarrow> bool" where
  "no_digits xs \<longleftrightarrow> (\<forall>(e, u)\<in>set xs. \<not> digit_unit u)"

lemma no_digits_simps [simp]: "no_digits []" "no_digits ((e, u) # xs) \<longleftrightarrow> \<not> digit_unit u \<and> no_digits xs"
  by (simp_all add: no_digits_def)

lemma render_start: "no_digits xs \<Longrightarrow> takeWhile digit_unit (render xs) = []"
  by (cases xs; cases "hd xs"; cases "fst (hd xs)") auto

lemma no_token_after_score:
  assumes "no_digits xs"
  shows "\<not> prefix (code_token c) (95 # render xs)"
proof
  assume "prefix (code_token c) (95 # render xs)"
  then obtain z where "render xs = unit_digits c @ 95 # z" by (auto simp: code_token_parts prefix_def)
  then show False using render_start [OF assms] take_digits(1) [of c z] by simp
qed

lemma token_at_token: "prefix (code_token c) (95 # unit_digits d @ 95 # s) \<longleftrightarrow> c = d"
proof
  assume "prefix (code_token c) (95 # unit_digits d @ 95 # s)"
  then obtain z where "unit_digits d @ 95 # s = unit_digits c @ 95 # z" by (auto simp: code_token_parts prefix_def)
  then have "takeWhile digit_unit (unit_digits d @ 95 # s) = takeWhile digit_unit (unit_digits c @ 95 # z)" by simp
  then show "c = d" by (simp add: take_digits unit_digits_inj)
qed (simp add: code_token_parts prefix_def)

lemma replace_go_skip: "replace_go p r (s @ t) (length s) = replace_go p r t 0"
  by (induction s) auto

lemma replace_go_digits:
  "\<forall>d\<in>set ds. digit_unit d \<Longrightarrow> replace_go (code_token c) r (ds @ s) 0 = ds @ replace_go (code_token c) r s 0"
  by (induction ds) (auto simp: code_token_parts)

lemma replace_render:
  "no_digits xs \<Longrightarrow> replace_go (code_token c) [c] (render xs) 0 = render (map (\<lambda>(e, d). (e \<and> d \<noteq> c, d)) xs)"
proof (induction xs)
  case (Cons x xs)
  obtain e d where x: "x = (e, d)" by (cases x)
  have xs: "no_digits xs" and d: "\<not> digit_unit d" using Cons.prems x by simp_all
  show ?case
  proof (cases e)
    case True
    have last: "replace_go (code_token c) [c] (95 # render xs) 0 = 95 # replace_go (code_token c) [c] (render xs) 0"
      using no_token_after_score [OF xs] by simp
    show ?thesis
    proof (cases "c = d")
      case True
      have len: "length (code_token d) - Suc 0 = length (unit_digits d @ [95])" by (simp add: code_token_parts)
      have "replace_go (code_token c) [c] (unit_digits d @ 95 # render xs) (length (code_token d) - Suc 0) =
          replace_go (code_token c) [c] (render xs) 0"
        using replace_go_skip [of "code_token c" "[c]" "unit_digits d @ [95]" "render xs"] unfolding len by simp
      then show ?thesis using \<open>e\<close> True x Cons.IH [OF xs] by (simp add: token_at_token)
    next
      case False
      then show ?thesis
        using \<open>e\<close> x Cons.IH [OF xs] last replace_go_digits [OF unit_digits_digits [of d], of c "[c]" "95 # render xs"]
        by (simp add: token_at_token del: replace_go.simps(3)) (simp add: token_at_token)
    qed
  next
    case False
    have "\<not> prefix (code_token c) (d # render xs)"
      using no_token_after_score [OF xs] by (cases "d = 95") (auto simp: code_token_parts)
    then show ?thesis using False x Cons.IH [OF xs] by simp
  qed
qed simp

lemma decode_all:
  "no_digits xs \<Longrightarrow> foldl decode_token (render xs) (map code_token cs) = render (map (\<lambda>(e, d). (e \<and> d \<notin> set cs, d)) xs)"
proof (induction cs arbitrary: xs)
  case (Cons c cs)
  let ?ys = "map (\<lambda>(e, d). (e \<and> d \<noteq> c, d)) xs"
  have "no_digits ?ys" using Cons.prems by (auto simp: no_digits_def)
  then have "foldl decode_token (render ?ys) (map code_token cs) = render (map (\<lambda>(e, d). (e \<and> d \<notin> set cs, d)) ?ys)"
    by (rule Cons.IH)
  then show ?case
    using replace_render [OF Cons.prems] by (simp add: decode_token_code replace_all_def comp_def split_def conj_ac)
qed (simp add: split_def)

lemma tokens_go_skip: "tokens_go (s @ t) (length s) = tokens_go t 0"
  by (induction s) auto

lemma tokens_render:
  "no_digits xs \<Longrightarrow> \<forall>(e, u)\<in>set xs. \<not> e \<longrightarrow> u \<noteq> 95 \<Longrightarrow>
     tokens_go (render xs) 0 = map code_token (map snd (filter fst xs))"
proof (induction xs)
  case (Cons x xs)
  obtain e d where x: "x = (e, d)" by (cases x)
  show ?case
  proof (cases e)
    case True
    have "token_here (95 # unit_digits d @ 95 # render xs) = Some (code_token d)"
      by (simp add: token_here_def take_digits code_token_parts)
    moreover have len: "length (code_token d) - Suc 0 = length (unit_digits d @ [95])" by (simp add: code_token_parts)
    moreover have "tokens_go (unit_digits d @ 95 # render xs) (length (code_token d) - Suc 0) = tokens_go (render xs) 0"
      using tokens_go_skip [of "unit_digits d @ [95]" "render xs"] unfolding len by simp
    ultimately show ?thesis using True x Cons by simp
  next
    case False
    then have "token_here (d # render xs) = None" using Cons.prems x by (simp add: token_here_def)
    then show ?thesis using False x Cons by simp
  qed
qed simp

section \<open>Properties\<close>

text \<open>
  Two texts have the same id only if they are equal: every character that is not a letter,
  a digit or a minus sign is written as its code between underscores.
\<close>

lemma encodeId_injective: "encodeId s = encodeId t \<longleftrightarrow> s = t"
proof
  show "encodeId s = encodeId t \<Longrightarrow> s = t"
  proof (induction s arbitrary: t)
    case Nil
    then show ?case by (cases t) (simp_all add: encodeId_def code_token_parts split: if_splits)
  next
    case (Cons u s)
    obtain v t' where t: "t = v # t'"
      using Cons.prems by (cases t) (simp_all add: encodeId_def code_token_parts split: if_splits)
    have eq: "(if id_unit u then [u] else code_token u) @ encodeId s = (if id_unit v then [v] else code_token v) @ encodeId t'"
      using Cons.prems t by (simp add: encodeId_def)
    then have same: "id_unit u = id_unit v" by (auto simp: code_token_parts split: if_splits)
    have "u = v \<and> encodeId s = encodeId t'"
    proof (cases "id_unit u")
      case True
      then show ?thesis using eq same by simp
    next
      case False
      then have e: "unit_digits u @ 95 # encodeId s = unit_digits v @ 95 # encodeId t'"
        using eq same by (simp add: code_token_parts)
      then have "takeWhile digit_unit (unit_digits u @ 95 # encodeId s) = takeWhile digit_unit (unit_digits v @ 95 # encodeId t')" by simp
      then have "u = v" by (simp add: take_digits unit_digits_inj)
      then show ?thesis using e by simp
    qed
    then show ?case using Cons.IH t by simp
  qed
qed simp

text \<open>
  Decoding gives back an encoded text that has no digits, underscores and all other
  characters included.
\<close>

lemma decodeId_encodeId:
  assumes "\<forall>u\<in>set s. \<not> digit_unit u"
  shows "decodeId (encodeId s) = s"
proof -
  let ?xs = "map (\<lambda>u. (\<not> id_unit u, u)) s"
  have enc: "encodeId s = render ?xs" by (simp add: encodeId_def render_def comp_def if_distrib cong: if_cong) (metis (full_types))
  have nd: "no_digits ?xs" using assms by (auto simp: no_digits_def)
  have "tokens_go (render ?xs) 0 = map code_token (map snd (filter fst ?xs))"
    by (rule tokens_render [OF nd]) auto
  then have "decodeId (encodeId s) = render (map (\<lambda>(e, d). (e \<and> d \<notin> set (map snd (filter fst ?xs)), d)) ?xs)"
    using decode_all [OF nd, of "map snd (filter fst ?xs)"] by (simp only: decodeId_def enc)
  also have "map (\<lambda>(e, d). (e \<and> d \<notin> set (map snd (filter fst ?xs)), d)) ?xs = map (\<lambda>u. (False, u)) s"
    by (auto simp: image_iff)
  also have "render \<dots> = s" by (induction s) simp_all
  finally show ?thesis .
qed

lemma decodeId_encodeId_witness: "decodeId (encodeId (code_units ''a_ b'')) = code_units ''a_ b''"
  by (rule decodeId_encodeId) (simp add: code_units_def digit_unit_def word_le_nat_alt)

text \<open>With digits a code may be found in the middle of other text.\<close>

lemma decodeId_digits_wrong: "decodeId (encodeId (code_units ''! 33 '')) = code_units ''!_32!32_''"
proof -
  have e: "encodeId (code_units ''! 33 '') = code_units ''_33__32_33_32_''"
    by (simp add: encodeId_def code_token_def code_units_def id_unit_def digit_unit_def nat_str.simps char_of_def bit_Suc_0_iff)
  show ?thesis unfolding e
    by (simp add: decodeId_def token_here_def code_units_def digit_unit_def decode_token_def from_char_code_def
        units_text_def digits_val_def digit_val_def to_double_def replace_all_def)
qed

end
