(* ===== verification/WebScripts.thy ===== *)
theory WebScripts
  imports JsPrelude
begin

text \<open>
  The shared scripts of the pages: \<open>status-message.js\<close>, \<open>ajax-options.js\<close>, \<open>alert-message.js\<close> and
  \<open>modification-status.js\<close>. The status messages are a state machine: fading takes time, so its
  callbacks are events of their own that may come in any order and after further messages.
  Ids are texts of letters, digits, minus signs and underscores, as \<open>$('#' + id)\<close> needs.
\<close>

section \<open>Status messages\<close>

text \<open>
  The loader is the element \<open>tx-loader\<close> with the elements of the messages inside; each loader
  has its own number, since callbacks keep the element they were made for. \<open>bound\<close> counts the
  handlers that move the loader with the pointer.
\<close>

record status_loader =
  l_number :: nat
  l_left :: int
  l_top :: int
  l_divs :: "(string \<times> string) list"

datatype fade = Fade_div nat string | Fade_loader nat

record status =
  messages :: "string list"
  speed :: int
  mouse_x :: int
  mouse_y :: int
  loader :: "status_loader option"
  next_loader :: nat
  bound :: nat
  fades :: "fade list"

definition new_status :: status where
  "new_status = \<lparr>messages = [], speed = 3000, mouse_x = 10, mouse_y = 10, loader = None, next_loader = 0,
     bound = 0, fades = []\<rparr>"

definition offSet :: int where
  "offSet = 10"

definition setMousePos :: "int \<Rightarrow> int \<Rightarrow> status \<Rightarrow> status" where
  "setMousePos x y s = s\<lparr>mouse_x := x, mouse_y := y\<rparr>"

definition setFadeOutSpeed :: "int \<Rightarrow> status \<Rightarrow> status" where
  "setFadeOutSpeed ms s = s\<lparr>speed := ms\<rparr>"

definition open_loader :: "status \<Rightarrow> status" where
  "open_loader s = s\<lparr>loader := Some \<lparr>l_number = next_loader s, l_left = mouse_x s + offSet, l_top = mouse_y s + offSet,
       l_divs = []\<rparr>, next_loader := next_loader s + 1, bound := bound s + 1\<rparr>"

definition loader_ids :: "status \<Rightarrow> string set" where
  "loader_ids s = (case loader s of None \<Rightarrow> {} | Some l \<Rightarrow> insert ''tx-loader'' (fst ` set (l_divs l)))"

text \<open>The ids of the rest of the page are a parameter.\<close>

definition add_message :: "string set \<Rightarrow> string \<Rightarrow> string \<Rightarrow> status \<Rightarrow> status" where
  "add_message page i text s0 =
     (let s = (if messages s0 = [] then open_loader s0 else s0) in
      if i \<in> page \<union> loader_ids s then s
      else s\<lparr>messages := messages s @ [i],
             loader := map_option (\<lambda>l. l\<lparr>l_divs := l_divs l @ [(i, text)]\<rparr>) (loader s)\<rparr>)"

text \<open>The element with the id is one of the loader's; one elsewhere on the page is not counted as fading.\<close>

definition fade_message :: "string \<Rightarrow> status \<Rightarrow> status" where
  "fade_message i s = (case loader s of
       Some l \<Rightarrow> if i \<in> fst ` set (l_divs l) then s\<lparr>fades := fades s @ [Fade_div (l_number l) i]\<rparr> else s
     | None \<Rightarrow> s)"

definition remove_message :: "string \<Rightarrow> status \<Rightarrow> status" where
  "remove_message i s0 =
     (let s = (if i \<in> set (messages s0) then (fade_message i s0)\<lparr>messages := remove1 i (messages s0)\<rparr> else s0) in
      if messages s = [] then
        (case loader s of Some l \<Rightarrow> s\<lparr>fades := fades s @ [Fade_loader (l_number l)]\<rparr> | None \<Rightarrow> s)
      else s)"

text \<open>
  The end of a fade: the element goes, if it is still there; the loader's callback also
  unbinds the pointer handlers, whichever loader they were bound for.
\<close>

definition fade_end :: "fade \<Rightarrow> status \<Rightarrow> status" where
  "fade_end f s0 =
     (let s = s0\<lparr>fades := remove1 f (fades s0)\<rparr> in
      case f of
        Fade_div n i \<Rightarrow> s\<lparr>loader := map_option (\<lambda>l.
            if l_number l = n then l\<lparr>l_divs := filter (\<lambda>d. fst d \<noteq> i) (l_divs l)\<rparr> else l) (loader s)\<rparr>
      | Fade_loader n \<Rightarrow> s\<lparr>bound := 0, loader := (case loader s of
            Some l \<Rightarrow> if l_number l = n then None else Some l | None \<Rightarrow> None)\<rparr>)"

text \<open>The pointer moves: the position is kept, and a bound handler moves the loader.\<close>

definition mouse_move :: "int \<Rightarrow> int \<Rightarrow> status \<Rightarrow> status" where
  "mouse_move x y s =
     (let t = setMousePos x y s in
      if 0 < bound s then t\<lparr>loader := map_option (\<lambda>l. l\<lparr>l_left := x + offSet, l_top := y + offSet\<rparr>) (loader t)\<rparr> else t)"

inductive status_step :: "string set \<Rightarrow> status \<Rightarrow> status \<Rightarrow> bool" for page where
  step_add: "status_step page s (add_message page i text s)"
| step_remove: "status_step page s (remove_message i s)"
| step_fade: "f \<in> set (fades s) \<Longrightarrow> status_step page s (fade_end f s)"
| step_mouse: "status_step page s (mouse_move x y s)"
| step_speed: "status_step page s (setFadeOutSpeed ms s)"

inductive status_reachable :: "string set \<Rightarrow> status \<Rightarrow> bool" for page where
  reach_start: "status_reachable page new_status"
| reach_step: "status_reachable page s \<Longrightarrow> status_step page s t \<Longrightarrow> status_reachable page t"

section \<open>Requests\<close>

text \<open>Missing options are those of the prototype; the actions are steps of the page.\<close>

record 'p ajax_options =
  actionName :: string
  actionText :: string
  beforeSendAction :: "('p, unit) js_step"
  successAction :: "('p, unit) js_step"
  errorAction :: "('p, unit) js_step"

text \<open>An empty text counts as missing.\<close>

definition new_ajax_options :: "string option \<Rightarrow> string option \<Rightarrow> ('p, unit) js_step option \<Rightarrow> 'p ajax_options" where
  "new_ajax_options name text action =
     \<lparr>actionName = (case name of Some n \<Rightarrow> if n = [] then ''Unnamed'' else n | None \<Rightarrow> ''Unnamed''),
      actionText = (case text of Some t \<Rightarrow> if t = [] then ''retrieving data'' else t | None \<Rightarrow> ''retrieving data''),
      beforeSendAction = ret (), successAction = (case action of Some a \<Rightarrow> a | None \<Rightarrow> ret ()), errorAction = ret ()\<rparr>"

definition on_page :: "('p, 'a) js_step \<Rightarrow> ('p \<times> status, 'a) js_step" where
  "on_page m ps = (case m (fst ps) of (r, p) \<Rightarrow> (r, (p, snd ps)))"

definition on_status :: "(status \<Rightarrow> status) \<Rightarrow> ('p \<times> status, unit) js_step" where
  "on_status f = modify (\<lambda>(p, s). (p, f s))"

definition beforeSend :: "string set \<Rightarrow> 'p ajax_options \<Rightarrow> ('p \<times> status, unit) js_step" where
  "beforeSend page opts = then_step (on_page (beforeSendAction opts))
     (on_status (add_message page (actionName opts) (actionText opts)))"

definition success :: "'p ajax_options \<Rightarrow> ('p \<times> status, unit) js_step" where
  "success opts = then_step (on_page (successAction opts)) (on_status (remove_message (actionName opts)))"

text \<open>
  The text of an error: that of the body of the response as a document, or of the elements
  that jQuery makes of the response's text, both parameters, if it is not empty; otherwise the
  response itself with its angle brackets escaped.
\<close>

definition escape_angles :: "string \<Rightarrow> string" where
  "escape_angles s = replace_all ''>'' ''&gt;'' (replace_all ''<'' ''&lt;'' s)"

definition error_text :: "(string \<Rightarrow> 'e option) \<Rightarrow> ('e \<Rightarrow> string option) \<Rightarrow> string option \<Rightarrow> 'e option \<Rightarrow> string \<Rightarrow> string" where
  "error_text make_element body_text responseText responseXML textStatus =
     (let msg = (case responseText of Some t \<Rightarrow> if t = [] then ''Unspecified Error ('' @ textStatus @ '')'' else t
                 | None \<Rightarrow> ''Unspecified Error ('' @ textStatus @ '')'');
          xml = (case responseXML of Some x \<Rightarrow> Some x | None \<Rightarrow> make_element msg);
          from_xml = (case xml of Some x \<Rightarrow> body_text x | None \<Rightarrow> None) in
      case from_xml of
        Some t \<Rightarrow> if t = [] then escape_angles msg else t
      | None \<Rightarrow> escape_angles msg)"

section \<open>Alerts and unsaved changes\<close>

record alert_button =
  button_text :: string
  is_yes :: bool
  isDefault :: bool

record alert_dialog =
  dialog_header :: string
  dialog_body :: string
  dialog_buttons :: "alert_button list"

definition alert_buttons :: "string option \<Rightarrow> string option \<Rightarrow> alert_button list" where
  "alert_buttons textYes textNo =
     (case textYes of
        Some t \<Rightarrow> [\<lparr>button_text = t, is_yes = True, isDefault = True\<rparr>]
      | None \<Rightarrow> if textNo = None then [\<lparr>button_text = ''Yes'', is_yes = True, isDefault = True\<rparr>,
            \<lparr>button_text = ''No'', is_yes = False, isDefault = False\<rparr>] else []) @
     (case textNo of Some t \<Rightarrow> [\<lparr>button_text = t, is_yes = False, isDefault = False\<rparr>] | None \<Rightarrow> [])"

definition AlertMessage_show :: "string option \<Rightarrow> string option \<Rightarrow> string option \<Rightarrow> string option \<Rightarrow> alert_dialog" where
  "AlertMessage_show msg header textYes textNo =
     \<lparr>dialog_header = (case header of Some h \<Rightarrow> h | None \<Rightarrow> ''Alert''),
      dialog_body = (case msg of Some m \<Rightarrow> m | None \<Rightarrow> ''Are you sure you want to lose the unsaved changes?''),
      dialog_buttons = alert_buttons textYes textNo\<rparr>"

text \<open>\<open>error\<close> shows its dialog and then takes the status message away.\<close>

definition ajax_error :: "(string \<Rightarrow> 'e option) \<Rightarrow> ('e \<Rightarrow> string option) \<Rightarrow> (alert_dialog \<Rightarrow> ('p, unit) js_step) \<Rightarrow>
    'p ajax_options \<Rightarrow> string option \<Rightarrow> 'e option \<Rightarrow> string \<Rightarrow> ('p \<times> status, unit) js_step" where
  "ajax_error make_element body_text show_dialog opts responseText responseXML textStatus =
     then_step (on_page (errorAction opts))
     (then_step (on_page (show_dialog (AlertMessage_show
        (Some (''The following error occured: '' @ error_text make_element body_text responseText responseXML textStatus))
        (Some ''Error'') (Some ''Ok'') None)))
     (on_status (remove_message (actionName opts))))"

text \<open>The watched selectors; a change of an element that one of them selects marks the page.\<close>

record modification =
  isModified :: bool
  watched :: "string list"

definition watchElements :: "string \<Rightarrow> modification \<Rightarrow> modification" where
  "watchElements sel m = m\<lparr>watched := watched m @ [sel]\<rparr>"

definition unwatchElements :: "string \<Rightarrow> modification \<Rightarrow> modification" where
  "unwatchElements sel m = m\<lparr>watched := filter (\<lambda>s. s \<noteq> sel) (watched m)\<rparr>"

definition element_changed :: "('e \<Rightarrow> string \<Rightarrow> bool) \<Rightarrow> 'e \<Rightarrow> modification \<Rightarrow> modification" where
  "element_changed selects e m = (if \<exists>s\<in>set (watched m). selects e s then m\<lparr>isModified := True\<rparr> else m)"

definition onbeforeunload :: "modification \<Rightarrow> string option" where
  "onbeforeunload m = (if isModified m then Some ''There are unsaved changes'' else None)"

section \<open>Lemmas\<close>

definition is_div :: "fade \<Rightarrow> bool" where
  "is_div f \<longleftrightarrow> (case f of Fade_div n i \<Rightarrow> True | Fade_loader n \<Rightarrow> False)"

lemma is_div_simps [simp]: "is_div (Fade_div n i)" "\<not> is_div (Fade_loader n)"
  by (simp_all add: is_div_def)

text \<open>A fade that is under way does not concern a message of the list, and fades its element once.\<close>

definition fade_ok :: "status \<Rightarrow> fade \<Rightarrow> bool" where
  "fade_ok s f \<longleftrightarrow> (case f of
       Fade_div n i \<Rightarrow> n < next_loader s \<and>
         (\<forall>l. loader s = Some l \<longrightarrow> l_number l = n \<longrightarrow> i \<notin> set (messages s) \<and> i \<in> fst ` set (l_divs l))
     | Fade_loader n \<Rightarrow> n < next_loader s \<and>
         (\<forall>l. loader s = Some l \<longrightarrow> l_number l = n \<longrightarrow> messages s = []))"

definition status_ok :: "status \<Rightarrow> bool" where
  "status_ok s \<longleftrightarrow> distinct (messages s) \<and> distinct (filter is_div (fades s)) \<and> (\<forall>f\<in>set (fades s). fade_ok s f) \<and>
     (case loader s of
        None \<Rightarrow> messages s = []
      | Some l \<Rightarrow> l_number l < next_loader s \<and> set (messages s) \<subseteq> fst ` set (l_divs l))"

lemma status_ok_new: "status_ok new_status"
  by (simp add: status_ok_def new_status_def)

lemma status_ok_open: "status_ok s \<Longrightarrow> messages s = [] \<Longrightarrow> status_ok (open_loader s)"
  by (auto simp: status_ok_def open_loader_def fade_ok_def split: fade.splits)

lemma status_ok_push:
  assumes ok: "status_ok s" and l: "loader s = Some l" "i \<notin> fst ` set (l_divs l)" "Fade_loader (l_number l) \<notin> set (fades s)"
  shows "status_ok (s\<lparr>messages := messages s @ [i], loader := Some (l\<lparr>l_divs := l_divs l @ [(i, text)]\<rparr>)\<rparr>)" (is "status_ok ?t")
proof -
  have "fade_ok ?t f" if f: "f \<in> set (fades s)" for f
  proof -
    have "fade_ok s f" using ok f unfolding status_ok_def by blast
    then show ?thesis using l f by (cases f) (auto simp: fade_ok_def)
  qed
  moreover have "i \<notin> set (messages s)" using ok l by (auto simp: status_ok_def)
  ultimately show ?thesis using ok l by (auto simp: status_ok_def)
qed

lemma status_ok_add: "status_ok s \<Longrightarrow> status_ok (add_message page i text s)"
proof -
  assume ok: "status_ok s"
  let ?s = "if messages s = [] then open_loader s else s"
  have ok': "status_ok ?s" using ok status_ok_open by simp
  obtain l where l: "loader ?s = Some l" "Fade_loader (l_number l) \<notin> set (fades ?s)"
  proof (cases "messages s = []")
    case True
    then have "\<forall>n. Fade_loader n \<in> set (fades s) \<longrightarrow> n < next_loader s" using ok by (auto simp: status_ok_def fade_ok_def)
    then show ?thesis using that True by (auto simp: open_loader_def)
  next
    case False
    then obtain l where "loader s = Some l" using ok by (auto simp: status_ok_def split: option.splits)
    moreover from this have "Fade_loader (l_number l) \<notin> set (fades s)" using ok False by (auto simp: status_ok_def fade_ok_def)
    ultimately show ?thesis using that False by simp
  qed
  show ?thesis
  proof (cases "i \<in> page \<union> loader_ids ?s")
    case True
    then show ?thesis using ok' unfolding add_message_def Let_def by simp
  next
    case False
    then have "i \<notin> fst ` set (l_divs l)" using l(1) by (simp add: loader_ids_def)
    then show ?thesis using False status_ok_push [OF ok' l(1) _ l(2), of i "text"] l(1)
      unfolding add_message_def Let_def by simp
  qed
qed

lemma status_ok_drop:
  assumes ok: "status_ok s" and i: "i \<in> set (messages s)"
  shows "status_ok ((fade_message i s)\<lparr>messages := remove1 i (messages s)\<rparr>)"
proof -
  obtain l where l: "loader s = Some l" "i \<in> fst ` set (l_divs l)" "l_number l < next_loader s"
    using ok i by (auto simp: status_ok_def split: option.splits)
  have new: "Fade_div (l_number l) i \<notin> set (fades s)" using ok i l(1) by (auto simp: status_ok_def fade_ok_def)
  let ?t = "s\<lparr>fades := fades s @ [Fade_div (l_number l) i], messages := remove1 i (messages s)\<rparr>"
  have d: "distinct (messages s)" using ok by (simp add: status_ok_def)
  have "fade_ok ?t f" if f: "f \<in> set (fades s)" for f
  proof -
    have "fade_ok s f" using ok f unfolding status_ok_def by blast
    then show ?thesis using i d by (cases f) (auto simp: fade_ok_def)
  qed
  moreover have "fade_ok ?t (Fade_div (l_number l) i)" using l d by (simp add: fade_ok_def)
  moreover have "set (remove1 i (messages s)) \<subseteq> fst ` set (l_divs l)"
    using ok l(1) set_remove1_subset [of i "messages s"] by (auto simp: status_ok_def)
  ultimately have "status_ok ?t" using ok l new by (simp add: status_ok_def)
  then show ?thesis using l by (simp add: fade_message_def)
qed

lemma status_ok_last:
  assumes "status_ok s" "messages s = []" "loader s = Some l"
  shows "status_ok (s\<lparr>fades := fades s @ [Fade_loader (l_number l)]\<rparr>)" (is "status_ok ?t")
proof -
  have "fade_ok ?t f = fade_ok s f" for f by (cases f) (simp_all add: fade_ok_def)
  moreover have "fade_ok s (Fade_loader (l_number l))" using assms by (simp add: fade_ok_def status_ok_def)
  ultimately show ?thesis using assms by (simp add: status_ok_def)
qed

lemma status_ok_remove:
  assumes "status_ok s"
  shows "status_ok (remove_message i s)"
proof -
  let ?s = "if i \<in> set (messages s) then (fade_message i s)\<lparr>messages := remove1 i (messages s)\<rparr> else s"
  have "status_ok ?s" using assms status_ok_drop by simp
  then show ?thesis unfolding remove_message_def Let_def
    using status_ok_last [of ?s] by (cases "loader ?s") auto
qed

lemma status_ok_fade:
  assumes ok: "status_ok s" and f: "f \<in> set (fades s)"
  shows "status_ok (fade_end f s)"
proof -
  have fo: "fade_ok s g" if "g \<in> set (remove1 f (fades s))" for g
    using ok that set_remove1_subset [of f "fades s"] by (auto simp: status_ok_def)
  have dist: "distinct (filter is_div (remove1 f (fades s)))"
    using ok by (cases "is_div f") (simp_all add: status_ok_def filter_remove1_in filter_remove1_out)
  show ?thesis
  proof (cases f)
    case (Fade_div n i)
    have once: "f \<notin> set (remove1 f (fades s))"
    proof -
      have "f \<notin> set (filter is_div (remove1 f (fades s)))"
        using ok Fade_div by (simp add: status_ok_def filter_remove1_in)
      then show ?thesis using Fade_div by simp
    qed
    let ?t = "fade_end f s"
    have t: "fades ?t = remove1 f (fades s)" "messages ?t = messages s" "next_loader ?t = next_loader s"
      "loader ?t = map_option (\<lambda>l. if l_number l = n then l\<lparr>l_divs := filter (\<lambda>d. fst d \<noteq> i) (l_divs l)\<rparr> else l) (loader s)"
      by (simp_all add: fade_end_def Fade_div)
    have "fade_ok ?t g" if g: "g \<in> set (remove1 f (fades s))" for g
    proof -
      have "g \<noteq> Fade_div n i" using g once Fade_div by auto
      then show ?thesis using fo [OF g] t by (cases g) (auto simp: fade_ok_def split: if_splits)
    qed
    then have fades: "\<forall>g\<in>set (fades ?t). fade_ok ?t g" using t(1) by simp
    have here: "fade_ok s f" using ok f by (simp add: status_ok_def)
    show ?thesis
    proof (cases "loader s")
      case None
      then show ?thesis using ok dist t fades by (simp add: status_ok_def)
    next
      case (Some l)
      have "set (messages s) \<subseteq> fst ` set (l_divs l)" using ok Some by (simp add: status_ok_def)
      moreover have "l_number l = n \<Longrightarrow> i \<notin> set (messages s)" using here Fade_div Some by (simp add: fade_ok_def)
      ultimately have "l_number l = n \<Longrightarrow> set (messages s) \<subseteq> fst ` set (filter (\<lambda>d. fst d \<noteq> i) (l_divs l))" by fastforce
      then show ?thesis using ok dist t fades Some by (simp add: status_ok_def)
    qed
  next
    case (Fade_loader n)
    let ?t = "fade_end f s"
    have t: "fades ?t = remove1 f (fades s)" "messages ?t = messages s" "next_loader ?t = next_loader s"
      "loader ?t = (case loader s of Some l \<Rightarrow> if l_number l = n then None else Some l | None \<Rightarrow> None)"
      by (simp_all add: fade_end_def Fade_loader)
    have "fade_ok ?t g" if g: "g \<in> set (remove1 f (fades s))" for g
      using fo [OF g] t by (cases g) (auto simp: fade_ok_def split: option.splits if_splits)
    moreover have "fade_ok s f" using ok f by (simp add: status_ok_def)
    ultimately show ?thesis using ok dist t Fade_loader
      by (cases "loader s") (auto simp: status_ok_def fade_ok_def)
  qed
qed

lemma status_ok_same:
  assumes "status_ok s" "messages t = messages s" "fades t = fades s" "next_loader t = next_loader s"
    "map_option l_number (loader t) = map_option l_number (loader s)" "map_option l_divs (loader t) = map_option l_divs (loader s)"
  shows "status_ok t"
proof -
  have "fade_ok t f = fade_ok s f" for f
    using assms(2-) by (cases "loader s"; cases "loader t"; cases f) (auto simp: fade_ok_def)
  then show ?thesis using assms by (cases "loader s"; cases "loader t") (auto simp: status_ok_def)
qed

lemma status_ok_step: "status_step page s t \<Longrightarrow> status_ok s \<Longrightarrow> status_ok t"
proof (induction rule: status_step.induct)
  case (step_mouse s x y)
  then show ?case by (rule status_ok_same) (auto simp: mouse_move_def setMousePos_def Let_def option.map_comp comp_def)
next
  case (step_speed s ms)
  then show ?case by (rule status_ok_same) (simp_all add: setFadeOutSpeed_def)
qed (simp_all add: status_ok_add status_ok_remove status_ok_fade)

lemma status_ok_reachable: "status_reachable page s \<Longrightarrow> status_ok s"
  by (induction rule: status_reachable.induct) (auto intro: status_ok_new status_ok_step)

section \<open>Properties\<close>

lemma messages_add:
  "messages (add_message page j txt s) =
    (if j \<in> page \<union> (if messages s = [] then {''tx-loader''} else loader_ids s) then messages s else messages s @ [j])"
  by (auto simp: add_message_def open_loader_def loader_ids_def Let_def)

lemma loader_messages_remove: "messages (remove_message j s) = remove1 j (messages s)"
proof -
  have f: "messages (fade_message j s) = messages s" by (auto simp: fade_message_def split: option.splits)
  show ?thesis by (auto simp: remove_message_def Let_def remove1_idem split: option.splits)
qed



text \<open>
  The loader may stop following the pointer while it shows a message: the end of the fade
  of a loader that has been replaced unbinds the handler of the new one.
\<close>

lemma status_pointer_lost:
  "\<exists>s. status_reachable {} s \<and> messages s = [''b''] \<and> loader s \<noteq> None \<and> bound s = 0"
proof -
  let ?a = "add_message {} ''a'' [] new_status"
  let ?b = "add_message {} ''b'' [] (remove_message ''a'' ?a)"
  have b: "status_reachable {} ?b"
    by (rule reach_step [OF reach_step [OF reach_step [OF reach_start step_add] step_remove] step_add])
  have "fades ?b = [Fade_div 0 ''a'', Fade_loader 0]"
    by (simp add: add_message_def remove_message_def fade_message_def new_status_def open_loader_def loader_ids_def Let_def)
  then have "status_reachable {} (fade_end (Fade_loader 0) ?b)"
    by (intro reach_step [OF b] step_fade) simp
  moreover have "messages (fade_end (Fade_loader 0) ?b) = [''b''] \<and> loader (fade_end (Fade_loader 0) ?b) \<noteq> None \<and>
      bound (fade_end (Fade_loader 0) ?b) = 0"
    by (simp add: add_message_def remove_message_def fade_message_def fade_end_def new_status_def open_loader_def
        loader_ids_def Let_def)
  ultimately show ?thesis by blast
qed

text \<open>A message of the same name as one that is fading is not shown.\<close>

lemma fading_name_not_shown:
  "messages s \<noteq> [] \<Longrightarrow> i \<in> loader_ids s \<Longrightarrow> add_message page i text s = s"
  by (simp add: add_message_def)

text \<open>An error's text from the response itself has no tags left.\<close>

lemma escape_go:
  "set (replace_go [c] r s 0) \<subseteq> (set s - {c}) \<union> set r"
  by (induction s) auto

lemma escaped_no_tags: "CHR ''<'' \<notin> set (escape_angles s) \<and> CHR ''>'' \<notin> set (escape_angles s)"
  using escape_go [of "CHR ''>''" "''&gt;''" "replace_all ''<'' ''&lt;'' s"] escape_go [of "CHR ''<''" "''&lt;''" s]
  by (auto simp: escape_angles_def replace_all_def)

end
