(* ===== verification/WidgetStore.thy ===== *)
theory WidgetStore
  imports StoreUpdate Parser "HOL-Library.Multiset"
begin

text \<open>
  \<open>widget-factory.js\<close>, lines 816 to 825 and 862 to 990: the context of a resource, the store
  without it, and the loading of resources, one at a time, into the store of the page.
\<close>

section \<open>Contexts\<close>

definition is_bnode :: "rdf_term \<Rightarrow> bool" where
  "is_bnode t = (case t of RDFBlankNode i \<Rightarrow> True | _ \<Rightarrow> False)"

text \<open>
  The elements of the array that \<open>statementsMatching\<close> returns for a subject or an object; such a
  lookup does not change the store.
\<close>

definition matching :: "js_val \<Rightarrow> js_val \<Rightarrow> kb \<Rightarrow> addr list js_res" where
  "matching s ob k = (case statementsMatching s VUndefined ob VUndefined False k of
     (r, k') \<Rightarrow> bind_res r (\<lambda>arr. Inr (arr_elems k' arr)))"

text \<open>
  \<open>directedExpander\<close>: the statements found that are new are put in the result, and the context
  of a blank node at their other end is added to it by \<open>visit\<close>, the recursive call.
\<close>

fun expander :: "(rdf_term \<Rightarrow> addr list \<Rightarrow> addr list js_res) \<Rightarrow> (rdf_statement \<Rightarrow> rdf_term) \<Rightarrow> kb \<Rightarrow>
    addr list \<Rightarrow> addr list \<Rightarrow> addr list js_res" where
  "expander visit other k [] result = Inr result"
| "expander visit other k (a # as) result =
     (if a \<in> set result then expander visit other k as result
      else bind_res (if is_bnode (other (heap k a)) then visit (other (heap k a)) (result @ [a]) else Inr (result @ [a]))
        (expander visit other k as))"

text \<open>The recursion has the engine's stack as its bound.\<close>

fun getContext :: "nat \<Rightarrow> kb \<Rightarrow> rdf_term \<Rightarrow> addr list \<Rightarrow> addr list js_res" where
  "getContext 0 k t result = Inl stack_overflow"
| "getContext (Suc n) k t result =
     bind_res (matching (VTerm t) VUndefined k) (\<lambda>sts.
     bind_res (expander (getContext n k) st_object k sts result) (\<lambda>result.
     bind_res (matching VUndefined (VTerm t) k) (\<lambda>sts.
       expander (getContext n k) st_subject k sts result)))"

text \<open>
  \<open>removeContext\<close>: the statements are pushed on the list of a new store, and on nothing else. The
  statement objects, and the counters of terms, are those of the old store.
\<close>

definition removeContext :: "nat \<Rightarrow> rdf_term \<Rightarrow> kb \<Rightarrow> kb js_res" where
  "removeContext stack t k =
     bind_res (getContext stack k t []) (\<lambda>block.
     bind_res (matching VUndefined VUndefined k) (\<lambda>sts.
       Inr ((new_indexed_formula (next_id k) (colls k))\<lparr>alerts := alerts k, heap := heap k, next_addr := next_addr k,
         statements := filter (\<lambda>a. a \<notin> set block) sts\<rparr>)))"

definition rdf_type_term :: rdf_term where
  "rdf_type_term = RDFSymbol ''http://www.w3.org/1999/02/22-rdf-syntax-ns#type''"

definition hasType :: "rdf_term \<Rightarrow> rdf_term \<Rightarrow> bool kb_step" where
  "hasType t ty = bind_step (anyStatementMatching (VTerm t) (VTerm rdf_type_term) (VTerm ty) VUndefined) (\<lambda>r. ret (r \<noteq> None))"

section \<open>Loading\<close>

text \<open>
  The page's loader: the flag, the store, the timers of the calls that wait, the requests that
  have been sent for it (the symbol and the listener), and the listeners that have been called;
  and beside these the requests that RELOAD has sent by \<open>load\<close> itself, each for a store of its own,
  and the stores that have been loaded so.
\<close>

record loader =
  isLoading :: bool
  l_store :: kb
  timers :: "(rdf_term \<times> nat) list"
  in_flight :: "(rdf_term \<times> nat) list"
  called :: "nat list"
  direct :: "rdf_term list"
  reloaded :: "(rdf_term \<times> kb) list"

type_synonym 'a load_step = "(loader, 'a) js_step"

definition ensureDicoBitLoaded :: "nat \<Rightarrow> rdf_term \<Rightarrow> nat \<Rightarrow> unit load_step" where
  "ensureDicoBitLoaded stack t i L =
     (if isLoading L then (Inr (), L\<lparr>timers := timers L @ [(t, i)]\<rparr>)
      else (case anyStatementMatching (VTerm t) VUndefined VUndefined VUndefined (l_store L) of
          (Inl e, k) \<Rightarrow> (Inl e, L\<lparr>l_store := k\<rparr>)
        | (Inr (Some a), k) \<Rightarrow> (Inr (), L\<lparr>l_store := k, called := called L @ [i]\<rparr>)
        | (Inr None, k) \<Rightarrow>
            (case removeContext stack t k of
               Inl e \<Rightarrow> (Inl e, L\<lparr>isLoading := True, l_store := k\<rparr>)
             | Inr k' \<Rightarrow> (Inr (), L\<lparr>isLoading := True, l_store := k', in_flight := in_flight L @ [(t, i)]\<rparr>))))"

text \<open>A timer calls it again.\<close>

definition timer_fires :: "nat \<Rightarrow> rdf_term \<times> nat \<Rightarrow> unit load_step" where
  "timer_fires stack w = then_step (modify (\<lambda>L. L\<lparr>timers := remove1 w (timers L)\<rparr>))
     (ensureDicoBitLoaded stack (fst w) (snd w))"

text \<open>
  \<open>xhr.onload\<close> of \<open>load\<close>, with the document that the server has sent; \<open>None\<close> is a parser that
  does not return. The parser reifies.
\<close>

definition load_parser :: "kb \<Rightarrow> parser" where
  "load_parser k = (new_RDFParser k)\<lparr>p_reify := True\<rparr>"

definition onload :: "(dom \<Rightarrow> string) \<Rightarrow> parse_input \<Rightarrow> rdf_term \<times> nat \<Rightarrow> loader \<Rightarrow> (unit js_res \<times> loader) option" where
  "onload xml tree w L =
     map_option (\<lambda>(r, p).
       (let L' = L\<lparr>l_store := p_store p, in_flight := remove1 w (in_flight L)\<rparr> in
        case r of
          Inl e \<Rightarrow> (Inl e, L')
        | Inr b \<Rightarrow> (Inr (), L'\<lparr>isLoading := False, called := called L' @ [snd w]\<rparr>)))
       (parse xml tree (sym_uri (fst w)) VUndefined (load_parser (l_store L)))"

text \<open>
  RELOAD asks for the resource by \<open>load\<close>, whatever the flag, with a new store. The new store has no
  terms until the document is parsed, so it is made here when that comes; the counters of terms are
  the page's.
\<close>

definition reload_request :: "rdf_term \<Rightarrow> loader \<Rightarrow> loader" where
  "reload_request t L = L\<lparr>direct := direct L @ [t]\<rparr>"

definition reload_onload :: "(dom \<Rightarrow> string) \<Rightarrow> parse_input \<Rightarrow> rdf_term \<Rightarrow> loader \<Rightarrow> (unit js_res \<times> loader) option" where
  "reload_onload xml tree t L =
     map_option (\<lambda>(r, p).
       (let k = p_store p;
            L' = L\<lparr>direct := remove1 t (direct L), l_store := (l_store L)\<lparr>next_id := next_id k, colls := colls k\<rparr>\<rparr> in
        case r of
          Inl e \<Rightarrow> (Inl e, L')
        | Inr b \<Rightarrow> (Inr (), L'\<lparr>reloaded := reloaded L' @ [(t, k)]\<rparr>)))
       (parse xml tree (sym_uri t) VUndefined
         (load_parser (new_indexed_formula (next_id (l_store L)) (colls (l_store L)))))"

section \<open>Lemmas\<close>

text \<open>A statement touches a term when the term, as the store knows it, is its subject or object.\<close>

definition touches :: "kb \<Rightarrow> rdf_term \<Rightarrow> addr \<Rightarrow> bool" where
  "touches k t a \<longleftrightarrow> a \<in> set (statements k) \<and>
     (toNT (st_subject (heap k a)) = toNT (canon k t) \<or> toNT (st_object (heap k a)) = toNT (canon k t))"

text \<open>The blank nodes at the two ends of a statement.\<close>

definition bnode_end :: "kb \<Rightarrow> addr \<Rightarrow> rdf_term \<Rightarrow> bool" where
  "bnode_end k a n \<longleftrightarrow> is_bnode n \<and> (n = st_subject (heap k a) \<or> n = st_object (heap k a))"

text \<open>The context: what can be reached from the term over blank nodes.\<close>

inductive_set in_context :: "kb \<Rightarrow> rdf_term \<Rightarrow> addr set" for k t where
  direct: "touches k t a \<Longrightarrow> a \<in> in_context k t"
| along: "a \<in> in_context k t \<Longrightarrow> bnode_end k a n \<Longrightarrow> touches k n b \<Longrightarrow> b \<in> in_context k t"

lemma in_context_trans:
  assumes "b \<in> in_context k n" "a \<in> in_context k t" "bnode_end k a n"
  shows "b \<in> in_context k t"
  using assms(1) by (induction) (use assms(2,3) in \<open>blast intro: in_context.along\<close>)+

lemma in_context_statements: "a \<in> in_context k t \<Longrightarrow> a \<in> set (statements k)"
  by (induction rule: in_context.induct) (auto simp: touches_def)

lemma in_context_least:
  assumes "\<And>a. touches k t a \<Longrightarrow> a \<in> S" "\<And>a n b. a \<in> S \<Longrightarrow> bnode_end k a n \<Longrightarrow> touches k n b \<Longrightarrow> b \<in> S"
  shows "in_context k t \<subseteq> S"
proof
  fix a assume "a \<in> in_context k t"
  then show "a \<in> S" by induction (use assms in blast)+
qed

lemma touches_same:
  assumes "flat k" "toNT n = toNT (canon k t)"
  shows "touches k n = touches k t"
proof -
  have "settled k n" using settled_canon [OF assms(1), of t] assms(2) by (simp add: settled_def)
  then have "toNT (canon k n) = toNT (canon k t)" using assms(2) by simp
  then show ?thesis by (simp add: touches_def fun_eq_iff)
qed

text \<open>
  What a call does to a result: new statements of the context come after the old ones, and the
  blank nodes at the ends of the new ones have been followed, but for those that the caller
  follows itself.
\<close>

definition grown :: "kb \<Rightarrow> rdf_term \<Rightarrow> addr list \<Rightarrow> addr list \<Rightarrow> bool" where
  "grown k t r r' \<longleftrightarrow> distinct r' \<and> set r' \<subseteq> set (statements k) \<and> set r \<subseteq> set r' \<and> set r' \<subseteq> set r \<union> in_context k t \<and>
     (\<forall>a\<in>set r' - set r. \<forall>n. bnode_end k a n \<longrightarrow> touches k n \<noteq> touches k t \<longrightarrow> Collect (touches k n) \<subseteq> set r')"

lemma grown_refl: "distinct r \<Longrightarrow> set r \<subseteq> set (statements k) \<Longrightarrow> grown k t r r"
  by (simp add: grown_def)

lemma grown_trans: "grown k t r1 r2 \<Longrightarrow> grown k t r2 r3 \<Longrightarrow> grown k t r1 r3"
  unfolding grown_def by blast

definition unseen :: "kb \<Rightarrow> addr list \<Rightarrow> nat" where
  "unseen k r = card (set (statements k) - set r)"

lemma unseen_grown: "grown k t r r' \<Longrightarrow> unseen k r' \<le> unseen k r"
  by (auto simp: grown_def unseen_def intro: card_mono)

lemma unseen_push: "a \<in> set (statements k) \<Longrightarrow> a \<notin> set r \<Longrightarrow> unseen k (r @ [a]) < unseen k r"
  unfolding unseen_def by (rule psubset_card_mono) auto

text \<open>A recursive call that has stack enough.\<close>

definition visits :: "(rdf_term \<Rightarrow> bool) \<Rightarrow> kb \<Rightarrow> nat \<Rightarrow> (rdf_term \<Rightarrow> addr list \<Rightarrow> addr list js_res) \<Rightarrow> bool" where
  "visits ok k n visit \<longleftrightarrow> (\<forall>t r. ok t \<longrightarrow> distinct r \<longrightarrow> set r \<subseteq> set (statements k) \<longrightarrow> unseen k r < n \<longrightarrow>
     (\<exists>r'. visit t r = Inr r' \<and> grown k t r r' \<and> Collect (touches k t) \<subseteq> set r'))"

context term_universe
begin

lemma matching_subject:
  assumes "wf_kb ok k" "flat k" "ok t"
  shows "\<exists>as. matching (VTerm t) VUndefined k = Inr as \<and>
    set as = {a \<in> set (statements k). toNT (st_subject (heap k a)) = toNT (canon k t)}"
proof -
  from statementsMatching_found [OF assms(1), of "Some t" None None None False] assms(3) obtain arr where
    "statementsMatching (VTerm t) VUndefined VUndefined VUndefined False k = (Inr arr, k)"
    "found k (stmt_pat (hop2 k (Some t)) (hop2 k None) (hop2 k None) (map_option (canon k) None)) False arr" by auto
  then show ?thesis using assms(2)
    by (auto simp: matching_def found_def hop2_def stmt_pat_def pat_match_def)
qed

lemma matching_object:
  assumes "wf_kb ok k" "flat k" "ok t"
  shows "\<exists>as. matching VUndefined (VTerm t) k = Inr as \<and>
    set as = {a \<in> set (statements k). toNT (st_object (heap k a)) = toNT (canon k t)}"
proof -
  from statementsMatching_found [OF assms(1), of None None "Some t" None False] assms(3) obtain arr where
    "statementsMatching VUndefined VUndefined (VTerm t) VUndefined False k = (Inr arr, k)"
    "found k (stmt_pat (hop2 k None) (hop2 k None) (hop2 k (Some t)) (map_option (canon k) None)) False arr" by auto
  then show ?thesis using assms(2)
    by (auto simp: matching_def found_def hop2_def stmt_pat_def pat_match_def)
qed

lemma expander_step:
  assumes fl: "flat k" and wf: "wf_kb ok k" and v: "visits ok k n visit" and r: "distinct r" "set r \<subseteq> set (statements k)" "unseen k r \<le> n"
    and a: "a \<notin> set r" "a \<in> set (statements k)"
    and near: "toNT (near (heap k a)) = toNT (canon k t)"
    and ends: "(near, other) = (st_subject, st_object) \<or> (near, other) = (st_object, st_subject)"
  shows "\<exists>r'. (if is_bnode (other (heap k a)) then visit (other (heap k a)) (r @ [a]) else Inr (r @ [a])) = Inr r' \<and>
    grown k t r r' \<and> a \<in> set r'"
proof -
  let ?o = "other (heap k a)"
  have ta: "touches k t a" using a(2) near ends by (auto simp: touches_def)
  have near_same: "touches k (near (heap k a)) = touches k t" by (rule touches_same [OF fl near])
  have end_cases: "m = near (heap k a) \<or> m = ?o" if "bnode_end k a m" for m
    using that ends by (auto simp: bnode_end_def)
  have r1: "distinct (r @ [a])" "set (r @ [a]) \<subseteq> set (statements k)" using r(1,2) a by auto
  show ?thesis
  proof (cases "is_bnode ?o")
    case False
    then have "grown k t r (r @ [a])"
      using r1 ta near_same end_cases by (fastforce simp: grown_def bnode_end_def intro: in_context.direct)
    then show ?thesis using False by simp
  next
    case True
    have "ok ?o" using wf a(2) ends by (auto simp: wf_kb_def stmt_ok_def)
    moreover have "unseen k (r @ [a]) < n" using unseen_push [OF a(2,1)] r(3) by simp
    ultimately obtain r' where r': "visit ?o (r @ [a]) = Inr r'" "grown k ?o (r @ [a]) r'" "Collect (touches k ?o) \<subseteq> set r'"
      using v r1 unfolding visits_def by blast
    have "bnode_end k a ?o" using True ends by (auto simp: bnode_end_def)
    then have sub: "in_context k ?o \<subseteq> in_context k t"
      using in_context_trans [OF _ in_context.direct [OF ta]] by blast
    have "Collect (touches k m) \<subseteq> set r'" if "b \<in> set r' - set r" "bnode_end k b m" "touches k m \<noteq> touches k t" for b m
    proof (cases "touches k m = touches k ?o")
      case False
      then have "b \<noteq> a" using that end_cases near_same by blast
      then have "b \<in> set r' - set (r @ [a])" using that(1) by simp
      then show ?thesis using r'(2) that(2) False unfolding grown_def by blast
    qed (use r'(3) in simp)
    then have "grown k t r r'"
      using r'(2) sub in_context.direct [OF ta] unfolding grown_def by auto
    moreover have "a \<in> set r'" using r'(2) by (auto simp: grown_def)
    ultimately show ?thesis using True r'(1) by simp
  qed
qed

lemma expander_grows:
  assumes fl: "flat k" and wf: "wf_kb ok k" and v: "visits ok k n visit"
    and ends: "(near, other) = (st_subject, st_object) \<or> (near, other) = (st_object, st_subject)"
  shows "distinct r \<Longrightarrow> set r \<subseteq> set (statements k) \<Longrightarrow> unseen k r \<le> n \<Longrightarrow>
    (\<forall>a\<in>set as. a \<in> set (statements k) \<and> toNT (near (heap k a)) = toNT (canon k t)) \<Longrightarrow>
    \<exists>r'. expander visit other k as r = Inr r' \<and> grown k t r r' \<and> set as \<subseteq> set r'"
proof (induction as arbitrary: r)
  case Nil
  then show ?case by (simp add: grown_refl)
next
  case (Cons a as)
  show ?case
  proof (cases "a \<in> set r")
    case True
    obtain r' where "expander visit other k as r = Inr r'" "grown k t r r'" "set as \<subseteq> set r'"
      using Cons.IH [OF Cons.prems(1-3)] Cons.prems(4) by auto
    then show ?thesis using True by (auto simp: grown_def)
  next
    case False
    obtain r1 where r1: "(if is_bnode (other (heap k a)) then visit (other (heap k a)) (r @ [a]) else Inr (r @ [a])) = Inr r1"
        "grown k t r r1" "a \<in> set r1"
      using expander_step [OF fl wf v Cons.prems(1-3) False _ _ ends, of t] Cons.prems(4) by auto
    have "distinct r1" "set r1 \<subseteq> set (statements k)" using r1(2) by (auto simp: grown_def)
    moreover have "unseen k r1 \<le> n" using unseen_grown [OF r1(2)] Cons.prems(3) by simp
    ultimately obtain r' where r': "expander visit other k as r1 = Inr r'" "grown k t r1 r'" "set as \<subseteq> set r'"
      using Cons.IH [of r1] Cons.prems(4) by auto
    have "a \<in> set r'" using r1(3) r'(2) by (auto simp: grown_def)
    then show ?thesis using False r1(1) r' grown_trans [OF r1(2) r'(2)] by auto
  qed
qed

lemma getContext_visits:
  assumes wf: "wf_kb ok k" and fl: "flat k"
  shows "visits ok k n (getContext n k)"
proof (induction n)
  case 0
  show ?case by (simp add: visits_def)
next
  case (Suc n)
  have "\<exists>r'. getContext (Suc n) k t r = Inr r' \<and> grown k t r r' \<and> Collect (touches k t) \<subseteq> set r'"
    if t: "ok t" and r: "distinct r" "set r \<subseteq> set (statements k)" "unseen k r < Suc n" for t r
  proof -
    obtain as where as: "matching (VTerm t) VUndefined k = Inr as"
        "set as = {a \<in> set (statements k). toNT (st_subject (heap k a)) = toNT (canon k t)}"
      using matching_subject [OF wf fl t] by blast
    obtain bs where bs: "matching VUndefined (VTerm t) k = Inr bs"
        "set bs = {a \<in> set (statements k). toNT (st_object (heap k a)) = toNT (canon k t)}"
      using matching_object [OF wf fl t] by blast
    obtain r1 where r1: "expander (getContext n k) st_object k as r = Inr r1" "grown k t r r1" "set as \<subseteq> set r1"
      using expander_grows [OF fl wf Suc.IH, of st_subject st_object r as t] r as(2) by auto
    have "distinct r1" "set r1 \<subseteq> set (statements k)" "unseen k r1 \<le> n"
      using r1(2) unseen_grown [OF r1(2)] r(3) by (auto simp: grown_def)
    then obtain r2 where r2: "expander (getContext n k) st_subject k bs r1 = Inr r2" "grown k t r1 r2" "set bs \<subseteq> set r2"
      using expander_grows [OF fl wf Suc.IH, of st_object st_subject r1 bs t] bs(2) by auto
    have "Collect (touches k t) = set as \<union> set bs" using as(2) bs(2) by (auto simp: touches_def)
    then have "Collect (touches k t) \<subseteq> set r2" using r1(3) r2(2,3) by (auto simp: grown_def)
    then show ?thesis using as(1) bs(1) r1(1) r2(1) grown_trans [OF r1(2) r2(2)] by simp
  qed
  then show ?case unfolding visits_def by blast
qed

lemma getContext_context:
  assumes wf: "wf_kb ok k" and fl: "flat k" and t: "ok t" and n: "length (statements k) < n"
  shows "\<exists>r. getContext n k t [] = Inr r \<and> distinct r \<and> set r = in_context k t"
proof -
  have "unseen k [] < n" using n card_length [of "statements k"] by (simp add: unseen_def)
  then obtain r where r: "getContext n k t [] = Inr r" "grown k t [] r" "Collect (touches k t) \<subseteq> set r"
    using getContext_visits [OF wf fl, of n] t unfolding visits_def by (metis distinct.simps(1) empty_set empty_subsetI)
  have "in_context k t \<subseteq> set r"
  proof (rule in_context_least)
    fix a m b assume abm: "a \<in> set r" "bnode_end k a m" "touches k m b"
    have "Collect (touches k m) \<subseteq> set r"
      using r(2,3) abm(1,2) unfolding grown_def by (cases "touches k m = touches k t") auto
    then show "b \<in> set r" using abm(3) by blast
  qed (use r(3) in blast)
  then show ?thesis using r(1,2) by (auto simp: grown_def)
qed


lemma matching_all:
  assumes "wf_kb ok k"
  shows "matching VUndefined VUndefined k = Inr (statements k)"
proof -
  have "scan None None None None False (heap k) (statements k) = Inr (filter (\<lambda>a. stmt_pat None None None None (heap k a)) (statements k))"
    using assms by (subst ok_scan) (auto simp: wf_kb_def)
  moreover have "stmt_pat None None None None st" for st by (simp add: stmt_pat_def pat_match_def)
  ultimately show ?thesis
    by (simp add: matching_def statementsMatching_def lookup_terms_def)
qed

lemma removeContext_run:
  assumes wf: "wf_kb ok k" and fl: "flat k" and t: "ok t" and n: "length (statements k) < n"
  shows "\<exists>k'. removeContext n t k = Inr k' \<and> statements k' = filter (\<lambda>a. a \<notin> in_context k t) (statements k) \<and>
    heap k' = heap k \<and> redirection k' = Map.empty \<and>
    subjectIndex k' = Map.empty \<and> predicateIndex k' = Map.empty \<and> objectIndex k' = Map.empty"
proof -
  obtain r where "getContext n k t [] = Inr r" "set r = in_context k t"
    using getContext_context [OF assms] by blast
  then show ?thesis using matching_all [OF wf] by (simp add: removeContext_def new_indexed_formula_def)
qed

lemma lookup_unindexed:
  assumes "redirection k = Map.empty" "subjectIndex k = Map.empty" "predicateIndex k = Map.empty" "objectIndex k = Map.empty"
    and "opt_ok ok s" "opt_ok ok p" "opt_ok ok ob" "s \<noteq> None \<or> p \<noteq> None \<or> ob \<noteq> None"
  shows "lookup_terms s p ob None one k = Inr (Fresh [])"
  using assms by (cases s; cases p; cases ob) (auto simp: lookup_terms_def ok_redirect canon_def)

end
section \<open>The loader's runs\<close>

text \<open>
  What can happen on a page: a widget asks for a resource, a timer fires, a document arrives,
  RELOAD asks for a document and it arrives, or other code changes the store. The list names the
  listeners that are handed over.
\<close>

inductive load_run :: "nat \<Rightarrow> (dom \<Rightarrow> string) \<Rightarrow> loader \<Rightarrow> nat list \<Rightarrow> loader \<Rightarrow> bool" for stack xml L0 where
  start: "load_run stack xml L0 [] L0"
| ask: "load_run stack xml L0 is L \<Longrightarrow> ensureDicoBitLoaded stack t i L = (r, L') \<Longrightarrow> load_run stack xml L0 (i # is) L'"
| timer: "load_run stack xml L0 is L \<Longrightarrow> w \<in> set (timers L) \<Longrightarrow> timer_fires stack w L = (r, L') \<Longrightarrow> load_run stack xml L0 is L'"
| arrives: "load_run stack xml L0 is L \<Longrightarrow> w \<in> set (in_flight L) \<Longrightarrow> onload xml tree w L = Some (r, L') \<Longrightarrow> load_run stack xml L0 is L'"
| reload: "load_run stack xml L0 is L \<Longrightarrow> load_run stack xml L0 is (reload_request t L)"
| reload_arrives: "load_run stack xml L0 is L \<Longrightarrow> t \<in> set (direct L) \<Longrightarrow> reload_onload xml tree t L = Some (r, L') \<Longrightarrow>
    load_run stack xml L0 is L'"
| other: "load_run stack xml L0 is L \<Longrightarrow> load_run stack xml L0 is (L\<lparr>l_store := k\<rparr>)"

definition new_loader :: "kb \<Rightarrow> loader" where
  "new_loader k = \<lparr>isLoading = False, l_store = k, timers = [], in_flight = [], called = [],
     direct = [], reloaded = []\<rparr>"

definition one_request :: "loader \<Rightarrow> bool" where
  "one_request L \<longleftrightarrow> in_flight L = [] \<or> isLoading L \<and> length (in_flight L) = 1"

definition held :: "loader \<Rightarrow> nat multiset" where
  "held L = mset (called L) + mset (map snd (timers L)) + mset (map snd (in_flight L))"

lemma ensure_one_request: "one_request L \<Longrightarrow> ensureDicoBitLoaded stack t i L = (r, L') \<Longrightarrow> one_request L'"
  by (auto simp: ensureDicoBitLoaded_def one_request_def split: if_splits prod.splits sum.splits option.splits)

lemma ensure_held: "ensureDicoBitLoaded stack t i L = (r, L') \<Longrightarrow> held L' \<subseteq># add_mset i (held L)"
  by (auto simp: ensureDicoBitLoaded_def held_def split: if_splits prod.splits sum.splits option.splits)

lemma timer_one_request:
  assumes "one_request L" "timer_fires stack w L = (r, L')"
  shows "one_request L'"
proof (rule ensure_one_request)
  show "one_request (L\<lparr>timers := remove1 w (timers L)\<rparr>)" using assms(1) by (simp add: one_request_def)
  show "ensureDicoBitLoaded stack (fst w) (snd w) (L\<lparr>timers := remove1 w (timers L)\<rparr>) = (r, L')"
    using assms(2) by (simp add: timer_fires_def)
qed

lemma mset_map_remove1: "w \<in> set ws \<Longrightarrow> mset (map f ws) = add_mset (f w) (mset (map f (remove1 w ws)))"
  by (metis image_mset_add_mset mset_map mset_remove1 insert_DiffM set_mset_mset)

lemma timer_held:
  assumes "w \<in> set (timers L)" "timer_fires stack w L = (r, L')"
  shows "held L' \<subseteq># held L"
proof -
  have "held L' \<subseteq># add_mset (snd w) (held (L\<lparr>timers := remove1 w (timers L)\<rparr>))"
    using assms(2) by (intro ensure_held) (simp add: timer_fires_def)
  also have "\<dots> = held L"
    using mset_map_remove1 [OF assms(1), of snd] by (simp add: held_def del: mset_map)
  finally show ?thesis .
qed

lemma onload_effect:
  assumes "onload xml tree w L = Some (r, L')"
  shows "timers L' = timers L" "in_flight L' = remove1 w (in_flight L)"
    "(\<exists>e. r = Inl e) \<and> isLoading L' = isLoading L \<and> called L' = called L \<or>
     r = Inr () \<and> \<not> isLoading L' \<and> called L' = called L @ [snd w]"
proof -
  obtain q p where q: "parse xml tree (sym_uri (fst w)) VUndefined (load_parser (l_store L)) = Some (q, p)"
    using assms by (auto simp: onload_def)
  then show "timers L' = timers L" "in_flight L' = remove1 w (in_flight L)"
    "(\<exists>e. r = Inl e) \<and> isLoading L' = isLoading L \<and> called L' = called L \<or>
     r = Inr () \<and> \<not> isLoading L' \<and> called L' = called L @ [snd w]"
    using assms by (cases q; auto simp: onload_def Let_def)+
qed

lemma onload_one_request:
  assumes "one_request L" "w \<in> set (in_flight L)" "onload xml tree w L = Some (r, L')"
  shows "in_flight L' = []"
proof -
  have "in_flight L = [w]" using assms(1,2) by (cases "in_flight L") (auto simp: one_request_def)
  then show ?thesis using onload_effect(2) [OF assms(3)] by simp
qed

lemma onload_held:
  assumes "w \<in> set (in_flight L)" "onload xml tree w L = Some (r, L')"
  shows "held L' \<subseteq># held L"
  using onload_effect [OF assms(2)] mset_map_remove1 [OF assms(1), of snd]
  by (auto simp: held_def simp del: mset_map)

lemma reload_effect:
  "isLoading (reload_request t L) = isLoading L" "timers (reload_request t L) = timers L"
  "in_flight (reload_request t L) = in_flight L" "called (reload_request t L) = called L"
  by (simp_all add: reload_request_def)

lemma reload_onload_effect:
  assumes "reload_onload xml tree t L = Some (r, L')"
  shows "isLoading L' = isLoading L" "timers L' = timers L" "in_flight L' = in_flight L" "called L' = called L"
    "direct L' = remove1 t (direct L)"
proof -
  obtain q p where q: "parse xml tree (sym_uri t) VUndefined
      (load_parser (new_indexed_formula (next_id (l_store L)) (colls (l_store L)))) = Some (q, p)"
    using assms by (auto simp: reload_onload_def)
  then show "isLoading L' = isLoading L" "timers L' = timers L" "in_flight L' = in_flight L" "called L' = called L"
    "direct L' = remove1 t (direct L)"
    using assms by (cases q; auto simp: reload_onload_def Let_def)+
qed

lemma run_held: "load_run stack xml (new_loader k) is L \<Longrightarrow> one_request L \<and> held L \<subseteq># mset is"
proof (induction rule: load_run.induct)
  case start
  then show ?case by (simp add: one_request_def held_def new_loader_def)
next
  case (ask "is" L t i r L')
  then show ?case using ensure_one_request ensure_held [OF ask.hyps(2)] subset_mset.order_trans by fastforce
next
  case (timer "is" L w r L')
  then show ?case using timer_one_request timer_held subset_mset.order_trans by blast
next
  case (arrives "is" L w tree r L')
  then show ?case using onload_one_request onload_held subset_mset.order_trans by (metis one_request_def)
next
  case (reload "is" L t)
  then show ?case by (simp add: one_request_def held_def reload_effect)
next
  case (reload_arrives "is" L t tree r L')
  then show ?case using reload_onload_effect [OF reload_arrives.hyps(3)] by (simp add: one_request_def held_def)
qed (simp add: one_request_def held_def)

lemma blocked_run:
  "load_run stack xml L0 is L \<Longrightarrow> isLoading L0 \<Longrightarrow> in_flight L0 = [] \<Longrightarrow>
     isLoading L \<and> in_flight L = [] \<and> called L = called L0"
  by (induction rule: load_run.induct)
    (auto simp: ensureDicoBitLoaded_def timer_fires_def reload_effect dest: reload_onload_effect)

section \<open>Properties\<close>

text \<open>
  C14. The context of a resource, in a well-formed store whose redirections do not chain
  (\<open>flat\<close>), whatever cycles its statements make, is found with a stack no
  deeper than the number of statements: every statement that can be reached from the
  resource over blank nodes is in the result once, and no other.
\<close>

theorem getContext_reaches:
  assumes "wf_kb (ok_term ty C) k" "flat k" "ok_term ty C t" "length (statements k) < stack"
  shows "\<exists>r. getContext stack k t [] = Inr r \<and> distinct r \<and> set r = in_context k t"
  by (rule terms.getContext_context [OF assms])

theorem getContext_reaches_witness:
  "\<exists>r. getContext 3 (sym_store [(''s'', ''p'', ''o''), (''o'', ''p'', ''s'')]) (RDFSymbol ''s'') [] = Inr r \<and> set r = {0, 1}"
proof -
  let ?k = "sym_store [(''s'', ''p'', ''o''), (''o'', ''p'', ''s'')]"
  have ok: "ok_term (\<lambda>_. True) {} (RDFSymbol ''s'')" and len: "length (statements ?k) < 3"
    unfolding sym_store_fields by simp_all
  have t: "touches ?k (RDFSymbol ''s'') a \<longleftrightarrow> a \<in> {0, 1}" for a
    unfolding touches_def canon_sym_store sym_store_fields by (auto simp: symbol_toNT_def new_indexed_formula_def)
  have "\<not> bnode_end ?k a n" if "a \<in> {0, 1}" for a n
    using that by (auto simp: bnode_end_def is_bnode_def new_indexed_formula_def)
  then have "in_context ?k (RDFSymbol ''s'') \<subseteq> {0, 1}"
    using t by (intro in_context_least) auto
  then have "in_context ?k (RDFSymbol ''s'') = {0, 1}" using t in_context.direct by blast
  then show ?thesis using getContext_reaches [OF wf_sym_store flat_sym_store ok len] by auto
qed

text \<open>
  Forgetting a resource takes exactly its context from the list of statements, but the
  store that results has no index: whatever is asked for by subject, predicate or object is not
  found any more, although the statements of the other resources are there.
\<close>

lemma removeContext_unindexed:
  assumes "wf_kb (ok_term ty C) k" "flat k" "ok_term ty C t" "length (statements k) < stack"
    and "opt_ok (ok_term ty C) s" "opt_ok (ok_term ty C) p" "opt_ok (ok_term ty C) ob" "s \<noteq> None \<or> p \<noteq> None \<or> ob \<noteq> None"
  shows "\<exists>k'. removeContext stack t k = Inr k' \<and>
    statements k' = filter (\<lambda>a. a \<notin> in_context k t) (statements k) \<and> heap k' = heap k \<and>
    statementsMatching (val_of s) (val_of p) (val_of ob) VUndefined one k' = (Inr (Fresh []), k')"
proof -
  obtain k' where k': "removeContext stack t k = Inr k'" "statements k' = filter (\<lambda>a. a \<notin> in_context k t) (statements k)"
      "heap k' = heap k" "redirection k' = Map.empty" "subjectIndex k' = Map.empty"
      "predicateIndex k' = Map.empty" "objectIndex k' = Map.empty"
    using terms.removeContext_run [OF assms(1-4)] by blast
  have "kb_makeTerm (val_of x) k' = (Inr x, k')" if "opt_ok (ok_term ty C) x" for x
    using terms.ok_makeTerm [OF that, of k'] k'(4) by (cases x) (auto simp: canon_def)
  then have "statementsMatching (val_of s) (val_of p) (val_of ob) VUndefined one k' = (lookup_terms s p ob None one k', k')"
    using assms(5-7) by (simp add: statementsMatching_def bind_step_def ret_def)
  then show ?thesis using k' terms.lookup_unindexed [OF k'(4-7) assms(5-8)] by auto
qed

lemma removeContext_unindexed_witness:
  "\<exists>k'. removeContext 3 (RDFSymbol ''s'') (sym_store [(''a'', ''p'', ''o''), (''s'', ''p'', ''q'')]) = Inr k' \<and>
    statements k' = [1] \<and> statementsMatching (val_of (Some (RDFSymbol ''a''))) (val_of None) (val_of None) VUndefined True k' = (Inr (Fresh []), k')"
proof -
  let ?k = "sym_store [(''a'', ''p'', ''o''), (''s'', ''p'', ''q'')]"
  have ok: "ok_term (\<lambda>_. True) {} (RDFSymbol ''s'')" "opt_ok (ok_term (\<lambda>_. True) {}) (Some (RDFSymbol ''a''))"
      "opt_ok (ok_term (\<lambda>_. True) {}) None" "Some (RDFSymbol ''a'') \<noteq> None \<or> (None :: rdf_term option) \<noteq> None \<or> (None :: rdf_term option) \<noteq> None"
    and len: "length (statements ?k) < 3"
    unfolding sym_store_fields by simp_all
  have t: "touches ?k (RDFSymbol ''s'') a \<longleftrightarrow> a = 0" for a
    unfolding touches_def canon_sym_store sym_store_fields by (auto simp: symbol_toNT_def new_indexed_formula_def)
  have "\<not> bnode_end ?k 0 n" for n by (auto simp: bnode_end_def is_bnode_def new_indexed_formula_def)
  then have "in_context ?k (RDFSymbol ''s'') \<subseteq> {0}" using t by (intro in_context_least) auto
  then have "in_context ?k (RDFSymbol ''s'') = {0}" using t in_context.direct by blast
  moreover have "statements ?k = [0, 1]" unfolding sym_store_fields by (simp add: upt_rec)
  ultimately show ?thesis
    using removeContext_unindexed [OF wf_sym_store flat_sym_store ok(1) len ok(2,3,3,4), of True] by auto
qed

text \<open>
  C13. Whatever the order of requests, timers, answers, reloads and other changes of the
  store, at most one request for the page's store is under way, while the flag is set, and
  no listener is called, waits or is under way more often than it has been handed over. The
  requests that RELOAD sends with \<open>load\<close> for a store of its own are not among
  these: they are sent whatever the flag (\<open>reload_beside_request\<close>).
\<close>

theorem loads_one_at_a_time:
  assumes "load_run stack xml (new_loader k) is L"
  shows "(in_flight L = [] \<or> isLoading L \<and> length (in_flight L) = 1) \<and>
    mset (called L) + mset (map snd (timers L)) + mset (map snd (in_flight L)) \<subseteq># mset is"
  using run_held [OF assms] by (simp add: one_request_def held_def)

text \<open>
  C40. A document that the parser rejects blocks the loader for good: the flag stays set, no
  request for the page's store is under way, and in every later run no listener is called
  any more.
\<close>

theorem failed_load_blocks:
  assumes "in_flight L = [w]" "isLoading L" "onload xml tree w L = Some (Inl e, L1)" "load_run stack xml L1 is L2"
  shows "isLoading L2 \<and> in_flight L2 = [] \<and> called L2 = called L"
  using blocked_run [OF assms(4)] onload_effect [OF assms(3)] assms(1,2) by auto

text \<open>RELOAD is not held back: its request is sent while the one for the page's store is under way.\<close>

lemma reload_beside_request:
  "load_run stack xml L0 is L \<Longrightarrow> in_flight L = [w] \<Longrightarrow>
    \<exists>L'. load_run stack xml L0 is L' \<and> in_flight L' = [w] \<and> t \<in> set (direct L')"
  using load_run.reload [of stack xml L0 "is" L t] by (auto simp: reload_request_def)

theorem loads_one_at_a_time_witness:
  "\<exists>L. load_run 1 (\<lambda>d. []) (new_loader (new_indexed_formula 0 Map.empty)) [1, 0] L \<and> in_flight L = [(RDFSymbol ''a'', 0)] \<and>
    timers L = [(RDFSymbol ''b'', 1)] \<and> length (in_flight L) \<le> 1"
proof -
  let ?k = "new_indexed_formula 0 Map.empty"
  have wf: "wf_kb (ok_term (\<lambda>_. True) {}) ?k" by (rule wf_new)
  have "matching (VTerm (RDFSymbol ''a'')) VUndefined ?k = Inr []" "matching VUndefined (VTerm (RDFSymbol ''a'')) ?k = Inr []"
    using terms.matching_subject [OF wf flat_new, of "RDFSymbol ''a''"] terms.matching_object [OF wf flat_new, of "RDFSymbol ''a''"]
    by (simp_all add: new_indexed_formula_def)
  then have remove: "removeContext 1 (RDFSymbol ''a'') ?k = Inr ?k"
    using terms.matching_all [OF wf] by (simp add: removeContext_def new_indexed_formula_def)
  obtain r where "anyStatementMatching (VTerm (RDFSymbol ''a'')) VUndefined VUndefined VUndefined ?k = (Inr r, ?k)" "r = None"
    using terms.anyStatementMatching_found [OF wf, of "Some (RDFSymbol ''a'')" None None None]
    by (force simp: new_indexed_formula_def split: option.splits)
  then have 1: "ensureDicoBitLoaded 1 (RDFSymbol ''a'') 0 (new_loader ?k) =
      (Inr (), (new_loader ?k)\<lparr>isLoading := True, in_flight := [(RDFSymbol ''a'', 0)]\<rparr>)" (is "_ = (_, ?L)")
    using remove by (simp add: ensureDicoBitLoaded_def new_loader_def)
  have 2: "ensureDicoBitLoaded 1 (RDFSymbol ''b'') 1 ?L = (Inr (), ?L\<lparr>timers := [(RDFSymbol ''b'', 1)]\<rparr>)"
    by (simp add: ensureDicoBitLoaded_def new_loader_def)
  have "load_run 1 (\<lambda>d. []) (new_loader ?k) [1, 0] (?L\<lparr>timers := [(RDFSymbol ''b'', 1)]\<rparr>)"
    by (rule load_run.ask [OF load_run.ask [OF load_run.start 1] 2])
  then show ?thesis using loads_one_at_a_time [of 1 "\<lambda>d. []" ?k "[1, 0]" "?L\<lparr>timers := [(RDFSymbol ''b'', 1)]\<rparr>"] by auto
qed

theorem failed_load_blocks_witness:
  "\<exists>L2. load_run 1 (\<lambda>d. []) ((new_loader (new_indexed_formula 0 Map.empty))\<lparr>isLoading := True\<rparr>) [7] L2 \<and> called L2 = []"
proof -
  let ?L = "(new_loader (new_indexed_formula 0 Map.empty))\<lparr>isLoading := True, in_flight := [(RDFSymbol ''a'', 0)]\<rparr>"
  let ?L1 = "(new_loader (new_indexed_formula 0 Map.empty))\<lparr>isLoading := True\<rparr>"
  have fail: "onload (\<lambda>d. []) (Document []) (RDFSymbol ''a'', 0) ?L = Some (Inl TypeError, ?L1)"
    by (simp add: onload_def parse_def parse_root_def cleanParser_def load_parser_def new_RDFParser_def build_frame_def
        frameFactory_def process_node_def the_frame_def js_eff new_loader_def Let_def)
  have 1: "ensureDicoBitLoaded 1 (RDFSymbol ''b'') 7 ?L1 = (Inr (), ?L1\<lparr>timers := [(RDFSymbol ''b'', 7)]\<rparr>)"
    by (simp add: ensureDicoBitLoaded_def new_loader_def)
  have run: "load_run 1 (\<lambda>d. []) ?L1 [7] (?L1\<lparr>timers := [(RDFSymbol ''b'', 7)]\<rparr>)"
    by (rule load_run.ask [OF load_run.start 1])
  then show ?thesis using failed_load_blocks [OF _ _ fail run] by (auto simp: new_loader_def)
qed

end
