(* ===== verification/ContentStorage.thy ===== *)
theory ContentStorage
  imports Serializer
begin

text \<open>
  \<open>widget-factory.js\<close>, lines 807 to 860, and \<open>tria-disco.js\<close>: resources are put on the server, with
  the collections that contain them. The server, its state and the browser's serializer are
  parameters; a synchronous request is a call of the server.
\<close>

section \<open>Requests\<close>

datatype http_request = PUT string string | MKCOL string | POST string "(string \<times> string) list" string

type_synonym 'w server = "http_request \<Rightarrow> 'w \<Rightarrow> (nat \<times> string) \<times> 'w"

record 'w session =
  s_server :: 'w
  s_alerts :: "string list"

type_synonym ('w, 'a) web_step = "('w session, 'a) js_step"

definition send :: "'w server \<Rightarrow> http_request \<Rightarrow> ('w, nat \<times> string) web_step" where
  "send srv req s = (case srv req (s_server s) of (r, w) \<Rightarrow> (Inr r, s\<lparr>s_server := w\<rparr>))"

definition web_alert :: "string \<Rightarrow> ('w, unit) web_step" where
  "web_alert m = modify (\<lambda>s. s\<lparr>s_alerts := s_alerts s @ [m]\<rparr>)"

text \<open>What the two functions do with a status that is not one of a missing collection.\<close>

definition report_failure :: "nat \<Rightarrow> string \<Rightarrow> ('w, unit) web_step" where
  "report_failure status text =
     (if 300 \<le> status then web_alert (''server returned failure: '' @ text) else ret ())"

definition no_collection :: "nat \<Rightarrow> bool" where
  "no_collection status \<longleftrightarrow> status = 409 \<or> status = 403"

section \<open>Collections\<close>

text \<open>\<open>s.lastIndexOf(c, k)\<close>; a negative \<open>k\<close> is 0.\<close>

definition last_index_of_upto :: "string \<Rightarrow> char \<Rightarrow> int \<Rightarrow> int" where
  "last_index_of_upto s c k = last_index_of (take (Suc (nat k)) s) c"

definition containerURL :: "string \<Rightarrow> string" where
  "containerURL url = substring url 0 (last_index_of_upto url (CHR ''/'') (int (length url) - 2) + 1)"

text \<open>The recursion has the engine's stack as its bound.\<close>

fun createContainingCollection :: "nat \<Rightarrow> 'w server \<Rightarrow> string \<Rightarrow> bool \<Rightarrow> ('w, unit) web_step" where
  "createContainingCollection 0 srv url noContainerCreation = throw stack_overflow"
| "createContainingCollection (Suc n) srv url noContainerCreation =
     (if url = ''/'' then ret ()
      else bind_step (send srv (MKCOL (containerURL url))) (\<lambda>(status, message).
        if no_collection status then
          if noContainerCreation then throw (UserError message)
          else then_step (createContainingCollection n srv (containerURL url) False)
                 (createContainingCollection n srv url True)
        else report_failure status message))"

text \<open>
  \<open>putData\<close>: the second call, after the collections have been made, throws where the first one makes
  them.
\<close>

definition put_once :: "'w server \<Rightarrow> (dom \<Rightarrow> string) \<Rightarrow> (string \<Rightarrow> string \<Rightarrow> bool) \<Rightarrow> string \<Rightarrow> rdf_statement list \<Rightarrow>
    (string \<Rightarrow> ('w, unit) web_step) \<Rightarrow> ('w, unit) web_step" where
  "put_once srv xml name_ok url sts missing =
     bind_step (lift_res (serialize name_ok sts (Some url))) (\<lambda>d.
     bind_step (send srv (PUT url (xml d))) (\<lambda>(status, message).
       if no_collection status then missing message else report_failure status message))"

definition putData :: "nat \<Rightarrow> 'w server \<Rightarrow> (dom \<Rightarrow> string) \<Rightarrow> (string \<Rightarrow> string \<Rightarrow> bool) \<Rightarrow> string \<Rightarrow> rdf_statement list \<Rightarrow>
    bool \<Rightarrow> ('w, unit) web_step" where
  "putData stack srv xml name_ok url sts noContainerCreation =
     put_once srv xml name_ok url sts (\<lambda>message.
       if noContainerCreation then throw (UserError message)
       else then_step (createContainingCollection stack srv url False)
              (put_once srv xml name_ok url sts (\<lambda>message. throw (UserError message))))"

section \<open>Posting to a graph\<close>

definition tria_postUrl :: "string option \<Rightarrow> string" where
  "tria_postUrl graphUri = (case graphUri of Some g \<Rightarrow> ''post?graph='' @ g | None \<Rightarrow> ''post'')"

definition tria_putData :: "'w server \<Rightarrow> (dom \<Rightarrow> string) \<Rightarrow> (string \<Rightarrow> string \<Rightarrow> bool) \<Rightarrow> (nat \<Rightarrow> string) \<Rightarrow> string option \<Rightarrow>
    rdf_statement list \<Rightarrow> rdf_statement list \<Rightarrow> ('w, unit) web_step" where
  "tria_putData srv xml name_ok statusText graphUri store previousStore =
     bind_step (lift_res (serialize name_ok store (Some []))) (\<lambda>asserted.
     bind_step (lift_res (serialize name_ok previousStore (Some []))) (\<lambda>revoked.
       let parameters = ''assert='' @ encodeURIComponent (xml asserted) @ ''&revoke='' @ encodeURIComponent (xml revoked) in
       bind_step (send srv (POST (tria_postUrl graphUri)
         [(''Content-type'', ''application/x-www-form-urlencoded''), (''Content-length'', nat_str (length parameters))] parameters))
         (\<lambda>(status, message).
           if 300 \<le> status then
             (let text = nat_str status @ '' '' @ statusText status in
              then_step (web_alert text) (throw (UserError text)))
           else ret ())))"

text \<open>Where a resource is read from; the second definition, of \<open>tria-disco.js\<close>, replaces the first.\<close>

definition createURIderefURL :: "string \<Rightarrow> string" where
  "createURIderefURL uri = uri"

definition tria_createURIderefURL :: "string option \<Rightarrow> string \<Rightarrow> string" where
  "tria_createURIderefURL graphUri uri =
     ''get?resource='' @ uri @ (case graphUri of Some g \<Rightarrow> ''&graph='' @ g | None \<Rightarrow> [])"

section \<open>Lemmas\<close>

lemma containerURL_char:
  "containerURL url = (if CHR ''/'' \<in> set (take (Suc (nat (int (length url) - 2))) url)
     then take (nat (last_index_of_upto url (CHR ''/'') (int (length url) - 2) + 1)) url else [])"
proof (cases "CHR ''/'' \<in> set (take (Suc (nat (int (length url) - 2))) url)")
  case True
  then show ?thesis by (auto simp: containerURL_def substring_def Let_def min_def)
next
  case False
  then have "last_index_of_upto url (CHR ''/'') (int (length url) - 2) = - 1"
    by (simp add: last_index_of_upto_def last_index_of_absent)
  then show ?thesis using False by (simp add: containerURL_def substring_def)
qed

definition segment :: "string \<Rightarrow> bool" where
  "segment s \<longleftrightarrow> s \<noteq> [] \<and> CHR ''/'' \<notin> set s"

lemma container_of_name:
  assumes "segment s"
  shows "containerURL (b @ ''/'' @ s) = b @ ''/''"
proof -
  obtain r x where s: "s = r @ [x]" using assms by (cases s rule: rev_cases) (auto simp: segment_def)
  have "take (Suc (nat (int (length (b @ ''/'' @ s)) - 2))) (b @ ''/'' @ s) = b @ ''/'' @ r"
    by (simp add: s nat_int_add Suc_diff_le)
  then have "last_index_of_upto (b @ ''/'' @ s) (CHR ''/'') (int (length (b @ ''/'' @ s)) - 2) = int (length b)"
    using assms by (simp add: last_index_of_upto_def segment_def s last_index_of_append)
  then show ?thesis by (simp add: containerURL_def substring_def Let_def nat_add_distrib)
qed

lemma container_of_collection:
  assumes "segment s"
  shows "containerURL (b @ ''/'' @ s @ ''/'') = b @ ''/''"
proof -
  have "take (Suc (nat (int (length (b @ ''/'' @ s @ ''/'')) - 2))) (b @ ''/'' @ s @ ''/'') = b @ ''/'' @ s"
    by (simp add: nat_int_add Suc_diff_le)
  then have "last_index_of_upto (b @ ''/'' @ s @ ''/'') (CHR ''/'') (int (length (b @ ''/'' @ s @ ''/'')) - 2) = int (length b)"
    using assms by (simp add: last_index_of_upto_def segment_def last_index_of_append)
  then show ?thesis by (simp add: containerURL_def substring_def Let_def nat_add_distrib)
qed

lemma container_not_root: "take 1 url \<noteq> ''/'' \<Longrightarrow> take 1 (containerURL url) \<noteq> ''/''"
  by (auto simp: containerURL_char min_def take_Suc_conv_app_nth)

section \<open>A server of collections\<close>

text \<open>
  What RFC 4918 says of the two methods: \<open>cols\<close> and \<open>docs\<close> read the collections and the documents
  off the server's state.
\<close>

definition webdav :: "'w server \<Rightarrow> ('w \<Rightarrow> string set) \<Rightarrow> ('w \<Rightarrow> string \<Rightarrow> string option) \<Rightarrow> bool" where
  "webdav srv cols docs \<longleftrightarrow> (\<forall>w b s body. segment s \<longrightarrow>
     (case srv (MKCOL (b @ ''/'' @ s @ ''/'')) w of ((status, text), w') \<Rightarrow>
        if b @ ''/'' @ s @ ''/'' \<in> cols w then status = 405 \<and> cols w' = cols w \<and> docs w' = docs w
        else if b @ ''/'' \<in> cols w then status = 201 \<and> cols w' = insert (b @ ''/'' @ s @ ''/'') (cols w) \<and> docs w' = docs w
        else no_collection status \<and> cols w' = cols w \<and> docs w' = docs w) \<and>
     (case srv (PUT (b @ ''/'' @ s) body) w of ((status, text), w') \<Rightarrow>
        if b @ ''/'' \<in> cols w then status < 300 \<and> cols w' = cols w \<and> docs w' = (docs w)(b @ ''/'' @ s := Some body)
        else no_collection status \<and> cols w' = cols w \<and> docs w' = docs w))"

text \<open>The collection below \<open>root\<close> that a list of names leads to.\<close>

definition below :: "string \<Rightarrow> string list \<Rightarrow> string" where
  "below root segs = root @ concat (map (\<lambda>s. s @ ''/'') segs)"

lemma below_Nil [simp]: "below root [] = root"
  by (simp add: below_def)

lemma below_snoc: "below root (segs @ [s]) = below root segs @ s @ ''/''"
  by (simp add: below_def)

lemma below_slash: "\<exists>b. below (r @ ''/'') segs = b @ ''/''"
  by (cases segs rule: rev_cases) (auto simp: below_def)

text \<open>The names of which a first part is a missing collection, one by one.\<close>

definition missing :: "string set \<Rightarrow> string \<Rightarrow> string list \<Rightarrow> bool" where
  "missing C root segs \<longleftrightarrow> root \<in> C \<and> (\<forall>n. 0 < n \<longrightarrow> n \<le> length segs \<longrightarrow> below root (take n segs) \<notin> C)"

definition made :: "string set \<Rightarrow> string \<Rightarrow> string list \<Rightarrow> string set" where
  "made C root segs = C \<union> (\<lambda>n. below root (take n segs)) ` {0..length segs}"

lemma missing_snoc: "missing C root (segs @ [s]) \<Longrightarrow> missing C root segs \<and> below root (segs @ [s]) \<notin> C"
  unfolding missing_def by (metis append_take_drop_id butlast_snoc le_SucI length_append_singleton less_Suc_eq_0_disj
    order_refl take_all take_append take_butlast zero_less_Suc diff_is_0_eq take_0 append_Nil2)

lemma made_snoc: "made C root (segs @ [s]) = insert (below root (segs @ [s])) (made C root segs)"
proof -
  have "(\<lambda>n. below root (take n (segs @ [s]))) ` {0..length segs} = (\<lambda>n. below root (take n segs)) ` {0..length segs}"
    by (intro image_cong) auto
  then show ?thesis by (simp add: made_def atLeastAtMostSuc_conv)
qed

lemma made_last: "below root segs \<in> made C root segs"
  by (force simp: made_def)

text \<open>The collections between an existing one and a URL are made, outermost first.\<close>

lemma below_short: "below root segs \<in> made C root (segs @ [s])"
  using made_last [of root segs C] by (simp add: made_snoc)

lemma below_new:
  assumes "segment t" "below root (ts @ [t]) \<notin> C"
  shows "below root (ts @ [t]) \<notin> made C root ts"
proof -
  have "length (below root (take m ts)) \<le> length (below root ts)" for m
    using arg_cong [OF append_take_drop_id [of m ts], of "\<lambda>ss. length (below root ss)"]
    by (simp add: below_def del: append_take_drop_id)
  moreover have "length (below root ts) < length (below root (ts @ [t]))" by (simp add: below_snoc)
  ultimately have "below root (ts @ [t]) \<noteq> below root (take m ts)" for m by (metis not_le)
  then show ?thesis using assms(2) by (auto simp: made_def)
qed

lemma webdav_mkcol:
  assumes "webdav srv cols docs" "segment t" "p = b @ ''/''"
  shows "\<exists>status text w'. srv (MKCOL (p @ t @ ''/'')) w = ((status, text), w') \<and> docs w' = docs w \<and>
    (p @ t @ ''/'' \<notin> cols w \<longrightarrow>
       (if p \<in> cols w then status = 201 \<and> cols w' = insert (p @ t @ ''/'') (cols w)
        else no_collection status \<and> cols w' = cols w))"
proof -
  obtain status msg w' where srv: "srv (MKCOL (p @ t @ ''/'')) w = ((status, msg), w')" by (metis prod.collapse)
  with assms(1) [unfolded webdav_def, THEN spec, of w, THEN spec, of b, THEN spec, of t, THEN spec, of "[]", THEN mp, OF assms(2)]
  show ?thesis using assms(3) by (auto split: if_splits)
qed

lemma container_below:
  assumes "segment t"
  shows "containerURL (below (r @ ''/'') (ts @ [t])) = below (r @ ''/'') ts" "below (r @ ''/'') (ts @ [t]) \<noteq> ''/''"
proof -
  obtain b where b: "below (r @ ''/'') ts = b @ ''/''" using below_slash by blast
  then show "containerURL (below (r @ ''/'') (ts @ [t])) = below (r @ ''/'') ts"
    using container_of_collection [OF assms, of b] by (simp add: below_snoc)
  show "below (r @ ''/'') (ts @ [t]) \<noteq> ''/''" using b by (simp add: below_snoc)
qed

lemma mkcol_made:
  assumes dav: "webdav srv cols docs" and t: "segment t" and url: "url \<noteq> ''/''" "containerURL url = below (r @ ''/'') (ts @ [t])"
    and parent: "below (r @ ''/'') ts \<in> cols (s_server s)" and new: "below (r @ ''/'') (ts @ [t]) \<notin> cols (s_server s)"
  shows "\<exists>s'. createContainingCollection (Suc n) srv url flag s = (Inr (), s') \<and> docs (s_server s') = docs (s_server s) \<and>
    cols (s_server s') = insert (below (r @ ''/'') (ts @ [t])) (cols (s_server s)) \<and> s_alerts s' = s_alerts s"
proof -
  obtain b where "below (r @ ''/'') ts = b @ ''/''" using below_slash by blast
  from webdav_mkcol [OF dav t this, of "s_server s"] obtain msg w' where
    "srv (MKCOL (below (r @ ''/'') (ts @ [t]))) (s_server s) = ((201, msg), w')" "docs w' = docs (s_server s)"
    "cols w' = insert (below (r @ ''/'') (ts @ [t])) (cols (s_server s))"
    using parent new by (auto simp: below_snoc)
  then show ?thesis using url by (simp add: send_def bind_step_def no_collection_def report_failure_def ret_def)
qed

lemma create_missing:
  assumes dav: "webdav srv cols docs"
  shows "missing (cols (s_server s)) (r @ ''/'') segs \<Longrightarrow> \<forall>t\<in>set segs. segment t \<Longrightarrow> segs \<noteq> [] \<Longrightarrow> url \<noteq> ''/'' \<Longrightarrow>
    containerURL url = below (r @ ''/'') segs \<Longrightarrow> length segs \<le> n \<Longrightarrow>
    \<exists>s'. createContainingCollection n srv url False s = (Inr (), s') \<and> docs (s_server s') = docs (s_server s) \<and>
      cols (s_server s') = made (cols (s_server s)) (r @ ''/'') segs \<and> s_alerts s' = s_alerts s"
proof (induction segs arbitrary: s url n rule: rev_induct)
  case (snoc t ts)
  let ?root = "r @ ''/''" and ?C = "cols (s_server s)"
  obtain m where n: "n = Suc m" "length ts \<le> m" using snoc.prems(6) by (cases n) auto
  have t: "segment t" using snoc.prems(2) by simp
  have miss: "missing ?C ?root ts" "below ?root (ts @ [t]) \<notin> ?C" using missing_snoc [OF snoc.prems(1)] by auto
  show ?case
  proof (cases "ts = []")
    case True
    then have "below ?root ts \<in> ?C" using miss(1) by (simp add: missing_def)
    note mkcol_made [OF dav t snoc.prems(4,5) this miss(2), of m False]
    moreover have "made ?C ?root [t] = insert (below ?root [t]) ?C"
      using made_snoc [of ?C ?root "[]" t] miss(1) True by (simp add: made_def missing_def insert_absorb)
    ultimately show ?thesis using True n(1) by simp
  next
    case False
    then have "below ?root ts \<notin> ?C" using miss(1) by (auto simp: missing_def dest: spec [of _ "length ts"])
    moreover obtain b where "below ?root ts = b @ ''/''" using below_slash by blast
    ultimately obtain status msg w1 where mk: "srv (MKCOL (below ?root (ts @ [t]))) (s_server s) = ((status, msg), w1)"
        "no_collection status" "cols w1 = ?C" "docs w1 = docs (s_server s)"
      using webdav_mkcol [OF dav t, of "below ?root ts" b "s_server s"] miss(2) by (auto simp: below_snoc)
    let ?s1 = "s\<lparr>s_server := w1\<rparr>"
    note up = container_below [OF t, of r ts]
    obtain s2 where s2: "createContainingCollection m srv (below ?root (ts @ [t])) False ?s1 = (Inr (), s2)"
        "docs (s_server s2) = docs w1" "cols (s_server s2) = made ?C ?root ts" "s_alerts s2 = s_alerts s"
      using snoc.IH [of ?s1 "below ?root (ts @ [t])" m] miss(1) mk(3) snoc.prems(2) False up n(2) by auto
    have "below ?root ts \<in> cols (s_server s2)" "below ?root (ts @ [t]) \<notin> cols (s_server s2)"
      using s2(3) made_last below_new [OF t miss(2)] by auto
    moreover obtain m' where "m = Suc m'" using n(2) False by (cases m) auto
    ultimately obtain s3 where s3: "createContainingCollection m srv url True s2 = (Inr (), s3)"
        "docs (s_server s3) = docs (s_server s2)" "cols (s_server s3) = insert (below ?root (ts @ [t])) (cols (s_server s2))"
        "s_alerts s3 = s_alerts s2"
      using mkcol_made [OF dav t snoc.prems(4,5), of s2 m' True] by blast
    have "createContainingCollection n srv url False s = (Inr (), s3)"
      using n(1) snoc.prems(4,5) mk(1,2) s2(1) s3(1) by (simp add: send_def bind_step_def then_step_def)
    then show ?thesis using s2 s3 mk(4) by (simp add: made_snoc)
  qed
qed simp

lemma webdav_put:
  assumes "webdav srv cols docs" "segment t" "p = b @ ''/''"
  shows "\<exists>status msg w'. srv (PUT (p @ t) body) w = ((status, msg), w') \<and>
    (if p \<in> cols w then status < 300 \<and> cols w' = cols w \<and> docs w' = (docs w)(p @ t := Some body)
     else no_collection status \<and> cols w' = cols w \<and> docs w' = docs w)"
proof -
  obtain status msg w' where srv: "srv (PUT (p @ t) body) w = ((status, msg), w')" by (metis prod.collapse)
  with assms(1) [unfolded webdav_def, THEN spec, of w, THEN spec, of b, THEN spec, of t, THEN spec, of body, THEN mp, OF assms(2)]
  show ?thesis using assms(3) by (auto split: if_splits)
qed

lemma put_stored:
  assumes "webdav srv cols docs" "segment t" "p = b @ ''/''" "serialize name_ok sts (Some (p @ t)) = Inr d" "p \<in> cols (s_server s)"
  shows "\<exists>s'. put_once srv xml name_ok (p @ t) sts k s = (Inr (), s') \<and> cols (s_server s') = cols (s_server s) \<and>
    docs (s_server s') = (docs (s_server s))(p @ t := Some (xml d)) \<and> s_alerts s' = s_alerts s"
proof -
  obtain status msg w' where put: "srv (PUT (p @ t) (xml d)) (s_server s) = ((status, msg), w')" "status < 300"
      "cols w' = cols (s_server s)" "docs w' = (docs (s_server s))(p @ t := Some (xml d))"
    using webdav_put [OF assms(1-3), of "xml d" "s_server s"] assms(5) by auto
  then have "\<not> no_collection status" by (auto simp: no_collection_def)
  then show ?thesis using put assms(4)
    by (simp add: put_once_def send_def bind_step_def report_failure_def ret_def lift_res_def)
qed

lemma put_missing:
  assumes "webdav srv cols docs" "segment t" "p = b @ ''/''" "serialize name_ok sts (Some (p @ t)) = Inr d" "p \<notin> cols (s_server s)"
  shows "\<exists>s' msg. (\<forall>k. put_once srv xml name_ok (p @ t) sts k s = k msg s') \<and> cols (s_server s') = cols (s_server s) \<and>
    docs (s_server s') = docs (s_server s) \<and> s_alerts s' = s_alerts s"
proof -
  obtain status msg w' where put: "srv (PUT (p @ t) (xml d)) (s_server s) = ((status, msg), w')" "no_collection status"
      "cols w' = cols (s_server s)" "docs w' = docs (s_server s)"
    using webdav_put [OF assms(1-3), of "xml d" "s_server s"] assms(5) by auto
  then show ?thesis using assms(4)
    by (intro exI [of _ "s\<lparr>s_server := w'\<rparr>"] exI [of _ msg]) (simp add: put_once_def send_def bind_step_def lift_res_def)
qed

section \<open>A server to evaluate on\<close>

fun dav_server :: "(string set \<times> (string \<Rightarrow> string option)) server" where
  "dav_server (MKCOL u) (C, D) =
     (if u \<in> C then ((405, ''exists''), C, D)
      else if containerURL u \<in> C then ((201, []), insert u C, D) else ((409, ''no parent''), C, D))"
| "dav_server (PUT u body) (C, D) =
     (if containerURL u \<in> C then ((201, []), C, D(u := Some body)) else ((409, ''no parent''), C, D))"
| "dav_server (POST u hs body) (C, D) = ((200, []), C, D)"

lemma webdav_dav_server: "webdav dav_server fst snd"
proof -
  have "containerURL (b @ CHR ''/'' # s @ ''/'') = b @ ''/''" "containerURL (b @ CHR ''/'' # s) = b @ ''/''" if "segment s" for b s
    using container_of_collection [OF that, of b] container_of_name [OF that, of b] by simp_all
  then show ?thesis by (auto simp: webdav_def no_collection_def)
qed

section \<open>Properties\<close>

text \<open>
  C11. On a server that keeps to the rules of collections, a resource can be put below any
  existing collection, however many collections are missing in between: the call returns,
  without an alert, after making exactly the missing ones, and the document is stored under the
  resource's URL. A stack as deep as their number is enough.
\<close>

theorem putData_stores:
  assumes "webdav srv cols docs" "missing (cols (s_server s)) (r @ ''/'') segs" "\<forall>t\<in>set (name # segs). segment t"
    and "url = below (r @ ''/'') segs @ name" "serialize name_ok sts (Some url) = Inr d" "length segs \<le> stack"
  shows "\<exists>s'. putData stack srv xml name_ok url sts False s = (Inr (), s') \<and>
    docs (s_server s') = (docs (s_server s))(url := Some (xml d)) \<and>
    cols (s_server s') = made (cols (s_server s)) (r @ ''/'') segs \<and> s_alerts s' = s_alerts s"
proof -
  let ?root = "r @ ''/''"
  obtain b where b: "below ?root segs = b @ ''/''" using below_slash by blast
  have name: "segment name" and segs: "\<forall>t\<in>set segs. segment t" using assms(3) by auto
  show ?thesis
  proof (cases "segs = []")
    case True
    then have "?root \<in> cols (s_server s)" "made (cols (s_server s)) ?root segs = cols (s_server s)"
      using assms(2) by (auto simp: missing_def made_def)
    moreover from this put_stored [OF assms(1) name b assms(5) [unfolded assms(4)]] True obtain s' where
      "putData stack srv xml name_ok url sts False s = (Inr (), s')" "cols (s_server s') = cols (s_server s)"
      "docs (s_server s') = (docs (s_server s))(url := Some (xml d))" "s_alerts s' = s_alerts s"
      unfolding putData_def assms(4) by (metis below_Nil)
    ultimately show ?thesis using True by simp
  next
    case False
    then have "below ?root segs \<notin> cols (s_server s)" using assms(2) by (auto simp: missing_def dest: spec [of _ "length segs"])
    from put_missing [OF assms(1) name b assms(5) [unfolded assms(4)] this, of xml] obtain s1 msg where s1:
      "\<And>k. put_once srv xml name_ok url sts k s = k msg s1" "cols (s_server s1) = cols (s_server s)"
      "docs (s_server s1) = docs (s_server s)" "s_alerts s1 = s_alerts s"
      unfolding assms(4) by blast
    have "url \<noteq> ''/''" "containerURL url = below ?root segs"
      using assms(4) b container_of_name [OF name, of b] name by (auto simp: segment_def append_eq_Cons_conv)
    from create_missing [OF assms(1) _ segs False this assms(6)] assms(2) s1(2) obtain s2 where s2:
      "createContainingCollection stack srv url False s1 = (Inr (), s2)" "docs (s_server s2) = docs (s_server s1)"
      "cols (s_server s2) = made (cols (s_server s)) ?root segs" "s_alerts s2 = s_alerts s1" by metis
    have "below ?root segs \<in> cols (s_server s2)" using s2(3) made_last by simp
    from put_stored [OF assms(1) name b assms(5) [unfolded assms(4)] this, of xml "\<lambda>message. throw (UserError message)"]
    show ?thesis using s1 s2 assms(4) by (auto simp: putData_def then_step_def bind_step_def)
  qed
qed

theorem putData_stores_witness:
  "\<exists>s'. putData 2 dav_server (\<lambda>d. ''<rdf/>'') (\<lambda>p n. True) ''http://h/a/b/c'' [] False \<lparr>s_server = ({''http://h/''}, Map.empty), s_alerts = []\<rparr> = (Inr (), s') \<and>
    fst (s_server s') = {''http://h/'', ''http://h/a/'', ''http://h/a/b/''} \<and> snd (s_server s') ''http://h/a/b/c'' \<noteq> None"
proof -
  let ?s = "\<lparr>s_server = ({''http://h/''}, Map.empty), s_alerts = []\<rparr> :: (string set \<times> (string \<Rightarrow> string option)) session"
  obtain d where d: "serialize (\<lambda>p n. True) [] (Some ''http://h/a/b/c'') = Inr d"
    by (simp add: serialize_def ret_def)
  have miss: "missing (fst (s_server ?s)) (''http://h'' @ ''/'') [''a'', ''b'']"
    by (auto simp: missing_def below_def numeral_2_eq_2 le_Suc_eq)
  have made: "made {''http://h/''} (''http://h'' @ ''/'') [''a'', ''b''] = {''http://h/'', ''http://h/a/'', ''http://h/a/b/''}"
    by (auto simp: made_def below_def atLeastAtMostSuc_conv numeral_2_eq_2)
  have segs: "\<forall>t\<in>set [''c'', ''a'', ''b'']. segment t" by (simp add: segment_def)
  have url: "''http://h/a/b/c'' = below (''http://h'' @ ''/'') [''a'', ''b''] @ ''c''" by (simp add: below_def)
  have "length [''a'', ''b''] \<le> 2" by simp
  from putData_stores [OF webdav_dav_server miss segs url d this, of "\<lambda>d. ''<rdf/>''"] obtain s' where
    "putData 2 dav_server (\<lambda>d. ''<rdf/>'') (\<lambda>p n. True) ''http://h/a/b/c'' [] False ?s = (Inr (), s')"
    "snd (s_server s') = [''http://h/a/b/c'' \<mapsto> ''<rdf/>'']"
    "fst (s_server s') = made {''http://h/''} (''http://h'' @ ''/'') [''a'', ''b'']"
    by auto
  then show ?thesis unfolding made by (intro exI [of _ s']) simp
qed

text \<open>
  A server on which not even the outermost collection of an absolute URL can be made keeps
  the recursion going: the test for the root compares with a slash, which no URL of a host ever
  becomes, so for every depth of the stack the call ends with the engine's error.
\<close>

lemma no_root_overflows:
  assumes "\<And>u w. \<exists>msg. srv (MKCOL u) w = ((409, msg), w)" "take 1 url \<noteq> ''/''"
  shows "createContainingCollection stack srv url False s = (Inl stack_overflow, s)"
  using assms(2)
proof (induction stack arbitrary: url)
  case 0
  then show ?case by (simp add: throw_def)
next
  case (Suc n)
  obtain msg where "srv (MKCOL (containerURL url)) (s_server s) = ((409, msg), s_server s)" using assms(1) by blast
  moreover have "createContainingCollection n srv (containerURL url) False s = (Inl stack_overflow, s)"
    by (rule Suc.IH [OF container_not_root [OF Suc.prems]])
  moreover have "url \<noteq> ''/''" using Suc.prems by auto
  ultimately show ?case
    by (simp add: send_def bind_step_def then_step_def no_collection_def)
qed

lemma no_root_overflows_witness:
  "createContainingCollection 100 (\<lambda>req (w :: nat). ((409, ''Conflict''), w)) ''http://h/a/b'' False \<lparr>s_server = 0, s_alerts = []\<rparr> =
     (Inl stack_overflow, \<lparr>s_server = 0, s_alerts = []\<rparr>)"
  by (rule no_root_overflows) auto

end
