(* ===== verification/OrderedContent.thy ===== *)
theory OrderedContent
  imports WidgetStore
begin

text \<open>
  \<open>widget-factory.js\<close>, lines 509 to 805: the widgets with children, \<open>OrderedContentWidget\<close> and
  \<open>TitledContentWidget\<close>: the list items on the page, the array of child widgets, the controls of
  the children with the positions they were made for, and the statements that are saved.
\<close>

section \<open>Arrays\<close>

text \<open>\<open>xs[i]\<close> and \<open>xs[i] = x\<close> of an array, which may have holes.\<close>

definition arr_get :: "'a option list \<Rightarrow> nat \<Rightarrow> 'a option" where
  "arr_get xs i = (if i < length xs then xs ! i else None)"

definition arr_set :: "'a option list \<Rightarrow> nat \<Rightarrow> 'a option \<Rightarrow> 'a option list" where
  "arr_set xs i x = (if i < length xs then xs[i := x] else xs @ replicate (i - length xs) None @ [x])"

text \<open>The index that a text used as a key of an array is, if it is one.\<close>

definition array_index :: "string \<Rightarrow> nat option" where
  "array_index s = (if nat_str (digits_val s) = s \<and> digits_val s < 4294967295 then Some (digits_val s) else None)"

section \<open>State\<close>

text \<open>A control of a child: the list item and the position that its closure has.\<close>

datatype control = Up "nat option" nat | Down "nat option" nat | Remove "nat option" nat

text \<open>
  A child: its symbol, the list item that its container is in, the controls it has been given and
  those it shows, whether its widget has been loaded (before, there is a placeholder without
  methods), whether that holds of all the widgets below it (\<open>remove\<close> goes through them), and whether it
  has been removed.
\<close>

record child =
  c_symbol :: "rdf_term option"
  c_li :: nat
  c_class :: string
  c_provided :: "control list"
  c_shown :: "control list"
  c_ready :: bool
  c_whole :: bool
  c_removed :: bool

record content =
  ct_titled :: bool
  ct_symbol :: rdf_term
  ct_orig :: kb
  ct_lis :: "nat list"
  ct_childWidgets :: "nat option list"
  ct_children :: "nat \<Rightarrow> child"
  ct_next :: nat
  ct_modified :: bool
  ct_alerts :: "string list"

type_synonym 'a content_step = "(content, 'a) js_step"

section \<open>Controls\<close>

definition getControlFunctions :: "nat option \<Rightarrow> nat \<Rightarrow> content \<Rightarrow> control list" where
  "getControlFunctions li pos s =
     (if ct_titled s then []
      else (if 0 < pos then [Up li pos] else []) @
        (if pos + 1 < length (ct_childWidgets s) then [Down li pos] else []) @ [Remove li pos])"

definition positionHandling :: "nat \<Rightarrow> bool \<Rightarrow> string" where
  "positionHandling pos titled = (if titled \<and> pos = 0 then '' title'' else if titled \<and> pos = 1 then '' content'' else [])"

text \<open>\<open>addChild\<close>: the widget is made later, so that its holder has a placeholder.\<close>

definition addChild :: "rdf_term option \<Rightarrow> nat \<Rightarrow> unit content_step" where
  "addChild x pos = modify (\<lambda>s. let i = ct_next s in
     s\<lparr>ct_lis := ct_lis s @ [i], ct_childWidgets := arr_set (ct_childWidgets s) pos (Some i),
       ct_children := (ct_children s)(i := \<lparr>c_symbol = x, c_li = i, c_class = positionHandling pos (ct_titled s),
         c_provided = getControlFunctions (Some i) pos s, c_shown = [], c_ready = False, c_whole = False, c_removed = False\<rparr>),
       ct_next := i + 1\<rparr>)"

text \<open>The two moments in the life of a child's widget: its controls are shown, and it is loaded.\<close>

definition child_created :: "nat \<Rightarrow> content \<Rightarrow> content" where
  "child_created h s = s\<lparr>ct_children := (ct_children s)(h := (ct_children s h)\<lparr>c_shown := c_provided (ct_children s h)\<rparr>)\<rparr>"

definition child_loaded :: "nat \<Rightarrow> content \<Rightarrow> content" where
  "child_loaded h s = s\<lparr>ct_children := (ct_children s)(h := (ct_children s h)\<lparr>c_ready := True\<rparr>)\<rparr>"

text \<open>The widgets below a child come and go.\<close>

definition child_settled :: "nat \<Rightarrow> bool \<Rightarrow> content \<Rightarrow> content" where
  "child_settled h b s = s\<lparr>ct_children := (ct_children s)(h := (ct_children s h)\<lparr>c_whole := b\<rparr>)\<rparr>"

definition modifiedTrue :: "unit content_step" where
  "modifiedTrue = modify (\<lambda>s. s\<lparr>ct_modified := True\<rparr>)"

text \<open>\<open>childWidgets[i].widget\<close>, for a method that a placeholder does not have.\<close>

definition ready_child :: "nat \<Rightarrow> nat content_step" where
  "ready_child i s = (case arr_get (ct_childWidgets s) i of
       Some h \<Rightarrow> if c_ready (ct_children s h) then (Inr h, s) else (Inl TypeError, s)
     | None \<Rightarrow> (Inl TypeError, s))"

text \<open>The loop after a change: every child from the position \<open>i\<close> on gets its controls anew.\<close>

fun refill :: "nat \<Rightarrow> nat \<Rightarrow> unit content_step" where
  "refill 0 i = ret ()"
| "refill (Suc n) i =
     bind_step (ready_child i) (\<lambda>h.
     then_step (modify (\<lambda>s. s\<lparr>ct_children := (ct_children s)(h := (ct_children s h)\<lparr>c_shown :=
         getControlFunctions (arr_get (map Some (ct_lis s)) i) i s\<rparr>)\<rparr>))
       (refill n (i + 1)))"

definition refill_all :: "unit content_step" where
  "refill_all s = refill (length (ct_childWidgets s)) 0 s"

text \<open>The siblings of a list item; one that is not in the list has none.\<close>

definition previousSibling :: "nat \<Rightarrow> nat list \<Rightarrow> nat option" where
  "previousSibling li lis = (case dropWhile (\<lambda>x. x \<noteq> li) (rev lis) of _ # p # _ \<Rightarrow> Some p | _ \<Rightarrow> None)"

definition nextSibling :: "nat \<Rightarrow> nat list \<Rightarrow> nat option" where
  "nextSibling li lis = (case dropWhile (\<lambda>x. x \<noteq> li) lis of _ # n # _ \<Rightarrow> Some n | _ \<Rightarrow> None)"

definition insertBefore :: "nat \<Rightarrow> nat \<Rightarrow> nat list \<Rightarrow> nat list" where
  "insertBefore x y lis = takeWhile (\<lambda>z. z \<noteq> y) lis @ x # dropWhile (\<lambda>z. z \<noteq> y) lis"

definition swap_widgets :: "nat \<Rightarrow> nat \<Rightarrow> 'a option list \<Rightarrow> 'a option list" where
  "swap_widgets i j xs = arr_set (arr_set xs i (arr_get xs j)) j (arr_get xs i)"

definition moveUp :: "nat option \<Rightarrow> nat \<Rightarrow> unit content_step" where
  "moveUp li pos s = (case li of
       None \<Rightarrow> (Inl TypeError, s)
     | Some l \<Rightarrow>
         (case previousSibling l (ct_lis s) of
            None \<Rightarrow> (Inr (), s\<lparr>ct_alerts := ct_alerts s @ [''no previous element'']\<rparr>)
          | Some p \<Rightarrow> then_step refill_all modifiedTrue
              (s\<lparr>ct_lis := insertBefore l p (remove1 l (ct_lis s)),
                ct_childWidgets := swap_widgets (pos - 1) pos (ct_childWidgets s)\<rparr>)))"

definition moveDown :: "nat option \<Rightarrow> nat \<Rightarrow> unit content_step" where
  "moveDown li pos s = (case li of
       None \<Rightarrow> (Inl TypeError, s)
     | Some l \<Rightarrow>
         (case nextSibling l (ct_lis s) of
            None \<Rightarrow> (Inr (), s\<lparr>ct_alerts := ct_alerts s @ [''no next element'']\<rparr>)
          | Some n \<Rightarrow> then_step refill_all modifiedTrue
              (s\<lparr>ct_lis := insertBefore n l (remove1 n (ct_lis s)),
                ct_childWidgets := swap_widgets (pos + 1) pos (ct_childWidgets s)\<rparr>)))"

text \<open>The loop of \<open>REMOVE\<close>, which moves the children after the position one place down.\<close>

fun shift_loop :: "nat \<Rightarrow> nat \<Rightarrow> nat \<Rightarrow> nat \<Rightarrow> 'a option list \<Rightarrow> 'a option list" where
  "shift_loop 0 pos i j xs = xs"
| "shift_loop (Suc n) pos i j xs =
     (if i \<noteq> pos then shift_loop n pos (i + 1) (j + 1) (xs[j := xs ! i]) else shift_loop n pos (i + 1) j xs)"

text \<open>\<open>REMOVE\<close> up to the removal of the child's widget, that removal, and the rest.\<close>

definition remove_start :: "nat option \<Rightarrow> unit content_step" where
  "remove_start li s =
     (if \<forall>l. li = Some l \<longrightarrow> l \<notin> set (ct_lis s) then (Inl TypeError, s)
      else modifiedTrue (s\<lparr>ct_lis := remove1 (the li) (ct_lis s)\<rparr>))"

definition remove_child_widget :: "nat \<Rightarrow> unit content_step" where
  "remove_child_widget h s =
     (if c_whole (ct_children s h)
      then (Inr (), s\<lparr>ct_children := (ct_children s)(h := (ct_children s h)\<lparr>c_removed := True\<rparr>)\<rparr>)
      else (Inl TypeError, s))"

definition remove_finish :: "nat \<Rightarrow> unit content_step" where
  "remove_finish pos =
     then_step (\<lambda>s. if ct_childWidgets s = [] then (Inl (UserError ''RangeError: Invalid array length''), s)
         else (Inr (), s\<lparr>ct_childWidgets :=
           butlast (shift_loop (length (ct_childWidgets s)) pos 0 0 (ct_childWidgets s))\<rparr>))
       refill_all"

definition removeChild :: "nat option \<Rightarrow> nat \<Rightarrow> unit content_step" where
  "removeChild li pos =
     then_step (remove_start li)
       (then_step (\<lambda>s. if pos < length (ct_childWidgets s) then bind_step (ready_child pos) remove_child_widget s else ret () s)
         (remove_finish pos))"

fun perform :: "control \<Rightarrow> unit content_step" where
  "perform (Up li pos) = moveUp li pos"
| "perform (Down li pos) = moveDown li pos"
| "perform (Remove li pos) = removeChild li pos"

text \<open>The control \<open>ADD\<close> of the widget itself.\<close>

definition child_uri :: "string \<Rightarrow> nat \<Rightarrow> string" where
  "child_uri base n = (if base \<noteq> [] \<and> last base = CHR ''/'' then base else base @ ''-el/'') @ nat_str n"

definition addControl :: "unit content_step" where
  "addControl s = (case prop_uri (ct_symbol s) of
       None \<Rightarrow> (Inl TypeError, s)
     | Some u \<Rightarrow> then_step (addChild (Some (RDFSymbol (child_uri u (length (ct_childWidgets s))))) (length (ct_childWidgets s)))
         modifiedTrue s)"

section \<open>Loading and saving\<close>

definition disco :: "string \<Rightarrow> rdf_term" where
  "disco l = RDFSymbol (''http://discobits.org/ontology#'' @ l)"

text \<open>The objects of the statements with a subject and a predicate.\<close>

definition objects_of :: "rdf_term \<Rightarrow> rdf_term \<Rightarrow> kb \<Rightarrow> rdf_term list js_res" where
  "objects_of t p k = (case statementsMatching (VTerm t) (VTerm p) VUndefined VUndefined False k of
     (r, k') \<Rightarrow> bind_res r (\<lambda>arr. Inr (map (\<lambda>a. st_object (heap k' a)) (arr_elems k' arr))))"

text \<open>
  \<open>children[pos[0].object] = holds[0].object\<close>: the printed object is the key; a key that is not an
  index makes a property that no one reads.
\<close>

definition place_entry :: "kb \<Rightarrow> rdf_term \<Rightarrow> rdf_term option list \<Rightarrow> rdf_term option list js_res" where
  "place_entry k entry children =
     bind_res (objects_of entry (disco ''pos'') k) (\<lambda>pos.
     bind_res (objects_of entry (disco ''holds'') k) (\<lambda>holds.
       case (pos, holds) of
         (p # _, h # _) \<Rightarrow> Inr (case array_index (term_toString p) of Some i \<Rightarrow> arr_set children i (Some h) | None \<Rightarrow> children)
       | _ \<Rightarrow> Inl TypeError))"

fun place_entries :: "kb \<Rightarrow> rdf_term list \<Rightarrow> rdf_term option list \<Rightarrow> rdf_term option list js_res" where
  "place_entries k [] children = Inr children"
| "place_entries k (e # es) children = bind_res (place_entry k e children) (place_entries k es)"

definition load_children :: "rdf_term \<Rightarrow> kb \<Rightarrow> rdf_term option list js_res" where
  "load_children t k = bind_res (objects_of t (disco ''contains'') k) (\<lambda>es. place_entries k es [])"

fun add_children :: "rdf_term option list \<Rightarrow> nat \<Rightarrow> unit content_step" where
  "add_children [] j = ret ()"
| "add_children (x # xs) j = then_step (addChild x j) (add_children xs (j + 1))"

definition content_of :: "bool \<Rightarrow> rdf_term \<Rightarrow> kb \<Rightarrow> rdf_term option list \<Rightarrow> content" where
  "content_of titled t k xs = snd (add_children xs 0
     \<lparr>ct_titled = titled, ct_symbol = t, ct_orig = k, ct_lis = [], ct_childWidgets = replicate (length xs) None,
      ct_children = (\<lambda>_. \<lparr>c_symbol = None, c_li = 0, c_class = [], c_provided = [], c_shown = [], c_ready = False, c_whole = False, c_removed = False\<rparr>),
      ct_next = 0, ct_modified = False, ct_alerts = []\<rparr>)"

definition load_content :: "bool \<Rightarrow> rdf_term \<Rightarrow> kb \<Rightarrow> content js_res" where
  "load_content titled t k = bind_res (load_children t k) (\<lambda>xs. Inr (content_of titled t k xs))"

text \<open>
  \<open>TitledContentWidget\<close>: without two entries, a title and a content are made, and the title is typed in
  the page's store \<open>g\<close>.
\<close>

definition titled_uri :: "string \<Rightarrow> string" where
  "titled_uri base = (if base \<noteq> [] \<and> last base = CHR ''/'' then base else base @ ''-'')"

definition new_titled :: "rdf_term \<Rightarrow> kb \<Rightarrow> (kb, content) js_step" where
  "new_titled t k =
     bind_step (lift_res (objects_of t (disco ''contains'') k)) (\<lambda>es.
       if length es = 2 then lift_res (load_content True t k)
       else (case prop_uri t of
           None \<Rightarrow> throw TypeError
         | Some u \<Rightarrow>
             (let title = RDFSymbol (titled_uri u @ ''title''); body = RDFSymbol (titled_uri u @ ''content'') in
              then_step (kb_add (VTerm title) (VTerm rdf_type_term) (VTerm (disco ''XHTMLInfoDiscoBit'')) VUndefined)
                (ret ((content_of True t k [Some title, Some body])\<lparr>ct_modified := True\<rparr>)))))"

definition put :: "rdf_term \<Rightarrow> rdf_term \<Rightarrow> rdf_term option \<Rightarrow> unit kb_step" where
  "put s p x = kb_add (VTerm s) (VTerm p) (val_of x) VUndefined"

text \<open>The entries for the children from the position \<open>i\<close> on.\<close>

fun store_entries :: "rdf_term \<Rightarrow> rdf_term option list \<Rightarrow> nat \<Rightarrow> unit kb_step" where
  "store_entries t [] i = ret ()"
| "store_entries t (x # xs) i =
     bind_step new_bnode (\<lambda>b.
     then_step (put b rdf_type_term (Some (disco ''Entry''))) (
     then_step (put b (disco ''pos'') (Some (RDFLiteral (nat_str i) None None None))) (
     then_step (put b (disco ''holds'') x) (
     then_step (put t (disco ''contains'') (Some b)) (store_entries t xs (i + 1))))))"

text \<open>The symbols of the children in the order of the array, which is the order that is saved.\<close>

definition child_list :: "content \<Rightarrow> rdf_term option list" where
  "child_list s = map (\<lambda>h. case h of Some i \<Rightarrow> c_symbol (ct_children s i) | None \<Rightarrow> None) (ct_childWidgets s)"

text \<open>The statements of the original store about the widget, but for those with one predicate.\<close>

fun copy_statements :: "rdf_term \<Rightarrow> string \<Rightarrow> rdf_statement list \<Rightarrow> unit kb_step" where
  "copy_statements t skip [] = ret ()"
| "copy_statements t skip (st # sts) =
     then_step (if prop_uri (st_subject st) = prop_uri t \<and> prop_uri (st_predicate st) \<noteq> Some skip
         then put (st_subject st) (st_predicate st) (Some (st_object st)) else ret ())
       (copy_statements t skip sts)"

definition orig_statements :: "content \<Rightarrow> rdf_statement list" where
  "orig_statements s = map (heap (ct_orig s)) (statements (ct_orig s))"

definition content_store :: "content \<Rightarrow> unit kb_step" where
  "content_store s =
     then_step (put (ct_symbol s) rdf_type_term (Some (disco (if ct_titled s then ''TitledContent'' else ''OrderedContent''))))
     (then_step (store_entries (ct_symbol s) (child_list s) 0)
       (copy_statements (ct_symbol s) ''http://discobits.org/ontology#contains'' (orig_statements s)))"

definition getStore :: "int \<Rightarrow> (int \<Rightarrow> rdf_coll option) \<Rightarrow> content \<Rightarrow> kb js_res" where
  "getStore n cs s = (case content_store s (new_indexed_formula n cs) of (r, k) \<Rightarrow> bind_res r (\<lambda>_. Inr k))"

section \<open>Page and array in step\<close>

text \<open>The controls that are right at a position.\<close>

definition right_controls :: "content \<Rightarrow> nat \<Rightarrow> nat \<Rightarrow> control set" where
  "right_controls s li i = {c. c = Remove (Some li) i \<or> c = Up (Some li) i \<and> 0 < i \<or> c = Down (Some li) i \<and> i + 1 < length (ct_childWidgets s)}"

definition in_step :: "content \<Rightarrow> bool" where
  "in_step s \<longleftrightarrow> (\<exists>hs. ct_childWidgets s = map Some hs \<and> distinct hs \<and> (\<forall>h\<in>set hs. h < ct_next s) \<and>
     ct_lis s = map (\<lambda>h. c_li (ct_children s h)) hs \<and> distinct (ct_lis s) \<and> (\<forall>l\<in>set (ct_lis s). l < ct_next s) \<and>
     (\<forall>i<length hs. set (c_shown (ct_children s (hs ! i))) \<subseteq> right_controls s (ct_lis s ! i) i \<and>
        (\<not> c_ready (ct_children s (hs ! i)) \<longrightarrow> set (c_provided (ct_children s (hs ! i))) \<subseteq> right_controls s (ct_lis s ! i) i)))"

definition all_ready :: "content \<Rightarrow> bool" where
  "all_ready s \<longleftrightarrow> (\<forall>h\<in>set (ct_childWidgets s). \<forall>i. h = Some i \<longrightarrow> c_ready (ct_children s i) \<and> c_whole (ct_children s i))"

definition swapped :: "nat \<Rightarrow> 'a list \<Rightarrow> 'a list" where
  "swapped i xs = xs[i := xs ! (i + 1), i + 1 := xs ! i]"

text \<open>The edit of the list of children that a control stands for.\<close>

fun edit :: "control \<Rightarrow> 'a list \<Rightarrow> 'a list" where
  "edit (Up li i) xs = swapped (i - 1) xs"
| "edit (Down li i) xs = swapped i xs"
| "edit (Remove li i) xs = take i xs @ drop (i + 1) xs"

lemma arr_get_map: "arr_get (map Some xs) i = (if i < length xs then Some (xs ! i) else None)"
  by (simp add: arr_get_def)

lemma swap_widgets_up: "0 < i \<Longrightarrow> i < length xs \<Longrightarrow> swap_widgets (i - 1) i (map Some xs) = map Some (swapped (i - 1) xs)"
  by (auto simp: swap_widgets_def arr_set_def arr_get_def swapped_def map_update)

lemma swap_widgets_down: "i + 1 < length xs \<Longrightarrow> swap_widgets (i + 1) i (map Some xs) = map Some (swapped i xs)"
  by (auto simp: swap_widgets_def arr_set_def arr_get_def swapped_def map_update list_update_swap)

lemma split_two: "i + 1 < length xs \<Longrightarrow> \<exists>us x y vs. xs = us @ x # y # vs \<and> length us = i"
  by (metis Cons_nth_drop_Suc Suc_eq_plus1 Suc_lessD id_take_nth_drop length_take min.absorb4)

lemma swapped_append: "length us = i \<Longrightarrow> swapped i (us @ x # y # vs) = us @ y # x # vs"
  by (auto simp: swapped_def nth_append list_update_append)

lemma map_swapped: "i + 1 < length xs \<Longrightarrow> map f (swapped i xs) = swapped i (map f xs)"
  by (auto simp: swapped_def map_update)

lemma set_swapped [simp]: "i + 1 < length xs \<Longrightarrow> set (swapped i xs) = set xs"
  using split_two [of i xs] by (auto simp: swapped_append)

lemma distinct_swapped [simp]: "i + 1 < length xs \<Longrightarrow> distinct (swapped i xs) = distinct xs"
  using split_two [of i xs] by (auto simp: swapped_append)

lemma length_swapped [simp]: "length (swapped i xs) = length xs"
  by (simp add: swapped_def)

text \<open>The two moves of a list item are the same exchange.\<close>

lemma lis_up:
  assumes "distinct lis" "i + 1 < length lis"
  shows "previousSibling (lis ! (i + 1)) lis = Some (lis ! i)"
    "insertBefore (lis ! (i + 1)) (lis ! i) (remove1 (lis ! (i + 1)) lis) = swapped i lis"
proof -
  obtain us x y vs where lis: "lis = us @ x # y # vs" "length us = i" using split_two [OF assms(2)] by blast
  then have at: "lis ! Suc i = y" "lis ! i = x" by (auto simp: nth_append)
  have ys: "y \<notin> set us" "x \<notin> set us" "x \<noteq> y" "y \<notin> set vs" using assms(1) lis(1) by auto
  then have "dropWhile (\<lambda>z. z \<noteq> y) (rev vs @ y # x # rev us) = y # x # rev us"
    by (subst dropWhile_append2) auto
  then show "previousSibling (lis ! (i + 1)) lis = Some (lis ! i)" by (simp add: at previousSibling_def) (simp add: lis(1) at)
  have "remove1 y lis = us @ x # vs" using ys by (simp add: lis(1) remove1_append)
  moreover have "takeWhile (\<lambda>z. z \<noteq> x) (us @ x # vs) = us" "dropWhile (\<lambda>z. z \<noteq> x) (us @ x # vs) = x # vs"
    using ys by (auto simp: takeWhile_append2 dropWhile_append2)
  ultimately show "insertBefore (lis ! (i + 1)) (lis ! i) (remove1 (lis ! (i + 1)) lis) = swapped i lis"
    unfolding insertBefore_def using lis at by (simp add: swapped_append)
qed

lemma lis_down:
  assumes "distinct lis" "i + 1 < length lis"
  shows "nextSibling (lis ! i) lis = Some (lis ! (i + 1))"
proof -
  obtain us x y vs where lis: "lis = us @ x # y # vs" "length us = i" using split_two [OF assms(2)] by blast
  then have at: "lis ! Suc i = y" "lis ! i = x" by (auto simp: nth_append)
  have "x \<notin> set us" using assms(1) lis(1) by auto
  then have "dropWhile (\<lambda>z. z \<noteq> x) lis = x # y # vs" by (simp add: lis(1) dropWhile_append2)
  then show ?thesis by (simp add: at nextSibling_def)
qed

lemma shift_after:
  "length us = j \<Longrightarrow> i = length us + length ws \<Longrightarrow> length ws = 1 \<Longrightarrow> pos < i \<Longrightarrow>
     butlast (shift_loop (length vs) pos i j (us @ ws @ vs)) = us @ vs"
proof (induction vs arbitrary: us ws i j)
  case Nil
  then show ?case by (cases ws) (auto simp: butlast_append)
next
  case (Cons v vs)
  then obtain w where ws: "ws = [w]" by (cases ws) auto
  have "(us @ ws @ v # vs)[j := (us @ ws @ v # vs) ! i] = (us @ [v]) @ [v] @ vs"
    using Cons.prems ws by (auto simp: nth_append list_update_append)
  then show ?case using Cons.IH [of "us @ [v]" "j + 1" "i + 1" "[v]"] Cons.prems ws by simp
qed

lemma shift_before:
  "length us = i \<Longrightarrow> i \<le> pos \<Longrightarrow> pos < i + length vs \<Longrightarrow>
     butlast (shift_loop (length vs) pos i i (us @ vs)) = take pos (us @ vs) @ drop (pos + 1) (us @ vs)"
proof (induction vs arbitrary: us i)
  case (Cons v vs)
  have same: "(us @ v # vs)[i := (us @ v # vs) ! i] = us @ v # vs" by simp
  show ?case
  proof (cases "i = pos")
    case True
    then show ?thesis using shift_after [of us i "i + 1" "[v]" pos vs] Cons.prems(1) by simp
  next
    case False
    then show ?thesis using Cons.IH [of "us @ [v]" "i + 1"] Cons.prems same by simp
  qed
qed simp

lemma shift_removes: "pos < length xs \<Longrightarrow> butlast (shift_loop (length xs) pos 0 0 xs) = take pos xs @ drop (pos + 1) xs"
  using shift_before [of "[]" 0 pos xs] by simp

section \<open>Controls keep page and array in step\<close>

lemma getControl_right: "set (getControlFunctions (Some l) i s) \<subseteq> right_controls s l i"
  by (auto simp: getControlFunctions_def right_controls_def)

lemma getControl_cong:
  "ct_titled s' = ct_titled s \<Longrightarrow> length (ct_childWidgets s') = length (ct_childWidgets s) \<Longrightarrow>
     getControlFunctions li i s' = getControlFunctions li i s"
  by (simp add: getControlFunctions_def)

lemma refill_effect:
  assumes "ct_childWidgets s = map Some hs" "distinct hs" "length (ct_lis s) = length hs" "\<forall>h\<in>set hs. c_ready (ct_children s h)"
    and "n + i = length hs"
  shows "\<exists>f. refill n i s = (Inr (), s\<lparr>ct_children := f\<rparr>) \<and>
    (\<forall>h. (f h)\<lparr>c_shown := []\<rparr> = (ct_children s h)\<lparr>c_shown := []\<rparr>) \<and>
    (\<forall>j. i \<le> j \<longrightarrow> j < length hs \<longrightarrow> c_shown (f (hs ! j)) = getControlFunctions (Some (ct_lis s ! j)) j s) \<and>
    (\<forall>h. (\<forall>j. i \<le> j \<longrightarrow> j < length hs \<longrightarrow> h \<noteq> hs ! j) \<longrightarrow> f h = ct_children s h)"
  using assms
proof (induction n arbitrary: i s)
  case 0
  then show ?case by (intro exI [of _ "ct_children s"]) (simp add: ret_def)
next
  case (Suc n)
  let ?h = "hs ! i"
  define c where "c = getControlFunctions (Some (ct_lis s ! i)) i s"
  define g where "g = (ct_children s)(?h := (ct_children s ?h)\<lparr>c_shown := c\<rparr>)"
  have i: "i < length hs" using Suc.prems(5) by simp
  have step: "refill (Suc n) i s = refill n (i + 1) (s\<lparr>ct_children := g\<rparr>)"
    using i Suc.prems(1,3,4) by (simp add: bind_step_def ready_child_def arr_get_map g_def c_def)
  have ready: "\<forall>h\<in>set hs. c_ready (g h)" using Suc.prems(4) by (simp add: g_def)
  obtain f where f: "refill n (i + 1) (s\<lparr>ct_children := g\<rparr>) = (Inr (), s\<lparr>ct_children := f\<rparr>)"
      "\<And>h. (f h)\<lparr>c_shown := []\<rparr> = (g h)\<lparr>c_shown := []\<rparr>"
      "\<And>j. i + 1 \<le> j \<Longrightarrow> j < length hs \<Longrightarrow> c_shown (f (hs ! j)) = getControlFunctions (Some (ct_lis s ! j)) j (s\<lparr>ct_children := g\<rparr>)"
      "\<And>h. (\<forall>j. i + 1 \<le> j \<longrightarrow> j < length hs \<longrightarrow> h \<noteq> hs ! j) \<Longrightarrow> f h = g h"
    using Suc.IH [of "s\<lparr>ct_children := g\<rparr>" "i + 1"] Suc.prems(1-3,5) ready by auto
  have cong: "getControlFunctions l j (s\<lparr>ct_children := g\<rparr>) = getControlFunctions l j s" for l j
    by (rule getControl_cong) simp_all
  have "f ?h = g ?h" using f(4) Suc.prems(2) i by (auto simp: nth_eq_iff_index_eq)
  then have "c_shown (f (hs ! j)) = getControlFunctions (Some (ct_lis s ! j)) j s" if "i \<le> j" "j < length hs" for j
    using f(3) that cong by (cases "i = j") (auto simp: g_def c_def)
  moreover have "f h = ct_children s h" if "\<forall>j. i \<le> j \<longrightarrow> j < length hs \<longrightarrow> h \<noteq> hs ! j" for h
    using f(4) that i by (auto simp: g_def)
  moreover have "(f h)\<lparr>c_shown := []\<rparr> = (ct_children s h)\<lparr>c_shown := []\<rparr>" for h
    using f(2) by (simp add: g_def)
  ultimately show ?case using step f(1) by (intro exI [of _ f]) simp
qed

text \<open>A state in which only the order or the set of the children has changed, with their list items.\<close>

lemma refill_in_step:
  assumes "ct_childWidgets s = map Some hs" "distinct hs" "\<forall>h\<in>set hs. h < ct_next s \<and> c_ready (ct_children s h) \<and> c_whole (ct_children s h)"
    "ct_lis s = map (\<lambda>h. c_li (ct_children s h)) hs" "distinct (ct_lis s)" "\<forall>l\<in>set (ct_lis s). l < ct_next s"
  shows "\<exists>s'. refill_all s = (Inr (), s') \<and> in_step s' \<and> all_ready s' \<and> child_list s' = child_list s \<and>
    ct_modified s' = ct_modified s \<and> ct_symbol s' = ct_symbol s"
proof -
  have len: "length (ct_lis s) = length hs" using assms(4) by simp
  have ready: "\<forall>h\<in>set hs. c_ready (ct_children s h)" using assms(3) by blast
  obtain f where f: "refill (length hs) 0 s = (Inr (), s\<lparr>ct_children := f\<rparr>)"
      "\<And>h. (f h)\<lparr>c_shown := []\<rparr> = (ct_children s h)\<lparr>c_shown := []\<rparr>"
      "\<And>j. j < length hs \<Longrightarrow> c_shown (f (hs ! j)) = getControlFunctions (Some (ct_lis s ! j)) j s"
    using refill_effect [OF assms(1,2) len ready, of "length hs" 0] by auto
  have fields: "c_li (f h) = c_li (ct_children s h)" "c_ready (f h) = c_ready (ct_children s h)"
    "c_whole (f h) = c_whole (ct_children s h)" "c_symbol (f h) = c_symbol (ct_children s h)" for h
    using arg_cong [OF f(2), of c_li] arg_cong [OF f(2), of c_ready] arg_cong [OF f(2), of c_whole] arg_cong [OF f(2), of c_symbol] by simp_all
  let ?s = "s\<lparr>ct_children := f\<rparr>"
  have right: "right_controls ?s = right_controls s" by (simp add: right_controls_def fun_eq_iff)
  have "in_step ?s"
    unfolding in_step_def right
  proof (intro exI conjI)
    show "ct_lis ?s = map (\<lambda>h. c_li (ct_children ?s h)) hs" using assms(4) fields(1) by simp
    show "\<forall>i<length hs. set (c_shown (ct_children ?s (hs ! i))) \<subseteq> right_controls s (ct_lis ?s ! i) i \<and>
        (\<not> c_ready (ct_children ?s (hs ! i)) \<longrightarrow> set (c_provided (ct_children ?s (hs ! i))) \<subseteq> right_controls s (ct_lis ?s ! i) i)"
      using f(3) getControl_right fields(2) assms(3) by simp
  qed (use assms in auto)
  moreover have "all_ready ?s" using fields(2,3) assms(1,3) by (auto simp: all_ready_def)
  moreover have "child_list ?s = child_list s" using fields(4) assms(1) by (simp add: child_list_def)
  ultimately show ?thesis using f(1) assms(1) by (auto simp: refill_all_def)
qed

lemma in_step_modified [simp]:
  "in_step (s\<lparr>ct_modified := b\<rparr>) = in_step s" "all_ready (s\<lparr>ct_modified := b\<rparr>) = all_ready s"
  "child_list (s\<lparr>ct_modified := b\<rparr>) = child_list s" "child_list (s\<lparr>ct_orig := k\<rparr>) = child_list s"
  by (simp_all add: in_step_def all_ready_def child_list_def right_controls_def split: option.split)

lemma refill_modified:
  assumes "refill_all s = (Inr (), s')"
  shows "then_step refill_all modifiedTrue s = (Inr (), s'\<lparr>ct_modified := True\<rparr>)"
  using assms by (simp add: then_step_def bind_step_def modifiedTrue_def modify_def)

lemma child_list_Some: "ct_childWidgets s = map Some hs \<Longrightarrow> child_list s = map (\<lambda>h. c_symbol (ct_children s h)) hs"
  by (simp add: child_list_def)

definition performed :: "control \<Rightarrow> content \<Rightarrow> bool" where
  "performed c s \<longleftrightarrow> (\<exists>s'. perform c s = (Inr (), s') \<and> in_step s' \<and> all_ready s' \<and>
     child_list s' = edit c (child_list s) \<and> ct_modified s' \<and> ct_symbol s' = ct_symbol s)"

lemma exchange_in_step:
  assumes ws: "ct_childWidgets s = map Some hs" and d: "distinct hs" "\<forall>h\<in>set hs. h < ct_next s \<and> c_ready (ct_children s h) \<and> c_whole (ct_children s h)"
    and lis: "ct_lis s = map (\<lambda>h. c_li (ct_children s h)) hs" "distinct (ct_lis s)" "\<forall>l\<in>set (ct_lis s). l < ct_next s"
    and i: "i + 1 < length hs"
  shows "\<exists>s'. then_step refill_all modifiedTrue (s\<lparr>ct_lis := swapped i (ct_lis s), ct_childWidgets := map Some (swapped i hs)\<rparr>) =
    (Inr (), s') \<and> in_step s' \<and> all_ready s' \<and> child_list s' = swapped i (child_list s) \<and> ct_modified s' \<and> ct_symbol s' = ct_symbol s"
proof -
  let ?s = "s\<lparr>ct_lis := swapped i (ct_lis s), ct_childWidgets := map Some (swapped i hs)\<rparr>"
  have ws': "ct_childWidgets ?s = map Some (swapped i hs)" by simp
  obtain s' where s': "refill_all ?s = (Inr (), s')" "in_step s'" "all_ready s'" "child_list s' = child_list ?s" "ct_symbol s' = ct_symbol s"
    using refill_in_step [OF ws'] d lis i by (auto simp: map_swapped)
  have "child_list ?s = swapped i (child_list s)"
    using child_list_Some [OF ws] child_list_Some [OF ws'] i by (simp add: map_swapped)
  then show ?thesis using refill_modified [OF s'(1)] s'(2-5) by simp
qed

lemma perform_in_step:
  assumes "in_step s" "all_ready s" "i < length (ct_childWidgets s)" "ct_childWidgets s ! i = Some h"
    and c: "c \<in> set (c_shown (ct_children s h))"
  shows "performed c s"
proof -
  obtain hs where ws: "ct_childWidgets s = map Some hs" and d: "distinct hs" "\<forall>h\<in>set hs. h < ct_next s \<and> c_ready (ct_children s h) \<and> c_whole (ct_children s h)"
    and lis: "ct_lis s = map (\<lambda>h. c_li (ct_children s h)) hs" "distinct (ct_lis s)" "\<forall>l\<in>set (ct_lis s). l < ct_next s"
    and right: "\<forall>i<length hs. set (c_shown (ct_children s (hs ! i))) \<subseteq> right_controls s (ct_lis s ! i) i"
    using assms(1,2) unfolding in_step_def all_ready_def by auto
  have i: "i < length hs" "hs ! i = h" using assms(3,4) ws by auto
  have len: "length (ct_lis s) = length hs" using lis(1) by simp
  note exchange = exchange_in_step [OF ws d lis]
  consider (up) "c = Up (Some (ct_lis s ! i)) i" "0 < i" | (down) "c = Down (Some (ct_lis s ! i)) i" "i + 1 < length hs"
    | (rem) "c = Remove (Some (ct_lis s ! i)) i"
    using right c i ws by (fastforce simp: right_controls_def)
  then show ?thesis
  proof cases
    case up
    then obtain j where j: "i = j + 1" by (cases i) auto
    then show ?thesis
      using up lis_up [OF lis(2), of j] swap_widgets_up [of i hs] ws i(1) len exchange [of j]
      by (simp add: performed_def moveUp_def)
  next
    case down
    then show ?thesis
      using lis_down [OF lis(2), of i] lis_up(2) [OF lis(2), of i] swap_widgets_down [of i hs] ws len exchange [of i]
      by (simp add: performed_def moveDown_def)
  next
    case rem
    let ?s1 = "s\<lparr>ct_lis := remove1 (ct_lis s ! i) (ct_lis s), ct_modified := True,
      ct_children := (ct_children s)(h := (ct_children s h)\<lparr>c_removed := True\<rparr>),
      ct_childWidgets := map Some (take i hs @ drop (i + 1) hs)\<rparr>"
    have without: "set (take i hs @ drop (i + 1) hs) \<subseteq> set hs" using set_take_subset set_drop_subset by (metis Un_subset_iff set_append)
    have "remove1 (ct_lis s ! i) (ct_lis s) = take i (ct_lis s) @ drop (i + 1) (ct_lis s)"
    proof -
      have "ct_lis s = take i (ct_lis s) @ ct_lis s ! i # drop (i + 1) (ct_lis s)" using i(1) len by (simp add: id_take_nth_drop)
      moreover have "ct_lis s ! i \<notin> set (take i (ct_lis s))" using lis(2) i(1) len by (auto simp: in_set_conv_nth nth_eq_iff_index_eq)
      ultimately show ?thesis by (metis remove1.simps(2) remove1_append)
    qed
    then have lis': "ct_lis ?s1 = map (\<lambda>h. c_li (ct_children ?s1 h)) (take i hs @ drop (i + 1) hs)"
      using lis(1) by (simp add: take_map drop_map)
    have ws1: "ct_childWidgets ?s1 = map Some (take i hs @ drop (i + 1) hs)" by simp
    obtain s' where s': "refill_all ?s1 = (Inr (), s')" "in_step s'" "all_ready s'" "child_list s' = child_list ?s1"
      "ct_modified s' = ct_modified ?s1" "ct_symbol s' = ct_symbol ?s1"
    proof (rule exE [OF refill_in_step [OF ws1]])
      show "distinct (take i hs @ drop (i + 1) hs)"
        using d(1) set_take_disj_set_drop_if_distinct [of hs i "i + 1"] by simp
      show "\<forall>h\<in>set (take i hs @ drop (i + 1) hs). h < ct_next ?s1 \<and> c_ready (ct_children ?s1 h) \<and> c_whole (ct_children ?s1 h)"
        using d(2) without by auto
      show "ct_lis ?s1 = map (\<lambda>h. c_li (ct_children ?s1 h)) (take i hs @ drop (i + 1) hs)" by (rule lis')
      show "distinct (ct_lis ?s1)" "\<forall>l\<in>set (ct_lis ?s1). l < ct_next ?s1"
        using lis(2,3) set_remove1_subset by (auto simp: distinct_remove1)
    qed blast
    have "ready_child i t = (Inr h, t)" if "ct_childWidgets t = map Some hs" "c_ready (ct_children t h)" for t
      using that i by (simp add: ready_child_def arr_get_map)
    moreover have "c_ready (ct_children s h)" "c_whole (ct_children s h)" using d(2) i nth_mem by blast+
    moreover have "butlast (shift_loop (length hs) i 0 0 (map Some hs)) = map Some (take i hs @ drop (i + 1) hs)"
      using shift_removes [of i "map Some hs"] i(1) by (simp add: take_map drop_map)
    moreover have "ct_lis s ! i \<in> set (ct_lis s)" using i(1) len by simp
    moreover have "hs \<noteq> []" using i(1) by auto
    ultimately have "perform c s = refill_all ?s1"
      using rem ws i(1)
      by (simp add: removeChild_def remove_start_def remove_child_widget_def remove_finish_def modifiedTrue_def then_step_def bind_step_def modify_def)
    moreover have "child_list ?s1 = edit c (child_list s)"
      using rem child_list_Some [OF ws] child_list_Some [OF ws1] by (simp add: take_map drop_map)
    moreover have "ct_modified s'" "ct_symbol s' = ct_symbol s" using s'(5,6) by simp_all
    ultimately show ?thesis using s' by (auto simp: performed_def)
  qed
qed

text \<open>The same loop when one of the children is still a placeholder: it throws there.\<close>

lemma refill_fails:
  assumes "ct_childWidgets s = map Some hs" "length (ct_lis s) = length hs" "n + i = length hs"
    and "i \<le> j" "j < length hs" "\<not> c_ready (ct_children s (hs ! j))"
  shows "\<exists>f. refill n i s = (Inl TypeError, s\<lparr>ct_children := f\<rparr>) \<and> (\<forall>h. c_symbol (f h) = c_symbol (ct_children s h))"
  using assms
proof (induction n arbitrary: i s)
  case (Suc n)
  let ?h = "hs ! i"
  have i: "i < length hs" using Suc.prems(3) by simp
  show ?case
  proof (cases "c_ready (ct_children s ?h)")
    case False
    then have "refill (Suc n) i s = (Inl TypeError, s\<lparr>ct_children := ct_children s\<rparr>)"
      using i Suc.prems(1) by (simp add: bind_step_def ready_child_def arr_get_map)
    then show ?thesis by (intro exI [of _ "ct_children s"]) simp
  next
    case True
    define g where "g = (ct_children s)(?h := (ct_children s ?h)\<lparr>c_shown := getControlFunctions (Some (ct_lis s ! i)) i s\<rparr>)"
    have step: "refill (Suc n) i s = refill n (i + 1) (s\<lparr>ct_children := g\<rparr>)"
      using i Suc.prems(1,2) True by (simp add: bind_step_def ready_child_def arr_get_map g_def)
    have "i \<noteq> j" using True Suc.prems(6) by auto
    moreover have "\<not> c_ready (g (hs ! j))" using Suc.prems(6) by (cases "hs ! j = hs ! i") (simp_all add: g_def)
    ultimately obtain f where f: "refill n (i + 1) (s\<lparr>ct_children := g\<rparr>) = (Inl TypeError, s\<lparr>ct_children := f\<rparr>)"
        "\<forall>h. c_symbol (f h) = c_symbol (g h)"
      using Suc.IH [of "s\<lparr>ct_children := g\<rparr>" "i + 1"] Suc.prems by auto
    then show ?thesis using step by (intro exI [of _ f]) (simp add: g_def)
  qed
qed simp

lemma exchange_fails:
  assumes ws: "ct_childWidgets s = map Some hs" and len: "length (ct_lis s) = length hs"
    and j: "j < length hs" "\<not> c_ready (ct_children s (hs ! j))" and i: "i + 1 < length hs"
  shows "\<exists>s'. then_step refill_all modifiedTrue (s\<lparr>ct_lis := swapped i (ct_lis s), ct_childWidgets := map Some (swapped i hs)\<rparr>) =
    (Inl TypeError, s') \<and> child_list s' = swapped i (child_list s) \<and> ct_modified s' = ct_modified s"
proof -
  let ?s = "s\<lparr>ct_lis := swapped i (ct_lis s), ct_childWidgets := map Some (swapped i hs)\<rparr>"
  have ws': "ct_childWidgets ?s = map Some (swapped i hs)" by simp
  have "hs ! j \<in> set (swapped i hs)" using j(1) i by simp
  then obtain j' where j': "j' < length (swapped i hs)" "swapped i hs ! j' = hs ! j" by (metis in_set_conv_nth)
  obtain f where f: "refill (length hs) 0 ?s = (Inl TypeError, ?s\<lparr>ct_children := f\<rparr>)" "\<forall>h. c_symbol (f h) = c_symbol (ct_children s h)"
    using refill_fails [OF ws', of "length hs" 0 j'] j' j(2) len by auto
  have "child_list ?s = swapped i (child_list s)"
    using child_list_Some [OF ws] child_list_Some [OF ws'] i by (simp add: map_swapped)
  moreover have "child_list (?s\<lparr>ct_children := f\<rparr>) = child_list ?s" using f(2) by (simp add: child_list_def)
  ultimately show ?thesis using f(1) by (simp add: refill_all_def then_step_def bind_step_def)
qed

section \<open>Runs\<close>

text \<open>
  What happens to a loaded widget: its children are created and loaded, in any order, and widgets below
  them come and go; a child can be added at any time, and once all the children are there their
  controls are used. A child can be reloaded, which creates it again, while it is at the position that
  its first controls were made for. Reloading it elsewhere, and choosing a type for it, which creates
  a widget that the array does not know, are not among these steps: what a reload breaks is shown at
  the end.
\<close>

definition in_place :: "nat \<Rightarrow> content \<Rightarrow> bool" where
  "in_place h s \<longleftrightarrow> (\<forall>i<length (ct_childWidgets s). ct_childWidgets s ! i = Some h \<longrightarrow>
     set (c_provided (ct_children s h)) \<subseteq> right_controls s (c_li (ct_children s h)) i)"

inductive content_run :: "content \<Rightarrow> content \<Rightarrow> bool" for s0 where
  start: "content_run s0 s0"
| created: "content_run s0 s \<Longrightarrow> \<not> c_ready (ct_children s h) \<or> in_place h s \<Longrightarrow> content_run s0 (child_created h s)"
| loaded: "content_run s0 s \<Longrightarrow> content_run s0 (child_loaded h s)"
| settled: "content_run s0 s \<Longrightarrow> content_run s0 (child_settled h b s)"
| added: "content_run s0 s \<Longrightarrow> addControl s = (Inr (), s') \<Longrightarrow> content_run s0 s'"
| used: "content_run s0 s \<Longrightarrow> all_ready s \<Longrightarrow> Some h \<in> set (ct_childWidgets s) \<Longrightarrow> c \<in> set (c_shown (ct_children s h)) \<Longrightarrow>
    perform c s = (r, s') \<Longrightarrow> content_run s0 s'"

text \<open>The state while the children are added, the first \<open>j\<close> of \<open>n\<close> being there.\<close>

definition adding :: "nat \<Rightarrow> nat \<Rightarrow> content \<Rightarrow> bool" where
  "adding j n s \<longleftrightarrow> j \<le> n \<and> ct_childWidgets s = map Some [0..<j] @ replicate (n - j) None \<and> ct_lis s = [0..<j] \<and> ct_next s = j \<and>
     (\<forall>h<j. c_li (ct_children s h) = h \<and> c_shown (ct_children s h) = [] \<and>
        set (c_provided (ct_children s h)) \<subseteq> right_controls s h h)"

lemma addChild_adding:
  assumes "adding j n s" "j < n"
  shows "\<exists>s'. addChild x j s = (Inr (), s') \<and> adding (j + 1) n s'"
proof -
  have ws: "ct_childWidgets s = map Some [0..<j] @ replicate (n - j) None" "ct_lis s = [0..<j]" "ct_next s = j"
    using assms(1) by (auto simp: adding_def)
  obtain s' where s': "addChild x j s = (Inr (), s')" by (simp add: addChild_def modify_def)
  have len: "length (ct_childWidgets s) = n" using ws(1) assms(2) by simp
  have "replicate (n - j) (None :: nat option) = None # replicate (n - (j + 1)) None"
    using assms(2) by (metis Suc_diff_Suc Suc_eq_plus1 replicate_Suc)
  then have ws': "arr_set (ct_childWidgets s) j (Some j) = map Some [0..<j + 1] @ replicate (n - (j + 1)) None"
    using len assms(2) by (simp add: arr_set_def ws(1) list_update_append)
  have fields: "ct_childWidgets s' = map Some [0..<j + 1] @ replicate (n - (j + 1)) None" "ct_lis s' = [0..<j + 1]" "ct_next s' = j + 1"
    "ct_children s' = (ct_children s)(j := \<lparr>c_symbol = x, c_li = j, c_class = positionHandling j (ct_titled s),
       c_provided = getControlFunctions (Some j) j s, c_shown = [], c_ready = False, c_whole = False, c_removed = False\<rparr>)"
    using s' ws(2,3) ws' by (auto simp: addChild_def modify_def Let_def)
  have "length (ct_childWidgets s') = length (ct_childWidgets s)" using fields(1) len assms(2) by simp
  then have right: "right_controls s' = right_controls s" by (simp add: right_controls_def fun_eq_iff)
  have "adding (j + 1) n s'"
    unfolding adding_def right fields
    using assms getControl_right [of j j s] by (auto simp: adding_def less_Suc_eq)
  then show ?thesis using s' by blast
qed

lemma add_children_adding:
  "adding j n s \<Longrightarrow> n = j + length xs \<Longrightarrow> adding n n (snd (add_children xs j s))"
proof (induction xs arbitrary: j s)
  case Nil
  then show ?case by (simp add: ret_def)
next
  case (Cons x xs)
  obtain s' where s': "addChild x j s = (Inr (), s')" "adding (j + 1) n s'"
    using addChild_adding [OF Cons.prems(1)] Cons.prems(2) by auto
  then show ?case using Cons.IH [OF s'(2)] Cons.prems(2) by (simp add: then_step_def bind_step_def)
qed

lemma adding_in_step: "adding n n s \<Longrightarrow> in_step s"
  unfolding in_step_def adding_def by (intro exI [of _ "[0..<n]"]) (auto intro: nth_equalityI)

lemma content_of_in_step: "in_step (content_of titled t k xs)"
  unfolding content_of_def
  by (rule adding_in_step, rule add_children_adding [of 0 "length xs"]) (simp_all add: adding_def)

lemma add_children_symbols:
  "adding j n s \<Longrightarrow> n = j + length xs \<Longrightarrow> length zs = j \<Longrightarrow> \<forall>h<j. c_symbol (ct_children s h) = zs ! h \<Longrightarrow>
    (\<forall>h<n. c_symbol (ct_children (snd (add_children xs j s)) h) = (zs @ xs) ! h) \<and> ct_titled (snd (add_children xs j s)) = ct_titled s"
proof (induction xs arbitrary: j s zs)
  case Nil
  then show ?case by (simp add: ret_def)
next
  case (Cons x xs)
  obtain s' where s': "addChild x j s = (Inr (), s')" "adding (j + 1) n s'"
    using addChild_adding [OF Cons.prems(1)] Cons.prems(2) by auto
  have "ct_next s = j" using Cons.prems(1) by (simp add: adding_def)
  then have "\<forall>h<j + 1. c_symbol (ct_children s' h) = (zs @ [x]) ! h" "ct_titled s' = ct_titled s"
    using s'(1) Cons.prems(3,4) by (auto simp: addChild_def modify_def Let_def nth_append)
  then show ?case using Cons.IH [OF s'(2), of "zs @ [x]"] Cons.prems(2,3) s'(1) by (simp add: then_step_def bind_step_def)
qed

lemma content_of_list [simp]:
  "child_list (content_of titled t k xs) = xs" "ct_titled (content_of titled t k xs) = titled"
proof -
  let ?s = "\<lparr>ct_titled = titled, ct_symbol = t, ct_orig = k, ct_lis = [], ct_childWidgets = replicate (length xs) None,
      ct_children = (\<lambda>_. \<lparr>c_symbol = None, c_li = 0, c_class = [], c_provided = [], c_shown = [], c_ready = False, c_whole = False, c_removed = False\<rparr>),
      ct_next = 0, ct_modified = False, ct_alerts = []\<rparr>"
  have s: "adding 0 (length xs) ?s" by (simp add: adding_def)
  have "adding (length xs) (length xs) (content_of titled t k xs)"
    unfolding content_of_def by (rule add_children_adding [OF s]) simp
  moreover have "(\<forall>h<length xs. c_symbol (ct_children (content_of titled t k xs) h) = xs ! h) \<and> ct_titled (content_of titled t k xs) = titled"
    unfolding content_of_def using add_children_symbols [OF s, of xs "[]"] by simp
  ultimately show "child_list (content_of titled t k xs) = xs" "ct_titled (content_of titled t k xs) = titled"
    by (auto simp: child_list_def adding_def intro: nth_equalityI)
qed

lemma right_controls_mono:
  "length (ct_childWidgets s) \<le> length (ct_childWidgets s') \<Longrightarrow> right_controls s l i \<subseteq> right_controls s' l i"
  by (auto simp: right_controls_def)

lemma add_in_step:
  assumes "in_step s" "addControl s = (Inr (), s')"
  shows "in_step s'"
proof -
  obtain hs where hs: "ct_childWidgets s = map Some hs" "distinct hs" "\<forall>h\<in>set hs. h < ct_next s"
      "ct_lis s = map (\<lambda>h. c_li (ct_children s h)) hs" "distinct (ct_lis s)" "\<forall>l\<in>set (ct_lis s). l < ct_next s"
    and right: "\<forall>i<length hs. set (c_shown (ct_children s (hs ! i))) \<subseteq> right_controls s (ct_lis s ! i) i \<and>
        (\<not> c_ready (ct_children s (hs ! i)) \<longrightarrow> set (c_provided (ct_children s (hs ! i))) \<subseteq> right_controls s (ct_lis s ! i) i)"
    using assms(1) unfolding in_step_def by auto
  let ?n = "ct_next s" and ?i = "length hs"
  obtain u where u: "prop_uri (ct_symbol s) = Some u" using assms(2) by (auto simp: addControl_def split: option.splits)
  let ?c = "\<lparr>c_symbol = Some (RDFSymbol (child_uri u ?i)), c_li = ?n, c_class = positionHandling ?i (ct_titled s),
    c_provided = getControlFunctions (Some ?n) ?i s, c_shown = [], c_ready = False, c_whole = False, c_removed = False\<rparr>"
  have s': "s' = s\<lparr>ct_lis := ct_lis s @ [?n], ct_childWidgets := map Some (hs @ [?n]), ct_children := (ct_children s)(?n := ?c),
      ct_next := ?n + 1, ct_modified := True\<rparr>"
    using assms(2) u hs(1) by (auto simp: addControl_def addChild_def then_step_def bind_step_def modify_def modifiedTrue_def arr_set_def Let_def)
  have old: "ct_children s' h = ct_children s h" if "h \<in> set hs" for h using that hs(3) s' by auto
  have mono: "right_controls s l i \<subseteq> right_controls s' l i" for l i
    by (rule right_controls_mono) (simp add: s' hs(1))
  have lis: "ct_lis s' = map (\<lambda>h. c_li (ct_children s' h)) (hs @ [?n])" using hs(4) old by (simp add: s')
  have "set (c_shown (ct_children s' ((hs @ [?n]) ! i))) \<subseteq> right_controls s' (ct_lis s' ! i) i \<and>
      (\<not> c_ready (ct_children s' ((hs @ [?n]) ! i)) \<longrightarrow> set (c_provided (ct_children s' ((hs @ [?n]) ! i))) \<subseteq> right_controls s' (ct_lis s' ! i) i)"
    if i: "i < length (hs @ [?n])" for i
  proof (cases "i < length hs")
    case True
    then have "ct_lis s' ! i = ct_lis s ! i" using hs(4) by (simp add: s' nth_append)
    moreover have "set (c_shown (ct_children s (hs ! i))) \<subseteq> right_controls s' (ct_lis s ! i) i \<and>
        (\<not> c_ready (ct_children s (hs ! i)) \<longrightarrow> set (c_provided (ct_children s (hs ! i))) \<subseteq> right_controls s' (ct_lis s ! i) i)"
      using right True mono [of "ct_lis s ! i" i] by (meson subset_trans)
    ultimately show ?thesis using True old [of "hs ! i"] by (simp add: nth_append)
  next
    case False
    then have "i = ?i" using i by simp
    moreover have "ct_lis s' ! ?i = ?n" using hs(4) by (simp add: s' nth_append)
    ultimately show ?thesis using getControl_right [of ?n ?i s] mono by (auto simp: s')
  qed
  then have shown: "\<forall>i<length (hs @ [?n]). set (c_shown (ct_children s' ((hs @ [?n]) ! i))) \<subseteq> right_controls s' (ct_lis s' ! i) i \<and>
      (\<not> c_ready (ct_children s' ((hs @ [?n]) ! i)) \<longrightarrow> set (c_provided (ct_children s' ((hs @ [?n]) ! i))) \<subseteq> right_controls s' (ct_lis s' ! i) i)"
    by blast
  have "distinct (ct_lis s')" "\<forall>l\<in>set (ct_lis s'). l < ct_next s'" using hs(5,6) by (auto simp: s')
  moreover have "distinct (hs @ [?n])" "\<forall>h\<in>set (hs @ [?n]). h < ct_next s'" "ct_childWidgets s' = map Some (hs @ [?n])"
    using hs(2,3) by (auto simp: s')
  ultimately show ?thesis
    unfolding in_step_def using lis shown by (intro exI [of _ "hs @ [?n]"] conjI)
qed

lemma in_step_children:
  assumes "in_step s"
    and f: "\<And>h. c_li (f h) = c_li (ct_children s h)"
      "\<And>h. c_shown (f h) = c_shown (ct_children s h) \<or>
        (\<not> c_ready (ct_children s h) \<or> in_place h s) \<and> c_shown (f h) = c_provided (ct_children s h)"
      "\<And>h. \<not> c_ready (f h) \<Longrightarrow> \<not> c_ready (ct_children s h) \<and> c_provided (f h) = c_provided (ct_children s h)"
  shows "in_step (s\<lparr>ct_children := f\<rparr>)"
proof -
  have same: "right_controls (s\<lparr>ct_children := f\<rparr>) = right_controls s" by (simp add: right_controls_def fun_eq_iff)
  obtain hs where hs: "ct_childWidgets s = map Some hs" "distinct hs" "\<forall>h\<in>set hs. h < ct_next s"
      "ct_lis s = map (\<lambda>h. c_li (ct_children s h)) hs" "distinct (ct_lis s)" "\<forall>l\<in>set (ct_lis s). l < ct_next s"
    and right: "\<forall>i<length hs. set (c_shown (ct_children s (hs ! i))) \<subseteq> right_controls s (ct_lis s ! i) i \<and>
        (\<not> c_ready (ct_children s (hs ! i)) \<longrightarrow> set (c_provided (ct_children s (hs ! i))) \<subseteq> right_controls s (ct_lis s ! i) i)"
    using assms(1) unfolding in_step_def by auto
  have "set (c_shown (f (hs ! i))) \<subseteq> right_controls s (ct_lis s ! i) i \<and>
      (\<not> c_ready (f (hs ! i)) \<longrightarrow> set (c_provided (f (hs ! i))) \<subseteq> right_controls s (ct_lis s ! i) i)" if i: "i < length hs" for i
  proof -
    have "in_place (hs ! i) s \<Longrightarrow> set (c_provided (ct_children s (hs ! i))) \<subseteq> right_controls s (ct_lis s ! i) i"
      using i hs(1,4) by (simp add: in_place_def)
    then show ?thesis using right [rule_format, OF i] f(2,3) [of "hs ! i"] by metis
  qed
  then show ?thesis unfolding in_step_def same using hs f(1) by (intro exI [of _ hs]) simp
qed

lemma created_in_step: "in_step s \<Longrightarrow> \<not> c_ready (ct_children s h) \<or> in_place h s \<Longrightarrow> in_step (child_created h s)"
  unfolding child_created_def by (rule in_step_children) auto

lemma loaded_in_step: "in_step s \<Longrightarrow> in_step (child_loaded h s)"
  unfolding child_loaded_def by (rule in_step_children) (auto split: if_splits)

lemma settled_in_step: "in_step s \<Longrightarrow> in_step (child_settled h b s)"
  unfolding child_settled_def by (rule in_step_children) auto

lemma run_in_step: "content_run s0 s \<Longrightarrow> in_step s0 \<Longrightarrow> in_step s"
proof (induction rule: content_run.induct)
  case (used s h c r s')
  then obtain i where "i < length (ct_childWidgets s)" "ct_childWidgets s ! i = Some h" by (auto simp: in_set_conv_nth)
  then have "performed c s" using perform_in_step used by blast
  then show ?case using used.hyps(5) by (auto simp: performed_def)
qed (auto intro: created_in_step loaded_in_step settled_in_step add_in_step)

section \<open>An example\<close>

definition page_store :: kb where
  "page_store = (new_indexed_formula 0 Map.empty)\<lparr>statements := [0],
     heap := (\<lambda>_. \<lparr>st_subject = RDFSymbol ''http://h/p'', st_predicate = RDFSymbol ''http://h/title'',
       st_object = RDFLiteral ''x'' None None None, st_why = None\<rparr>)\<rparr>"

definition two_children :: content where
  "two_children = content_of False (RDFSymbol ''http://h/p'') page_store [Some (RDFSymbol ''http://h/a''), Some (RDFSymbol ''http://h/b'')]"

lemma two_children_eq:
  "ct_symbol two_children = RDFSymbol ''http://h/p''" "ct_orig two_children = page_store"
  "child_list two_children = map (Some \<circ> RDFSymbol) [''http://h/a'', ''http://h/b'']"
  by (simp_all add: two_children_def content_of_def addChild_def modify_def then_step_def bind_step_def ret_def
      child_list_def arr_set_def Let_def)

section \<open>Properties\<close>

text \<open>
  C10. When all the children of a widget, and the widgets below them, are loaded, each
  control that a child shows succeeds: it exchanges or removes exactly the children that it
  stands for, the list items follow, and the widget counts as modified. This holds at any
  such moment of a run in which children are created, loaded, added, moved and removed,
  controls are used only while all is loaded, a child is reloaded only at the position it
  was made for, and no type is chosen for a child.
\<close>

theorem controls_edit_children:
  assumes "content_run (content_of titled t k xs) s" "all_ready s" "Some h \<in> set (ct_childWidgets s)"
    and "c \<in> set (c_shown (ct_children s h))"
  shows "\<exists>s'. perform c s = (Inr (), s') \<and> child_list s' = edit c (child_list s) \<and> in_step s' \<and> all_ready s' \<and> ct_modified s'"
proof -
  have "in_step s" using run_in_step [OF assms(1)] content_of_in_step by blast
  moreover obtain i where "i < length (ct_childWidgets s)" "ct_childWidgets s ! i = Some h"
    using assms(3) by (auto simp: in_set_conv_nth)
  ultimately have "performed c s" using perform_in_step [OF _ assms(2)] assms(4) by blast
  then show ?thesis by (auto simp: performed_def)
qed

text \<open>A child moved while another one is still loading: the exchange is done on the page and in the
  array, the loop over the controls throws, and the widget does not count as modified, so that the
  change can be lost.\<close>

lemma moved_while_loading:
  assumes "content_run (content_of titled t k xs) s" "Some g \<in> set (ct_childWidgets s)" "\<not> c_ready (ct_children s g)"
    and "Some h \<in> set (ct_childWidgets s)" "c \<in> set (c_shown (ct_children s h))"
    and "\<forall>li i. c \<noteq> Remove li i"
  shows "\<exists>s'. perform c s = (Inl TypeError, s') \<and> child_list s' = edit c (child_list s) \<and> ct_modified s' = ct_modified s"
proof -
  have "in_step s" using run_in_step [OF assms(1)] content_of_in_step by blast
  then obtain hs where ws: "ct_childWidgets s = map Some hs" and lis: "ct_lis s = map (\<lambda>h. c_li (ct_children s h)) hs" "distinct (ct_lis s)"
    and right: "\<forall>i<length hs. set (c_shown (ct_children s (hs ! i))) \<subseteq> right_controls s (ct_lis s ! i) i"
    unfolding in_step_def by auto
  obtain i where i: "i < length hs" "hs ! i = h" using assms(4) ws by (auto simp: in_set_conv_nth)
  obtain j where j: "j < length hs" "\<not> c_ready (ct_children s (hs ! j))" using assms(2,3) ws by (auto simp: in_set_conv_nth)
  have len: "length (ct_lis s) = length hs" using lis(1) by simp
  note exchange = exchange_fails [OF ws len j]
  have "c \<in> right_controls s (ct_lis s ! i) i" using right [rule_format, OF i(1)] assms(5) i(2) by auto
  then consider (up) "c = Up (Some (ct_lis s ! i)) i" "0 < i" | (down) "c = Down (Some (ct_lis s ! i)) i" "i + 1 < length hs"
    using assms(6) ws by (auto simp: right_controls_def)
  then show ?thesis
  proof cases
    case up
    then obtain m where m: "i = m + 1" by (cases i) auto
    then show ?thesis
      using up lis_up [OF lis(2), of m] swap_widgets_up [of i hs] ws i(1) len exchange [of m] by (simp add: moveUp_def)
  next
    case down
    then show ?thesis
      using lis_down [OF lis(2), of i] lis_up(2) [OF lis(2), of i] swap_widgets_down [of i hs] ws len exchange [of i]
      by (simp add: moveDown_def)
  qed
qed

text \<open>
  A child removed while a widget below it is still loading: its list item is gone and the widget
  counts as modified, but its removal throws, so that the array, and what is saved, keep the child.
\<close>

lemma removed_while_loading_below:
  assumes "content_run (content_of titled t k xs) s" "Some h \<in> set (ct_childWidgets s)" "Remove li i \<in> set (c_shown (ct_children s h))"
    and "\<not> c_whole (ct_children s h)"
  shows "\<exists>s'. perform (Remove li i) s = (Inl TypeError, s') \<and> c_li (ct_children s h) \<notin> set (ct_lis s') \<and>
    child_list s' = child_list s \<and> Some h \<in> set (ct_childWidgets s') \<and> ct_modified s'"
proof -
  have "in_step s" using run_in_step [OF assms(1)] content_of_in_step by blast
  then obtain hs where ws: "ct_childWidgets s = map Some hs" and lis: "ct_lis s = map (\<lambda>h. c_li (ct_children s h)) hs" "distinct (ct_lis s)"
    and right: "\<forall>i<length hs. set (c_shown (ct_children s (hs ! i))) \<subseteq> right_controls s (ct_lis s ! i) i"
    unfolding in_step_def by auto
  obtain j where j: "j < length hs" "hs ! j = h" using assms(2) ws by (auto simp: in_set_conv_nth)
  have "Remove li i \<in> right_controls s (ct_lis s ! j) j" using right [rule_format, OF j(1)] assms(3) j(2) by auto
  then have c: "li = Some (c_li (ct_children s h))" "i = j" using lis(1) j by (auto simp: right_controls_def)
  have "c_li (ct_children s h) \<in> set (ct_lis s)" using assms(2) ws lis(1) by auto
  then show ?thesis
    using c j ws lis(2) assms(4)
    by (auto simp: removeChild_def remove_start_def remove_child_widget_def modifiedTrue_def modify_def then_step_def bind_step_def
        ready_child_def arr_get_map child_list_def)
qed

text \<open>The run in which both children of the example are created and loaded, and their controls.\<close>

definition shown_children :: content where
  "shown_children = child_created 1 (child_created 0 two_children)"

definition loaded_children :: content where
  "loaded_children = child_settled 1 True (child_settled 0 True (child_loaded 1 (child_loaded 0 shown_children)))"

lemma two_children_simps:
  "ct_childWidgets two_children = [Some 0, Some 1]" "\<not> c_ready (ct_children two_children 0)" "\<not> c_ready (ct_children two_children 1)"
  "c_provided (ct_children two_children 0) = [Down (Some 0) 0, Remove (Some 0) 0]" "ct_modified two_children = False"
  by (simp_all add: two_children_def content_of_def addChild_def modify_def then_step_def bind_step_def ret_def
      arr_set_def Let_def getControlFunctions_def)

lemma shown_children_run: "content_run two_children shown_children"
  unfolding shown_children_def
  by (intro content_run.start content_run.created) (simp_all add: two_children_simps child_created_def del: One_nat_def)

lemma loaded_children_run: "content_run two_children loaded_children"
  unfolding loaded_children_def by (intro shown_children_run content_run.loaded content_run.settled)

lemma loaded_children_simps:
  "ct_childWidgets loaded_children = [Some 0, Some 1]" "Down (Some 0) 0 \<in> set (c_shown (ct_children loaded_children 0))"
  "child_list loaded_children = child_list two_children" "all_ready loaded_children"
  "Remove (Some 0) 0 \<in> set (c_shown (ct_children loaded_children 0))" "ct_symbol loaded_children = RDFSymbol ''http://h/p''"
  using two_children_simps two_children_eq(1)
  by (simp_all add: loaded_children_def shown_children_def child_settled_def child_loaded_def child_created_def child_list_def all_ready_def)

theorem controls_edit_children_witness:
  "\<exists>s'. perform (Down (Some 0) 0) loaded_children = (Inr (), s') \<and>
     child_list s' = [Some (RDFSymbol ''http://h/b''), Some (RDFSymbol ''http://h/a'')] \<and> ct_modified s'"
proof -
  have "\<exists>s'. perform (Down (Some 0) 0) loaded_children = (Inr (), s') \<and>
      child_list s' = edit (Down (Some 0) 0) (child_list loaded_children) \<and> in_step s' \<and> all_ready s' \<and> ct_modified s'"
    by (rule controls_edit_children [OF loaded_children_run [unfolded two_children_def], of 0])
      (simp_all add: loaded_children_simps)
  then show ?thesis by (auto simp: loaded_children_simps two_children_eq swapped_def)
qed

lemma moved_while_loading_witness:
  "\<exists>s'. perform (Down (Some 0) 0) (child_loaded 0 shown_children) = (Inl TypeError, s') \<and>
     child_list s' = [Some (RDFSymbol ''http://h/b''), Some (RDFSymbol ''http://h/a'')] \<and> \<not> ct_modified s'"
proof -
  let ?s = "child_loaded 0 shown_children"
  have run: "content_run two_children ?s" by (intro shown_children_run content_run.loaded)
  have s: "ct_childWidgets ?s = [Some 0, Some 1]" "Down (Some 0) 0 \<in> set (c_shown (ct_children ?s 0))" "child_list ?s = child_list two_children"
    "\<not> c_ready (ct_children ?s 1)" "ct_modified ?s = False"
    using two_children_simps by (simp_all add: shown_children_def child_loaded_def child_created_def child_list_def)
  have "\<exists>s'. perform (Down (Some 0) 0) ?s = (Inl TypeError, s') \<and> child_list s' = edit (Down (Some 0) 0) (child_list ?s) \<and>
      ct_modified s' = ct_modified ?s"
    by (rule moved_while_loading [OF run [unfolded two_children_def], of 1 0]) (simp_all add: s del: One_nat_def)
  then show ?thesis by (auto simp: s two_children_eq swapped_def)
qed

lemma removed_while_loading_below_witness:
  "\<exists>s'. perform (Remove (Some 0) 0) (child_loaded 1 (child_loaded 0 shown_children)) = (Inl TypeError, s') \<and>
     0 \<notin> set (ct_lis s') \<and> Some 0 \<in> set (ct_childWidgets s')"
proof -
  let ?s = "child_loaded 1 (child_loaded 0 shown_children)"
  have run: "content_run two_children ?s" by (intro shown_children_run content_run.loaded)
  have s: "ct_childWidgets ?s = [Some 0, Some 1]" "Remove (Some 0) 0 \<in> set (c_shown (ct_children ?s 0))"
    using two_children_simps by (simp_all add: shown_children_def child_loaded_def child_created_def)
  moreover have "\<not> c_whole (ct_children ?s 0)" "c_li (ct_children ?s 0) = 0"
    by (simp_all add: shown_children_def child_loaded_def child_created_def two_children_def content_of_def
        addChild_def modify_def then_step_def bind_step_def ret_def arr_set_def Let_def)
  ultimately show ?thesis
    using removed_while_loading_below [OF run [unfolded two_children_def], of 0 "Some 0" 0] by auto
qed

text \<open>Adding a child after removing one that is not the last: the name of the new child is made
  from the number of the children, and is the name of a child that is there.\<close>

lemma added_name_taken:
  assumes "content_run (content_of titled t k xs) s" "all_ready s" "ct_symbol s = RDFSymbol u"
    and "child_list s = map (\<lambda>j. Some (RDFSymbol (child_uri u j))) [0..<n]"
    and "Some h \<in> set (ct_childWidgets s)" "Remove li i \<in> set (c_shown (ct_children s h))" "i + 1 < n"
  shows "\<exists>s1 s2. perform (Remove li i) s = (Inr (), s1) \<and> addControl s1 = (Inr (), s2) \<and>
    child_list s2 = child_list s1 @ [Some (RDFSymbol (child_uri u (n - 1)))] \<and> Some (RDFSymbol (child_uri u (n - 1))) \<in> set (child_list s1)"
proof -
  have "in_step s" using run_in_step [OF assms(1)] content_of_in_step by blast
  moreover obtain j where "j < length (ct_childWidgets s)" "ct_childWidgets s ! j = Some h"
    using assms(5) by (auto simp: in_set_conv_nth)
  ultimately have "performed (Remove li i) s" using perform_in_step [OF _ assms(2)] assms(6) by blast
  then obtain s1 where s1: "perform (Remove li i) s = (Inr (), s1)" "in_step s1" "ct_symbol s1 = RDFSymbol u"
      "child_list s1 = take i (child_list s) @ drop (i + 1) (child_list s)"
    using assms(3) by (auto simp: performed_def)
  obtain hs where hs: "ct_childWidgets s1 = map Some hs" "\<forall>h\<in>set hs. h < ct_next s1" using s1(2) unfolding in_step_def by auto
  have "length (child_list s1) = n - 1" using s1(4) assms(4,7) by simp
  then have len: "length hs = n - 1" using hs(1) by (simp add: child_list_def)
  obtain s2 where s2: "addControl s1 = (Inr (), s2)" "child_list s2 = child_list s1 @ [Some (RDFSymbol (child_uri u (n - 1)))]"
    using s1(3) hs len
    by (force simp: addControl_def addChild_def then_step_def bind_step_def modify_def modifiedTrue_def arr_set_def Let_def
        child_list_def)
  obtain m where m: "n = i + 2 + m" using assms(7) less_iff_Suc_add by auto
  have "length (child_list s) = n" using assms(4) by simp
  then have "drop (i + 1) (child_list s) ! m = child_list s ! (n - 1)" "m < length (drop (i + 1) (child_list s))"
    using m by (simp_all add: add.commute)
  then have "child_list s ! (n - 1) \<in> set (drop (i + 1) (child_list s))" by (metis nth_mem)
  then have "Some (RDFSymbol (child_uri u (n - 1))) \<in> set (child_list s1)" using s1(4) assms(4,7) by simp
  then show ?thesis using s1(1) s2 by blast
qed

definition named_children :: content where
  "named_children = content_of False (RDFSymbol ''u'') page_store [Some (RDFSymbol ''u-el/0''), Some (RDFSymbol ''u-el/1'')]"

definition named_loaded :: content where
  "named_loaded = child_settled 1 True (child_settled 0 True (child_loaded 1 (child_loaded 0 (child_created 1 (child_created 0 named_children)))))"

lemma named_children_simps:
  "ct_childWidgets named_children = [Some 0, Some 1]" "\<not> c_ready (ct_children named_children 0)" "\<not> c_ready (ct_children named_children 1)"
  "c_provided (ct_children named_children 0) = [Down (Some 0) 0, Remove (Some 0) 0]" "ct_symbol named_children = RDFSymbol ''u''"
  "child_list named_children = [Some (RDFSymbol ''u-el/0''), Some (RDFSymbol ''u-el/1'')]"
  by (simp_all add: named_children_def content_of_def addChild_def modify_def then_step_def bind_step_def ret_def
      arr_set_def Let_def getControlFunctions_def child_list_def)

lemma added_name_taken_witness:
  "\<exists>s1 s2. perform (Remove (Some 0) 0) named_loaded = (Inr (), s1) \<and> addControl s1 = (Inr (), s2) \<and>
     child_list s2 = [Some (RDFSymbol ''u-el/1''), Some (RDFSymbol ''u-el/1'')]"
proof -
  have run: "content_run named_children named_loaded"
    unfolding named_loaded_def
    by (intro content_run.settled content_run.loaded content_run.created content_run.start)
      (simp_all add: named_children_simps child_created_def del: One_nat_def)
  have s: "ct_childWidgets named_loaded = [Some 0, Some 1]" "Remove (Some 0) 0 \<in> set (c_shown (ct_children named_loaded 0))"
    "all_ready named_loaded" "ct_symbol named_loaded = RDFSymbol ''u''" "child_list named_loaded = child_list named_children"
    using named_children_simps
    by (simp_all add: named_loaded_def child_settled_def child_loaded_def child_created_def child_list_def all_ready_def)
  have names: "child_list named_loaded = map (\<lambda>j. Some (RDFSymbol (child_uri ''u'' j))) [0..<2]"
    unfolding s named_children_simps by code_simp
  have one: "child_uri ''u'' (2 - 1) = ''u-el/1''" by code_simp
  obtain s1 s2 where r: "perform (Remove (Some 0) 0) named_loaded = (Inr (), s1)" "addControl s1 = (Inr (), s2)"
    "child_list s2 = child_list s1 @ [Some (RDFSymbol (child_uri ''u'' (2 - 1)))]"
    using added_name_taken [OF run [unfolded named_children_def] s(3,4) names, of 0 "Some 0" 0] s(1,2) by auto
  have "\<exists>s'. perform (Remove (Some 0) 0) named_loaded = (Inr (), s') \<and>
      child_list s' = edit (Remove (Some 0) 0) (child_list named_loaded)"
    using perform_in_step [of named_loaded 0 0 "Remove (Some 0) 0"] run_in_step [OF run] content_of_in_step s
    by (auto simp: performed_def named_children_def)
  then have "child_list s1 = [Some (RDFSymbol ''u-el/1'')]" using r(1) s(5) by (simp add: named_children_simps)
  then show ?thesis using r one by auto
qed

text \<open>
  A child that is reloaded is created again, with the controls it was given first. After a move they
  stand for the position of another child: \<open>REMOVE\<close> takes the list item of the one and the widget of
  the other.
\<close>

lemma reload_removes_other:
  "\<exists>s1 s2. perform (Down (Some 0) 0) loaded_children = (Inr (), s1) \<and> Remove (Some 0) 0 \<in> set (c_shown (ct_children (child_created 0 s1) 0)) \<and>
     perform (Remove (Some 0) 0) (child_created 0 s1) = (Inr (), s2) \<and>
     child_list s2 = [Some (RDFSymbol ''http://h/a'')] \<and> ct_childWidgets s2 = [Some 0] \<and> c_li (ct_children s2 0) = 0 \<and> ct_lis s2 = [1]"
proof -
  have s: "ct_lis loaded_children = [0, 1]" "\<And>h. c_ready (ct_children loaded_children h) = (h < 2)"
    "\<And>h. c_whole (ct_children loaded_children h) = (h < 2)"
    "c_symbol (ct_children loaded_children 0) = Some (RDFSymbol ''http://h/a'')" "c_li (ct_children loaded_children 0) = 0"
    "c_provided (ct_children loaded_children 0) = [Down (Some 0) 0, Remove (Some 0) 0]"
    by (simp_all add: loaded_children_def shown_children_def child_settled_def child_loaded_def child_created_def two_children_def content_of_def
        addChild_def modify_def then_step_def bind_step_def ret_def arr_set_def Let_def getControlFunctions_def)
  show ?thesis
    using s loaded_children_simps(1)
    by (simp add: moveDown_def removeChild_def remove_start_def remove_child_widget_def remove_finish_def nextSibling_def insertBefore_def swap_widgets_def arr_get_def arr_set_def refill_all_def
        then_step_def bind_step_def ret_def modify_def modifiedTrue_def ready_child_def child_created_def child_list_def)
qed

end
