(* ===== verification/ContentSaving.thy ===== *)
theory ContentSaving
  imports OrderedContent
begin

text \<open>
  What a widget with children saves is what it loads: the store of \<open>getStore\<close> holds the entries of the
  children and the old statements about the widget, and reading its children gives the array back.
\<close>

section \<open>What is saved is loaded\<close>

text \<open>Stores in which no term has been equated, no action added and no triple is held twice.\<close>

definition plain_store :: "(string \<Rightarrow> bool) \<Rightarrow> int set \<Rightarrow> kb \<Rightarrow> bool" where
  "plain_store tv C k \<longleftrightarrow> wf_kb (ok_term tv C) k \<and> no_dups k \<and> redirection k = Map.empty \<and>
     propertyAction k = propertyAction (new_indexed_formula 0 Map.empty) \<and> classAction k = classAction (new_indexed_formula 0 Map.empty)"

text \<open>Statements that start no action of the store.\<close>

definition quiet :: "rdf_term \<Rightarrow> rdf_term \<Rightarrow> bool" where
  "quiet p x \<longleftrightarrow> toNT p \<noteq> ''<http://www.w3.org/2002/07/owl#sameAs>'' \<and> toNT p \<noteq> ''<http://www.w3.org/2006/link#obsoletes>'' \<and>
     (p = rdf_type_term \<longrightarrow> toNT x \<noteq> ''<'' @ owl_ns @ ''InverseFunctionalProperty>'' \<and> toNT x \<noteq> ''<'' @ owl_ns @ ''FunctionalProperty>'')"

lemma plain_canon [simp]: "plain_store tv C k \<Longrightarrow> canon k t = t"
  by (simp add: plain_store_def canon_def)

lemma plain_flat: "plain_store tv C k \<Longrightarrow> flat k"
  by (simp add: plain_store_def flat_def)

lemma plain_new: "plain_store tv C (new_indexed_formula n cs)"
  by (simp add: plain_store_def wf_new) (simp add: no_dups_def new_indexed_formula_def)

definition stmts :: "kb \<Rightarrow> rdf_statement set" where
  "stmts k = heap k ` set (statements k)"

lemma stmts_new [simp]: "stmts (new_indexed_formula n cs) = {}"
  by (simp add: stmts_def new_indexed_formula_def)

lemma triples_stmts: "triples k = nt_of ` stmts k"
  by (simp add: triples_def stmts_def image_image)

lemma plain_next_id: "triples (k\<lparr>next_id := i\<rparr>) = triples k" "plain_store tv C k \<Longrightarrow> plain_store tv C (k\<lparr>next_id := i\<rparr>)"
  by (simp_all add: plain_store_def no_dups_def wf_kb_def triples_def)

lemma put_plain:
  assumes k: "plain_store tv C k" and o: "ok_term tv C s" "ok_term tv C p" "ok_term tv C x" and q: "quiet p x"
  shows "\<exists>k'. put s p (Some x) k = (Inr (), k') \<and> plain_store tv C k' \<and> next_id k' = next_id k \<and>
    triples k' = insert (toNT s, toNT p, toNT x) (triples k) \<and>
    stmts k' \<subseteq> insert \<lparr>st_subject = s, st_predicate = p, st_object = x, st_why = None\<rparr> (stmts k)"
proof -
  have wf: "wf_kb (ok_term tv C) k" using k by (simp add: plain_store_def)
  let ?ins = "insert_statement s p x None (toNT s) (toNT p) (toNT x) k"
  have act: "(case propertyAction k (toNT p) of Some action \<Rightarrow> run_property_action action s p x | None \<Rightarrow> ret False) k = (Inr False, k)"
  proof (cases "toNT p = ''<http://www.w3.org/1999/02/22-rdf-syntax-ns#type>''")
    case True
    then have "p = rdf_type_term" using o(2) by (cases p) (auto simp: rdf_type_term_def symbol_toNT_def literal_toNT_eq node_toNT_def)
    then have "classAction k (toNT x) = None" using q k by (simp add: quiet_def plain_store_def new_indexed_formula_def)
    moreover have "propertyAction k (toNT p) = Some Handle_type" using True k by (simp add: plain_store_def new_indexed_formula_def)
    ultimately show ?thesis using o(3) by (simp add: handleRDFType_def ret_def)
  next
    case False
    then have "propertyAction k (toNT p) = None" using q k by (simp add: quiet_def plain_store_def new_indexed_formula_def)
    then show ?thesis by (simp add: ret_def)
  qed
  have add: "put s p (Some x) k = (Inr (), if (toNT s, toNT p, toNT x) \<in> triples k then k else ?ins)"
    using terms.kb_add_start [OF wf plain_flat [OF k] o, of None, unfolded plain_canon [OF k]] act
    by (simp add: put_def bind_step_def modify_def ret_def)
  show ?thesis
  proof (cases "(toNT s, toNT p, toNT x) \<in> triples k")
    case True
    then show ?thesis using add k by (simp add: insert_absorb subset_insertI)
  next
    case False
    have "wf_kb (ok_term tv C) ?ins" by (rule wf_insert [OF wf o]) simp
    moreover have "no_dups ?ins" using no_dups_insert [OF wf _ False] k by (simp add: plain_store_def)
    ultimately have "plain_store tv C ?ins" using k by (simp add: plain_store_def)
    moreover have "next_id ?ins = next_id k" by (simp add: insert_statement_def Let_def)
    moreover have "next_addr k \<notin> set (statements k)" using wf_next_addr [OF wf] .
    then have "stmts ?ins \<subseteq> insert \<lparr>st_subject = s, st_predicate = p, st_object = x, st_why = None\<rparr> (stmts k)"
      by (auto simp: stmts_def insert_statement_def Let_def)
    ultimately show ?thesis using add False triples_insert [OF wf] by simp
  qed
qed

lemma disco_simps [simp]: "disco a = disco b \<longleftrightarrow> a = b" "disco a \<noteq> rdf_type_term" "ok_term ty C (disco a)" "ok_term ty C rdf_type_term"
  "toNT (disco a) = toNT (disco b) \<longleftrightarrow> a = b" "toNT (disco a) \<noteq> toNT rdf_type_term" "toNT rdf_type_term \<noteq> toNT (disco a)"
  by (auto simp: disco_def rdf_type_term_def symbol_toNT_def)

lemma quiet_disco: "quiet (disco a) x" "quiet rdf_type_term (disco a)"
  by (simp_all add: quiet_def disco_def rdf_type_term_def symbol_toNT_def owl_ns_def)

text \<open>The triples of the entry \<open>i\<close>, whose blank node is \<open>b\<close>.\<close>

definition entry_triples :: "rdf_term \<Rightarrow> rdf_term \<Rightarrow> int \<Rightarrow> nat \<Rightarrow> nt_triple set" where
  "entry_triples t x b i =
     {(node_toNT b, toNT rdf_type_term, toNT (disco ''Entry'')), (node_toNT b, toNT (disco ''pos''), literal_toNT (nat_str i) None None),
      (node_toNT b, toNT (disco ''holds''), toNT x), (toNT t, toNT (disco ''contains''), node_toNT b)}"

lemma put_then:
  assumes "plain_store tv C k" "ok_term tv C s" "ok_term tv C p" "ok_term tv C x" "quiet p x"
    and "\<And>k'. plain_store tv C k' \<Longrightarrow> next_id k' = next_id k \<Longrightarrow> triples k' = insert (toNT s, toNT p, toNT x) (triples k) \<Longrightarrow>
      stmts k' \<subseteq> insert \<lparr>st_subject = s, st_predicate = p, st_object = x, st_why = None\<rparr> (stmts k) \<Longrightarrow>
      \<exists>k''. m k' = (Inr (), k'') \<and> P k''"
  shows "\<exists>k''. then_step (put s p (Some x)) m k = (Inr (), k'') \<and> P k''"
  using put_plain [OF assms(1-5)] assms(6) by (fastforce simp: then_step_def bind_step_def)

lemma store_entries_plain:
  "plain_store tv C k \<Longrightarrow> ok_term tv C t \<Longrightarrow> \<forall>x\<in>set xs. ok_term tv C x \<Longrightarrow> \<forall>b\<ge>next_id k. b \<notin> C \<Longrightarrow>
    \<forall>j\<in>{i..<i + length xs}. tv (nat_str j) \<Longrightarrow>
    \<exists>k'. store_entries t (map Some xs) i k = (Inr (), k') \<and> plain_store tv C k' \<and>
      triples k' = triples k \<union> (\<Union>j<length xs. entry_triples t (xs ! j) (next_id k + int j) (i + j))"
proof (induction xs arbitrary: k i)
  case Nil
  then show ?case by (simp add: ret_def)
next
  case (Cons x xs)
  let ?b = "RDFBlankNode (next_id k)" and ?k = "k\<lparr>next_id := next_id k + 1\<rparr>"
  have b: "ok_term tv C ?b" using Cons.prems(4) by simp
  have x: "ok_term tv C x" "tv (nat_str i)" using Cons.prems(3,5) by simp_all
  have k: "plain_store tv C ?k" using plain_next_id(2) [OF Cons.prems(1)] .
  have union: "(\<Union>j<length (x # xs). entry_triples t ((x # xs) ! j) (next_id k + int j) (i + j)) =
      entry_triples t x (next_id k) i \<union> (\<Union>j<length xs. entry_triples t (xs ! j) (next_id k + 1 + int j) (i + 1 + j))"
    by (simp add: lessThan_Suc_eq_insert_0 algebra_simps)
  have "\<exists>k'. then_step (put ?b rdf_type_term (Some (disco ''Entry'')))
      (then_step (put ?b (disco ''pos'') (Some (RDFLiteral (nat_str i) None None None)))
        (then_step (put ?b (disco ''holds'') (Some x)) (then_step (put t (disco ''contains'') (Some ?b)) (store_entries t (map Some xs) (i + 1))))) ?k =
      (Inr (), k') \<and> (plain_store tv C k' \<and> triples k' = triples k \<union> (\<Union>j<length (x # xs). entry_triples t ((x # xs) ! j) (next_id k + int j) (i + j)))"
  proof (intro put_then quiet_disco b x k disco_simps(3,4) Cons.prems(2))
    fix k1 k2 k3 k4
    assume 1: "plain_store tv C k1" "next_id k1 = next_id ?k" "triples k1 = insert (toNT ?b, toNT rdf_type_term, toNT (disco ''Entry'')) (triples ?k)"
      and 2: "plain_store tv C k2" "next_id k2 = next_id k1" "triples k2 = insert (toNT ?b, toNT (disco ''pos''), toNT (RDFLiteral (nat_str i) None None None)) (triples k1)"
      and 3: "plain_store tv C k3" "next_id k3 = next_id k2" "triples k3 = insert (toNT ?b, toNT (disco ''holds''), toNT x) (triples k2)"
      and 4: "plain_store tv C k4" "next_id k4 = next_id k3" "triples k4 = insert (toNT t, toNT (disco ''contains''), toNT ?b) (triples k3)"
    have "next_id k4 = next_id k + 1" using 1 2 3 4 by simp
    moreover have "triples k4 = triples k \<union> entry_triples t x (next_id k) i"
      using 1 2 3 4 plain_next_id(1) by (auto simp: entry_triples_def)
    moreover obtain k' where "store_entries t (map Some xs) (i + 1) k4 = (Inr (), k')" "plain_store tv C k'"
        "triples k' = triples k4 \<union> (\<Union>j<length xs. entry_triples t (xs ! j) (next_id k4 + int j) (i + 1 + j))"
      using Cons.IH [OF 4(1) Cons.prems(2), of "i + 1"] Cons.prems(3-5) calculation(1) by auto
    ultimately show "\<exists>k''. store_entries t (map Some xs) (i + 1) k4 = (Inr (), k'') \<and> (plain_store tv C k'' \<and>
        triples k'' = triples k \<union> (\<Union>j<length (x # xs). entry_triples t ((x # xs) ! j) (next_id k + int j) (i + j)))"
      unfolding union by (intro exI [of _ k']) auto
  qed (use b x k Cons.prems(2) in simp_all)
  then show ?case by (simp add: new_bnode_def bind_step_def)
qed

definition copied :: "rdf_term \<Rightarrow> string \<Rightarrow> rdf_statement \<Rightarrow> bool" where
  "copied t skip st \<longleftrightarrow> prop_uri (st_subject st) = prop_uri t \<and> prop_uri (st_predicate st) \<noteq> Some skip"

lemma copy_statements_plain:
  "plain_store tv C k \<Longrightarrow> \<forall>st\<in>set sts. copied t skip st \<longrightarrow> stmt_ok (ok_term tv C) st \<and> quiet (st_predicate st) (st_object st) \<Longrightarrow>
    \<exists>k'. copy_statements t skip sts k = (Inr (), k') \<and> plain_store tv C k' \<and> triples k' = triples k \<union> nt_of ` {st \<in> set sts. copied t skip st} \<and>
      (\<forall>st'\<in>stmts k'. st' \<in> stmts k \<or> (\<exists>st\<in>set sts. copied t skip st \<and> st_predicate st' = st_predicate st))"
proof (induction sts arbitrary: k)
  case Nil
  then show ?case by (simp add: ret_def)
next
  case (Cons st sts)
  show ?case
  proof (cases "copied t skip st")
    case True
    have "\<exists>k'. then_step (put (st_subject st) (st_predicate st) (Some (st_object st))) (copy_statements t skip sts) k = (Inr (), k') \<and>
        (plain_store tv C k' \<and> triples k' = triples k \<union> nt_of ` {st' \<in> set (st # sts). copied t skip st'} \<and>
        (\<forall>st'\<in>stmts k'. st' \<in> stmts k \<or> (\<exists>st''\<in>set (st # sts). copied t skip st'' \<and> st_predicate st' = st_predicate st'')))"
    proof (rule put_then [OF Cons.prems(1)])
      fix k1 assume k1: "plain_store tv C k1" "triples k1 = insert (toNT (st_subject st), toNT (st_predicate st), toNT (st_object st)) (triples k)"
        "stmts k1 \<subseteq> insert \<lparr>st_subject = st_subject st, st_predicate = st_predicate st, st_object = st_object st, st_why = None\<rparr> (stmts k)"
      obtain k' where k': "copy_statements t skip sts k1 = (Inr (), k')" "plain_store tv C k'"
          "triples k' = triples k1 \<union> nt_of ` {st' \<in> set sts. copied t skip st'}"
          "\<forall>st'\<in>stmts k'. st' \<in> stmts k1 \<or> (\<exists>st\<in>set sts. copied t skip st \<and> st_predicate st' = st_predicate st)"
        using Cons.IH [OF k1(1)] Cons.prems(2) by auto
      have "triples k' = triples k \<union> nt_of ` {st' \<in> set (st # sts). copied t skip st'}"
        using k'(3) k1(2) True by (auto simp: nt_of_def)
      moreover have "\<forall>st'\<in>stmts k'. st' \<in> stmts k \<or> (\<exists>st''\<in>set (st # sts). copied t skip st'' \<and> st_predicate st' = st_predicate st'')"
        using k'(4) k1(3) True by fastforce
      ultimately show "\<exists>k'. copy_statements t skip sts k1 = (Inr (), k') \<and>
          (plain_store tv C k' \<and> triples k' = triples k \<union> nt_of ` {st' \<in> set (st # sts). copied t skip st'} \<and>
          (\<forall>st'\<in>stmts k'. st' \<in> stmts k \<or> (\<exists>st''\<in>set (st # sts). copied t skip st'' \<and> st_predicate st' = st_predicate st'')))"
        using k'(1,2) by (intro exI [of _ k']) simp
    qed (use Cons.prems(2) True in \<open>auto simp: stmt_ok_def\<close>)
    then show ?thesis using True by (simp add: copied_def)
  next
    case False
    then have "{st' \<in> set (st # sts). copied t skip st'} = {st' \<in> set sts. copied t skip st'}" by auto
    moreover have "copy_statements t skip (st # sts) k = copy_statements t skip sts k"
      using False by (auto simp: copied_def then_step_def)
    moreover obtain k' where "copy_statements t skip sts k = (Inr (), k')" "plain_store tv C k'"
        "triples k' = triples k \<union> nt_of ` {st' \<in> set sts. copied t skip st'}"
        "\<forall>st'\<in>stmts k'. st' \<in> stmts k \<or> (\<exists>st\<in>set sts. copied t skip st \<and> st_predicate st' = st_predicate st)"
      using Cons.IH [OF Cons.prems(1)] Cons.prems(2) by auto
    ultimately show ?thesis by (intro exI [of _ k']) auto
  qed
qed

text \<open>A lookup in such a store depends on its triples only.\<close>

lemma objects_of_plain:
  assumes "plain_store tv C k" "ok_term tv C t" "ok_term tv C p"
  shows "\<exists>xs. objects_of t p k = Inr xs \<and> toNT ` set xs = {x. (toNT t, toNT p, x) \<in> triples k} \<and> (\<forall>x\<in>set xs. ok_term tv C x) \<and>
    distinct (map toNT xs)"
proof -
  have wf: "wf_kb (ok_term tv C) k" using assms(1) by (simp add: plain_store_def)
  obtain arr where arr: "statementsMatching (VTerm t) (VTerm p) VUndefined VUndefined False k = (Inr arr, k)"
      "found k (stmt_pat (hop2 k (Some t)) (hop2 k (Some p)) (hop2 k None) (map_option (canon k) None)) False arr"
    using terms.statementsMatching_found [OF wf, of "Some t" "Some p" None None False] assms(2,3) by auto
  then have set: "set (arr_elems k arr) = {a \<in> set (statements k). toNT (st_subject (heap k a)) = toNT t \<and> toNT (st_predicate (heap k a)) = toNT p}"
    using plain_canon [OF assms(1)] by (auto simp: found_def hop2_def stmt_pat_def pat_match_def)
  have "toNT ` (\<lambda>a. st_object (heap k a)) ` set (arr_elems k arr) = {x. (toNT t, toNT p, x) \<in> triples k}"
    unfolding set triples_def nt_of_def image_image by (auto simp: image_def) (metis (lifting))
  moreover have "ok_term tv C (st_object (heap k a))" if "a \<in> set (arr_elems k arr)" for a
    using that wf unfolding set by (auto simp: wf_kb_def stmt_ok_def)
  ultimately have objects: "toNT ` (\<lambda>a. st_object (heap k a)) ` set (arr_elems k arr) = {x. (toNT t, toNT p, x) \<in> triples k} \<and>
      (\<forall>a\<in>set (arr_elems k arr). ok_term tv C (st_object (heap k a)))"
    by blast
  have "distinct (arr_elems k arr)" using arr(2) by (simp add: found_def)
  moreover have "inj_on (\<lambda>a. toNT (st_object (heap k a))) (set (arr_elems k arr))"
    using assms(1) unfolding set by (auto simp: plain_store_def no_dups_def inj_on_def nt_of_def)
  ultimately have "distinct (map toNT (map (\<lambda>a. st_object (heap k a)) (arr_elems k arr)))"
    by (simp only: map_map comp_def distinct_map)
  then show ?thesis using arr(1) objects by (simp add: objects_of_def image_image del: map_map)
qed

text \<open>The children while the entries of the positions in \<open>J\<close> have been read.\<close>

definition placed :: "string list \<Rightarrow> nat set \<Rightarrow> rdf_term option list \<Rightarrow> bool" where
  "placed us J ch \<longleftrightarrow> length ch \<le> length us \<and> (\<forall>j\<in>J. j < length ch) \<and>
     (\<forall>i<length ch. ch ! i = (if i \<in> J then Some (RDFSymbol (us ! i)) else None))"

lemma placed_set: "placed us J ch \<Longrightarrow> j < length us \<Longrightarrow> placed us (insert j J) (arr_set ch j (Some (RDFSymbol (us ! j))))"
  unfolding placed_def arr_set_def by (auto simp: nth_append nth_list_update)

lemma placed_all:
  assumes "placed us {0..<length us} ch"
  shows "ch = map (Some \<circ> RDFSymbol) us"
proof -
  have "\<not> length ch < length us" using assms by (auto simp: placed_def)
  then have "length ch = length us" using assms by (simp add: placed_def)
  then show ?thesis using assms by (auto simp: placed_def intro: nth_equalityI)
qed

lemma array_index_nat: "i < 4294967295 \<Longrightarrow> array_index (nat_str i) = Some i"
  by (simp add: array_index_def digits_val_nat_str)

text \<open>The triples of a saved widget.\<close>

definition saved :: "string \<Rightarrow> string \<Rightarrow> string list \<Rightarrow> int \<Rightarrow> nt_triple set \<Rightarrow> nt_triple set" where
  "saved u cls us n rest = insert (symbol_toNT u, toNT rdf_type_term, toNT (disco cls))
     ((\<Union>j<length us. entry_triples (RDFSymbol u) (RDFSymbol (us ! j)) (n + int j) j) \<union> rest)"

definition about_other :: "string \<Rightarrow> nt_triple set \<Rightarrow> bool" where
  "about_other u rest \<longleftrightarrow> (\<forall>(s, p, x)\<in>rest. s = symbol_toNT u \<and> p \<noteq> toNT (disco ''contains''))"

lemma saved_lookups:
  assumes "about_other u rest"
  shows "{x. (symbol_toNT u, toNT (disco ''contains''), x) \<in> saved u cls us n rest} = (\<lambda>j. node_toNT (n + int j)) ` {0..<length us}"
    "j < length us \<Longrightarrow> {x. (node_toNT (n + int j), toNT (disco ''pos''), x) \<in> saved u cls us n rest} = {literal_toNT (nat_str j) None None}"
    "j < length us \<Longrightarrow> {x. (node_toNT (n + int j), toNT (disco ''holds''), x) \<in> saved u cls us n rest} = {symbol_toNT (us ! j)}"
  using assms unfolding saved_def entry_triples_def about_other_def
  by (auto simp del: symbol_toNT_inj simp: disco_def rdf_type_term_def symbol_toNT_inj)

lemma ok_node: "ok_term ty C x \<Longrightarrow> toNT x = literal_toNT v None None \<Longrightarrow> term_toString x = v"
proof (cases x)
  case (RDFLiteral w l d g)
  assume "toNT x = literal_toNT v None None"
  then have "literal_toNT w l d = literal_toNT v None None" using RDFLiteral by simp
  then show ?thesis using RDFLiteral literal_toNT_same by simp
qed (auto simp: literal_toNT_eq symbol_toNT_def node_toNT_def)

lemma ok_symbol: "ok_term ty C x \<Longrightarrow> toNT x = symbol_toNT v \<Longrightarrow> x = RDFSymbol v"
  by (cases x) auto

lemma ok_bnode: "ok_term ty C x \<Longrightarrow> toNT x = node_toNT i \<Longrightarrow> i \<notin> C \<Longrightarrow> x = RDFBlankNode i"
  by (cases x) auto

lemma place_entry_saved:
  assumes k: "plain_store tv C k" "triples k = saved u cls us n rest" "about_other u rest" and C: "\<forall>b\<ge>n. b \<notin> C"
    and j: "j < length us" "length us \<le> 4294967295" and ch: "placed us J ch"
  shows "\<exists>ch'. place_entry k (RDFBlankNode (n + int j)) ch = Inr ch' \<and> placed us (insert j J) ch'"
proof -
  have ok: "ok_term tv C (RDFBlankNode (n + int j))" using C by simp
  obtain ps where ps: "objects_of (RDFBlankNode (n + int j)) (disco ''pos'') k = Inr ps"
      "toNT ` set ps = {literal_toNT (nat_str j) None None}" "\<forall>x\<in>set ps. ok_term tv C x"
    using objects_of_plain [OF k(1) ok disco_simps(3), of "''pos''"] saved_lookups(2) [OF k(3) j(1), of n cls]
    unfolding k(2) by auto
  obtain hs where hs: "objects_of (RDFBlankNode (n + int j)) (disco ''holds'') k = Inr hs"
      "toNT ` set hs = {symbol_toNT (us ! j)}" "\<forall>x\<in>set hs. ok_term tv C x"
    using objects_of_plain [OF k(1) ok disco_simps(3), of "''holds''"] saved_lookups(3) [OF k(3) j(1), of n cls]
    unfolding k(2) by auto
  obtain p ps' where p: "ps = p # ps'" "term_toString p = nat_str j"
    using ps(2,3) ok_node by (cases ps) auto
  obtain h hs' where h: "hs = h # hs'" "h = RDFSymbol (us ! j)"
    using hs(2,3) ok_symbol by (cases hs) auto
  have "array_index (nat_str j) = Some j" using j by (intro array_index_nat) simp
  then show ?thesis using ps(1) hs(1) p h placed_set [OF ch j(1)] by (simp add: place_entry_def)
qed

lemma place_entries_saved:
  assumes k: "plain_store tv C k" "triples k = saved u cls us n rest" "about_other u rest" and C: "\<forall>b\<ge>n. b \<notin> C"
    and us: "length us \<le> 4294967295"
  shows "placed us J ch \<Longrightarrow> \<forall>e\<in>set es. \<exists>j<length us. e = RDFBlankNode (n + int j) \<and> j \<in> I \<Longrightarrow>
    \<exists>ch'. place_entries k es ch = Inr ch' \<and> placed us (J \<union> {j. j < length us \<and> RDFBlankNode (n + int j) \<in> set es}) ch'"
proof (induction es arbitrary: J ch)
  case (Cons e es)
  then obtain j where j: "j < length us" "e = RDFBlankNode (n + int j)" by auto
  from place_entry_saved [OF k C j(1) us Cons.prems(1)] obtain ch1 where
    ch1: "place_entry k e ch = Inr ch1" "placed us (insert j J) ch1" using j(2) by blast
  have "J \<union> {i. i < length us \<and> RDFBlankNode (n + int i) \<in> set (e # es)} =
      insert j J \<union> {i. i < length us \<and> RDFBlankNode (n + int i) \<in> set es}" using j by auto
  then show ?case using Cons.IH [OF ch1(2)] Cons.prems(2) ch1(1) by simp
qed simp

lemma load_saved:
  assumes k: "plain_store tv C k" "triples k = saved u cls us n rest" "about_other u rest" and C: "\<forall>b\<ge>n. b \<notin> C"
    and us: "length us \<le> 4294967295"
  shows "load_children (RDFSymbol u) k = Inr (map (Some \<circ> RDFSymbol) us)"
proof -
  obtain es where es: "objects_of (RDFSymbol u) (disco ''contains'') k = Inr es"
      "toNT ` set es = (\<lambda>j. node_toNT (n + int j)) ` {0..<length us}" "\<forall>x\<in>set es. ok_term tv C x"
    using objects_of_plain [OF k(1), of "RDFSymbol u" "disco ''contains''"] saved_lookups(1) [OF k(3), of cls us n]
    unfolding k(2) by auto
  have sub: "\<exists>j<length us. e = RDFBlankNode (n + int j) \<and> j \<in> UNIV" if "e \<in> set es" for e
  proof -
    have "toNT e \<in> (\<lambda>j. node_toNT (n + int j)) ` {0..<length us}" using es(2) that by blast
    then obtain j where "j < length us" "toNT e = node_toNT (n + int j)" by auto
    then show ?thesis using ok_bnode [of tv C e "n + int j"] es(3) C that by auto
  qed
  have "RDFBlankNode (n + int j) \<in> set es" if "j < length us" for j
  proof -
    have "node_toNT (n + int j) \<in> toNT ` set es" using es(2) that by auto
    then obtain e where "e \<in> set es" "toNT e = node_toNT (n + int j)" by auto
    then show ?thesis using ok_bnode [of tv C e "n + int j"] es(3) C by auto
  qed
  then have J: "{} \<union> {j. j < length us \<and> RDFBlankNode (n + int j) \<in> set es} = {0..<length us}" by auto
  have "placed us {} []" by (simp add: placed_def)
  from place_entries_saved [OF k C us this] sub obtain ch where
    "place_entries k es [] = Inr ch" "placed us {0..<length us} ch" unfolding J [symmetric] by blast
  then show ?thesis using es(1) placed_all by (simp add: load_children_def)
qed

definition contains_uri :: string where
  "contains_uri = ''http://discobits.org/ontology#contains''"

text \<open>What \<open>getStore\<close> copies from the original store.\<close>

definition kept :: "rdf_term \<Rightarrow> content \<Rightarrow> rdf_statement set" where
  "kept t s = {st \<in> set (orig_statements s). copied t contains_uri st}"

lemma kept_other:
  assumes "\<forall>st\<in>kept (RDFSymbol u) s. stmt_ok (ok_term tv C) st"
  shows "about_other u (nt_of ` kept (RDFSymbol u) s)"
proof -
  have "toNT (st_subject st) = symbol_toNT u \<and> toNT (st_predicate st) \<noteq> toNT (disco ''contains'')"
    if st: "st \<in> kept (RDFSymbol u) s" for st
  proof -
    have ok: "ok_term tv C (st_subject st)" "ok_term tv C (st_predicate st)"
      and uri: "prop_uri (st_subject st) = Some u" "prop_uri (st_predicate st) \<noteq> Some contains_uri"
      using st assms by (auto simp: stmt_ok_def kept_def copied_def)
    have "st_subject st = RDFSymbol u" using ok(1) uri(1) by (cases "st_subject st") auto
    moreover have "toNT (st_predicate st) \<noteq> symbol_toNT contains_uri"
      using ok_symbol [OF ok(2)] uri(2) by auto
    ultimately show ?thesis by (simp add: disco_def contains_uri_def)
  qed
  then show ?thesis by (auto simp: about_other_def nt_of_def)
qed

lemma getStore_saved:
  assumes s: "ct_symbol s = RDFSymbol u" "child_list s = map (Some \<circ> RDFSymbol) us"
    and C: "\<forall>b\<ge>n. b \<notin> C" and tv: "\<forall>j<length us. tv (nat_str j)"
    and kept: "\<forall>st\<in>kept (RDFSymbol u) s. stmt_ok (ok_term tv C) st \<and> quiet (st_predicate st) (st_object st)"
  shows "\<exists>k. getStore n cs s = Inr k \<and> plain_store tv C k \<and>
    triples k = saved u (if ct_titled s then ''TitledContent'' else ''OrderedContent'') us n (nt_of ` kept (RDFSymbol u) s)"
proof -
  let ?cls = "if ct_titled s then ''TitledContent'' else ''OrderedContent''" and ?new = "new_indexed_formula n cs"
  let ?entries = "store_entries (RDFSymbol u) (map Some (map RDFSymbol us)) 0"
  let ?copy = "copy_statements (RDFSymbol u) contains_uri (orig_statements s)"
  have rest: "\<exists>k. then_step ?entries ?copy k1 = (Inr (), k) \<and> plain_store tv C k \<and>
      triples k = triples k1 \<union> (\<Union>j<length us. entry_triples (RDFSymbol u) (RDFSymbol (us ! j)) (n + int j) j) \<union> nt_of ` kept (RDFSymbol u) s"
    if k1: "plain_store tv C k1" "next_id k1 = n" for k1
  proof -
    obtain k2 where k2: "?entries k1 = (Inr (), k2)" "plain_store tv C k2"
        "triples k2 = triples k1 \<union> (\<Union>j<length us. entry_triples (RDFSymbol u) (map RDFSymbol us ! j) (n + int j) (0 + j))"
      using store_entries_plain [OF k1(1), of "RDFSymbol u" "map RDFSymbol us" 0] C tv k1(2) by auto
    obtain k3 where k3: "?copy k2 = (Inr (), k3)" "plain_store tv C k3" "triples k3 = triples k2 \<union> nt_of ` kept (RDFSymbol u) s"
      using copy_statements_plain [OF k2(2), of "orig_statements s" "RDFSymbol u" contains_uri] kept
      unfolding kept_def by auto
    have "(\<Union>j<length us. entry_triples (RDFSymbol u) (map RDFSymbol us ! j) (n + int j) (0 + j)) =
        (\<Union>j<length us. entry_triples (RDFSymbol u) (RDFSymbol (us ! j)) (n + int j) j)" by auto
    then show ?thesis using k2(1,3) k3 by (intro exI [of _ k3]) (simp add: then_step_def bind_step_def)
  qed
  have "\<exists>k. then_step (put (RDFSymbol u) rdf_type_term (Some (disco ?cls))) (then_step ?entries ?copy) ?new = (Inr (), k) \<and>
      (plain_store tv C k \<and> triples k = saved u ?cls us n (nt_of ` kept (RDFSymbol u) s))"
  proof (rule put_then [OF plain_new])
    fix k1 assume k1: "plain_store tv C k1" "next_id k1 = next_id ?new"
      "triples k1 = insert (toNT (RDFSymbol u), toNT rdf_type_term, toNT (disco ?cls)) (triples ?new)"
    have "next_id k1 = n" using k1(2) by (simp add: new_indexed_formula_def)
    from rest [OF k1(1) this] k1(3)
    show "\<exists>k. then_step ?entries ?copy k1 = (Inr (), k) \<and> (plain_store tv C k \<and> triples k = saved u ?cls us n (nt_of ` kept (RDFSymbol u) s))"
      by (auto simp: saved_def)
  qed (simp_all add: quiet_disco)
  moreover have "map (Some \<circ> RDFSymbol) us = map Some (map RDFSymbol us)" by simp
  ultimately show ?thesis
    using s unfolding getStore_def content_store_def contains_uri_def by (auto simp: comp_def)
qed

section \<open>Properties\<close>

text \<open>
  C9. What a widget with children saves, its own store reads back: the children of the saved
  store are those of the array, in its order, and the statements that the page's store had
  about the widget, but for the old entries, are in it. The conditions: the children have
  URIs and are at most 2^32 - 1, the counter of blank nodes is past the script's
  collections, and the statements kept start no action of the store (\<open>quiet\<close>:
  none equates terms, none declares a functional property) and write their literals by one
  convention per value (\<open>ok_term\<close>: a value is used with the empty language that
  the page's parser gives, or with none, or with types, where the positions are written
  without a language).
\<close>

theorem saved_children_load:
  assumes "ct_symbol s = RDFSymbol u" "child_list s = map (Some \<circ> RDFSymbol) us" "length us \<le> 4294967295"
    and "\<forall>b\<ge>n. b \<notin> C" "\<forall>j<length us. tv (nat_str j)"
    and "\<forall>st\<in>kept (RDFSymbol u) s. stmt_ok (ok_term tv C) st \<and> quiet (st_predicate st) (st_object st)"
  shows "\<exists>k. getStore n cs s = Inr k \<and> load_children (RDFSymbol u) k = Inr (map (Some \<circ> RDFSymbol) us) \<and>
    nt_of ` kept (RDFSymbol u) s \<subseteq> triples k"
proof -
  obtain k where k: "getStore n cs s = Inr k" "plain_store tv C k"
      "triples k = saved u (if ct_titled s then ''TitledContent'' else ''OrderedContent'') us n (nt_of ` kept (RDFSymbol u) s)"
    using getStore_saved [OF assms(1,2,4-6)] by blast
  have "about_other u (nt_of ` kept (RDFSymbol u) s)" using kept_other assms(6) by blast
  from load_saved [OF k(2,3) this assms(4,3)] k show ?thesis by (auto simp: saved_def)
qed

theorem saved_children_load_witness:
  "\<exists>k. getStore 0 Map.empty two_children = Inr k \<and>
     load_children (RDFSymbol ''http://h/p'') k = Inr [Some (RDFSymbol ''http://h/a''), Some (RDFSymbol ''http://h/b'')] \<and>
     (''<http://h/p>'', ''<http://h/title>'', dquote # ''x'' @ [dquote]) \<in> triples k"
proof -
  let ?st = "\<lparr>st_subject = RDFSymbol ''http://h/p'', st_predicate = RDFSymbol ''http://h/title'',
    st_object = RDFLiteral ''x'' None None None, st_why = None\<rparr>"
  have kept: "kept (RDFSymbol ''http://h/p'') two_children = {?st}"
    unfolding kept_def orig_statements_def two_children_eq
    by (auto simp: page_store_def copied_def contains_uri_def)
  have nt: "nt_of ?st = (''<http://h/p>'', ''<http://h/title>'', dquote # ''x'' @ [dquote])"
    by (simp add: nt_of_def symbol_toNT_def literal_toNT_def)
  have ok: "\<forall>st\<in>kept (RDFSymbol ''http://h/p'') two_children. stmt_ok (ok_term (\<lambda>_. True) {}) st \<and> quiet (st_predicate st) (st_object st)"
    unfolding kept by (simp add: stmt_ok_def quiet_def symbol_toNT_def rdf_type_term_def)
  have "\<exists>k. getStore 0 Map.empty two_children = Inr k \<and>
      load_children (RDFSymbol ''http://h/p'') k = Inr (map (Some \<circ> RDFSymbol) [''http://h/a'', ''http://h/b'']) \<and>
      nt_of ` kept (RDFSymbol ''http://h/p'') two_children \<subseteq> triples k"
    by (rule saved_children_load [OF two_children_eq(1,3) _ _ _ ok]) simp_all
  then show ?thesis unfolding kept using nt by auto
qed

end
