(* ===== verification/Widgets.thy ===== *)
theory Widgets
  imports ContentSaving ContentStorage
begin

text \<open>
  \<open>widget-factory.js\<close>, lines 32 to 56, 240 to 330, 339 to 375 and 394 to 503: the widgets of a page. A
  widget is made for a resource from a store, by the type that the store gives the resource; it
  is registered among the open widgets, is modified, saves what it shows, and is removed.
\<close>

section \<open>The types of widgets\<close>

datatype wtype = XHTMLInfoDiscoBitWidget | OrderedContentWidget | TitledContentWidget

definition typeWidgets :: "wtype list" where
  "typeWidgets = [XHTMLInfoDiscoBitWidget, OrderedContentWidget, TitledContentWidget]"

fun type_name :: "wtype \<Rightarrow> string" where
  "type_name XHTMLInfoDiscoBitWidget = ''XHTMLInfoDiscoBit''"
| "type_name OrderedContentWidget = ''OrderedContent''"
| "type_name TitledContentWidget = ''TitledContent''"

definition widget_type :: "wtype \<Rightarrow> rdf_term" where
  "widget_type ty = disco (type_name ty)"

text \<open>The first type of the list that the resource has.\<close>

fun find_type :: "rdf_term \<Rightarrow> wtype list \<Rightarrow> wtype option kb_step" where
  "find_type t [] = ret None"
| "find_type t (ty # tys) = bind_step (hasType t (widget_type ty)) (\<lambda>b. if b then ret (Some ty) else find_type t tys)"

section \<open>The XHTML widget\<close>

definition elementValue :: "rdf_term \<Rightarrow> dom option" where
  "elementValue t = (case t of RDFLiteral v l d e \<Rightarrow> e | _ \<Rightarrow> None)"

text \<open>\<open>appendChildrenInDiv\<close>: the paragraph that becomes the editable area.\<close>

definition editable_area :: "dom list \<Rightarrow> dom" where
  "editable_area cs = Element (Some ''http://www.w3.org/1999/xhtml'') ''p'' ''p'' [] cs"

definition loadData :: "rdf_term \<Rightarrow> dom kb_step" where
  "loadData t = bind_step (anyStatementMatching (VTerm t) (VTerm (disco ''infoBit'')) VUndefined VUndefined) (\<lambda>r k.
     case r of
       None \<Rightarrow> (Inr (editable_area [TextNode ''empty'']), k)
     | Some a \<Rightarrow> (case elementValue (st_object (heap k a)) of
           Some d \<Rightarrow> (Inr (editable_area (children_of d)), k)
         | None \<Rightarrow> (Inl TypeError, k)))"

definition infoBit_uri :: string where
  "infoBit_uri = ''http://discobits.org/ontology#infoBit''"

definition infobit_store :: "(dom \<Rightarrow> string) \<Rightarrow> rdf_term \<Rightarrow> dom \<Rightarrow> rdf_statement list \<Rightarrow> unit kb_step" where
  "infobit_store xml t area sts =
     then_step (put t (disco ''infoBit'') (Some (RDFLiteral (xml area) None None (Some area))))
     (then_step (put t rdf_type_term (Some (widget_type XHTMLInfoDiscoBitWidget))) (copy_statements t infoBit_uri sts))"

section \<open>Opening and saving\<close>

datatype body = Infobit dom | Children content | TypeSelection

text \<open>
  The widget for a resource and a store; the state is the page's own store, to which a new titled
  content adds a statement.
\<close>

definition open_body :: "string \<Rightarrow> kb \<Rightarrow> (kb, body) js_step" where
  "open_body u k =
     bind_step (lift_res (fst (find_type (RDFSymbol u) typeWidgets k))) (\<lambda>ty.
       case ty of
         None \<Rightarrow> ret TypeSelection
       | Some XHTMLInfoDiscoBitWidget \<Rightarrow> lift_res (map_sum id Infobit (fst (loadData (RDFSymbol u) k)))
       | Some OrderedContentWidget \<Rightarrow> lift_res (map_sum id Children (load_content False (RDFSymbol u) k))
       | Some TitledContentWidget \<Rightarrow> bind_step (new_titled (RDFSymbol u) k) (\<lambda>c. ret (Children c)))"

text \<open>
  \<open>getStore\<close>, which a type selection does not have. The original store is read when it is called:
  it may be the page's store, which grows.
\<close>

definition body_store :: "(dom \<Rightarrow> string) \<Rightarrow> int \<Rightarrow> (int \<Rightarrow> rdf_coll option) \<Rightarrow> string \<Rightarrow> kb \<Rightarrow> body \<Rightarrow> kb option js_res" where
  "body_store xml n cs u orig b = (case b of
       TypeSelection \<Rightarrow> Inr None
     | Infobit area \<Rightarrow>
         (case infobit_store xml (RDFSymbol u) area (map (heap orig) (statements orig)) (new_indexed_formula n cs) of
            (r, k) \<Rightarrow> bind_res r (\<lambda>_. Inr (Some k)))
     | Children c \<Rightarrow> map_sum id Some (getStore n cs (c\<lparr>ct_orig := orig\<rparr>)))"

section \<open>The page\<close>

text \<open>
  A widget, the store that it was made from by its address, since the page's store is shared and
  grows, the store that was saved last, and \<open>elementsToAdd\<close>, the children that have not told yet that
  they are there. A widget with children has its mark of modification in its own state.
\<close>

record widget =
  w_uri :: string
  w_body :: body
  w_orig :: nat
  w_modified :: bool
  w_lastSaved :: "kb option"
  w_toAdd :: int

definition modified :: "widget \<Rightarrow> bool" where
  "modified w = (case w_body w of Children c \<Rightarrow> ct_modified c | _ \<Rightarrow> w_modified w)"

text \<open>
  The page: the stores, the one that is the page's, the widgets that have been made, the open ones,
  the timers of those that have no children to wait for, the widgets of the holders of each widget's
  children, the server, and the script's counters.
\<close>

record 'w page =
  pg_stores :: "nat \<Rightarrow> kb"
  pg_next_store :: nat
  pg_current :: nat
  pg_widgets :: "nat \<Rightarrow> widget"
  pg_next :: nat
  pg_open :: "nat list"
  pg_empty :: "nat list"
  pg_child :: "nat \<Rightarrow> nat \<Rightarrow> nat option"
  pg_session :: "'w session"
  pg_id :: int
  pg_colls :: "int \<Rightarrow> rdf_coll option"

type_synonym ('w, 'a) page_step = "('w page, 'a) js_step"

definition page_kb :: "nat \<Rightarrow> 'w page \<Rightarrow> kb" where
  "page_kb i P = (pg_stores P i)\<lparr>next_id := pg_id P, colls := pg_colls P\<rparr>"

definition run_store :: "nat \<Rightarrow> 'a kb_step \<Rightarrow> ('w, 'a) page_step" where
  "run_store i m P = (case m (page_kb i P) of
     (r, k) \<Rightarrow> (r, P\<lparr>pg_stores := (pg_stores P)(i := k), pg_id := next_id k, pg_colls := colls k\<rparr>))"

text \<open>A step that depends on the page it starts from.\<close>

definition with_page :: "('w page \<Rightarrow> ('w, 'a) page_step) \<Rightarrow> ('w, 'a) page_step" where
  "with_page f P = f P P"

definition on_session :: "('w, 'a) web_step \<Rightarrow> ('w, 'a) page_step" where
  "on_session m P = (case m (pg_session P) of (r, s) \<Rightarrow> (r, P\<lparr>pg_session := s\<rparr>))"

definition set_widget :: "nat \<Rightarrow> (widget \<Rightarrow> widget) \<Rightarrow> ('w, unit) page_step" where
  "set_widget w f = modify (\<lambda>P. P\<lparr>pg_widgets := (pg_widgets P)(w := f (pg_widgets P w))\<rparr>)"

text \<open>\<open>modifiedStateChanged\<close>; the link that saves is visible exactly when the widget is modified.\<close>

definition mark :: "bool \<Rightarrow> widget \<Rightarrow> widget" where
  "mark b w = w\<lparr>w_modified := b, w_body := (case w_body w of Children c \<Rightarrow> Children (c\<lparr>ct_modified := b\<rparr>) | x \<Rightarrow> x)\<rparr>"

definition modifiedStateChanged :: "bool \<Rightarrow> nat \<Rightarrow> ('w, unit) page_step" where
  "modifiedStateChanged b w = set_widget w (mark b)"

definition page_store_of :: "(dom \<Rightarrow> string) \<Rightarrow> nat \<Rightarrow> ('w, kb option) page_step" where
  "page_store_of xml w P =
     (let W = pg_widgets P w in
      case body_store xml (pg_id P) (pg_colls P) (w_uri W) (pg_stores P (w_orig W)) (w_body W) of
        Inl e \<Rightarrow> (Inl e, P)
      | Inr None \<Rightarrow> (Inr None, P)
      | Inr (Some k) \<Rightarrow> (Inr (Some k), P\<lparr>pg_id := next_id k, pg_colls := colls k\<rparr>))"

text \<open>
  \<open>afterLoading\<close>, for the resource and the store it is read from. An XHTML widget is open at once, one
  with children waits for them, or, when it has none, for a timer.
\<close>

definition elementsToAdd :: "body \<Rightarrow> int" where
  "elementsToAdd b = (case b of Children c \<Rightarrow> int (length (ct_childWidgets c)) | _ \<Rightarrow> 0)"

definition new_widget :: "string \<Rightarrow> nat \<Rightarrow> body \<Rightarrow> ('w, nat) page_step" where
  "new_widget u i b P = (Inr (pg_next P),
     P\<lparr>pg_widgets := (pg_widgets P)(pg_next P :=
         \<lparr>w_uri = u, w_body = b, w_orig = i, w_modified = False, w_lastSaved = None, w_toAdd = elementsToAdd b\<rparr>),
       pg_open := (case b of Infobit area \<Rightarrow> pg_open P @ [pg_next P] | _ \<Rightarrow> pg_open P),
       pg_empty := (case b of Children c \<Rightarrow> if ct_childWidgets c = [] then pg_empty P @ [pg_next P] else pg_empty P | _ \<Rightarrow> pg_empty P),
       pg_next := pg_next P + 1\<rparr>)"

definition afterLoading :: "(dom \<Rightarrow> string) \<Rightarrow> string \<Rightarrow> nat \<Rightarrow> kb option \<Rightarrow> ('w, nat) page_step" where
  "afterLoading xml u i lastSaved =
     bind_step (with_page (\<lambda>P. run_store (pg_current P) (open_body u (page_kb i P)))) (\<lambda>b.
     bind_step (new_widget u i b) (\<lambda>w.
       case lastSaved of
         Some k \<Rightarrow> then_step (set_widget w (\<lambda>W. W\<lparr>w_lastSaved := Some k\<rparr>)) (then_step (modifiedStateChanged True w) (ret w))
       | None \<Rightarrow> bind_step (page_store_of xml w) (\<lambda>k. then_step (set_widget w (\<lambda>W. W\<lparr>w_lastSaved := k\<rparr>)) (ret w))))"

text \<open>The listener that every child made with the widget calls, and the timer of a widget without children.\<close>

definition subTerminationListener :: "nat \<Rightarrow> ('w, unit) page_step" where
  "subTerminationListener w P =
     (let n = w_toAdd (pg_widgets P w) - 1 in
      (Inr (), P\<lparr>pg_widgets := (pg_widgets P)(w := (pg_widgets P w)\<lparr>w_toAdd := n\<rparr>),
        pg_open := (if n = 0 then pg_open P @ [w] else pg_open P)\<rparr>))"

definition empty_timer :: "nat \<Rightarrow> ('w, unit) page_step" where
  "empty_timer w = modify (\<lambda>P. P\<lparr>pg_empty := remove1 w (pg_empty P), pg_open := pg_open P @ [w]\<rparr>)"

text \<open>\<open>remove\<close>, and \<open>removeChildWidgets\<close>, which throws at a placeholder.\<close>

fun remove_each :: "(nat \<Rightarrow> ('w, unit) page_step) \<Rightarrow> nat option list \<Rightarrow> ('w, unit) page_step" where
  "remove_each rm [] = ret ()"
| "remove_each rm (None # ws) = throw TypeError"
| "remove_each rm (Some w # ws) = then_step (rm w) (remove_each rm ws)"

fun remove_widget :: "nat \<Rightarrow> nat \<Rightarrow> ('w, unit) page_step" where
  "remove_widget 0 w = throw stack_overflow"
| "remove_widget (Suc n) w =
     then_step (modify (\<lambda>P. P\<lparr>pg_open := filter (\<lambda>v. v \<noteq> w) (pg_open P)\<rparr>))
       (with_page (\<lambda>P. case w_body (pg_widgets P w) of
          Children c \<Rightarrow> remove_each (remove_widget n) (map (\<lambda>h. Option.bind h (pg_child P w)) (ct_childWidgets c))
        | _ \<Rightarrow> ret ()))"

text \<open>
  \<open>save\<close>, with the function that stores: \<open>WidgetFactory.putData\<close>, or the one of \<open>tria-disco.js\<close>, which
  needs the store saved last.
\<close>

type_synonym 'w storing = "string \<Rightarrow> kb \<Rightarrow> kb option \<Rightarrow> ('w, unit) web_step"

definition store_list :: "kb \<Rightarrow> rdf_statement list" where
  "store_list k = map (heap k) (statements k)"

definition put_direct :: "nat \<Rightarrow> 'w server \<Rightarrow> (dom \<Rightarrow> string) \<Rightarrow> (string \<Rightarrow> string \<Rightarrow> bool) \<Rightarrow> 'w storing" where
  "put_direct stack srv xml name_ok u k previous = putData stack srv xml name_ok u (store_list k) False"

definition put_tria :: "'w server \<Rightarrow> (dom \<Rightarrow> string) \<Rightarrow> (string \<Rightarrow> string \<Rightarrow> bool) \<Rightarrow> (nat \<Rightarrow> string) \<Rightarrow> string option \<Rightarrow> 'w storing" where
  "put_tria srv xml name_ok statusText graphUri u k previous = (case previous of
       None \<Rightarrow> throw TypeError
     | Some p \<Rightarrow> tria_putData srv xml name_ok statusText graphUri (store_list k) (store_list p))"

definition save_widget :: "'w storing \<Rightarrow> (dom \<Rightarrow> string) \<Rightarrow> nat \<Rightarrow> ('w, unit) page_step" where
  "save_widget storing xml w =
     bind_step (page_store_of xml w) (\<lambda>k.
       case k of
         None \<Rightarrow> throw TypeError
       | Some k \<Rightarrow>
           then_step (with_page (\<lambda>P. on_session (storing (w_uri (pg_widgets P w)) k (w_lastSaved (pg_widgets P w)))))
             (then_step (set_widget w (\<lambda>W. W\<lparr>w_lastSaved := Some k\<rparr>)) (modifiedStateChanged False w)))"

section \<open>The controls\<close>

text \<open>\<open>RELOAD\<close>, and \<open>use\<close> of the RDF source: the widget is removed and made again from a store of its own.\<close>

definition add_store :: "kb \<Rightarrow> ('w, nat) page_step" where
  "add_store k P = (Inr (pg_next_store P), P\<lparr>pg_stores := (pg_stores P)(pg_next_store P := k), pg_next_store := pg_next_store P + 1\<rparr>)"

text \<open>The place of a child: its parent and its holder there, which shows its controls and gets its widget.\<close>

definition on_content :: "(content \<Rightarrow> content) \<Rightarrow> widget \<Rightarrow> widget" where
  "on_content f w = w\<lparr>w_body := (case w_body w of Children c \<Rightarrow> Children (f c) | b \<Rightarrow> b)\<rparr>"

definition show_controls :: "(nat \<times> nat) option \<Rightarrow> ('w, unit) page_step" where
  "show_controls place = (case place of Some (p, h) \<Rightarrow> set_widget p (on_content (child_created h)) | None \<Rightarrow> ret ())"

definition set_child :: "(nat \<times> nat) option \<Rightarrow> nat \<Rightarrow> ('w, unit) page_step" where
  "set_child place w = (case place of
       Some (p, h) \<Rightarrow> then_step (modify (\<lambda>P. P\<lparr>pg_child := (pg_child P)(p := (pg_child P p)(h \<mapsto> w))\<rparr>))
         (set_widget p (on_content (child_loaded h)))
     | None \<Rightarrow> ret ())"

text \<open>
  \<open>create\<close>, for a holder: \<open>show_controls\<close> is its part before the resource is loaded, \<open>create\<close> the
  rest.
\<close>

definition create :: "(dom \<Rightarrow> string) \<Rightarrow> string \<Rightarrow> nat \<Rightarrow> kb option \<Rightarrow> (nat \<times> nat) option \<Rightarrow> ('w, unit) page_step" where
  "create xml u i lastSaved place = bind_step (afterLoading xml u i lastSaved) (set_child place)"

definition recreate :: "nat \<Rightarrow> (dom \<Rightarrow> string) \<Rightarrow> kb \<Rightarrow> kb option \<Rightarrow> nat \<Rightarrow> (nat \<times> nat) option \<Rightarrow> ('w, unit) page_step" where
  "recreate stack xml k lastSaved w place =
     then_step (remove_widget stack w)
       (bind_step (add_store k) (\<lambda>i.
         then_step (show_controls place) (with_page (\<lambda>P. create xml (w_uri (pg_widgets P w)) i lastSaved place))))"

text \<open>The type selection: the type is stated in the page's store, and a widget made from it.\<close>

definition choose_type :: "(dom \<Rightarrow> string) \<Rightarrow> string \<Rightarrow> nat \<Rightarrow> ('w, nat) page_step" where
  "choose_type xml value w =
     then_step (with_page (\<lambda>P. run_store (pg_current P) (put (RDFSymbol (w_uri (pg_widgets P w))) rdf_type_term (Some (RDFSymbol value)))))
       (with_page (\<lambda>P. afterLoading xml (w_uri (pg_widgets P w)) (pg_current P) (Some (new_indexed_formula (pg_id P) (pg_colls P)))))"

text \<open>\<open>use\<close> of the XHTML source, with the nodes it was parsed to, or the text of the parser's error.\<close>

definition use_source :: "nat \<Rightarrow> string + dom list \<Rightarrow> nat \<Rightarrow> ('w, unit) page_step" where
  "use_source stack parsed w = (case parsed of
       Inl m \<Rightarrow> on_session (web_alert m)
     | Inr cs \<Rightarrow>
         then_step (remove_widget stack w)
           (then_step (set_widget w (\<lambda>W. W\<lparr>w_body := (case w_body W of
               Infobit (Element ns l n ats old) \<Rightarrow> Infobit (Element ns l n ats cs) | b \<Rightarrow> b)\<rparr>))
             (modifiedStateChanged True w)))"

text \<open>What a control of a child does to the widget's own state, and \<open>ADD\<close>.\<close>

definition content_control :: "unit content_step \<Rightarrow> nat \<Rightarrow> ('w, unit) page_step" where
  "content_control act w P = (case w_body (pg_widgets P w) of
       Children c \<Rightarrow> (case act c of (r, c') \<Rightarrow>
         (r, P\<lparr>pg_widgets := (pg_widgets P)(w := (pg_widgets P w)\<lparr>w_body := Children c'\<rparr>)\<rparr>))
     | _ \<Rightarrow> (Inl TypeError, P))"

text \<open>\<open>REMOVE\<close>, which also removes the child's widget; a placeholder has no \<open>remove\<close>.\<close>

definition remove_held :: "nat \<Rightarrow> nat \<Rightarrow> nat \<Rightarrow> ('w, unit) page_step" where
  "remove_held stack pos w P = (case w_body (pg_widgets P w) of
       Children c \<Rightarrow>
         if pos < length (ct_childWidgets c)
         then remove_each (remove_widget stack) [Option.bind (arr_get (ct_childWidgets c) pos) (pg_child P w)] P
         else ret () P
     | _ \<Rightarrow> throw TypeError P)"

fun child_control :: "nat \<Rightarrow> control \<Rightarrow> nat \<Rightarrow> ('w, unit) page_step" where
  "child_control stack (Remove li pos) w =
     then_step (content_control (remove_start li) w)
       (then_step (remove_held stack pos w) (content_control (remove_finish pos) w))"
| "child_control stack c w = content_control (perform c) w"

text \<open>\<open>onbeforeunload\<close>.\<close>

definition unload_warning :: "'w page \<Rightarrow> string option" where
  "unload_warning P =
     (let unsavedCount = length (filter (\<lambda>w. modified (pg_widgets P w)) (pg_open P)) in
      if unsavedCount > 1 then Some (''There are '' @ nat_str unsavedCount @ '' unsaved discobits.'')
      else if unsavedCount = 1 then Some ''There is an unsaved discobit.'' else None)"

section \<open>What is saved is opened\<close>

text \<open>A lookup in a plain store for one statement.\<close>

definition is_like :: "rdf_term \<Rightarrow> rdf_term \<Rightarrow> rdf_term option \<Rightarrow> rdf_statement \<Rightarrow> bool" where
  "is_like t p x st \<longleftrightarrow> toNT (st_subject st) = toNT t \<and> toNT (st_predicate st) = toNT p \<and> (\<forall>y. x = Some y \<longrightarrow> toNT (st_object st) = toNT y)"

lemma any_plain:
  assumes "plain_store tv C k" "ok_term tv C t" "ok_term tv C p" "opt_ok (ok_term tv C) x"
  shows "\<exists>r. anyStatementMatching (VTerm t) (VTerm p) (val_of x) VUndefined k = (Inr r, k) \<and>
    (r = None \<and> (\<forall>st\<in>stmts k. \<not> is_like t p x st) \<or> (\<exists>a. r = Some a \<and> heap k a \<in> stmts k \<and> is_like t p x (heap k a)))"
proof -
  have wf: "wf_kb (ok_term tv C) k" using assms(1) by (simp add: plain_store_def)
  have pat: "stmt_pat (hop2 k (Some t)) (hop2 k (Some p)) (hop2 k x) (map_option (canon k) None) st \<longleftrightarrow> is_like t p x st" for st
    using plain_canon [OF assms(1)] by (cases x) (auto simp: is_like_def hop2_def stmt_pat_def pat_match_def)
  obtain r where "anyStatementMatching (VTerm t) (VTerm p) (val_of x) VUndefined k = (Inr r, k)"
      "case r of None \<Rightarrow> \<forall>a\<in>set (statements k). \<not> is_like t p x (heap k a)
       | Some a \<Rightarrow> a \<in> set (statements k) \<and> is_like t p x (heap k a)"
    using terms.anyStatementMatching_found [OF wf, of "Some t" "Some p" x None, unfolded pat] assms(2-4) by auto
  then show ?thesis by (intro exI [of _ r]) (auto simp: stmts_def split: option.splits)
qed

lemma hasType_plain:
  assumes "plain_store tv C k" "ok_term tv C t" "ok_term tv C ty"
  shows "hasType t ty k = (Inr ((toNT t, toNT rdf_type_term, toNT ty) \<in> triples k), k)"
proof -
  obtain r where r: "anyStatementMatching (VTerm t) (VTerm rdf_type_term) (VTerm ty) VUndefined k = (Inr r, k)"
      "r = None \<and> (\<forall>st\<in>stmts k. \<not> is_like t rdf_type_term (Some ty) st) \<or>
       (\<exists>a. r = Some a \<and> heap k a \<in> stmts k \<and> is_like t rdf_type_term (Some ty) (heap k a))"
    using any_plain [OF assms(1,2) disco_simps(4), of "Some ty"] assms(3) by auto
  have "is_like t rdf_type_term (Some ty) st \<longleftrightarrow> nt_of st = (toNT t, toNT rdf_type_term, toNT ty)" for st
    by (simp add: is_like_def nt_of_def)
  then have "r \<noteq> None \<longleftrightarrow> (toNT t, toNT rdf_type_term, toNT ty) \<in> triples k"
    using r(2) unfolding triples_stmts by (auto intro: rev_image_eqI)
  then show ?thesis using r(1) by (simp add: hasType_def bind_step_def ret_def)
qed

definition has_type :: "string \<Rightarrow> kb \<Rightarrow> wtype \<Rightarrow> bool" where
  "has_type u k ty \<longleftrightarrow> (symbol_toNT u, toNT rdf_type_term, toNT (widget_type ty)) \<in> triples k"

lemma find_type_plain:
  "plain_store tv C k \<Longrightarrow> find_type (RDFSymbol u) tys k = (Inr (List.find (has_type u k) tys), k)"
  by (induction tys) (simp_all add: ret_def bind_step_def hasType_plain has_type_def widget_type_def)

text \<open>A type of widget that is tried before another one.\<close>

definition tried_before :: "wtype \<Rightarrow> wtype \<Rightarrow> bool" where
  "tried_before ty' ty \<longleftrightarrow> ty' \<in> set (takeWhile (\<lambda>t. t \<noteq> ty) typeWidgets)"

lemma find_own:
  assumes "has_type u k ty" "\<And>ty'. tried_before ty' ty \<Longrightarrow> \<not> has_type u k ty'"
  shows "List.find (has_type u k) typeWidgets = Some ty"
  using assms by (cases ty) (auto simp: typeWidgets_def tried_before_def)

lemma loadData_plain:
  assumes k: "plain_store tv C k" and only: "\<And>st. st \<in> stmts k \<Longrightarrow> toNT (st_predicate st) = toNT (disco ''infoBit'') \<Longrightarrow> st_object st = RDFLiteral v None None (Some d)"
    and some: "(symbol_toNT u, toNT (disco ''infoBit''), x) \<in> triples k"
  shows "loadData (RDFSymbol u) k = (Inr (editable_area (children_of d)), k)"
proof -
  obtain r where r: "anyStatementMatching (VTerm (RDFSymbol u)) (VTerm (disco ''infoBit'')) VUndefined VUndefined k = (Inr r, k)"
      "r = None \<and> (\<forall>st\<in>stmts k. \<not> is_like (RDFSymbol u) (disco ''infoBit'') None st) \<or>
       (\<exists>a. r = Some a \<and> heap k a \<in> stmts k \<and> is_like (RDFSymbol u) (disco ''infoBit'') None (heap k a))"
    using any_plain [OF k, of "RDFSymbol u" "disco ''infoBit''" None] by auto
  obtain st where "st \<in> stmts k" "is_like (RDFSymbol u) (disco ''infoBit'') None st"
    using some unfolding triples_stmts by (auto simp: nt_of_def is_like_def)
  then obtain a where "r = Some a" "heap k a \<in> stmts k" "is_like (RDFSymbol u) (disco ''infoBit'') None (heap k a)" using r(2) by blast
  moreover from this have "st_object (heap k a) = RDFLiteral v None None (Some d)"
    using only [of "heap k a"] by (simp add: is_like_def)
  ultimately show ?thesis using r(1) by (simp add: loadData_def bind_step_def elementValue_def)
qed

text \<open>What a widget shows, its type, and the predicate of its own statements.\<close>

fun body_view :: "body \<Rightarrow> dom list + bool \<times> rdf_term option list" where
  "body_view (Infobit area) = Inl (children_of area)"
| "body_view (Children c) = Inr (ct_titled c, child_list c)"
| "body_view TypeSelection = Inl []"

fun body_type :: "body \<Rightarrow> wtype option" where
  "body_type (Infobit area) = Some XHTMLInfoDiscoBitWidget"
| "body_type (Children c) = Some (if ct_titled c then TitledContentWidget else OrderedContentWidget)"
| "body_type TypeSelection = None"

definition own_predicate :: "body \<Rightarrow> string" where
  "own_predicate b = (case b of Children c \<Rightarrow> contains_uri | _ \<Rightarrow> infoBit_uri)"

text \<open>
  The statements about the resource that a widget keeps: nothing special, and no type of widget that is
  tried before its own, so that its own is the one by which the original store opens.
\<close>

definition kept_ok :: "(string \<Rightarrow> bool) \<Rightarrow> int set \<Rightarrow> string \<Rightarrow> body \<Rightarrow> rdf_statement \<Rightarrow> bool" where
  "kept_ok tv C u b st \<longleftrightarrow> (copied (RDFSymbol u) (own_predicate b) st \<longrightarrow>
     stmt_ok (ok_term tv C) st \<and> quiet (st_predicate st) (st_object st) \<and>
     (\<forall>ty own. st_predicate st = rdf_type_term \<longrightarrow> st_object st = widget_type ty \<longrightarrow> body_type b = Some own \<longrightarrow> \<not> tried_before ty own))"

definition body_ok :: "string \<Rightarrow> body \<Rightarrow> bool" where
  "body_ok u b = (case b of
       TypeSelection \<Rightarrow> False
     | Infobit area \<Rightarrow> True
     | Children c \<Rightarrow> ct_symbol c = RDFSymbol u \<and> length (child_list c) \<le> 4294967295 \<and> (ct_titled c \<longrightarrow> length (child_list c) = 2) \<and>
         (\<exists>us. child_list c = map (Some \<circ> RDFSymbol) us))"

text \<open>The values of the literals that a widget itself writes.\<close>

definition own_values :: "(dom \<Rightarrow> string) \<Rightarrow> body \<Rightarrow> string set" where
  "own_values xml b = (case b of
       Infobit area \<Rightarrow> {xml area} | Children c \<Rightarrow> nat_str ` {..<length (child_list c)} | TypeSelection \<Rightarrow> {})"

lemma widget_type_inj: "toNT (widget_type a) = toNT (widget_type b) \<longleftrightarrow> a = b"
  by (cases a; cases b) (simp_all add: widget_type_def)

lemma ok_NT_symbol: "ok_term tv C t \<Longrightarrow> toNT t = toNT (RDFSymbol v) \<Longrightarrow> t = RDFSymbol v"
  using ok_symbol [of tv C t v] by simp

lemma widget_type_symbol: "\<exists>v. widget_type ty = RDFSymbol v" and rdf_type_symbol: "\<exists>v. rdf_type_term = RDFSymbol v"
  by (simp_all add: widget_type_def disco_def rdf_type_term_def)

text \<open>A store with the widget's type and the kept statements has no type of widget for it that is tried before.\<close>

lemma own_type_first:
  assumes T: "triples k = insert (symbol_toNT u, toNT rdf_type_term, toNT (widget_type ty)) (T \<union> nt_of ` K)"
    and own: "body_type b = Some ty" and K: "\<forall>st\<in>K. copied (RDFSymbol u) (own_predicate b) st \<and> kept_ok tv C u b st"
    and T': "\<And>ty. (symbol_toNT u, toNT rdf_type_term, toNT (widget_type ty)) \<notin> T"
  shows "List.find (has_type u k) typeWidgets = Some ty"
proof (rule find_own)
  show "has_type u k ty" using T by (simp add: has_type_def)
next
  fix ty' assume before: "tried_before ty' ty"
  then have not_own: "ty' \<noteq> ty" by (auto simp: tried_before_def dest: set_takeWhileD)
  show "\<not> has_type u k ty'"
  proof
  assume "has_type u k ty'"
  then consider "toNT (widget_type ty') = toNT (widget_type ty)" | st where "st \<in> K" "nt_of st = (symbol_toNT u, toNT rdf_type_term, toNT (widget_type ty'))"
    using T T' unfolding has_type_def by fastforce
  then show False
  proof cases
    case 1
    then show ?thesis using not_own by (simp add: widget_type_inj)
  next
    case 2
    then have st: "stmt_ok (ok_term tv C) st" "st_predicate st = rdf_type_term \<Longrightarrow> st_object st = widget_type ty' \<Longrightarrow> \<not> tried_before ty' ty"
      using K own by (auto simp: kept_ok_def)
    then have ok: "ok_term tv C (st_predicate st)" "ok_term tv C (st_object st)" by (simp_all add: stmt_ok_def)
    have nt: "toNT (st_predicate st) = toNT rdf_type_term" "toNT (st_object st) = toNT (widget_type ty')"
      using 2(2) by (simp_all add: nt_of_def)
    obtain v w where "rdf_type_term = RDFSymbol v" "widget_type ty' = RDFSymbol w" using rdf_type_symbol widget_type_symbol by metis
    then show ?thesis using st(2) before ok_NT_symbol [OF ok(1), of v] ok_NT_symbol [OF ok(2), of w] nt by metis
  qed
  qed
qed

lemma open_type:
  assumes "plain_store tv C k" "List.find (has_type u k) typeWidgets = Some ty"
  shows "fst (find_type (RDFSymbol u) typeWidgets k) = Inr (Some ty)"
  using find_type_plain [OF assms(1)] assms(2) by simp

definition kept_by :: "string \<Rightarrow> body \<Rightarrow> kb \<Rightarrow> rdf_statement set" where
  "kept_by u b orig = {st \<in> set (map (heap orig) (statements orig)). copied (RDFSymbol u) (own_predicate b) st}"

definition infobit_literal :: "(dom \<Rightarrow> string) \<Rightarrow> dom \<Rightarrow> rdf_term" where
  "infobit_literal xml area = RDFLiteral (xml area) None None (Some area)"

text \<open>The store of an XHTML widget: its triples, and where its statements come from.\<close>

lemma infobit_store_plain:
  assumes "\<forall>st\<in>kept_by u (Infobit area) orig. stmt_ok (ok_term tv C) st \<and> quiet (st_predicate st) (st_object st)"
    and "tv (xml area)"
  shows "\<exists>k. infobit_store xml (RDFSymbol u) area (map (heap orig) (statements orig)) (new_indexed_formula n cs) = (Inr (), k) \<and>
    (plain_store tv C k \<and>
     triples k = insert (symbol_toNT u, toNT rdf_type_term, toNT (widget_type XHTMLInfoDiscoBitWidget))
       ({(symbol_toNT u, toNT (disco ''infoBit''), toNT (infobit_literal xml area))} \<union> nt_of ` kept_by u (Infobit area) orig) \<and>
     (\<forall>st\<in>stmts k. st_predicate st = disco ''infoBit'' \<and> st_object st = infobit_literal xml area \<or> st_predicate st = rdf_type_term \<or>
       (\<exists>st'\<in>kept_by u (Infobit area) orig. st_predicate st = st_predicate st')))"
  unfolding infobit_store_def widget_type_def type_name.simps infobit_literal_def
proof (intro put_then plain_new quiet_disco disco_simps(3,4))
  let ?t = "RDFSymbol u" and ?lit = "RDFLiteral (xml area) None None (Some area)" and ?sts = "map (heap orig) (statements orig)"
  let ?K = "kept_by u (Infobit area) orig" and ?new = "new_indexed_formula n cs"
  have K: "?K = {st \<in> set ?sts. copied ?t infoBit_uri st}" by (simp add: kept_by_def own_predicate_def)
  fix k1 k2
  assume 1: "triples k1 = insert (toNT ?t, toNT (disco ''infoBit''), toNT ?lit) (triples ?new)"
      "stmts k1 \<subseteq> insert \<lparr>st_subject = ?t, st_predicate = disco ''infoBit'', st_object = ?lit, st_why = None\<rparr> (stmts ?new)"
    and 2: "plain_store tv C k2" "triples k2 = insert (toNT ?t, toNT rdf_type_term, toNT (disco ''XHTMLInfoDiscoBit'')) (triples k1)"
      "stmts k2 \<subseteq> insert \<lparr>st_subject = ?t, st_predicate = rdf_type_term, st_object = disco ''XHTMLInfoDiscoBit'', st_why = None\<rparr> (stmts k1)"
  obtain k where k: "copy_statements ?t infoBit_uri ?sts k2 = (Inr (), k)" "plain_store tv C k" "triples k = triples k2 \<union> nt_of ` ?K"
      "\<forall>st'\<in>stmts k. st' \<in> stmts k2 \<or> (\<exists>st\<in>?K. st_predicate st' = st_predicate st)"
    using copy_statements_plain [OF 2(1), of ?sts ?t infoBit_uri] assms(1) unfolding K by auto
  have "st_predicate st = disco ''infoBit'' \<and> st_object st = ?lit \<or> st_predicate st = rdf_type_term \<or> (\<exists>st'\<in>?K. st_predicate st = st_predicate st')" if st: "st \<in> stmts k" for st
  proof -
    consider "st = \<lparr>st_subject = ?t, st_predicate = disco ''infoBit'', st_object = ?lit, st_why = None\<rparr>"
      | "st = \<lparr>st_subject = ?t, st_predicate = rdf_type_term, st_object = disco ''XHTMLInfoDiscoBit'', st_why = None\<rparr>"
      | "\<exists>st'\<in>?K. st_predicate st = st_predicate st'"
      using k(4) [rule_format, OF st] 1(2) 2(3) by auto
    then show ?thesis by cases simp_all
  qed
  then show "\<exists>k. copy_statements ?t infoBit_uri ?sts k2 = (Inr (), k) \<and> (plain_store tv C k \<and>
      triples k = insert (symbol_toNT u, toNT rdf_type_term, toNT (disco ''XHTMLInfoDiscoBit''))
        ({(symbol_toNT u, toNT (disco ''infoBit''), toNT ?lit)} \<union> nt_of ` ?K) \<and>
      (\<forall>st\<in>stmts k. st_predicate st = disco ''infoBit'' \<and> st_object st = ?lit \<or> st_predicate st = rdf_type_term \<or> (\<exists>st'\<in>?K. st_predicate st = st_predicate st')))"
    using k(1-3) 1(1) 2(2) by (intro exI [of _ k]) auto
qed (use assms(2) in simp_all)

lemma infobit_reopens:
  assumes "\<forall>st\<in>kept_by u (Infobit area) orig. kept_ok tv C u (Infobit area) st" and tv: "tv (xml area)"
  shows "\<exists>k. body_store xml n cs u orig (Infobit area) = Inr (Some k) \<and>
    open_body u k g = (Inr (Infobit (editable_area (children_of area))), g)"
proof -
  let ?K = "kept_by u (Infobit area) orig"
  have K: "\<forall>st\<in>?K. stmt_ok (ok_term tv C) st \<and> quiet (st_predicate st) (st_object st)" "\<forall>st\<in>?K. copied (RDFSymbol u) infoBit_uri st"
    using assms(1) by (auto simp: kept_ok_def kept_by_def own_predicate_def)
  obtain k where k: "infobit_store xml (RDFSymbol u) area (map (heap orig) (statements orig)) (new_indexed_formula n cs) = (Inr (), k)"
      "plain_store tv C k"
      "triples k = insert (symbol_toNT u, toNT rdf_type_term, toNT (widget_type XHTMLInfoDiscoBitWidget))
        ({(symbol_toNT u, toNT (disco ''infoBit''), toNT (infobit_literal xml area))} \<union> nt_of ` ?K)"
      "\<forall>st\<in>stmts k. st_predicate st = disco ''infoBit'' \<and> st_object st = infobit_literal xml area \<or> st_predicate st = rdf_type_term \<or> (\<exists>st'\<in>?K. st_predicate st = st_predicate st')"
    using infobit_store_plain [where tv = tv and xml = xml and area = area and n = n and cs = cs, OF K(1) tv] by (elim exE conjE) (rule that; assumption)
  have "List.find (has_type u k) typeWidgets = Some XHTMLInfoDiscoBitWidget"
  proof (rule own_type_first [OF k(3)])
    show "\<forall>st\<in>?K. copied (RDFSymbol u) (own_predicate (Infobit area)) st \<and> kept_ok tv C u (Infobit area) st"
      using assms(1) K(2) by (simp add: own_predicate_def)
  qed simp_all
  then have "fst (find_type (RDFSymbol u) typeWidgets k) = Inr (Some XHTMLInfoDiscoBitWidget)" by (rule open_type [OF k(2)])
  moreover have "loadData (RDFSymbol u) k = (Inr (editable_area (children_of area)), k)"
  proof (rule loadData_plain [OF k(2)])
    fix st assume st: "st \<in> stmts k" "toNT (st_predicate st) = toNT (disco ''infoBit'')"
    have "toNT (st_predicate st') \<noteq> toNT (disco ''infoBit'')" if "st' \<in> ?K" for st'
    proof
      assume nt: "toNT (st_predicate st') = toNT (disco ''infoBit'')"
      have "ok_term tv C (st_predicate st')" using K(1) that by (auto simp: stmt_ok_def)
      then have "st_predicate st' = RDFSymbol infoBit_uri" using nt ok_NT_symbol by (simp add: disco_def infoBit_uri_def)
      then show False using K(2) that by (auto simp: copied_def)
    qed
    then show "st_object st = RDFLiteral (xml area) None None (Some area)" using k(4) st by (auto simp: infobit_literal_def)
  qed (use k(3) in auto)
  ultimately show ?thesis
    using k(1) by (simp add: body_store_def open_body_def bind_step_def lift_res_def)
qed

text \<open>A widget with children: as many entries as children, so that a titled content is loaded as one.\<close>

lemma children_reopen:
  assumes s: "ct_symbol c = RDFSymbol u" "child_list c = map (Some \<circ> RDFSymbol) us" "length us \<le> 4294967295" "ct_titled c \<longrightarrow> length us = 2"
    and C: "\<forall>b\<ge>n. b \<notin> C" and tv: "\<forall>j<length us. tv (nat_str j)" and K: "\<forall>st\<in>kept_by u (Children c) orig. kept_ok tv C u (Children c) st"
  shows "\<exists>k c'. body_store xml n cs u orig (Children c) = Inr (Some k) \<and> open_body u k g = (Inr (Children c'), g) \<and>
    ct_titled c' = ct_titled c \<and> child_list c' = child_list c"
proof -
  let ?c = "c\<lparr>ct_orig := orig\<rparr>" and ?ty = "if ct_titled c then TitledContentWidget else OrderedContentWidget"
  have kept: "kept (RDFSymbol u) ?c = kept_by u (Children c) orig"
    by (simp add: kept_def kept_by_def own_predicate_def orig_statements_def)
  have cls: "disco (if ct_titled ?c then ''TitledContent'' else ''OrderedContent'') = widget_type ?ty" by (simp add: widget_type_def)
  have c: "ct_symbol ?c = RDFSymbol u" "child_list ?c = map (Some \<circ> RDFSymbol) us" using s(1,2) by simp_all
  have ok: "\<forall>st\<in>kept (RDFSymbol u) ?c. stmt_ok (ok_term tv C) st \<and> quiet (st_predicate st) (st_object st)"
    using K unfolding kept by (auto simp: kept_ok_def kept_by_def)
  obtain k where k: "getStore n cs ?c = Inr k" "plain_store tv C k"
      "triples k = saved u (if ct_titled ?c then ''TitledContent'' else ''OrderedContent'') us n (nt_of ` kept (RDFSymbol u) ?c)"
    using getStore_saved [OF c C tv ok, of cs] by (elim exE conjE) (rule that; assumption)
  have other: "about_other u (nt_of ` kept (RDFSymbol u) ?c)" using kept_other ok by blast
  have load: "load_children (RDFSymbol u) k = Inr (map (Some \<circ> RDFSymbol) us)"
    by (rule load_saved [OF k(2,3) other C s(3)])
  have T: "triples k = insert (symbol_toNT u, toNT rdf_type_term, toNT (widget_type ?ty))
      ((\<Union>j<length us. entry_triples (RDFSymbol u) (RDFSymbol (us ! j)) (n + int j) j) \<union> nt_of ` kept_by u (Children c) orig)"
    using k(3) unfolding saved_def cls kept .
  have "List.find (has_type u k) typeWidgets = Some ?ty"
  proof (rule own_type_first [OF T])
    show "\<forall>st\<in>kept_by u (Children c) orig. copied (RDFSymbol u) (own_predicate (Children c)) st \<and> kept_ok tv C u (Children c) st"
      using K by (simp add: kept_by_def)
    show "(symbol_toNT u, toNT rdf_type_term, toNT (widget_type ty)) \<notin>
        (\<Union>j<length us. entry_triples (RDFSymbol u) (RDFSymbol (us ! j)) (n + int j) j)" for ty
      by (auto simp: entry_triples_def)
  qed simp
  then have ty: "fst (find_type (RDFSymbol u) typeWidgets k) = Inr (Some ?ty)" by (rule open_type [OF k(2)])
  obtain es where es: "objects_of (RDFSymbol u) (disco ''contains'') k = Inr es"
      "toNT ` set es = {x. (symbol_toNT u, toNT (disco ''contains''), x) \<in> triples k}" "distinct (map toNT es)"
    using objects_of_plain [OF k(2), of "RDFSymbol u" "disco ''contains''"] by auto
  have "length es = card (toNT ` set es)" using es(3) by (metis distinct_card length_map list.set_map)
  also have "\<dots> = length us"
    unfolding es(2) k(3) saved_lookups(1) [OF other] by (subst card_image) (auto simp: inj_on_def)
  finally have two: "ct_titled c \<Longrightarrow> length es = 2" using s(4) by simp
  show ?thesis
    using k(1) ty load es(1) two s(2)
    by (auto simp: body_store_def open_body_def bind_step_def lift_res_def load_content_def new_titled_def ret_def)
qed

section \<open>Runs of a page\<close>

inductive page_run :: "(dom \<Rightarrow> string) \<Rightarrow> 'w storing \<Rightarrow> 'w page \<Rightarrow> 'w page \<Rightarrow> bool" for xml storing P0 where
  start: "page_run xml storing P0 P0"
| begun: "page_run xml storing P0 P \<Longrightarrow> show_controls place P = (r, P') \<Longrightarrow> page_run xml storing P0 P'"
| made: "page_run xml storing P0 P \<Longrightarrow> create xml u i lastSaved place P = (r, P') \<Longrightarrow> page_run xml storing P0 P'"
| told: "page_run xml storing P0 P \<Longrightarrow> w < pg_next P \<Longrightarrow> subTerminationListener w P = (r, P') \<Longrightarrow> page_run xml storing P0 P'"
| timer: "page_run xml storing P0 P \<Longrightarrow> w \<in> set (pg_empty P) \<Longrightarrow> empty_timer w P = (r, P') \<Longrightarrow> page_run xml storing P0 P'"
| changed: "page_run xml storing P0 P \<Longrightarrow> modifiedStateChanged True w P = (r, P') \<Longrightarrow> page_run xml storing P0 P'"
| control: "page_run xml storing P0 P \<Longrightarrow> child_control stack c w P = (r, P') \<Longrightarrow> page_run xml storing P0 P'"
| added: "page_run xml storing P0 P \<Longrightarrow> content_control addControl w P = (r, P') \<Longrightarrow> page_run xml storing P0 P'"
| saved: "page_run xml storing P0 P \<Longrightarrow> save_widget storing xml w P = (r, P') \<Longrightarrow> page_run xml storing P0 P'"
| again: "page_run xml storing P0 P \<Longrightarrow> recreate stack xml k lastSaved w place P = (r, P') \<Longrightarrow> page_run xml storing P0 P'"
| typed: "page_run xml storing P0 P \<Longrightarrow> choose_type xml value w P = (r, P') \<Longrightarrow> page_run xml storing P0 P'"
| source: "page_run xml storing P0 P \<Longrightarrow> use_source stack parsed w P = (r, P') \<Longrightarrow> page_run xml storing P0 P'"

text \<open>
  No widget is registered twice: those that are open, or will be by a timer, are different ones, and no
  child's message can open them once more.
\<close>

definition registered_once :: "'w page \<Rightarrow> bool" where
  "registered_once P \<longleftrightarrow> distinct (pg_open P @ pg_empty P) \<and>
     (\<forall>w\<in>set (pg_open P @ pg_empty P). w < pg_next P \<and> w_toAdd (pg_widgets P w) \<le> 0)"

text \<open>A step that keeps this.\<close>

definition orderly :: "('w, 'a) page_step \<Rightarrow> bool" where
  "orderly m \<longleftrightarrow> (\<forall>P r P'. registered_once P \<longrightarrow> m P = (r, P') \<longrightarrow> registered_once P')"

named_theorems orderly_intro

lemma orderlyD: "orderly m \<Longrightarrow> m P = (r, P') \<Longrightarrow> registered_once P \<Longrightarrow> registered_once P'"
  by (simp add: orderly_def)

lemma orderly_bind [orderly_intro]:
  assumes "orderly m" "\<And>a. orderly (f a)"
  shows "orderly (bind_step m f)"
  unfolding orderly_def
proof (intro allI impI)
  fix P r P' assume P: "registered_once P" and step: "bind_step m f P = (r, P')"
  obtain q P1 where q: "m P = (q, P1)" by (cases "m P")
  then have "registered_once P1" using orderlyD [OF assms(1) _ P] by simp
  then show "registered_once P'" using step q orderlyD [OF assms(2)] by (auto simp: bind_step_def split: sum.splits)
qed

lemma orderly_then [orderly_intro]: "orderly m \<Longrightarrow> orderly m' \<Longrightarrow> orderly (then_step m m')"
  unfolding then_step_def by (rule orderly_bind)

lemma orderly_with_page [orderly_intro]: "(\<And>P. orderly (f P)) \<Longrightarrow> orderly (with_page f)"
  by (auto simp: orderly_def with_page_def)

text \<open>What changes only the states of the widgets, but for what they wait for, keeps it.\<close>

lemma orderly_set_widget [orderly_intro]:
  assumes "\<And>W. w_toAdd (f W) = w_toAdd W"
  shows "orderly (set_widget w f)"
  using assms by (auto simp: orderly_def registered_once_def set_widget_def modify_def)

lemma w_toAdd_simps [simp]: "w_toAdd (mark b W) = w_toAdd W" "w_toAdd (on_content g W) = w_toAdd W"
  by (simp_all add: mark_def on_content_def)

lemma orderly_basic [orderly_intro]:
  "orderly (ret a)" "orderly (throw e)" "orderly (run_store i m')" "orderly (on_session ws)"
  "orderly (add_store k)" "orderly (modifiedStateChanged b w)" "orderly (content_control act w)"
  by (auto simp: orderly_def registered_once_def ret_def throw_def run_store_def on_session_def set_widget_def modify_def
      modifiedStateChanged_def add_store_def content_control_def split: prod.splits body.splits)

lemma orderly_new_widget [orderly_intro]: "orderly (new_widget u i b)"
  unfolding orderly_def
proof (intro allI impI)
  fix P P' :: "'a page" and r assume P: "registered_once P" and new: "new_widget u i b P = (r, P')"
  let ?n = "pg_next P"
  have old: "distinct (pg_open P @ pg_empty P)" "\<forall>v\<in>set (pg_open P @ pg_empty P). v < ?n \<and> w_toAdd (pg_widgets P v) \<le> 0"
    using P by (simp_all add: registered_once_def)
  have fresh: "?n \<notin> set (pg_open P @ pg_empty P)" using old(2) by fastforce
  have P': "pg_next P' = ?n + 1" "w_toAdd (pg_widgets P' ?n) = elementsToAdd b" "\<And>v. v \<noteq> ?n \<Longrightarrow> pg_widgets P' v = pg_widgets P v"
    using new by (auto simp: new_widget_def)
  have kept: "v < pg_next P' \<and> w_toAdd (pg_widgets P' v) \<le> 0" if "v \<in> set (pg_open P @ pg_empty P)" for v
    using old(2) [rule_format, OF that] P'(1) P'(3) [of v] by simp
  have "pg_open P' = pg_open P \<and> pg_empty P' = pg_empty P \<or> elementsToAdd b \<le> 0 \<and>
      (pg_open P' = pg_open P @ [?n] \<and> pg_empty P' = pg_empty P \<or> pg_open P' = pg_open P \<and> pg_empty P' = pg_empty P @ [?n])"
    using new by (cases b) (auto simp: new_widget_def elementsToAdd_def split: if_splits)
  then show "registered_once P'"
    unfolding registered_once_def using old(1) fresh kept P'(1,2) by (elim disjE conjE) auto
qed

lemma orderly_places [orderly_intro]: "orderly (show_controls place)" "orderly (set_child place w)"
proof -
  have "orderly (modify (\<lambda>P. P\<lparr>pg_child := (pg_child P)(p := (pg_child P p)(h \<mapsto> w))\<rparr>))" for p h
    by (auto simp: orderly_def registered_once_def modify_def)
  then show "orderly (show_controls place)" "orderly (set_child place w)"
    unfolding show_controls_def set_child_def
    by (cases place; force intro!: orderly_intro simp del: step_simps)+
qed

text \<open>The message of the last child, and the timer of a widget that has none, open a widget once.\<close>

lemma told_registered:
  assumes "registered_once P" "w < pg_next P" "subTerminationListener w P = (r, P')"
  shows "registered_once P'"
proof -
  have P: "distinct (pg_open P @ pg_empty P)" "\<forall>v\<in>set (pg_open P @ pg_empty P). v < pg_next P \<and> w_toAdd (pg_widgets P v) \<le> 0"
    using assms(1) by (simp_all add: registered_once_def)
  show ?thesis
  proof (cases "w_toAdd (pg_widgets P w) = 1")
    case True
    then have "w \<notin> set (pg_open P @ pg_empty P)" using P(2) by fastforce
    then show ?thesis using P assms(2,3) True by (auto simp: registered_once_def subTerminationListener_def)
  next
    case False
    then have "pg_open P' = pg_open P" "pg_empty P' = pg_empty P" "pg_next P' = pg_next P"
        "\<And>v. w_toAdd (pg_widgets P' v) \<le> w_toAdd (pg_widgets P v)"
      using assms(3) by (auto simp: subTerminationListener_def Let_def)
    then show ?thesis using P unfolding registered_once_def by (metis order_trans)
  qed
qed

lemma timer_registered:
  assumes "registered_once P" "w \<in> set (pg_empty P)" "empty_timer w P = (r, P')"
  shows "registered_once P'"
proof -
  have P': "P' = P\<lparr>pg_empty := remove1 w (pg_empty P), pg_open := pg_open P @ [w]\<rparr>"
    using assms(3) by (simp add: empty_timer_def modify_def)
  have "distinct (pg_open P @ pg_empty P)" using assms(1) by (simp add: registered_once_def)
  then have "distinct (pg_open P' @ pg_empty P')" "set (pg_open P' @ pg_empty P') = set (pg_open P @ pg_empty P)"
    using assms(2) by (auto simp: P')
  then show ?thesis using assms(1) by (simp only: registered_once_def) (simp add: P')
qed

lemma orderly_page_store_of [orderly_intro]: "orderly (page_store_of xml w)"
  by (auto simp: orderly_def registered_once_def page_store_of_def Let_def split: sum.splits option.splits)

lemma orderly_option [orderly_intro]:
  "orderly n \<Longrightarrow> (\<And>a. orderly (m a)) \<Longrightarrow> orderly (case x of None \<Rightarrow> n | Some a \<Rightarrow> m a)"
  by (cases x) auto

lemma orderly_afterLoading [orderly_intro]: "orderly (afterLoading xml u i lastSaved)"
  unfolding afterLoading_def by (intro orderly_intro) simp_all

lemma orderly_remove_each [orderly_intro]: "(\<And>v. orderly (rm v)) \<Longrightarrow> orderly (remove_each rm ws)"
proof (induction ws)
  case (Cons v ws)
  then show ?case by (cases v) (auto intro: orderly_intro)
qed (simp add: orderly_intro)

lemma orderly_remove_widget [orderly_intro]: "orderly (remove_widget n w :: ('w, unit) page_step)"
proof (induction n arbitrary: w)
  case (Suc n)
  have "orderly (modify (\<lambda>P. P\<lparr>pg_open := filter (\<lambda>v. v \<noteq> w) (pg_open P)\<rparr>))"
    by (auto simp: orderly_def registered_once_def modify_def)
  moreover have "orderly (case b of Children c \<Rightarrow> remove_each (remove_widget n) (f c) | _ \<Rightarrow> (ret () :: ('w, unit) page_step))"
    for b and f :: "content \<Rightarrow> nat option list"
    using orderly_remove_each [where rm = "remove_widget n", OF Suc.IH] by (cases b) (auto intro: orderly_intro)
  ultimately show ?case unfolding remove_widget.simps by (intro orderly_then orderly_with_page)
qed (simp add: orderly_intro)

lemma orderly_remove_held [orderly_intro]: "orderly (remove_held stack pos w)"
proof -
  have "orderly (remove_each (remove_widget stack) vs)" for vs by (intro orderly_intro)
  then show ?thesis
    unfolding orderly_def remove_held_def by (auto simp: ret_def throw_def split: body.splits if_splits)
qed

lemma orderly_child_control [orderly_intro]: "orderly (child_control stack c w)"
  by (cases c) (auto intro!: orderly_intro)

lemma orderly_controls:
  "orderly (create xml u i lastSaved place)"
  "orderly (save_widget storing xml w)" "orderly (recreate stack xml k lastSaved w place)" "orderly (choose_type xml value w)"
  "orderly (use_source stack parsed w)"
  unfolding save_widget_def recreate_def create_def choose_type_def use_source_def
  by (intro orderly_intro | simp | cases parsed)+

lemmas page_steps_orderly = orderly_controls orderly_places(1) orderly_child_control orderly_basic(6,7)

lemma run_registered: "page_run xml storing P0 P \<Longrightarrow> registered_once P0 \<Longrightarrow> registered_once P"
  by (induction rule: page_run.induct)
    (blast intro: told_registered timer_registered page_steps_orderly [THEN orderlyD])+

text \<open>\<open>REMOVE\<close> unregisters the child's widget.\<close>

lemma remove_each_only_closes:
  assumes "\<And>v Q q Q'. rm v Q = (q, Q') \<Longrightarrow> set (pg_open Q') \<subseteq> set (pg_open Q)"
  shows "remove_each rm ws P = (r, P') \<Longrightarrow> set (pg_open P') \<subseteq> set (pg_open P)"
proof (induction ws arbitrary: P)
  case (Cons v ws)
  then show ?case
  proof (cases v)
    case (Some v)
    obtain q Q where Q: "rm v P = (q, Q)" by (cases "rm v P")
    then show ?thesis
      using Cons Some assms [OF Q] by (cases q) (auto simp: then_step_def bind_step_def)
  qed (auto simp: throw_def)
qed (simp add: ret_def)

lemma remove_only_closes: "remove_widget n w P = (r, P') \<Longrightarrow> set (pg_open P') \<subseteq> set (pg_open P)"
  and remove_closes: "remove_widget (Suc n) w P = (r, P') \<Longrightarrow> w \<notin> set (pg_open P')"
proof -
  have step: "set (pg_open P') \<subseteq> set (filter (\<lambda>v. v \<noteq> w) (pg_open P))"
    if "\<forall>v (Q :: 'a page) q Q'. remove_widget n v Q = (q, Q') \<longrightarrow> set (pg_open Q') \<subseteq> set (pg_open Q)" "remove_widget (Suc n) w P = (r, P')"
    for n w r and P P' :: "'a page"
  proof -
    let ?P = "P\<lparr>pg_open := filter (\<lambda>v. v \<noteq> w) (pg_open P)\<rparr>"
    have "P' = ?P \<or> (\<exists>ws. remove_each (remove_widget n) ws ?P = (r, P'))"
      using that(2) by (cases "w_body (pg_widgets P w)") (auto simp: with_page_def ret_def)
    then show ?thesis
    proof (elim disjE exE)
      fix ws assume "remove_each (remove_widget n) ws ?P = (r, P')"
      from remove_each_only_closes [of "remove_widget n", OF that(1) [rule_format] this] show ?thesis by simp
    qed simp
  qed
  have only: "remove_widget n w P = (r, P') \<Longrightarrow> set (pg_open P') \<subseteq> set (pg_open P)" for n w r and P P' :: "'a page"
  proof (induction n arbitrary: w P r P')
    case (Suc n)
    then show ?case using step [of n w P r P'] by auto
  qed (simp add: throw_def)
  then show "remove_widget n w P = (r, P') \<Longrightarrow> set (pg_open P') \<subseteq> set (pg_open P)" .
  assume "remove_widget (Suc n) w P = (r, P')"
  moreover have "\<forall>v (Q :: 'a page) q Q'. remove_widget n v Q = (q, Q') \<longrightarrow> set (pg_open Q') \<subseteq> set (pg_open Q)" using only by blast
  ultimately have "set (pg_open P') \<subseteq> set (filter (\<lambda>v. v \<noteq> w) (pg_open P))" by (metis step)
  then show "w \<notin> set (pg_open P')" by auto
qed

lemma child_removed_closes:
  assumes "child_control (Suc n) (Remove li pos) w P = (Inr (), P')" "w_body (pg_widgets P w) = Children c"
    and "pos < length (ct_childWidgets c)" "ct_childWidgets c ! pos = Some h" "pg_child P w h = Some v"
  shows "v \<notin> set (pg_open P')"
proof -
  obtain P1 where P1: "content_control (remove_start li) w P = (Inr (), P1)"
      and rest: "then_step (remove_held (Suc n) pos w) (content_control (remove_finish pos) w) P1 = (Inr (), P')"
    using assms(1) by (auto simp: then_step_def bind_step_Inr_iff)
  obtain c1 where c1: "w_body (pg_widgets P1 w) = Children c1" "ct_childWidgets c1 = ct_childWidgets c" "pg_child P1 = pg_child P"
    using P1 assms(2)
    by (auto simp: content_control_def remove_start_def modifiedTrue_def modify_def split: prod.splits if_splits)
  obtain P2 where P2: "remove_held (Suc n) pos w P1 = (Inr (), P2)" "content_control (remove_finish pos) w P2 = (Inr (), P')"
    using rest by (auto simp: then_step_def bind_step_Inr_iff)
  have "remove_widget (Suc n) v P1 = (Inr (), P2)"
    using P2(1) c1 assms(3-5)
    by (auto simp del: remove_widget.simps simp: remove_held_def arr_get_def then_step_def bind_step_Inr_iff ret_def)
  then have "v \<notin> set (pg_open P2)" by (rule remove_closes)
  moreover have "pg_open P' = pg_open P2" using P2(2) by (auto simp: content_control_def split: body.splits prod.splits)
  ultimately show ?thesis by simp
qed

section \<open>Properties\<close>

text \<open>
  C8. What a widget saves opens as the same widget: for each of the three types, the store
  made by \<open>getStore\<close> opens for the resource as a widget of that type, which
  shows the same nodes, or the same children in the same order. The conditions: the original
  store gives the resource no type of widget that the page tries before the widget's own (a
  store that opens as this widget gives none), and what it says of the resource starts no
  action of the store and uses each value of a literal by one convention, the values the
  widget writes itself being without a language (\<open>kept_ok\<close>); the counter of
  blank nodes is past the script's collections; the children have URIs and are at most 2^32
  - 1, a titled content has two.
\<close>

theorem saved_widget_reopens:
  assumes "body_ok u b" "\<forall>b'\<ge>n. b' \<notin> C" "\<forall>v\<in>own_values xml b. tv v" and "\<forall>st\<in>kept_by u b orig. kept_ok tv C u b st"
  shows "\<exists>k b'. body_store xml n cs u orig b = Inr (Some k) \<and> open_body u k g = (Inr b', g) \<and>
    body_type b' = body_type b \<and> body_view b' = body_view b"
proof (cases b)
  case (Infobit area)
  obtain k where "body_store xml n cs u orig (Infobit area) = Inr (Some k)"
      "open_body u k g = (Inr (Infobit (editable_area (children_of area))), g)"
    using infobit_reopens [where xml = xml and n = n and cs = cs and g = g, OF assms(4) [unfolded Infobit]] assms(3) unfolding Infobit own_values_def
    by simp (elim exE conjE, rule that; assumption)
  then show ?thesis
    unfolding Infobit
    by (intro exI [of _ k] exI [of _ "Infobit (editable_area (children_of area))"]) (simp add: editable_area_def)
next
  case (Children c)
  then obtain us where c: "ct_symbol c = RDFSymbol u" "child_list c = map (Some \<circ> RDFSymbol) us" "length us \<le> 4294967295"
      "ct_titled c \<longrightarrow> length us = 2"
    using assms(1) by (auto simp: body_ok_def)
  have "length us = length (child_list c)" using c(2) by simp
  then have "\<forall>j<length us. tv (nat_str j)" using assms(3) unfolding Children by (simp add: own_values_def)
  from children_reopen [OF c assms(2) this assms(4) [unfolded Children], of xml cs g] obtain k c' where
    "body_store xml n cs u orig (Children c) = Inr (Some k)" "open_body u k g = (Inr (Children c'), g)"
    "ct_titled c' = ct_titled c" "child_list c' = child_list c" by (elim exE conjE) (rule that; assumption)
  then show ?thesis unfolding Children by (intro exI [of _ k] exI [of _ "Children c'"]) simp
next
  case TypeSelection
  then show ?thesis using assms(1) by (simp add: body_ok_def)
qed

text \<open>
  C12. The warning when the page is left counts the open widgets that are modified, each
  once, whatever has been opened, moved, saved, reloaded, given a type and removed, and in
  whatever order and however often the children of a widget have told that they are there:
  the counter \<open>elementsToAdd\<close> reaches nought once, and a widget without
  children has one timer, so that none is registered twice. The page that a run starts from
  has each open widget registered once and waiting for no child, as a page with nothing open
  has.
\<close>

theorem unload_counts_modified:
  assumes "page_run xml storing P0 P" "registered_once P0" and n: "n = card {w \<in> set (pg_open P). modified (pg_widgets P w)}"
  shows "unload_warning P = (if n = 0 then None else if n = 1 then Some ''There is an unsaved discobit.''
    else Some (''There are '' @ nat_str n @ '' unsaved discobits.''))"
proof -
  have "distinct (pg_open P)" using run_registered [OF assms(1,2)] by (simp add: registered_once_def)
  then have "length (filter (\<lambda>w. modified (pg_widgets P w)) (pg_open P)) = n"
    unfolding n by (metis distinct_card distinct_filter set_filter)
  then show ?thesis by (simp add: unload_warning_def)
qed

text \<open>
  C39. A server that refuses a resource, with a failure that is not about a missing collection: the page
  tells the user, and then counts the widget as saved. Its changes are neither on the server nor
  warned about.
\<close>

theorem refused_save_counts:
  assumes "body_store xml (pg_id P) (pg_colls P) (w_uri (pg_widgets P w)) (pg_stores P (w_orig (pg_widgets P w))) (w_body (pg_widgets P w)) = Inr (Some k)"
    and "serialize name_ok (store_list k) (Some (w_uri (pg_widgets P w))) = Inr d"
    and "srv (PUT (w_uri (pg_widgets P w)) (xml d)) (s_server (pg_session P)) = ((status, message), s_server (pg_session P))"
    and "300 \<le> status" "\<not> no_collection status"
  shows "\<exists>P'. save_widget (put_direct stack srv xml name_ok) xml w P = (Inr (), P') \<and>
    \<not> modified (pg_widgets P' w) \<and> w_lastSaved (pg_widgets P' w) = Some k \<and> s_server (pg_session P') = s_server (pg_session P) \<and>
    s_alerts (pg_session P') = s_alerts (pg_session P) @ [''server returned failure: '' @ message]"
proof -
  have "putData stack srv xml name_ok (w_uri (pg_widgets P w)) (store_list k) False (pg_session P) =
      (Inr (), (pg_session P)\<lparr>s_alerts := s_alerts (pg_session P) @ [''server returned failure: '' @ message]\<rparr>)"
    using assms(2-5) by (simp add: putData_def put_once_def bind_step_def lift_res_def send_def report_failure_def web_alert_def modify_def)
  then show ?thesis
    using assms(1)
    by (auto simp: save_widget_def page_store_of_def bind_step_def then_step_def with_page_def on_session_def put_direct_def
        set_widget_def modify_def modifiedStateChanged_def mark_def modified_def Let_def split: body.splits)
qed

lemma unload_unregistered:
  assumes "w \<notin> set (pg_open P)"
  shows "unload_warning (P\<lparr>pg_widgets := (pg_widgets P)(w := W)\<rparr>) = unload_warning P"
proof -
  have "filter (\<lambda>v. modified (((pg_widgets P)(w := W)) v)) (pg_open P) = filter (\<lambda>v. modified (pg_widgets P v)) (pg_open P)"
    using assms by (intro filter_cong) auto
  then show ?thesis by (simp add: unload_warning_def)
qed

text \<open>
  Using an edited XHTML source unregisters the widget, which stays on the page: it is modified, but
  the warning when the page is left is the one without it.
\<close>

lemma source_edit_unwarned:
  assumes "w_body (pg_widgets P w) = Infobit (Element ns l name ats old)"
  shows "\<exists>P'. use_source (Suc n) (Inr cs) w P = (Inr (), P') \<and> w_body (pg_widgets P' w) = Infobit (Element ns l name ats cs) \<and>
    modified (pg_widgets P' w) \<and> w \<notin> set (pg_open P') \<and>
    unload_warning P' = unload_warning (P\<lparr>pg_open := filter (\<lambda>v. v \<noteq> w) (pg_open P)\<rparr>)"
proof -
  let ?P = "P\<lparr>pg_open := filter (\<lambda>v. v \<noteq> w) (pg_open P)\<rparr>"
  let ?P' = "?P\<lparr>pg_widgets := (pg_widgets ?P)(w := mark True ((pg_widgets P w)\<lparr>w_body := Infobit (Element ns l name ats cs)\<rparr>))\<rparr>"
  have "use_source (Suc n) (Inr cs) w P = (Inr (), ?P')"
    using assms by (simp add: use_source_def then_step_def bind_step_def modify_def with_page_def ret_def set_widget_def modifiedStateChanged_def)
  moreover have "unload_warning ?P' = unload_warning ?P" by (rule unload_unregistered) simp
  ultimately show ?thesis by (intro exI [of _ ?P']) (simp add: mark_def modified_def)
qed

section \<open>Examples\<close>

definition sample_page :: "nat page" where
  "sample_page = \<lparr>pg_stores = (\<lambda>_. page_store), pg_next_store = 1, pg_current = 0,
     pg_widgets = (\<lambda>_. \<lparr>w_uri = ''http://h/p'', w_body = Infobit (editable_area [TextNode ''x'']), w_orig = 0, w_modified = False, w_lastSaved = None, w_toAdd = 0\<rparr>),
     pg_next = 2, pg_open = [0, 1], pg_empty = [], pg_child = (\<lambda>_ _. None), pg_session = \<lparr>s_server = 0, s_alerts = []\<rparr>, pg_id = 0, pg_colls = Map.empty\<rparr>"

definition plain_xml :: "dom \<Rightarrow> string" where
  "plain_xml d = ''<p>x</p>''"

lemma sample_kept: "\<forall>st\<in>kept_by ''http://h/p'' (Infobit area) page_store. kept_ok (\<lambda>_. True) {} ''http://h/p'' (Infobit area) st"
  by (simp add: kept_by_def kept_ok_def page_store_def stmt_ok_def quiet_def symbol_toNT_def rdf_type_term_def)

theorem saved_widget_reopens_witness:
  "\<exists>k b'. body_store plain_xml 0 Map.empty ''http://h/p'' page_store (Infobit (editable_area [TextNode ''x''])) = Inr (Some k) \<and>
     open_body ''http://h/p'' k page_store = (Inr b', page_store) \<and> body_view b' = Inl [TextNode ''x'']"
proof -
  have "body_ok ''http://h/p'' (Infobit (editable_area [TextNode ''x'']))" by (simp add: body_ok_def)
  from saved_widget_reopens [OF this _ _ sample_kept, of 0 plain_xml Map.empty page_store] show ?thesis
    by (auto simp: editable_area_def)
qed

text \<open>Where every name is accepted, statements whose predicates have URIs are serialized.\<close>

lemma serialize_total:
  assumes "\<forall>st\<in>set sts. prop_uri (st_predicate st) \<noteq> None"
  shows "\<exists>d. serialize (\<lambda>ns n. True) sts base = Inr d"
proof -
  have one: "\<exists>s'. serialize_statement (\<lambda>ns n. True) base st s = (Inr (), s')" if "prop_uri (st_predicate st) \<noteq> None" for st s
    using that
    by (auto simp: serialize_statement_def Let_def bind_step_def then_step_def add_to_elem_def modify_def create_element_ns_def ret_def
        split: option.splits prod.splits)
  have "\<exists>s'. serialize_loop (\<lambda>ns n. True) base sts s = (Inr (), s')" for s
    using assms
  proof (induction sts arbitrary: s)
    case (Cons st sts)
    then show ?case using one [of st s] by (auto simp: then_step_def bind_step_def)
  qed (simp add: ret_def)
  then show ?thesis by (metis (no_types, lifting) case_prod_conv serialize_def sum.simps(6))
qed

theorem refused_save_counts_witness:
  "\<exists>P'. save_widget (put_direct 1 (\<lambda>req s. ((500, ''full''), s)) plain_xml (\<lambda>ns n. True)) plain_xml 0 sample_page = (Inr (), P') \<and>
     \<not> modified (pg_widgets P' 0) \<and> s_alerts (pg_session P') = [''server returned failure: full'']"
proof -
  let ?area = "editable_area [TextNode ''x'']"
  have K: "\<forall>st\<in>kept_by ''http://h/p'' (Infobit ?area) page_store. stmt_ok (ok_term (\<lambda>_. True) {}) st \<and> quiet (st_predicate st) (st_object st)"
    using sample_kept by (auto simp: kept_ok_def kept_by_def)
  obtain k where k: "infobit_store plain_xml (RDFSymbol ''http://h/p'') ?area (map (heap page_store) (statements page_store)) (new_indexed_formula 0 Map.empty) = (Inr (), k)"
      "\<forall>st\<in>stmts k. st_predicate st = disco ''infoBit'' \<and> st_object st = infobit_literal plain_xml ?area \<or> st_predicate st = rdf_type_term \<or>
        (\<exists>st'\<in>kept_by ''http://h/p'' (Infobit ?area) page_store. st_predicate st = st_predicate st')"
    using infobit_store_plain [OF K, of plain_xml 0 Map.empty, simplified] by (elim exE conjE) (rule that; assumption)
  have k': "body_store plain_xml (pg_id sample_page) (pg_colls sample_page) (w_uri (pg_widgets sample_page 0))
      (pg_stores sample_page (w_orig (pg_widgets sample_page 0))) (w_body (pg_widgets sample_page 0)) = Inr (Some k)"
    using k(1) by (simp add: sample_page_def body_store_def)
  have "prop_uri (st_predicate st) \<noteq> None" if "st \<in> set (store_list k)" for st
  proof -
    have "st \<in> stmts k" using that by (simp add: store_list_def stmts_def)
    moreover have "prop_uri (st_predicate st') \<noteq> None" if "st' \<in> kept_by ''http://h/p'' (Infobit ?area) page_store" for st'
      using that by (auto simp: kept_by_def page_store_def)
    ultimately show ?thesis using k(2) by (fastforce simp: disco_def rdf_type_term_def)
  qed
  then obtain d where d: "serialize (\<lambda>ns n. True) (store_list k) (Some (w_uri (pg_widgets sample_page 0))) = Inr d"
    using serialize_total by blast
  have "\<not> no_collection 500" by (simp add: no_collection_def)
  from refused_save_counts [OF k' d _ _ this, of "\<lambda>req s. ((500, ''full''), s)" "''full''" 1] show ?thesis
    by (auto simp: sample_page_def)
qed

lemma source_edit_unwarned_witness:
  "\<exists>P'. use_source 1 (Inr [TextNode ''y'']) 0 sample_page = (Inr (), P') \<and> modified (pg_widgets P' 0) \<and> unload_warning P' = None"
proof -
  have w: "w_body (pg_widgets sample_page 0) = Infobit (Element (Some ''http://www.w3.org/1999/xhtml'') ''p'' ''p'' [] [TextNode ''x''])"
    by (simp add: sample_page_def editable_area_def)
  have "unload_warning (sample_page\<lparr>pg_open := filter (\<lambda>v. v \<noteq> 0) (pg_open sample_page)\<rparr>) = None"
    by (simp add: unload_warning_def sample_page_def modified_def)
  then show ?thesis using source_edit_unwarned [OF w, of 0 "[TextNode ''y'']"] by auto
qed

theorem unload_counts_modified_witness:
  "\<exists>P. page_run plain_xml (\<lambda>u k p. ret ()) sample_page P \<and> modifiedStateChanged True 0 sample_page = (Inr (), P) \<and>
     unload_warning P = Some ''There is an unsaved discobit.''"
proof -
  obtain P where P: "modifiedStateChanged True 0 sample_page = (Inr (), P)" "pg_open P = [0, 1]" "modified (pg_widgets P 0)"
      "\<not> modified (pg_widgets P 1)"
    by (simp add: modifiedStateChanged_def set_widget_def modify_def sample_page_def modified_def mark_def)
  have run: "page_run plain_xml (\<lambda>u k p. ret ()) sample_page P" by (rule page_run.changed [OF page_run.start P(1)])
  have "registered_once sample_page" by (simp add: registered_once_def sample_page_def)
  moreover have "{w \<in> set (pg_open P). modified (pg_widgets P w)} = {0}" using P(2-4) by auto
  ultimately show ?thesis using unload_counts_modified [OF run] run P(1) by auto
qed

end
