(* ===== verification/Concepts.thy ===== *)
theory Concepts
  imports JsPrelude "HOL-Library.Multiset"
begin

text \<open>
  The scripts of the concept pages: the concepts that have been found and selected
  (\<open>concept-find-create.js\<close>, \<open>selected-concepts.js\<close>) and the table of concept providers
  (\<open>concept-provider-manipulation.js\<close>). What the server's answer says, read by the query library, is
  an argument of the handlers.
\<close>

section \<open>Found and selected concepts\<close>

record concept =
  cc_label :: string
  cc_uri :: string

text \<open>
  The page: the selected concepts, each with whether the script has added it, the concepts found, the
  texts and the areas shown, the calls of the page's callback, and the requests on their way.
\<close>

datatype concept_request = Find string | Create string "string option"

record concept_page =
  cp_selected :: "(bool \<times> concept) list"
  cp_found :: "concept list"
  cp_search_label :: string
  cp_add_label :: string
  cp_found_area :: bool
  cp_user_area :: bool
  cp_description :: string
  cp_called :: "(string \<times> string) list"
  cp_requests :: "concept_request list"
  cp_alerts :: "string list"

type_synonym 'a concept_step = "(concept_page, 'a) js_step"

text \<open>The two hidden inputs have the same name, so that a concept found counts as one that exists.\<close>

definition listed :: "concept_page \<Rightarrow> string list" where
  "listed s = map (cc_uri \<circ> snd) (cp_selected s) @ map cc_uri (cp_found s)"

definition concept_exists :: "string \<Rightarrow> concept_page \<Rightarrow> bool" where
  "concept_exists u s \<longleftrightarrow> u \<in> set (listed s)"

text \<open>The text that \<open>createConceptWidgets\<close> shows for a label, without the quotes of a printed literal.\<close>

definition shown_label :: "string \<Rightarrow> string" where
  "shown_label l = ''PrefLabel: '' @ (if take 1 l = [CHR 0x22] then substring l 1 (int (length l) - 1) else l)"

definition createSystemFoundConcept :: "concept \<Rightarrow> unit concept_step" where
  "createSystemFoundConcept c = modify (\<lambda>s. s\<lparr>cp_found := cp_found s @ [c]\<rparr>)"

definition select_concept :: "concept \<Rightarrow> unit concept_step" where
  "select_concept c = modify (\<lambda>s. s\<lparr>cp_selected := cp_selected s @ [(True, c)]\<rparr>)"

text \<open>
  \<open>addFoundConcepts\<close>; \<open>selection\<close> says whether the page has the script of the selected concepts. A
  concept comes with its label, or none, where the loop throws.
\<close>

fun add_found :: "bool \<Rightarrow> (string \<times> string option) list \<Rightarrow> bool \<Rightarrow> bool concept_step" where
  "add_found selection [] added = ret added"
| "add_found selection ((u, l) # cs) added =
     (\<lambda>s. if \<not> selection \<or> \<not> concept_exists u s then
        (case l of
           None \<Rightarrow> (Inl TypeError, s)
         | Some l \<Rightarrow> then_step (createSystemFoundConcept \<lparr>cc_label = l, cc_uri = u\<rparr>) (add_found selection cs True) s)
      else add_found selection cs added s)"

definition addFoundConcepts :: "bool \<Rightarrow> (string \<times> string option) list \<Rightarrow> unit concept_step" where
  "addFoundConcepts selection cs = bind_step (add_found selection cs False) (\<lambda>added.
     modify (\<lambda>s. s\<lparr>cp_search_label := (if added then ''Concepts found:'' else ''No additional concepts found.'')\<rparr>))"

definition search :: "string \<Rightarrow> unit concept_step" where
  "search t = then_step (modify (\<lambda>s. s\<lparr>cp_found := []\<rparr>))
     (if t \<noteq> [] then modify (\<lambda>s. s\<lparr>cp_requests := cp_requests s @ [Find t]\<rparr>) else ret ())"

text \<open>
  The answer to a search: the number of query results, the concepts of the first one, if it has any,
  and the value of its suggestion.
\<close>

definition search_answered :: "bool \<Rightarrow> string \<Rightarrow> nat \<Rightarrow> (string \<times> string option) list option \<Rightarrow> string option \<Rightarrow> unit concept_step" where
  "search_answered selection t results cs suggested =
     then_step (modify (\<lambda>s. if results \<noteq> 1
         then s\<lparr>cp_alerts := cp_alerts s @ [''The query results did not match what's expected: exactly 1 result'']\<rparr> else s))
     (if results = 0 then throw TypeError
      else then_step (case cs of Some cs \<Rightarrow> addFoundConcepts selection cs | None \<Rightarrow> ret ())
        (then_step (modify (\<lambda>s. s\<lparr>cp_add_label := ''<div>Add '' @ [CHR 0x27] @ t @ [CHR 0x27] @ '' as new Free Concept</div>'', cp_found_area := True\<rparr>))
          (case suggested of
             None \<Rightarrow> throw TypeError
           | Some v \<Rightarrow> modify (\<lambda>s. s\<lparr>cp_user_area := (v = ''true'')\<rparr>))))"

text \<open>\<open>onAddClicked\<close>: the concept is selected, the page told, and its line among the found ones removed.\<close>

definition onAddClicked :: "bool \<Rightarrow> bool \<Rightarrow> nat \<Rightarrow> concept \<Rightarrow> unit concept_step" where
  "onAddClicked selection callback i c =
     then_step (if selection then select_concept c else ret ())
       (modify (\<lambda>s. s\<lparr>cp_called := (if callback then cp_called s @ [(cc_label c, cc_uri c)] else cp_called s),
         cp_found := take i (cp_found s) @ drop (i + 1) (cp_found s)\<rparr>))"

text \<open>The delete button of a line: one that came with the page only removes the line.\<close>

definition onDeleteClicked :: "nat \<Rightarrow> bool \<times> concept \<Rightarrow> unit concept_step" where
  "onDeleteClicked i e = then_step (modify (\<lambda>s. s\<lparr>cp_selected := take i (cp_selected s) @ drop (i + 1) (cp_selected s)\<rparr>))
     (if fst e then createSystemFoundConcept (snd e) else ret ())"

text \<open>
  \<open>ConceptManipulator.addConcept\<close>. The selector of the comment, with the pseudo-class \<open>:textarea\<close> that
  jQuery does not have, finds nothing, and the value is undefined. The callback is looked for in the
  request's options, where there is none.
\<close>

definition addConcept :: "string \<Rightarrow> unit concept_step" where
  "addConcept t = then_step (if t \<noteq> [] then modify (\<lambda>s. s\<lparr>cp_requests := cp_requests s @ [Create t None]\<rparr>) else ret ())
     (modify (\<lambda>s. s\<lparr>cp_user_area := False\<rparr>))"

definition concept_added :: "bool \<Rightarrow> string \<Rightarrow> string \<Rightarrow> unit concept_step" where
  "concept_added selection t u = then_step (modify (\<lambda>s. s\<lparr>cp_description := []\<rparr>))
     (if selection then select_concept \<lparr>cc_label = t, cc_uri = u\<rparr> else ret ())"

section \<open>Providers\<close>

text \<open>
  A provider's row: the type selected, the texts of its fields, the box that marks it, and whether the
  field of the scheme and the fields of the end point, the graph and the query are shown.
\<close>

record provider =
  pr_type :: string
  pr_scheme :: string
  pr_endpoint :: string
  pr_graph :: string
  pr_query :: string
  pr_checked :: bool
  pr_scheme_shown :: bool
  pr_remote_shown :: bool

text \<open>The page: the rows, the last row for a new provider, and the state of the buttons.\<close>

record provider_page =
  pp_rows :: "provider list"
  pp_last :: provider
  pp_delete_inactive :: bool
  pp_isModified :: bool
  pp_posted :: "(string \<times> string) list list"

fun has_local :: "string \<Rightarrow> bool" where
  "has_local s = (index_of s ''Local'' \<noteq> -1)"

definition updateDropDown :: "provider \<Rightarrow> provider" where
  "updateDropDown p = (if has_local (pr_type p) then p\<lparr>pr_scheme_shown := True, pr_remote_shown := False\<rparr>
     else p\<lparr>pr_scheme_shown := False, pr_remote_shown := True\<rparr>)"

definition updateRows :: "provider_page \<Rightarrow> provider_page" where
  "updateRows s = s\<lparr>pp_rows := map updateDropDown (pp_rows s)\<rparr>"

definition updateButtonState :: "provider_page \<Rightarrow> provider_page" where
  "updateButtonState s = s\<lparr>pp_delete_inactive := (filter pr_checked (pp_rows s) = [])\<rparr>"

text \<open>A change of the type of the last row fills in the query.\<close>

definition updateLast :: "string \<Rightarrow> provider_page \<Rightarrow> provider_page" where
  "updateLast query s = s\<lparr>pp_last := (updateDropDown (pp_last s))\<lparr>pr_query := query\<rparr>\<rparr>"

definition page_ready :: "string \<Rightarrow> provider_page \<Rightarrow> provider_page" where
  "page_ready query s = updateButtonState (updateLast query (updateRows s))"

definition type_changed :: "nat \<Rightarrow> string \<Rightarrow> provider_page \<Rightarrow> provider_page" where
  "type_changed i v s = updateRows (s\<lparr>pp_rows := (pp_rows s)[i := (pp_rows s ! i)\<lparr>pr_type := v\<rparr>]\<rparr>)"

definition last_type_changed :: "string \<Rightarrow> string \<Rightarrow> provider_page \<Rightarrow> provider_page" where
  "last_type_changed query v s = updateLast query (s\<lparr>pp_last := (pp_last s)\<lparr>pr_type := v\<rparr>\<rparr>)"

definition box_changed :: "nat \<Rightarrow> bool \<Rightarrow> provider_page \<Rightarrow> provider_page" where
  "box_changed i b s = updateButtonState (s\<lparr>pp_rows := (pp_rows s)[i := (pp_rows s ! i)\<lparr>pr_checked := b\<rparr>]\<rparr>)"

definition deleteClicked :: "provider_page \<Rightarrow> provider_page" where
  "deleteClicked s = s\<lparr>pp_rows := filter (\<lambda>p. \<not> pr_checked p) (pp_rows s), pp_delete_inactive := True, pp_isModified := True\<rparr>"

text \<open>\<open>addProvider\<close>: the new row has the selection of the last row and its texts, which are then emptied.\<close>

definition addProvider :: "provider_page \<Rightarrow> provider_page" where
  "addProvider s = updateRows (s\<lparr>pp_rows := pp_rows s @ [(pp_last s)\<lparr>pr_checked := False, pr_scheme_shown := True, pr_remote_shown := True\<rparr>],
     pp_isModified := True\<rparr>)"

definition addClicked :: "provider_page \<Rightarrow> provider_page" where
  "addClicked s = (addProvider s)\<lparr>pp_last := (pp_last s)\<lparr>pr_scheme := [], pr_endpoint := [], pr_graph := [], pr_query := []\<rparr>\<rparr>"

definition field_changed :: "nat \<Rightarrow> string \<Rightarrow> string \<Rightarrow> string \<Rightarrow> string \<Rightarrow> provider_page \<Rightarrow> provider_page" where
  "field_changed i a b c d s = s\<lparr>pp_rows := (pp_rows s)[i := (pp_rows s ! i)\<lparr>pr_scheme := a, pr_endpoint := b, pr_graph := c, pr_query := d\<rparr>]\<rparr>"

text \<open>
  \<open>serialize\<close> of the form: the named fields in the order of the document, hidden ones too; the box and
  the query of the last row have no name.
\<close>

definition row_fields :: "provider \<Rightarrow> (string \<times> string) list" where
  "row_fields p = [(''types'', pr_type p), (''conceptSchemes'', pr_scheme p), (''sparqlEndPoints'', pr_endpoint p),
     (''defaultGraphs'', pr_graph p), (''queryTemplates'', pr_query p)]"

definition form_fields :: "provider_page \<Rightarrow> (string \<times> string) list" where
  "form_fields s = concat (map row_fields (pp_rows s)) @
     [(''conceptScheme'', pr_scheme (pp_last s)), (''sparqlEndPoint'', pr_endpoint (pp_last s)), (''defaultGraph'', pr_graph (pp_last s))]"

definition saveClicked :: "string \<Rightarrow> provider_page \<Rightarrow> provider_page" where
  "saveClicked label s = (if label = ''Save'' then s\<lparr>pp_posted := pp_posted s @ [form_fields s]\<rparr> else s)"

section \<open>Runs\<close>

text \<open>
  What happens on a page with a selection: searches and their answers in any order, concepts added and
  deleted, and new concepts. The run has the list of the names that the server has answered creations
  with: they may be any, the same twice or that of a concept that is listed already, as the server makes
  a name from the label by leaving out and collapsing characters, and does not ask whether it is taken.
\<close>

inductive concept_run :: "bool \<Rightarrow> concept_page \<Rightarrow> string list \<Rightarrow> concept_page \<Rightarrow> bool" for callback s0 where
  start: "concept_run callback s0 [] s0"
| searched: "concept_run callback s0 us s \<Longrightarrow> search t s = (r, s') \<Longrightarrow> concept_run callback s0 us s'"
| answered: "concept_run callback s0 us s \<Longrightarrow> Find t \<in> set (cp_requests s) \<Longrightarrow>
    search_answered True t results cs suggested (s\<lparr>cp_requests := remove1 (Find t) (cp_requests s)\<rparr>) = (r, s') \<Longrightarrow>
    concept_run callback s0 us s'"
| added: "concept_run callback s0 us s \<Longrightarrow> i < length (cp_found s) \<Longrightarrow> onAddClicked True callback i (cp_found s ! i) s = (r, s') \<Longrightarrow>
    concept_run callback s0 us s'"
| deleted: "concept_run callback s0 us s \<Longrightarrow> i < length (cp_selected s) \<Longrightarrow> onDeleteClicked i (cp_selected s ! i) s = (r, s') \<Longrightarrow>
    concept_run callback s0 us s'"
| asked: "concept_run callback s0 us s \<Longrightarrow> addConcept t s = (r, s') \<Longrightarrow> concept_run callback s0 us s'"
| created: "concept_run callback s0 us s \<Longrightarrow> Create t d \<in> set (cp_requests s) \<Longrightarrow>
    concept_added True t u (s\<lparr>cp_requests := remove1 (Create t d) (cp_requests s)\<rparr>) = (r, s') \<Longrightarrow> concept_run callback s0 (u # us) s'"

lemma listed_simps [simp]:
  "listed (s\<lparr>cp_requests := x\<rparr>) = listed s" "listed (s\<lparr>cp_search_label := a\<rparr>) = listed s" "listed (s\<lparr>cp_add_label := a\<rparr>) = listed s"
  "listed (s\<lparr>cp_alerts := x1\<rparr>) = listed s" "listed (s\<lparr>cp_found_area := b\<rparr>) = listed s" "listed (s\<lparr>cp_user_area := b\<rparr>) = listed s"
  "listed (s\<lparr>cp_called := x2\<rparr>) = listed s" "listed (s\<lparr>cp_description := a\<rparr>) = listed s"
  by (simp_all add: listed_def)

text \<open>
  No concept is listed twice, but for those that creations have been answered with, one more time for each
  answer; and a step that keeps this.
\<close>

definition at_most_once :: "string list \<Rightarrow> string list \<Rightarrow> bool" where
  "at_most_once us xs \<longleftrightarrow> (\<forall>u. count_list xs u \<le> Suc (count_list us u))"

lemma at_most_once_distinct: "distinct xs \<Longrightarrow> at_most_once us xs"
  by (auto simp: at_most_once_def distinct_count_atmost_1 simp flip: count_mset)

lemma at_most_once_subset: "mset xs \<subseteq># mset ys \<Longrightarrow> at_most_once us ys \<Longrightarrow> at_most_once us xs"
  unfolding at_most_once_def count_mset [symmetric] by (meson mset_subset_eq_count order_trans)

lemma at_most_once_perm: "mset xs = mset ys \<Longrightarrow> at_most_once us ys \<Longrightarrow> at_most_once us xs"
  by (rule at_most_once_subset) simp_all

lemma at_most_once_new:
  "at_most_once us xs \<Longrightarrow> u \<notin> set xs \<Longrightarrow> at_most_once us (xs @ [u])"
  "at_most_once us xs \<Longrightarrow> at_most_once (u # us) (xs @ [u])"
  by (auto simp: at_most_once_def)

abbreviation once :: "string list \<Rightarrow> 'a concept_step \<Rightarrow> bool" where
  "once us \<equiv> keeps (\<lambda>s. at_most_once us (listed s))"

lemma onceD: "once us m \<Longrightarrow> m s = (r, s') \<Longrightarrow> at_most_once us (listed s) \<Longrightarrow> at_most_once us (listed s')"
  using keepsD [of "\<lambda>s. at_most_once us (listed s)" m s] by simp

lemma onceI: "(\<And>s r s'. at_most_once us (listed s) \<Longrightarrow> m s = (r, s') \<Longrightarrow> at_most_once us (listed s')) \<Longrightarrow> once us m"
  by (rule keepsI) (metis prod.collapse)

lemma once_modify: "(\<And>s. listed (f s) = listed s) \<Longrightarrow> once us (modify f)"
  by (rule keeps_modify) simp

lemma once_cases:
  "once us m1 \<Longrightarrow> once us m2 \<Longrightarrow> once us (if b then m1 else m2)"
  "once us m1 \<Longrightarrow> (\<And>a. once us (f a)) \<Longrightarrow> once us (case x of None \<Rightarrow> m1 | Some a \<Rightarrow> f a)"
  by (cases b; simp) (cases x; simp)

lemmas once_rules = keeps_bind keeps_then keeps_ret keeps_throw once_cases

lemma once_add_found: "once us (add_found True cs added)"
proof (induction cs arbitrary: added)
  case (Cons c cs)
  obtain u l where c: "c = (u, l)" by (cases c)
  have "at_most_once us (listed s')" if s: "at_most_once us (listed s)" "add_found True (c # cs) added s = (r, s')" for s r s'
  proof (cases "concept_exists u s")
    case True
    then show ?thesis using that c onceD [OF Cons.IH] by simp
  next
    case False
    show ?thesis
    proof (cases l)
      case None
      then show ?thesis using that c False by simp
    next
      case (Some x)
      let ?s = "s\<lparr>cp_found := cp_found s @ [\<lparr>cc_label = x, cc_uri = u\<rparr>]\<rparr>"
      have "mset (listed ?s) = mset (listed s @ [u])" by (simp add: listed_def)
      then have "at_most_once us (listed ?s)"
        using at_most_once_perm at_most_once_new(1) [OF s(1), of u] False by (metis concept_exists_def)
      moreover have "add_found True cs True ?s = (r, s')"
        using s(2) c Some False by (simp add: then_step_def bind_step_def createSystemFoundConcept_def modify_def)
      ultimately show ?thesis using onceD [OF Cons.IH] by blast
    qed
  qed
  then show ?case by (rule onceI)
qed simp

lemma once_answered: "once us (search_answered True t results cs suggested)"
proof -
  have "once us (addFoundConcepts True xs)" for xs
    unfolding addFoundConcepts_def by (intro once_rules once_add_found once_modify) simp
  then show ?thesis
    unfolding search_answered_def
    by (intro once_rules once_modify) simp_all
qed

lemma mset_without: "i < length xs \<Longrightarrow> mset xs = add_mset (xs ! i) (mset (take i xs @ drop (i + 1) xs))"
  by (metis Cons_nth_drop_Suc Suc_eq_plus1 append_take_drop_id mset.simps(2) mset_append union_mset_add_mset_right)

lemma once_search: "once us (search t)"
proof -
  have "once us (modify (\<lambda>s. s\<lparr>cp_found := []\<rparr>))" by (rule keeps_modify) (auto simp: listed_def at_most_once_def intro: add_leD1)
  moreover have "once us (modify (\<lambda>s. s\<lparr>cp_requests := cp_requests s @ [Find t]\<rparr>))" by (intro once_modify) simp
  ultimately show ?thesis unfolding search_def by (intro once_rules)
qed

lemma once_addConcept: "once us (addConcept t)"
  unfolding addConcept_def by (intro once_rules once_modify) simp_all

lemma added_effect:
  "onAddClicked True callback i c s = (r, s') \<Longrightarrow> i < length (cp_found s) \<Longrightarrow> c = cp_found s ! i \<Longrightarrow>
    cp_selected s' = cp_selected s @ [(True, c)] \<and> cp_found s' = take i (cp_found s) @ drop (i + 1) (cp_found s) \<and>
    mset (listed s') = mset (listed s)"
  using mset_without [of i "map cc_uri (cp_found s)"]
  by (auto simp: onAddClicked_def then_step_def bind_step_def select_concept_def modify_def listed_def take_map drop_map)

lemma deleted_effect:
  assumes "onDeleteClicked i e s = (r, s')" "i < length (cp_selected s)" "e = cp_selected s ! i"
  shows "cp_selected s' = take i (cp_selected s) @ drop (i + 1) (cp_selected s)"
    "fst e \<Longrightarrow> cp_found s' = cp_found s @ [snd e] \<and> mset (listed s') = mset (listed s)"
    "mset (listed s') \<subseteq># mset (listed s)"
  using assms mset_without [of i "map (cc_uri \<circ> snd) (cp_selected s)"]
  by (auto simp: onDeleteClicked_def then_step_def bind_step_def createSystemFoundConcept_def modify_def ret_def listed_def take_map drop_map
      split: if_splits)

lemma run_once: "concept_run callback s0 us s \<Longrightarrow> distinct (listed s0) \<Longrightarrow> at_most_once us (listed s)"
proof (induction rule: concept_run.induct)
  case start
  then show ?case by (rule at_most_once_distinct)
next
  case (searched us s t r s')
  then show ?case using onceD [OF once_search] by blast
next
  case (answered us s t results cs suggested r s')
  then show ?case using onceD [OF once_answered answered.hyps(3)] by simp
next
  case (added us s i r s')
  then show ?case using added_effect at_most_once_perm by (metis (no_types, lifting))
next
  case (deleted us s i r s')
  then show ?case using deleted_effect(3) at_most_once_subset by blast
next
  case (asked us s t r s')
  then show ?case using onceD [OF once_addConcept] by blast
next
  case (created us s t d u r s')
  have "listed s' = map (cc_uri \<circ> snd) (cp_selected s) @ [u] @ map cc_uri (cp_found s)"
    using created.hyps(3) by (auto simp: concept_added_def then_step_def bind_step_def select_concept_def modify_def listed_def)
  then have "mset (listed s') = mset (listed s @ [u])" by (simp add: listed_def)
  then show ?case using created at_most_once_perm at_most_once_new(2) by blast
qed

text \<open>What happens on the page of the providers, once it is ready.\<close>

inductive provider_run :: "string \<Rightarrow> provider_page \<Rightarrow> provider_page \<Rightarrow> bool" for query s0 where
  ready: "provider_run query s0 (page_ready query s0)"
| type_changed: "provider_run query s0 s \<Longrightarrow> i < length (pp_rows s) \<Longrightarrow> provider_run query s0 (type_changed i v s)"
| last_type_changed: "provider_run query s0 s \<Longrightarrow> provider_run query s0 (last_type_changed query v s)"
| box_changed: "provider_run query s0 s \<Longrightarrow> i < length (pp_rows s) \<Longrightarrow> provider_run query s0 (box_changed i b s)"
| field_changed: "provider_run query s0 s \<Longrightarrow> i < length (pp_rows s) \<Longrightarrow> provider_run query s0 (field_changed i a b c d s)"
| delete_clicked: "provider_run query s0 s \<Longrightarrow> provider_run query s0 (deleteClicked s)"
| add_clicked: "provider_run query s0 s \<Longrightarrow> provider_run query s0 (addClicked s)"
| save_clicked: "provider_run query s0 s \<Longrightarrow> provider_run query s0 (saveClicked label s)"

definition row_shown :: "provider \<Rightarrow> bool" where
  "row_shown p \<longleftrightarrow> pr_scheme_shown p = has_local (pr_type p) \<and> pr_remote_shown p = (\<not> has_local (pr_type p))"

definition page_shown :: "provider_page \<Rightarrow> bool" where
  "page_shown s \<longleftrightarrow> (\<forall>p \<in> set (pp_rows s). row_shown p) \<and> row_shown (pp_last s) \<and>
     pp_delete_inactive s = (\<forall>p \<in> set (pp_rows s). \<not> pr_checked p)"

lemma updateDropDown_shown [simp]: "row_shown (updateDropDown p)"
  by (simp add: updateDropDown_def row_shown_def)

lemma updateDropDown_keeps [simp]:
  "pr_type (updateDropDown p) = pr_type p" "pr_scheme (updateDropDown p) = pr_scheme p" "pr_endpoint (updateDropDown p) = pr_endpoint p"
  "pr_graph (updateDropDown p) = pr_graph p" "pr_query (updateDropDown p) = pr_query p" "pr_checked (updateDropDown p) = pr_checked p"
  by (simp_all add: updateDropDown_def)

lemma row_shown_simps [simp]:
  "row_shown (p\<lparr>pr_query := q\<rparr>) = row_shown p" "row_shown (p\<lparr>pr_scheme := a\<rparr>) = row_shown p" "row_shown (p\<lparr>pr_endpoint := a\<rparr>) = row_shown p"
  "row_shown (p\<lparr>pr_graph := a\<rparr>) = row_shown p" "row_shown (p\<lparr>pr_checked := b\<rparr>) = row_shown p"
  by (simp_all add: row_shown_def)

lemma row_in_update: "i < length xs \<Longrightarrow> (\<forall>p \<in> set xs. P p) \<Longrightarrow> P v \<Longrightarrow> (\<forall>p \<in> set (xs[i := v]). P p)"
  by (auto dest: set_update_subset_insert [THEN subsetD])

text \<open>A row put in the place of one that is marked like it does not change whether any is.\<close>

lemma marked_update:
  assumes "i < length xs" "pr_checked v = pr_checked (xs ! i)"
  shows "(\<forall>p \<in> set (xs[i := v]). \<not> pr_checked p) = (\<forall>p \<in> set xs. \<not> pr_checked p)"
proof -
  have "map pr_checked (xs[i := v]) = map pr_checked xs" using assms by (simp add: map_update) (metis list_update_id nth_map)
  then have "set (map pr_checked (xs[i := v])) = set (map pr_checked xs)" by simp
  then show ?thesis by (simp only: set_map) (metis (mono_tags, lifting) imageE image_eqI)
qed

lemma ready_shown: "page_shown (page_ready query s)"
  by (auto simp: page_shown_def page_ready_def updateButtonState_def updateLast_def updateRows_def filter_empty_conv)

lemma type_changed_shown: "page_shown s \<Longrightarrow> i < length (pp_rows s) \<Longrightarrow> page_shown (type_changed i v s)"
  using marked_update [of i "pp_rows s" "(pp_rows s ! i)\<lparr>pr_type := v\<rparr>"]
  by (simp add: page_shown_def type_changed_def updateRows_def)

lemma box_changed_shown: "page_shown s \<Longrightarrow> i < length (pp_rows s) \<Longrightarrow> page_shown (box_changed i b s)"
  using row_in_update [of i "pp_rows s" row_shown "(pp_rows s ! i)\<lparr>pr_checked := b\<rparr>"]
  by (auto simp: page_shown_def box_changed_def updateButtonState_def filter_empty_conv)

lemma field_changed_shown: "page_shown s \<Longrightarrow> i < length (pp_rows s) \<Longrightarrow> page_shown (field_changed i a b c d s)"
  using marked_update [of i "pp_rows s" "(pp_rows s ! i)\<lparr>pr_scheme := a, pr_endpoint := b, pr_graph := c, pr_query := d\<rparr>"]
    row_in_update [of i "pp_rows s" row_shown "(pp_rows s ! i)\<lparr>pr_scheme := a, pr_endpoint := b, pr_graph := c, pr_query := d\<rparr>"]
  by (simp add: page_shown_def field_changed_def)

lemma clicked_shown:
  "page_shown s \<Longrightarrow> page_shown (deleteClicked s)" "page_shown s \<Longrightarrow> page_shown (addClicked s)"
  "page_shown s \<Longrightarrow> page_shown (saveClicked label s)" "page_shown s \<Longrightarrow> page_shown (last_type_changed query v s)"
  by (auto simp: page_shown_def deleteClicked_def addClicked_def addProvider_def updateRows_def saveClicked_def
      last_type_changed_def updateLast_def)

lemma run_shown: "provider_run query s0 s \<Longrightarrow> page_shown s"
  by (induction rule: provider_run.induct)
    (auto intro: ready_shown type_changed_shown box_changed_shown field_changed_shown clicked_shown)

text \<open>The values of the fields of a name among those that are posted, as the server reads them.\<close>

definition posted_values :: "string \<Rightarrow> (string \<times> string) list \<Rightarrow> string list" where
  "posted_values n fs = map snd (filter (\<lambda>f. fst f = n) fs)"

lemma posted_rows:
  "posted_values ''types'' (concat (map row_fields ps)) = map pr_type ps"
  "posted_values ''conceptSchemes'' (concat (map row_fields ps)) = map pr_scheme ps"
  "posted_values ''sparqlEndPoints'' (concat (map row_fields ps)) = map pr_endpoint ps"
  "posted_values ''defaultGraphs'' (concat (map row_fields ps)) = map pr_graph ps"
  "posted_values ''queryTemplates'' (concat (map row_fields ps)) = map pr_query ps"
  by (induction ps) (simp_all add: posted_values_def row_fields_def)

lemma posted_append: "posted_values n (fs @ gs) = posted_values n fs @ posted_values n gs"
  by (simp add: posted_values_def)

section \<open>What the server keeps of the providers\<close>

text \<open>
  \<open>SimpleConceptProviderManager\<close>: the triples of each provider's node, in the order of the list, and
  the providers made from them. A list read out of its range, and a value of another kind, throw.
\<close>

datatype kept_value = KUri string | KText string

datatype concept_provider = LocalConceptProvider string | RemoteConceptProvider string "string option" string

abbreviation local_type :: string where
  "local_type \<equiv> ''http://clerezza.org/2010/01/concepts#LocalConceptProvider''"

definition java_get :: "'a list \<Rightarrow> nat \<Rightarrow> 'a option" where
  "java_get xs i = (if i < length xs then Some (xs ! i) else None)"

text \<open>\<open>trim\<close> takes the characters up to the space off both ends.\<close>

definition trims_to_empty :: "string \<Rightarrow> bool" where
  "trims_to_empty s = list_all (\<lambda>c. of_char c \<le> (32 :: nat)) s"

definition updateConceptProvider ::
    "string list \<Rightarrow> string list \<Rightarrow> string list \<Rightarrow> string list \<Rightarrow> string list \<Rightarrow> nat \<Rightarrow> (string \<times> kept_value) list option" where
  "updateConceptProvider types sparqlEndPoints defaultGraphs queryTemplates conceptSchemes i =
     Option.bind (java_get types i) (\<lambda>ty.
       if ty = local_type
       then map_option (\<lambda>c. [(''type'', KUri ty), (''selectedScheme'', KUri c)]) (java_get conceptSchemes i)
       else Option.bind (java_get sparqlEndPoints i) (\<lambda>e. Option.bind (java_get defaultGraphs i) (\<lambda>g.
         map_option (\<lambda>q. [(''type'', KUri ty), (''sparqlEndPoint'', KUri e)] @
           (if \<not> trims_to_empty g then [(''defaultGraph'', KUri g)] else []) @ [(''queryTemplate'', KText q)])
         (java_get queryTemplates i))))"

definition updateConceptProviders ::
    "string list \<Rightarrow> string list \<Rightarrow> string list \<Rightarrow> string list \<Rightarrow> string list \<Rightarrow> (string \<times> kept_value) list list option" where
  "updateConceptProviders types sparqlEndPoints defaultGraphs queryTemplates conceptSchemes =
     those (map (updateConceptProvider types sparqlEndPoints defaultGraphs queryTemplates conceptSchemes) [0..<length types])"

fun as_uri :: "kept_value \<Rightarrow> string option" where
  "as_uri (KUri u) = Some u"
| "as_uri (KText t) = None"

fun as_text :: "kept_value \<Rightarrow> string option" where
  "as_text (KText t) = Some t"
| "as_text (KUri u) = None"

definition instantiateLocalConceptProvider :: "(string \<times> kept_value) list \<Rightarrow> concept_provider list option" where
  "instantiateLocalConceptProvider ts = (case map_of ts ''selectedScheme'' of
     None \<Rightarrow> Some []
   | Some v \<Rightarrow> map_option (\<lambda>u. [LocalConceptProvider u]) (as_uri v))"

definition instantiateRemoteConceptProvider :: "(string \<times> kept_value) list \<Rightarrow> concept_provider list option" where
  "instantiateRemoteConceptProvider ts = (case map_of ts ''sparqlEndPoint'' of
     None \<Rightarrow> Some []
   | Some v \<Rightarrow> Option.bind (as_uri v) (\<lambda>e.
       Option.bind (case map_of ts ''defaultGraph'' of None \<Rightarrow> Some None | Some g \<Rightarrow> map_option Some (as_uri g)) (\<lambda>g.
         (case map_of ts ''queryTemplate'' of
            None \<Rightarrow> Some []
          | Some q \<Rightarrow> map_option (\<lambda>q. [RemoteConceptProvider e g q]) (as_text q)))))"

definition instantiateConceptProvider :: "(string \<times> kept_value) list \<Rightarrow> concept_provider list option" where
  "instantiateConceptProvider ts = (case map_of ts ''type'' of
     None \<Rightarrow> Some []
   | Some v \<Rightarrow> Option.bind (as_uri v) (\<lambda>ty.
       if ty = local_type then instantiateLocalConceptProvider ts else instantiateRemoteConceptProvider ts))"

definition instantiateConceptProviders :: "(string \<times> kept_value) list list \<Rightarrow> concept_provider list option" where
  "instantiateConceptProviders ns = map_option concat (those (map instantiateConceptProvider ns))"

text \<open>A form that is posted, as the five lists of its parameters.\<close>

definition post_providers :: "(string \<times> string) list \<Rightarrow> (string \<times> kept_value) list list option" where
  "post_providers fs = updateConceptProviders (posted_values ''types'' fs) (posted_values ''sparqlEndPoints'' fs)
     (posted_values ''defaultGraphs'' fs) (posted_values ''queryTemplates'' fs) (posted_values ''conceptSchemes'' fs)"

text \<open>What a row says.\<close>

definition row_triples :: "provider \<Rightarrow> (string \<times> kept_value) list" where
  "row_triples p = (if pr_type p = local_type then [(''type'', KUri (pr_type p)), (''selectedScheme'', KUri (pr_scheme p))]
     else [(''type'', KUri (pr_type p)), (''sparqlEndPoint'', KUri (pr_endpoint p))] @
       (if \<not> trims_to_empty (pr_graph p) then [(''defaultGraph'', KUri (pr_graph p))] else []) @
       [(''queryTemplate'', KText (pr_query p))])"

definition row_provider :: "provider \<Rightarrow> concept_provider" where
  "row_provider p = (if pr_type p = local_type then LocalConceptProvider (pr_scheme p)
     else RemoteConceptProvider (pr_endpoint p) (if trims_to_empty (pr_graph p) then None else Some (pr_graph p)) (pr_query p))"

lemma those_map_Some: "(\<And>x. x \<in> set xs \<Longrightarrow> f x = Some (g x)) \<Longrightarrow> those (map f xs) = Some (map g xs)"
  by (induction xs) auto

lemma form_values:
  "posted_values ''types'' (form_fields s) = map pr_type (pp_rows s)"
  "posted_values ''conceptSchemes'' (form_fields s) = map pr_scheme (pp_rows s)"
  "posted_values ''sparqlEndPoints'' (form_fields s) = map pr_endpoint (pp_rows s)"
  "posted_values ''defaultGraphs'' (form_fields s) = map pr_graph (pp_rows s)"
  "posted_values ''queryTemplates'' (form_fields s) = map pr_query (pp_rows s)"
  unfolding form_fields_def posted_append posted_rows by (simp_all add: posted_values_def)

lemma post_form: "post_providers (form_fields s) = Some (map row_triples (pp_rows s))"
proof -
  have "post_providers (form_fields s) = Some (map (\<lambda>i. row_triples (pp_rows s ! i)) [0..<length (pp_rows s)])"
    unfolding post_providers_def updateConceptProviders_def form_values length_map
    by (rule those_map_Some) (auto simp: updateConceptProvider_def java_get_def row_triples_def)
  moreover have "map (\<lambda>i. row_triples (pp_rows s ! i)) [0..<length (pp_rows s)] = map row_triples (pp_rows s)"
    by (rule nth_equalityI) simp_all
  ultimately show ?thesis by simp
qed

lemma instantiate_row: "instantiateConceptProvider (row_triples p) = Some [row_provider p]"
  by (auto simp: instantiateConceptProvider_def row_triples_def row_provider_def instantiateLocalConceptProvider_def
      instantiateRemoteConceptProvider_def)

lemma instantiate_rows: "instantiateConceptProviders (map row_triples ps) = Some (map row_provider ps)"
  using those_map_Some [of ps "instantiateConceptProvider \<circ> row_triples" "\<lambda>p. [row_provider p]"]
  by (simp add: instantiateConceptProviders_def instantiate_row)

lemma save_keeps_modified: "pp_isModified (saveClicked label s) = pp_isModified s"
  by (simp add: saveClicked_def)

text \<open>Selecting a concept that was found and deleting it again lists the same concepts.\<close>

lemma add_delete_listed:
  assumes "i < length (cp_found s)" "onAddClicked True callback i (cp_found s ! i) s = (r, s1)"
    "onDeleteClicked (length (cp_selected s)) (cp_selected s1 ! length (cp_selected s)) s1 = (r', s2)"
  shows "cp_selected s2 = cp_selected s \<and> mset (listed s2) = mset (listed s)"
proof -
  let ?n = "length (cp_selected s)"
  have a: "cp_selected s1 = cp_selected s @ [(True, cp_found s ! i)]" "mset (listed s1) = mset (listed s)"
    using added_effect [OF assms(2,1) refl] by simp_all
  then have n: "?n < length (cp_selected s1)" and e: "fst (cp_selected s1 ! ?n)" by simp_all
  show ?thesis
    using deleted_effect(1) [OF assms(3) n refl] deleted_effect(2) [OF assms(3) n refl e] a by simp
qed

section \<open>Properties\<close>

text \<open>
  C33. However searches, their answers, additions, deletions and creations of concepts
  follow each other on a page with a selection that lists no concept twice at the start, no
  concept is listed twice, among the selected ones, the found ones or both, unless the
  server has answered a creation with it: a concept is listed at most once more than
  creations have been answered with it.
\<close>

theorem concepts_listed_once:
  assumes "concept_run callback s0 us s" "distinct (listed s0)"
  shows "count_list (map (cc_uri \<circ> snd) (cp_selected s) @ map cc_uri (cp_found s)) u \<le> Suc (count_list us u)"
  using run_once [OF assms] by (simp add: listed_def at_most_once_def)

definition empty_page :: concept_page where
  "empty_page = \<lparr>cp_selected = [(False, \<lparr>cc_label = ''a'', cc_uri = ''u:a''\<rparr>)], cp_found = [], cp_search_label = [], cp_add_label = [],
     cp_found_area = False, cp_user_area = False, cp_description = [], cp_called = [], cp_requests = [Find ''a''], cp_alerts = []\<rparr>"

definition answered_page :: concept_page where
  "answered_page = snd (search_answered True ''a'' 1 (Some [(''u:a'', Some ''a''), (''u:b'', Some ''ab'')]) (Some ''true'')
     (empty_page\<lparr>cp_requests := []\<rparr>))"

lemma answered_page_run: "concept_run False empty_page [] answered_page"
proof (rule concept_run.answered [OF concept_run.start])
  show "Find ''a'' \<in> set (cp_requests empty_page)" by (simp add: empty_page_def)
  show "search_answered True ''a'' 1 (Some [(''u:a'', Some ''a''), (''u:b'', Some ''ab'')]) (Some ''true'')
      (empty_page\<lparr>cp_requests := remove1 (Find ''a'') (cp_requests empty_page)\<rparr>) =
    (fst (search_answered True ''a'' 1 (Some [(''u:a'', Some ''a''), (''u:b'', Some ''ab'')]) (Some ''true'') (empty_page\<lparr>cp_requests := []\<rparr>)), answered_page)"
    by (simp add: answered_page_def empty_page_def)
qed

theorem concepts_listed_once_witness:
  "cp_found answered_page = [\<lparr>cc_label = ''ab'', cc_uri = ''u:b''\<rparr>] \<and>
   count_list (map (cc_uri \<circ> snd) (cp_selected answered_page) @ map cc_uri (cp_found answered_page)) ''u:a'' \<le> Suc 0"
proof (intro conjI)
  show "cp_found answered_page = [\<lparr>cc_label = ''ab'', cc_uri = ''u:b''\<rparr>]" by code_simp
  have "distinct (listed empty_page)" by (simp add: empty_page_def listed_def)
  from concepts_listed_once [OF answered_page_run this, of "''u:a''"]
  show "count_list (map (cc_uri \<circ> snd) (cp_selected answered_page) @ map cc_uri (cp_found answered_page)) ''u:a'' \<le> Suc 0" by simp
qed

text \<open>
  A concept can be listed twice: the labels \<open>a b\<close> and \<open>a  b\<close> are created one after the other, and the
  server answers with the same name for both.
\<close>

lemma created_concept_listed_twice:
  "\<exists>s. concept_run False empty_page [''u:a-b'', ''u:a-b''] s \<and> count_list (listed s) ''u:a-b'' = 2"
proof -
  define s1 where "s1 = snd (addConcept ''a  b'' (snd (addConcept ''a b'' empty_page)))"
  define s2 where "s2 = snd (concept_added True ''a b'' ''u:a-b'' (s1\<lparr>cp_requests := remove1 (Create ''a b'' None) (cp_requests s1)\<rparr>))"
  define s3 where "s3 = snd (concept_added True ''a  b'' ''u:a-b'' (s2\<lparr>cp_requests := remove1 (Create ''a  b'' None) (cp_requests s2)\<rparr>))"
  note run = concept_run.asked [OF concept_run.asked [OF concept_run.start]]
  have "concept_run False empty_page [] s1" unfolding s1_def by (rule run) (simp_all add: prod_eq_iff)
  moreover have "Create ''a b'' None \<in> set (cp_requests s1)" "Create ''a  b'' None \<in> set (cp_requests s2)"
    by (simp_all add: s1_def s2_def addConcept_def concept_added_def select_concept_def then_step_def bind_step_def modify_def empty_page_def)
  moreover from calculation have s2: "concept_run False empty_page [''u:a-b''] s2"
    unfolding s2_def by (intro concept_run.created [OF _ _ prod.collapse [symmetric]])
  ultimately have "concept_run False empty_page [''u:a-b'', ''u:a-b''] s3"
    unfolding s3_def by (intro concept_run.created [OF s2 _ prod.collapse [symmetric]])
  moreover have "count_list (listed s3) ''u:a-b'' = 2" unfolding s3_def s2_def s1_def by code_simp
  ultimately show ?thesis by blast
qed

text \<open>
  However the form of the providers is used once it is ready, every row, the last one too, shows the
  field of the scheme exactly if its type is a local provider and the fields of the remote provider
  otherwise, and the button that deletes is inactive exactly if no row is marked.
\<close>

lemma provider_form_consistent:
  assumes "provider_run query s0 s"
  shows "(\<forall>p \<in> set (pp_rows s) \<union> {pp_last s}. pr_scheme_shown p = has_local (pr_type p) \<and> pr_remote_shown p \<noteq> pr_scheme_shown p) \<and>
    pp_delete_inactive s = (\<forall>p \<in> set (pp_rows s). \<not> pr_checked p)"
  using run_shown [OF assms] by (simp add: page_shown_def row_shown_def)

definition remote_row :: provider where
  "remote_row = \<lparr>pr_type = ''http://clerezza.org/2010/01/concepts#RemoteConceptProvider'', pr_scheme = [], pr_endpoint = ''http://e/sparql'',
     pr_graph = '' '', pr_query = ''q'', pr_checked = False, pr_scheme_shown = True, pr_remote_shown = True\<rparr>"

definition one_row_page :: provider_page where
  "one_row_page = \<lparr>pp_rows = [remote_row], pp_last = remote_row\<lparr>pr_type := local_type\<rparr>, pp_delete_inactive = False,
     pp_isModified = False, pp_posted = []\<rparr>"

lemma provider_form_consistent_witness:
  "let s = box_changed 1 True (addClicked (page_ready ''q'' one_row_page)) in
   map pr_scheme_shown (pp_rows s) = [False, True] \<and> pp_delete_inactive s = (\<forall>p \<in> set (pp_rows s). \<not> pr_checked p)"
proof -
  let ?s = "box_changed 1 True (addClicked (page_ready ''q'' one_row_page))"
  have "provider_run ''q'' one_row_page ?s"
    by (rule provider_run.box_changed [OF provider_run.add_clicked [OF provider_run.ready]])
      (simp add: addClicked_def addProvider_def updateRows_def page_ready_def updateButtonState_def updateLast_def one_row_page_def)
  from provider_form_consistent [OF this] have "pp_delete_inactive ?s = (\<forall>p \<in> set (pp_rows ?s). \<not> pr_checked p)" by (rule conjunct2)
  moreover have "map pr_scheme_shown (pp_rows ?s) = [False, True]" by code_simp
  ultimately show ?thesis by (simp add: Let_def)
qed

text \<open>
  C32. The form that \<open>Save\<close> posts, read by the server as five lists by position, keeps one node for every
  row, in order, and the providers that the server then makes are those of the rows: hidden fields keep
  the lists aligned, whatever rows are shown, and the last row adds nothing to them.
\<close>

theorem providers_posted_and_kept:
  "post_providers (form_fields s) = Some (map row_triples (pp_rows s)) \<and>
   Option.bind (post_providers (form_fields s)) instantiateConceptProviders = Some (map row_provider (pp_rows s))"
  by (simp add: post_form instantiate_rows)

end
