(* ===== verification/RdfPage.thy ===== *)
theory RdfPage
  imports Curie
begin

text \<open>
  \<open>jquery.rdfquery.core-1.0.js\<close>, lines 327 to 497 and 2772 to 2817: the namespaces in scope of the
  elements of a page, which jQuery's data of the elements caches, the names and CURIEs read with them,
  and the gleaners, which are given to the library by other modules. An element is its path in the
  tree, the position among the children of its parent first, and the root has the empty path.
\<close>

section \<open>Namespaces in scope\<close>

type_synonym element = "nat list"

type_synonym bindings = "(string \<times> uri) list"

text \<open>
  The attributes of each element in their order, the names of the elements, the cache of each element,
  whether the tree hangs in a document, and the table of URIs.
\<close>

record rdf_page =
  pg_attrs :: "element \<Rightarrow> (string \<times> string) list"
  pg_name :: "element \<Rightarrow> string"
  pg_xmlns :: "element \<Rightarrow> bindings option"
  pg_attached :: bool
  pg_uris :: uri_mem

type_synonym 'a page_step = "(rdf_page, 'a) js_step"

definition reserved_namespaces :: "string list" where
  "reserved_namespaces = [''http://www.w3.org/XML/1998/namespace'', ''http://www.w3.org/2000/xmlns/'']"

text \<open>
  \<open>ncNameRegex\<close> for the codes up to 255. The text of \<open>ncNameChar\<close> has \<open>\u10000-\uEFFFF\<close>, which is the
  range from 0 to the code EFFF: it holds all characters from 0 on.
\<close>

definition ncNameStartChar :: "char \<Rightarrow> bool" where
  "ncNameStartChar c = (let n = of_char c :: nat in
     65 \<le> n \<and> n \<le> 90 \<or> 97 \<le> n \<and> n \<le> 122 \<or> 192 \<le> n \<and> n \<le> 214 \<or> 216 \<le> n \<and> n \<le> 246 \<or> 248 \<le> n \<or> n = 95)"

definition ncNameChar :: "char \<Rightarrow> bool" where
  "ncNameChar c = (let n = of_char c :: nat in n = 45 \<or> n = 46 \<or> 48 \<le> n)"

definition ncName :: "string \<Rightarrow> bool" where
  "ncName s = (case s of [] \<Rightarrow> False | c # cs \<Rightarrow> ncNameStartChar c \<and> list_all ncNameChar cs)"

text \<open>\<open>/^xmlns(:(.+))?$/\<close>: the prefix that an attribute declares.\<close>

definition decl_prefix :: "string \<Rightarrow> string option" where
  "decl_prefix n =
     (if n = ''xmlns'' then Some []
      else if prefix ''xmlns:'' n \<and> 6 < length n \<and> no_lines (drop 6 n) then Some (drop 6 n) else None)"

definition declares :: "string \<Rightarrow> string \<Rightarrow> bool" where
  "declares p v \<longleftrightarrow> p = [] \<or> v \<noteq> [] \<and> v \<notin> set reserved_namespaces \<and> ncName p \<and> p \<noteq> ''xml'' \<and> p \<noteq> ''xmlns''"

text \<open>Setting a property of an object, and \<open>$.extend({}, inherited, ns)\<close>.\<close>

fun put_binding :: "string \<Rightarrow> 'b \<Rightarrow> (string \<times> 'b) list \<Rightarrow> (string \<times> 'b) list" where
  "put_binding p u [] = [(p, u)]"
| "put_binding p u ((q, v) # bs) = (if q = p then (p, u) # bs else (q, v) # put_binding p u bs)"

definition extend_bindings :: "(string \<times> 'b) list \<Rightarrow> (string \<times> 'b) list \<Rightarrow> (string \<times> 'b) list" where
  "extend_bindings inherited ns = fold (\<lambda>(p, u). put_binding p u) ns inherited"

text \<open>The loop over the attributes of an element.\<close>

fun declared :: "uri \<Rightarrow> (string \<times> string) list \<Rightarrow> bindings \<Rightarrow> (uri_mem, bindings) js_step" where
  "declared doc [] ns = ret ns"
| "declared doc ((n, v) # as) ns =
     (case decl_prefix n of
        None \<Rightarrow> declared doc as ns
      | Some p \<Rightarrow> if declares p v then bind_step (the_uri doc v No_base) (\<lambda>u. declared doc as (put_binding p u ns))
          else declared doc as ns)"

definition on_uris :: "(uri_mem, 'a) js_step \<Rightarrow> 'a page_step" where
  "on_uris m s = (case m (pg_uris s) of (r, mem) \<Rightarrow> (r, s\<lparr>pg_uris := mem\<rparr>))"

definition cache_xmlns :: "element \<Rightarrow> bindings \<Rightarrow> bindings page_step" where
  "cache_xmlns e ns = then_step (modify (\<lambda>s. s\<lparr>pg_xmlns := (pg_xmlns s)(e \<mapsto> ns)\<rparr>)) (ret ns)"

definition in_scope :: "uri \<Rightarrow> element \<Rightarrow> bindings page_step \<Rightarrow> bindings page_step" where
  "in_scope doc e inherited s = (case pg_xmlns s e of
     Some ns \<Rightarrow> (Inr ns, s)
   | None \<Rightarrow> bind_step (on_uris (declared doc (pg_attrs s e) [])) (\<lambda>ns.
       bind_step inherited (\<lambda>inh. cache_xmlns e (if ns \<noteq> [] then extend_bindings inh ns else inh))) s)"

text \<open>\<open>xmlns()\<close> on an element; a tree that hangs nowhere has no \<open>parentNode\<close> to ask.\<close>

fun xmlns_all :: "uri \<Rightarrow> element \<Rightarrow> bindings page_step" where
  "xmlns_all doc [] = in_scope doc [] (\<lambda>s. if pg_attached s then (Inr [], s) else (Inl TypeError, s))"
| "xmlns_all doc (i # p) = in_scope doc (i # p) (xmlns_all doc p)"

text \<open>The same with bindings given as the inherited ones.\<close>

definition xmlns_inherited :: "uri \<Rightarrow> bindings \<Rightarrow> element \<Rightarrow> bindings page_step" where
  "xmlns_inherited doc inherited e = in_scope doc e (ret inherited)"

definition first_xmlns :: "uri \<Rightarrow> element list \<Rightarrow> bindings page_step" where
  "first_xmlns doc sel = (case sel of [] \<Rightarrow> throw TypeError | e # _ \<Rightarrow> xmlns_all doc e)"

definition xmlns_get :: "uri \<Rightarrow> string \<Rightarrow> element list \<Rightarrow> uri option page_step" where
  "xmlns_get doc p sel = bind_step (first_xmlns doc sel) (\<lambda>ns. ret (map_of ns p))"

text \<open>\<open>this.find('*').andSelf().removeData('xmlns')\<close>: the elements below those of the selection have their paths as suffix.\<close>

definition clear_xmlns :: "element list \<Rightarrow> rdf_page \<Rightarrow> rdf_page" where
  "clear_xmlns sel s = s\<lparr>pg_xmlns := (\<lambda>e. if \<exists>a \<in> set sel. suffix a e then None else pg_xmlns s e)\<rparr>"

definition decl_name :: "string \<Rightarrow> string" where
  "decl_name p = (if p = [] then ''xmlns'' else ''xmlns:'' @ p)"

definition on_attrs :: "((string \<times> string) list \<Rightarrow> (string \<times> string) list) \<Rightarrow> element list \<Rightarrow> rdf_page \<Rightarrow> rdf_page" where
  "on_attrs f sel s = s\<lparr>pg_attrs := (\<lambda>e. if e \<in> set sel then f (pg_attrs s e) else pg_attrs s e)\<rparr>"

definition xmlns_set :: "string \<Rightarrow> string \<Rightarrow> element list \<Rightarrow> rdf_page \<Rightarrow> rdf_page" where
  "xmlns_set p u sel s = on_attrs (put_binding (decl_name p) u) sel (clear_xmlns sel s)"

text \<open>An object of bindings: values that are not strings, the \<open>None\<close>s, are passed over.\<close>

definition xmlns_map :: "(string \<times> string option) list \<Rightarrow> element list \<Rightarrow> rdf_page \<Rightarrow> rdf_page" where
  "xmlns_map ps sel s = clear_xmlns sel (fold (\<lambda>(p, v) s. case v of
     Some u \<Rightarrow> if ncName p then xmlns_set p u sel s else s | None \<Rightarrow> s) ps s)"

definition removeXmlns :: "string \<Rightarrow> element list \<Rightarrow> rdf_page \<Rightarrow> rdf_page" where
  "removeXmlns p sel s = clear_xmlns sel (on_attrs (filter (\<lambda>a. fst a \<noteq> decl_name p)) sel s)"

definition removeXmlns_list :: "string list \<Rightarrow> element list \<Rightarrow> rdf_page \<Rightarrow> rdf_page" where
  "removeXmlns_list ps sel s = clear_xmlns sel (fold (\<lambda>p. removeXmlns p sel) ps s)"

definition removeXmlns_map :: "(string \<times> string option) list \<Rightarrow> element list \<Rightarrow> rdf_page \<Rightarrow> rdf_page" where
  "removeXmlns_map ps sel s = clear_xmlns sel (fold (\<lambda>(p, v) s. if v \<noteq> None then removeXmlns p sel s else s) ps s)"

section \<open>Names\<close>

record qname =
  qn_namespace :: "uri option"
  qn_localPart :: string
  qn_prefix :: string
  qn_name :: string

text \<open>\<open>/^(([^:]+):)?([^:]+)$/\<close>: the groups 2 and 3.\<close>

definition qname_match :: "string \<Rightarrow> (string option \<times> string) option" where
  "qname_match s =
     (let pre = takeWhile (\<lambda>c. c \<noteq> CHR '':'') s; r = dropWhile (\<lambda>c. c \<noteq> CHR '':'') s in
      if r = [] then (if s = [] then None else Some (None, s))
      else if pre \<noteq> [] \<and> tl r \<noteq> [] \<and> CHR '':'' \<notin> set (tl r) then Some (Some pre, tl r) else None)"

definition read_qname :: "uri \<Rightarrow> string option \<Rightarrow> element list \<Rightarrow> qname page_step" where
  "read_qname doc name sel =
     bind_step (case name of Some n \<Rightarrow> ret n
       | None \<Rightarrow> (case sel of [] \<Rightarrow> throw TypeError | e # _ \<Rightarrow> (\<lambda>s. (Inr (to_lower (pg_name s e)), s)))) (\<lambda>n.
     if n = ''?xml:namespace''
     then throw (UserError ''XMLinHTML: Unable to get the prefix to resolve the name of this element'')
     else (case qname_match n of
        None \<Rightarrow> throw TypeError
      | Some (pre, l) \<Rightarrow>
          (let p = (case pre of Some p \<Rightarrow> p | None \<Rightarrow> []) in
           bind_step (xmlns_get doc p sel) (\<lambda>ns.
             if ns = None \<and> p \<noteq> [] then throw (UserError (''MalformedQName: The prefix '' @ p @ '' is not declared''))
             else ret \<lparr>qn_namespace = ns, qn_localPart = l, qn_prefix = p, qn_name = n\<rparr>))))"

text \<open>\<open>$.fn.curie\<close>, \<open>$.fn.safeCurie\<close> and \<open>$.fn.createCurie\<close> over the bindings of the selection.\<close>

definition with_xmlns :: "uri \<Rightarrow> ((string \<times> string) list \<Rightarrow> (uri_mem, 'a) js_step) \<Rightarrow> element list \<Rightarrow> 'a page_step" where
  "with_xmlns doc f sel = bind_step (first_xmlns doc sel) (\<lambda>ns. on_uris (f (map (\<lambda>(p, u). (p, uri_toString u)) ns)))"

definition page_curie :: "uri \<Rightarrow> string \<Rightarrow> element list \<Rightarrow> uri page_step" where
  "page_curie doc c = with_xmlns doc (\<lambda>ns. fn_curie doc ns c)"

definition page_safeCurie :: "uri \<Rightarrow> string \<Rightarrow> element list \<Rightarrow> uri page_step" where
  "page_safeCurie doc c = with_xmlns doc (\<lambda>ns. fn_safeCurie doc ns c)"

definition page_createCurie :: "uri \<Rightarrow> string \<Rightarrow> element list \<Rightarrow> string page_step" where
  "page_createCurie doc u = with_xmlns doc (\<lambda>ns. fn_createCurie doc ns u)"

section \<open>Gleaners\<close>

text \<open>
  \<open>$.fn.rdf\<close>: the triples that the gleaners, steps of the page, find at the elements, and the
  namespaces of the first one, with which a query is made; without elements it is made of nothing.
\<close>

fun glean :: "(element \<Rightarrow> 't list page_step) list \<Rightarrow> element \<Rightarrow> 't list page_step" where
  "glean [] e = ret []"
| "glean (g # gs) e = bind_step (g e) (\<lambda>ts. bind_step (glean gs e) (\<lambda>us. ret (ts @ us)))"

fun glean_all :: "(element \<Rightarrow> 't list page_step) list \<Rightarrow> element list \<Rightarrow> 't list page_step" where
  "glean_all gs [] = ret []"
| "glean_all gs (e # es) = bind_step (glean gs e) (\<lambda>ts. bind_step (glean_all gs es) (\<lambda>us. ret (ts @ us)))"

definition fn_rdf :: "uri \<Rightarrow> (element \<Rightarrow> 't list page_step) list \<Rightarrow> element list \<Rightarrow> ('t list \<times> bindings) option page_step" where
  "fn_rdf doc gs sel = (if sel = [] then ret None
     else bind_step (glean_all gs sel) (\<lambda>ts. bind_step (first_xmlns doc sel) (\<lambda>ns. ret (Some (ts, ns)))))"

text \<open>On a document, its element. \<open>load\<close> gleans an HTML document in the same way.\<close>

definition document_rdf :: "uri \<Rightarrow> (element \<Rightarrow> 't list page_step) list \<Rightarrow> ('t list \<times> bindings) option page_step" where
  "document_rdf doc gs = fn_rdf doc gs [[]]"

definition glean_html :: "(element \<Rightarrow> 't list page_step) list \<Rightarrow> 't list page_step" where
  "glean_html gs = glean_all gs [[]]"

text \<open>
  The selectors \<open>:about\<close> and \<open>:type\<close> with their argument. \<open>return null\<close> does not end \<open>$.each\<close>, so that
  the last gleaner says whether an element is about a resource.
\<close>

definition is_about :: "uri \<Rightarrow> (element \<Rightarrow> uri option \<Rightarrow> bool) list \<Rightarrow> string option \<Rightarrow> element \<Rightarrow> bool page_step" where
  "is_about doc gs m e = bind_step
     (case m of Some c \<Rightarrow> if c \<noteq> [] then bind_step (page_safeCurie doc c [e]) (\<lambda>u. ret (Some u)) else ret None | None \<Rightarrow> ret None)
     (\<lambda>r. ret (foldl (\<lambda>_ g. g e r) False gs))"

definition is_type :: "uri \<Rightarrow> (element \<Rightarrow> uri option \<Rightarrow> bool) list \<Rightarrow> string option \<Rightarrow> element \<Rightarrow> bool page_step" where
  "is_type doc gs m e = bind_step
     (case m of Some c \<Rightarrow> if c \<noteq> [] then bind_step (page_curie doc c [e]) (\<lambda>u. ret (Some u)) else ret None | None \<Rightarrow> ret None)
     (\<lambda>r. ret (foldl (\<lambda>b g. if g e r then True else b) False gs))"

lemma is_type_any: "is_type doc gs None e s = (Inr (\<exists>g \<in> set gs. g e None), s)"
proof -
  have "foldl (\<lambda>b g. if g e None then True else b) c gs = (c \<or> (\<exists>g \<in> set gs. g e None))" for c
    by (induction gs arbitrary: c) auto
  then show ?thesis by (simp add: is_type_def ret_def)
qed

lemma is_about_last: "is_about doc (gs @ [\<lambda>_ _. False]) None e s = (Inr False, s)"
  by (simp add: is_about_def ret_def)

section \<open>The bindings in scope, without the cache\<close>

fun declarations :: "uri \<Rightarrow> (string \<times> string) list \<Rightarrow> bindings \<Rightarrow> bindings js_res" where
  "declarations doc [] ns = Inr ns"
| "declarations doc ((n, v) # as) ns =
     (case decl_prefix n of
        None \<Rightarrow> declarations doc as ns
      | Some p \<Rightarrow> if declares p v then bind_res (uri_init v (Some doc)) (\<lambda>u. declarations doc as (put_binding p u ns))
          else declarations doc as ns)"

definition scope_with :: "uri \<Rightarrow> rdf_page \<Rightarrow> element \<Rightarrow> bindings js_res \<Rightarrow> bindings js_res" where
  "scope_with doc s e inherited = bind_res (declarations doc (pg_attrs s e) []) (\<lambda>ns.
     bind_res inherited (\<lambda>inh. Inr (if ns \<noteq> [] then extend_bindings inh ns else inh)))"

fun scope_of :: "uri \<Rightarrow> rdf_page \<Rightarrow> element \<Rightarrow> bindings js_res" where
  "scope_of doc s [] = scope_with doc s [] (if pg_attached s then Inr [] else Inl TypeError)"
| "scope_of doc s (i # p) = scope_with doc s (i # p) (scope_of doc s p)"

definition page_ok :: "uri \<Rightarrow> rdf_page \<Rightarrow> bool" where
  "page_ok doc s \<longleftrightarrow> mem_ok (pg_uris s) \<and> (\<forall>e ns. pg_xmlns s e = Some ns \<longrightarrow> scope_of doc s e = Inr ns) \<and>
     (\<forall>e. distinct (map fst (pg_attrs s e)))"

definition same_tree :: "rdf_page \<Rightarrow> rdf_page \<Rightarrow> bool" where
  "same_tree s t \<longleftrightarrow> pg_attrs t = pg_attrs s \<and> pg_name t = pg_name s \<and> pg_attached t = pg_attached s"

text \<open>A document's URI against which references can be resolved.\<close>

definition doc_ok :: "uri \<Rightarrow> bool" where
  "doc_ok doc \<longleftrightarrow> wf_uri doc \<and> u_authority doc \<noteq> None"

lemma same_tree_refl [simp]: "same_tree s s"
  by (simp add: same_tree_def)

lemma same_tree_trans: "same_tree s t \<Longrightarrow> same_tree t u \<Longrightarrow> same_tree s u"
  by (simp add: same_tree_def)

lemma same_tree_update [simp]:
  "same_tree s (t\<lparr>pg_uris := m\<rparr>) = same_tree s t" "same_tree s (t\<lparr>pg_xmlns := x\<rparr>) = same_tree s t"
  by (simp_all add: same_tree_def)

lemma scope_same_tree: "same_tree s t \<Longrightarrow> scope_of doc t e = scope_of doc s e"
  by (induction e) (simp_all add: scope_with_def same_tree_def)

lemma declared_answer:
  "mem_ok mem \<Longrightarrow> doc_ok doc \<Longrightarrow> \<exists>mem'. declared doc as ns mem = (declarations doc as ns, mem') \<and> mem_ok mem'"
proof (induction as arbitrary: ns mem)
  case (Cons a as)
  obtain n v where a: "a = (n, v)" by (cases a)
  show ?case
  proof (cases "decl_prefix n")
    case None
    then show ?thesis using Cons a by simp
  next
    case (Some p)
    show ?thesis
    proof (cases "declares p v")
      case True
      obtain mem1 where m: "the_uri doc v No_base mem = (uri_init v (Some doc), mem1)" "mem_ok mem1"
        using the_uri_answer [of mem doc No_base doc v] Cons.prems by (auto simp: doc_ok_def)
      then show ?thesis using Cons a Some True by (cases "uri_init v (Some doc)") (auto simp: bind_step_def)
    qed (use Cons a Some in simp)
  qed
qed (simp add: ret_def)

text \<open>A step that answers what is given, and changes nothing but the caches, which stay right.\<close>

definition answers :: "uri \<Rightarrow> rdf_page \<Rightarrow> 'a page_step \<Rightarrow> 'a js_res \<Rightarrow> bool" where
  "answers doc s m r \<longleftrightarrow> (\<forall>t. same_tree s t \<longrightarrow> page_ok doc t \<longrightarrow> (\<exists>t'. m t = (r, t') \<and> same_tree s t' \<and> page_ok doc t'))"

lemma answers_ret: "answers doc s (ret a) (Inr a)" "answers doc s (throw e) (Inl e)"
  by (simp_all add: answers_def ret_def throw_def)

lemma answers_bind:
  assumes "answers doc s m r" "\<And>a. r = Inr a \<Longrightarrow> answers doc s (f a) (g a)"
  shows "answers doc s (bind_step m f) (bind_res r g)"
  unfolding answers_def
proof (intro allI impI)
  fix t assume t: "same_tree s t" "page_ok doc t"
  obtain t1 where t1: "m t = (r, t1)" "same_tree s t1" "page_ok doc t1" using assms(1) t by (auto simp: answers_def)
  show "\<exists>t'. bind_step m f t = (bind_res r g, t') \<and> same_tree s t' \<and> page_ok doc t'"
  proof (cases r)
    case (Inr a)
    then show ?thesis using assms(2) [OF Inr] t1 by (auto simp: answers_def bind_step_def)
  qed (use t1 in \<open>auto simp: bind_step_def\<close>)
qed

lemma page_ok_uris: "page_ok doc t \<Longrightarrow> mem_ok m \<Longrightarrow> page_ok doc (t\<lparr>pg_uris := m\<rparr>)"
proof -
  assume t: "page_ok doc t" "mem_ok m"
  have "scope_of doc (t\<lparr>pg_uris := m\<rparr>) e = scope_of doc t e" for e by (rule scope_same_tree) simp
  then show ?thesis using t by (simp add: page_ok_def)
qed

lemma answers_on_uris:
  assumes "\<And>mem. mem_ok mem \<Longrightarrow> \<exists>mem'. m mem = (r, mem') \<and> mem_ok mem'"
  shows "answers doc s (on_uris m) r"
  unfolding answers_def on_uris_def
proof (intro allI impI)
  fix t assume t: "same_tree s t" "page_ok doc t"
  then obtain mem' where "m (pg_uris t) = (r, mem')" "mem_ok mem'" using assms [of "pg_uris t"] unfolding page_ok_def by blast
  then show "\<exists>t'. (case m (pg_uris t) of (r, mem) \<Rightarrow> (r, t\<lparr>pg_uris := mem\<rparr>)) = (r, t') \<and> same_tree s t' \<and> page_ok doc t'"
    using t page_ok_uris by simp
qed

lemma answers_cache:
  assumes "scope_of doc s e = Inr ns"
  shows "answers doc s (cache_xmlns e ns) (Inr ns)"
  unfolding answers_def cache_xmlns_def
proof (intro allI impI)
  fix t assume t: "same_tree s t" "page_ok doc t"
  have sc: "scope_of doc (t\<lparr>pg_xmlns := x\<rparr>) a = scope_of doc s a" "scope_of doc t a = scope_of doc s a" for x a
    by (rule scope_same_tree, use t in simp)+
  have "page_ok doc (t\<lparr>pg_xmlns := (pg_xmlns t)(e \<mapsto> ns)\<rparr>)" using t(2) assms unfolding page_ok_def sc by auto
  then show "\<exists>t'. then_step (modify (\<lambda>s. s\<lparr>pg_xmlns := (pg_xmlns s)(e \<mapsto> ns)\<rparr>)) (ret ns) t = (Inr ns, t') \<and> same_tree s t' \<and> page_ok doc t'"
    using t by (simp add: ret_def)
qed

lemma answers_in_scope:
  assumes doc: "doc_ok doc" and inh: "answers doc s inherited r" and e: "scope_of doc s e = scope_with doc s e r"
  shows "answers doc s (in_scope doc e inherited) (scope_of doc s e)"
  unfolding answers_def
proof (intro allI impI)
  fix t assume t: "same_tree s t" "page_ok doc t"
  show "\<exists>t'. in_scope doc e inherited t = (scope_of doc s e, t') \<and> same_tree s t' \<and> page_ok doc t'"
  proof (cases "pg_xmlns t e")
    case (Some ns)
    then have "scope_of doc s e = Inr ns" using t scope_same_tree [OF t(1)] by (auto simp: page_ok_def)
    then show ?thesis using Some t by (auto simp: in_scope_def)
  next
    case None
    let ?f = "\<lambda>ns. bind_step inherited (\<lambda>inh. cache_xmlns e (if ns \<noteq> [] then extend_bindings inh ns else inh))"
    let ?g = "\<lambda>ns. bind_res r (\<lambda>inh. Inr (if ns \<noteq> [] then extend_bindings inh ns else inh))"
    have "answers doc s (bind_step (on_uris (declared doc (pg_attrs s e) [])) ?f) (bind_res (declarations doc (pg_attrs s e) []) ?g)"
    proof (rule answers_bind)
      show "answers doc s (on_uris (declared doc (pg_attrs s e) [])) (declarations doc (pg_attrs s e) [])"
        using declared_answer [OF _ doc] by (intro answers_on_uris) blast
      fix ns assume ns: "declarations doc (pg_attrs s e) [] = Inr ns"
      show "answers doc s (?f ns) (?g ns)"
        by (rule answers_bind [OF inh], rule answers_cache) (simp add: e scope_with_def ns)
    qed
    then have "answers doc s (bind_step (on_uris (declared doc (pg_attrs s e) [])) ?f) (scope_of doc s e)"
      by (simp add: e scope_with_def)
    moreover have "pg_attrs t e = pg_attrs s e" using t(1) by (simp add: same_tree_def)
    ultimately show ?thesis using t None by (simp add: answers_def in_scope_def)
  qed
qed

lemma answers_xmlns_all: "doc_ok doc \<Longrightarrow> answers doc s (xmlns_all doc e) (scope_of doc s e)"
proof (induction e)
  case Nil
  have "answers doc s (\<lambda>s. if pg_attached s then (Inr [], s) else (Inl TypeError, s))
      (if pg_attached s then Inr [] else Inl TypeError)"
    by (auto simp: answers_def same_tree_def)
  then show ?case unfolding xmlns_all.simps by (rule answers_in_scope [OF Nil _ scope_of.simps(1)])
next
  case (Cons i p)
  show ?case unfolding xmlns_all.simps by (rule answers_in_scope [OF Cons.prems Cons.IH [OF Cons.prems] scope_of.simps(2)])
qed

lemma answers_first: "doc_ok doc \<Longrightarrow> answers doc s (first_xmlns doc (e # sel)) (scope_of doc s e)"
  by (simp add: first_xmlns_def answers_xmlns_all)

lemma answers_get:
  "doc_ok doc \<Longrightarrow> answers doc s (xmlns_get doc p (e # sel)) (bind_res (scope_of doc s e) (\<lambda>ns. Inr (map_of ns p)))"
  unfolding xmlns_get_def by (rule answers_bind [OF answers_first answers_ret(1)])

lemma answers_okD: "answers doc s m r \<Longrightarrow> page_ok doc s \<Longrightarrow> m s = (x, t) \<Longrightarrow> x = r \<and> same_tree s t \<and> page_ok doc t"
  unfolding answers_def using same_tree_refl by fastforce

section \<open>Declaring and removing\<close>

lemma declarations_cong_outside:
  "\<not> (\<exists>a \<in> set sel. suffix a e) \<Longrightarrow> scope_of doc (on_attrs f sel s) e = scope_of doc s e"
proof (induction e)
  case Nil
  then have "[] \<notin> set sel" by auto
  then show ?case by (simp add: scope_with_def on_attrs_def)
next
  case (Cons i p)
  then have "i # p \<notin> set sel" "\<not> (\<exists>a \<in> set sel. suffix a p)" by (auto simp: suffix_Cons)
  then show ?case using Cons.IH by (simp add: scope_with_def on_attrs_def)
qed

lemma scope_clear [simp]: "scope_of doc (clear_xmlns sel s) e = scope_of doc s e"
  by (rule scope_same_tree) (simp add: same_tree_def clear_xmlns_def)

lemma page_ok_clear: "page_ok doc s \<Longrightarrow> page_ok doc (clear_xmlns sel s)"
  unfolding page_ok_def scope_clear by (simp add: clear_xmlns_def)

lemma clear_on_attrs: "clear_xmlns sel (on_attrs f sel s) = on_attrs f sel (clear_xmlns sel s)"
  by (simp add: clear_xmlns_def on_attrs_def cong: if_cong)

lemma page_ok_change:
  assumes ok: "page_ok doc s" and f: "\<And>as. distinct (map fst as) \<Longrightarrow> distinct (map fst (f as))"
  shows "page_ok doc (on_attrs f sel (clear_xmlns sel s))"
proof -
  let ?t = "on_attrs f sel (clear_xmlns sel s)"
  have "scope_of doc ?t e = Inr ns" if e: "pg_xmlns ?t e = Some ns" for e ns
  proof -
    have out: "\<not> (\<exists>a \<in> set sel. suffix a e)" and c: "pg_xmlns s e = Some ns"
      using e by (auto simp: on_attrs_def clear_xmlns_def split: if_splits)
    then show ?thesis using ok by (simp add: declarations_cong_outside page_ok_def)
  qed
  then show ?thesis using ok f by (auto simp: page_ok_def on_attrs_def clear_xmlns_def)
qed

lemma put_binding_fst: "set (map fst (put_binding p u bs)) = insert p (set (map fst bs))"
  by (induction p u bs rule: put_binding.induct) auto

lemma put_binding_distinct: "distinct (map fst bs) \<Longrightarrow> distinct (map fst (put_binding p u bs))"
proof (induction p u bs rule: put_binding.induct)
  case (2 p u q v bs)
  then show ?case using put_binding_fst [of p u bs] by auto
qed simp

lemma page_ok_set: "page_ok doc s \<Longrightarrow> page_ok doc (xmlns_set p u sel s)"
  unfolding xmlns_set_def by (rule page_ok_change) (simp_all add: put_binding_distinct)

lemma page_ok_remove: "page_ok doc s \<Longrightarrow> page_ok doc (removeXmlns p sel s)"
  unfolding removeXmlns_def clear_on_attrs by (rule page_ok_change) (auto simp: distinct_map inj_on_def)

lemma page_ok_fold: "(\<And>x s. page_ok doc s \<Longrightarrow> page_ok doc (f x s)) \<Longrightarrow> page_ok doc s \<Longrightarrow> page_ok doc (fold f xs s)"
  by (induction xs arbitrary: s) auto

lemma page_ok_lists:
  "page_ok doc s \<Longrightarrow> page_ok doc (xmlns_map ps sel s)" "page_ok doc s \<Longrightarrow> page_ok doc (removeXmlns_list qs sel s)"
  "page_ok doc s \<Longrightarrow> page_ok doc (removeXmlns_map ps sel s)"
  unfolding xmlns_map_def removeXmlns_list_def removeXmlns_map_def
  by (intro page_ok_clear page_ok_fold; auto simp: page_ok_set page_ok_remove split: option.splits)+

section \<open>The nearest declaration\<close>

definition own_decl :: "rdf_page \<Rightarrow> string \<Rightarrow> element \<Rightarrow> string option" where
  "own_decl s q e = (case map_of (pg_attrs s e) (decl_name q) of
     Some v \<Rightarrow> if declares q v then Some v else None | None \<Rightarrow> None)"

fun nearest :: "rdf_page \<Rightarrow> string \<Rightarrow> element \<Rightarrow> string option" where
  "nearest s q [] = own_decl s q []"
| "nearest s q (i # p) = (case own_decl s q (i # p) of Some v \<Rightarrow> Some v | None \<Rightarrow> nearest s q p)"

lemma map_of_put: "map_of (put_binding p u bs) q = (if q = p then Some u else map_of bs q)"
  by (induction p u bs rule: put_binding.induct) auto

lemma map_of_extend: "map_of (extend_bindings inh ns) q = (case map_of (rev ns) q of Some u \<Rightarrow> Some u | None \<Rightarrow> map_of inh q)"
proof (induction ns arbitrary: inh)
  case (Cons b ns)
  obtain p u where b: "b = (p, u)" by (cases b)
  have "extend_bindings inh (b # ns) = extend_bindings (put_binding p u inh) ns" by (simp add: extend_bindings_def b)
  then show ?case using Cons.IH [of "put_binding p u inh"] by (auto simp: b map_of_put map_add_def split: option.splits)
qed (simp add: extend_bindings_def)

lemma map_of_rev_distinct: "distinct (map fst xs) \<Longrightarrow> map_of (rev xs) q = map_of xs q"
proof (induction xs)
  case (Cons x xs)
  then have "q = fst x \<Longrightarrow> map_of xs q = None" by (auto simp: map_of_eq_None_iff)
  then show ?case using Cons by (cases x) (auto simp: map_add_def split: option.splits)
qed simp

lemma map_of_extend_distinct:
  "distinct (map fst ns) \<Longrightarrow> map_of (extend_bindings inh ns) q = (case map_of ns q of Some u \<Rightarrow> Some u | None \<Rightarrow> map_of inh q)"
  by (simp add: map_of_extend map_of_rev_distinct)

lemma decl_prefix_name: "decl_prefix n = Some q \<Longrightarrow> n = decl_name q"
  by (auto simp: decl_prefix_def decl_name_def prefix_def split: if_splits)

lemma declares_no_lines: "declares q v \<Longrightarrow> q \<noteq> [] \<Longrightarrow> no_lines q"
proof -
  assume "declares q v" "q \<noteq> []"
  then obtain c cs where q: "q = c # cs" "ncNameStartChar c" "list_all ncNameChar cs"
    by (auto simp: declares_def ncName_def split: list.splits)
  have "\<not> line_end d" if "ncNameStartChar d \<or> ncNameChar d" for d
    using that by (auto simp: line_end_def ncNameStartChar_def ncNameChar_def)
  then show ?thesis using q by (auto simp: no_lines_def list_all_iff)
qed

lemma decl_name_prefix: "declares q v \<Longrightarrow> decl_prefix (decl_name q) = Some q"
  using declares_no_lines by (auto simp: decl_prefix_def decl_name_def)

lemma declarations_distinct: "declarations doc as ns = Inr ns' \<Longrightarrow> distinct (map fst ns) \<Longrightarrow> distinct (map fst ns')"
proof (induction doc as ns rule: declarations.induct)
  case (2 doc n v as ns)
  then show ?case by (auto simp: bind_res_Inr_iff put_binding_distinct split: option.splits if_splits)
qed simp

lemma declarations_keep:
  "declarations doc as ns = Inr ns' \<Longrightarrow> (\<forall>v. (decl_name q, v) \<in> set as \<longrightarrow> \<not> declares q v) \<Longrightarrow> map_of ns' q = map_of ns q"
proof (induction doc as ns rule: declarations.induct)
  case (2 doc n v as ns)
  show ?case
  proof (cases "decl_prefix n")
    case (Some p)
    then have n: "n = decl_name p" by (rule decl_prefix_name)
    show ?thesis
    proof (cases "declares p v")
      case True
      then have "p \<noteq> q" using 2(5) n by auto
      moreover obtain u where "uri_init v (Some doc) = Inr u" "declarations doc as (put_binding p u ns) = Inr ns'"
        using 2(4) Some True by (auto simp: bind_res_Inr_iff)
      ultimately show ?thesis using 2(2) [OF Some True] 2(5) by (simp add: map_of_put)
    qed (use 2 Some in auto)
  qed (use 2 in auto)
qed simp

lemma declarations_own:
  "declarations doc as ns = Inr ns' \<Longrightarrow> distinct (map fst as) \<Longrightarrow> map_of as (decl_name q) = Some v \<Longrightarrow> declares q v \<Longrightarrow>
     \<exists>u. uri_init v (Some doc) = Inr u \<and> map_of ns' q = Some u"
proof (induction doc as ns rule: declarations.induct)
  case (2 doc n w as ns)
  show ?case
  proof (cases "n = decl_name q")
    case True
    then have w: "w = v" and p: "decl_prefix n = Some q" using 2(6,7) decl_name_prefix by auto
    then obtain u where u: "uri_init v (Some doc) = Inr u" "declarations doc as (put_binding q u ns) = Inr ns'"
      using 2(4,7) by (auto simp: bind_res_Inr_iff)
    have "decl_name q \<notin> fst ` set as" using 2(5) True by simp
    then have "map_of ns' q = map_of (put_binding q u ns) q" by (intro declarations_keep [OF u(2)]) force
    then show ?thesis using u by (simp add: map_of_put)
  next
    case False
    show ?thesis
    proof (cases "decl_prefix n")
      case (Some p)
      show ?thesis
      proof (cases "declares p w")
        case True
        then obtain u where "uri_init w (Some doc) = Inr u" "declarations doc as (put_binding p u ns) = Inr ns'"
          using 2(4) Some by (auto simp: bind_res_Inr_iff)
        then show ?thesis using 2(2) [OF Some True] 2(5,6,7) False by auto
      qed (use 2 Some False in auto)
    qed (use 2 False in auto)
  qed
qed simp

text \<open>Where every value that is declared can be resolved, the bindings are those of the nearest declarations.\<close>

definition resolved :: "uri \<Rightarrow> string \<Rightarrow> uri option" where
  "resolved doc v = (case uri_init v (Some doc) of Inr u \<Rightarrow> Some u | Inl _ \<Rightarrow> None)"

definition resolvable :: "uri \<Rightarrow> rdf_page \<Rightarrow> bool" where
  "resolvable doc s \<longleftrightarrow> (\<forall>e q v. own_decl s q e = Some v \<longrightarrow> resolved doc v \<noteq> None)"

lemma resolved_Inr: "uri_init v (Some doc) = Inr u \<Longrightarrow> resolved doc v = Some u"
  by (simp add: resolved_def)

lemma declarations_return:
  "(\<And>p v. (decl_name p, v) \<in> set as \<Longrightarrow> declares p v \<Longrightarrow> resolved doc v \<noteq> None) \<Longrightarrow> \<exists>ns'. declarations doc as ns = Inr ns'"
proof (induction as arbitrary: ns)
  case (Cons a as)
  obtain n v where a: "a = (n, v)" by (cases a)
  have IH: "\<exists>ns'. declarations doc as ns = Inr ns'" for ns using Cons.prems by (intro Cons.IH) auto
  show ?case
  proof (cases "\<exists>p. decl_prefix n = Some p \<and> declares p v")
    case True
    then obtain p where p: "decl_prefix n = Some p" "declares p v" by blast
    then have "n = decl_name p" by (intro decl_prefix_name)
    then have "resolved doc v \<noteq> None" using Cons.prems [of p v] p(2) a by simp
    then obtain u where "uri_init v (Some doc) = Inr u" by (auto simp: resolved_def split: sum.splits)
    then show ?thesis using IH p a by simp
  next
    case False
    then have "declarations doc (a # as) ns = declarations doc as ns" using a by (auto split: option.splits)
    then show ?thesis using IH by simp
  qed
qed simp

lemma scope_with_nearest:
  assumes d: "distinct (map fst (pg_attrs s e))" and r: "resolvable doc s" and inh: "inherited = Inr inh"
  shows "\<exists>ns. scope_with doc s e inherited = Inr ns \<and>
    (\<forall>q. map_of ns q = (case own_decl s q e of Some v \<Rightarrow> resolved doc v | None \<Rightarrow> map_of inh q))"
proof -
  let ?as = "pg_attrs s e"
  have "\<exists>ns. declarations doc ?as [] = Inr ns"
  proof (rule declarations_return)
    fix p v assume "(decl_name p, v) \<in> set ?as" "declares p v"
    then have "own_decl s p e = Some v" using d by (simp add: own_decl_def)
    then show "resolved doc v \<noteq> None" using r by (auto simp: resolvable_def)
  qed
  then obtain ns where ns: "declarations doc ?as [] = Inr ns" by blast
  have own: "map_of ns q = Option.bind (own_decl s q e) (resolved doc)" for q
  proof (cases "own_decl s q e")
    case None
    then have "\<forall>v. (decl_name q, v) \<in> set ?as \<longrightarrow> \<not> declares q v" using d by (auto simp: own_decl_def split: if_splits)
    then show ?thesis using declarations_keep [OF ns] None by simp
  next
    case (Some v)
    then have "map_of ?as (decl_name q) = Some v" "declares q v" by (auto simp: own_decl_def split: option.splits if_splits)
    then show ?thesis using declarations_own [OF ns d] Some resolved_Inr by fastforce
  qed
  have "map_of (if ns \<noteq> [] then extend_bindings inh ns else inh) q = (case map_of ns q of Some u \<Rightarrow> Some u | None \<Rightarrow> map_of inh q)" for q
    using map_of_extend_distinct [OF declarations_distinct [OF ns]] by simp
  moreover have "(case map_of ns q of Some u \<Rightarrow> Some u | None \<Rightarrow> map_of inh q) =
      (case own_decl s q e of Some v \<Rightarrow> resolved doc v | None \<Rightarrow> map_of inh q)" for q
  proof (cases "own_decl s q e")
    case (Some v)
    then have "resolved doc v \<noteq> None" using r by (auto simp: resolvable_def)
    then show ?thesis using Some by (auto simp: own)
  qed (simp add: own)
  ultimately show ?thesis using ns inh by (simp add: scope_with_def)
qed

lemma scope_nearest:
  assumes "\<And>e. distinct (map fst (pg_attrs s e))" "resolvable doc s" "pg_attached s"
  shows "\<exists>ns. scope_of doc s e = Inr ns \<and> (\<forall>q. map_of ns q = Option.bind (nearest s q e) (resolved doc))"
proof (induction e)
  case Nil
  obtain ns where ns: "scope_with doc s [] (Inr []) = Inr ns"
    "\<forall>q. map_of ns q = (case own_decl s q [] of Some v \<Rightarrow> resolved doc v | None \<Rightarrow> map_of ([] :: bindings) q)"
    using scope_with_nearest [OF assms(1,2) refl] by blast
  then show ?case using assms(3) by (auto split: option.splits)
next
  case (Cons i p)
  then obtain inh where inh: "scope_of doc s p = Inr inh" "\<forall>q. map_of inh q = Option.bind (nearest s q p) (resolved doc)" by blast
  obtain ns where ns: "scope_with doc s (i # p) (scope_of doc s p) = Inr ns"
    "\<forall>q. map_of ns q = (case own_decl s q (i # p) of Some v \<Rightarrow> resolved doc v | None \<Rightarrow> map_of inh q)"
    using scope_with_nearest [OF assms(1,2) inh(1)] by blast
  then show ?case using inh(2) by (auto split: option.splits)
qed

section \<open>Runs\<close>

text \<open>What is read and changed on a page, in any order.\<close>

inductive page_run :: "uri \<Rightarrow> rdf_page \<Rightarrow> rdf_page \<Rightarrow> bool" for doc s0 where
  start: "page_run doc s0 s0"
| read: "page_run doc s0 s \<Longrightarrow> first_xmlns doc sel s = (r, t) \<Longrightarrow> page_run doc s0 t"
| name: "page_run doc s0 s \<Longrightarrow> read_qname doc n sel s = (r', t) \<Longrightarrow> page_run doc s0 t"
| curie: "page_run doc s0 s \<Longrightarrow> page_curie doc c sel s = (u, t) \<Longrightarrow> page_run doc s0 t"
| safe: "page_run doc s0 s \<Longrightarrow> page_safeCurie doc c sel s = (u, t) \<Longrightarrow> page_run doc s0 t"
| made: "page_run doc s0 s \<Longrightarrow> page_createCurie doc c sel s = (c', t) \<Longrightarrow> page_run doc s0 t"
| set: "page_run doc s0 s \<Longrightarrow> page_run doc s0 (xmlns_set p v sel s)"
| set_all: "page_run doc s0 s \<Longrightarrow> page_run doc s0 (xmlns_map ps sel s)"
| removed: "page_run doc s0 s \<Longrightarrow> page_run doc s0 (removeXmlns p sel s)"
| removed_list: "page_run doc s0 s \<Longrightarrow> page_run doc s0 (removeXmlns_list qs sel s)"
| removed_map: "page_run doc s0 s \<Longrightarrow> page_run doc s0 (removeXmlns_map ps sel s)"

lemma keeps_mem: "doc_ok doc \<Longrightarrow> keeps mem_ok (the_uri doc r No_base)"
  using the_uri_answer [of _ doc No_base doc r] by (fastforce simp: keeps_def doc_ok_def)

lemma keeps_curies:
  assumes "doc_ok doc"
  shows "keeps mem_ok (fn_curie doc ns c)" "keeps mem_ok (fn_safeCurie doc ns c)" "keeps mem_ok (fn_createCurie doc ns c)"
proof -
  have p: "keeps mem_ok (parse_curie doc opts c)" for opts c
    unfolding parse_curie_def by (intro keeps_bind keeps_lift_res) (auto intro: keeps_mem [OF assms])
  then show "keeps mem_ok (fn_curie doc ns c)" by (simp add: fn_curie_def)
  show "keeps mem_ok (fn_safeCurie doc ns c)"
    using p keeps_mem [OF assms] by (auto simp: fn_safeCurie_def safeCurie_def split: option.splits)
  show "keeps mem_ok (fn_createCurie doc ns c)"
    unfolding fn_createCurie_def createCurie_def by (intro keeps_bind keeps_mem [OF assms]) (auto simp: Let_def split: option.splits)
qed

lemma keeps_first: "doc_ok doc \<Longrightarrow> keeps (page_ok doc) (first_xmlns doc sel)"
proof (cases sel)
  case (Cons e es)
  assume "doc_ok doc"
  from answers_first [OF this] show ?thesis unfolding Cons answers_def keeps_def
    by (metis same_tree_refl snd_conv)
qed (simp add: first_xmlns_def)

lemma keeps_get: "doc_ok doc \<Longrightarrow> keeps (page_ok doc) (xmlns_get doc p sel)"
  unfolding xmlns_get_def by (intro keeps_bind keeps_first keeps_ret)

lemma keeps_qname: "doc_ok doc \<Longrightarrow> keeps (page_ok doc) (read_qname doc n sel)"
  unfolding read_qname_def
  by (intro keeps_bind; auto intro!: keeps_bind keeps_get simp: Let_def split: option.splits list.splits) (simp_all add: keeps_def)

lemma keeps_on_uris: "keeps mem_ok m \<Longrightarrow> keeps (page_ok doc) (on_uris m)"
proof (rule keepsI)
  fix s assume m: "keeps mem_ok m" and s: "page_ok doc s"
  then have "mem_ok (snd (m (pg_uris s)))" by (auto simp: page_ok_def keeps_def)
  then show "page_ok doc (snd (on_uris m s))" using page_ok_uris [OF s] by (cases "m (pg_uris s)") (simp add: on_uris_def)
qed

lemma keeps_page_curies:
  assumes "doc_ok doc"
  shows "keeps (page_ok doc) (page_curie doc c sel)" "keeps (page_ok doc) (page_safeCurie doc c sel)"
    "keeps (page_ok doc) (page_createCurie doc c sel)"
  unfolding page_curie_def page_safeCurie_def page_createCurie_def with_xmlns_def
  by (intro keeps_bind keeps_first keeps_on_uris keeps_curies assms)+

lemma keeps_step: "keeps I m \<Longrightarrow> m s = (r, t) \<Longrightarrow> I s \<Longrightarrow> I t"
  using keepsD [of I m s] by simp

lemma page_run_ok: "page_run doc s0 s \<Longrightarrow> doc_ok doc \<Longrightarrow> page_ok doc s0 \<Longrightarrow> page_ok doc s"
proof (induction rule: page_run.induct)
  case (read s sel r t)
  then show ?case using keeps_step [OF keeps_first] by blast
next
  case (name s n sel r' t)
  then show ?case using keeps_step [OF keeps_qname] by blast
next
  case (curie s c sel u t)
  then show ?case using keeps_step [OF keeps_page_curies(1)] by blast
next
  case (safe s c sel u t)
  then show ?case using keeps_step [OF keeps_page_curies(2)] by blast
next
  case (made s c sel c' t)
  then show ?case using keeps_step [OF keeps_page_curies(3)] by blast
qed (auto intro: page_ok_set page_ok_remove page_ok_lists)

text \<open>What is set is what is read, at the elements and below them up to other declarations.\<close>

lemma own_decl_set:
  "own_decl (xmlns_set p v sel s) q e =
    (if e \<in> set sel \<and> q = p then (if declares q v then Some v else None) else own_decl s q e)"
proof -
  have "decl_name q = decl_name p \<longleftrightarrow> q = p" by (auto simp: decl_name_def)
  then show ?thesis by (simp add: own_decl_def xmlns_set_def on_attrs_def clear_xmlns_def map_of_put)
qed

lemma nearest_set:
  "e \<in> set sel \<Longrightarrow> declares p v \<Longrightarrow> nearest (xmlns_set p v sel s) p e = Some v"
  by (cases e) (simp_all add: own_decl_set)

text \<open>A failure is not cached: an element whose own value cannot be resolved fails each time.\<close>

lemma xmlns_fails:
  assumes "doc_ok doc" "page_ok doc s" "xmlns_get doc q (e # sel) s = (r, t)"
  shows "r = bind_res (scope_of doc t e) (\<lambda>ns. Inr (map_of ns q))"
proof -
  have "r = bind_res (scope_of doc s e) (\<lambda>ns. Inr (map_of ns q))" "same_tree s t"
    using answers_okD [OF answers_get [OF assms(1)] assms(2,3)] by simp_all
  then show ?thesis by (simp add: scope_same_tree)
qed

text \<open>A CURIE of an element is resolved with the nearest declaration of its prefix.\<close>

lemma page_curie_nearest:
  assumes doc: "doc_ok doc" and s: "page_ok doc s" "resolvable doc s" "pg_attached s"
    and c: "curie_match c = Some (Some p, l)" "p \<noteq> []" "\<not> colon_start c"
    and u: "Option.bind (nearest s p e) (resolved doc) = Some u"
  shows "\<exists>t. page_curie doc c (e # sel) s = (uri_init (uri_toString u @ l) (Some doc), t) \<and> page_ok doc t"
proof -
  have "\<And>e. distinct (map fst (pg_attrs s e))" using s by (simp add: page_ok_def)
  from scope_nearest [OF this s(2,3)] obtain ns where ns: "scope_of doc s e = Inr ns" "map_of ns p = Some u" using u by metis
  let ?ns = "map (\<lambda>(p, u). (p, uri_toString u)) ns"
  have "map_of ?ns p = Some (uri_toString u)" using ns(2) by (simp add: map_of_map)
  then have parts: "curie_parts (fn_curie_defaults\<lparr>c_namespaces := ?ns\<rparr>) c = Inr (Some (uri_toString u), l)"
    using c by (simp add: curie_parts_def Let_def text_of_def)
  have f: "fn_curie doc ?ns c = the_uri doc (uri_toString u @ l) No_base"
    by (simp add: fn_curie_def parse_curie_def parts text_of_def)
  have a: "answers doc s (on_uris (fn_curie doc ?ns c)) (uri_init (uri_toString u @ l) (Some doc))"
    unfolding f using the_uri_answer [of _ doc No_base doc] doc by (intro answers_on_uris) (simp add: doc_ok_def)
  have "answers doc s (page_curie doc c (e # sel)) (bind_res (scope_of doc s e) (\<lambda>_. uri_init (uri_toString u @ l) (Some doc)))"
    unfolding page_curie_def with_xmlns_def by (rule answers_bind [OF answers_first [OF doc]]) (use ns a in simp)
  then show ?thesis using s(1) ns(1) same_tree_refl unfolding answers_def by (metis bind_res_simps(2))
qed

section \<open>Properties\<close>

text \<open>
  C19. On a page whose namespaces are read, declared and removed in any order, with
  everything that is read cached in the elements, a lookup of a prefix at an element is
  never stale: it returns the value of the nearest declaration, of the element itself or of
  the ancestor closest to it, resolved against the document, and undefined where there is
  none. This is for pages in whose state every declared value resolves without an exception,
  and whose elements are attached to the document.
\<close>

theorem xmlns_nearest_declaration:
  assumes run: "page_run doc s0 s" and doc: "doc_ok doc" and start: "page_ok doc s0"
    and ok: "resolvable doc s" "pg_attached s"
  shows "\<exists>t. xmlns_get doc q (e # sel) s = (Inr (Option.bind (nearest s q e) (resolved doc)), t)"
proof -
  have s: "page_ok doc s" by (rule page_run_ok [OF run doc start])
  then have "\<And>e. distinct (map fst (pg_attrs s e))" by (simp add: page_ok_def)
  from scope_nearest [OF this ok] obtain ns where ns: "scope_of doc s e = Inr ns" "map_of ns q = Option.bind (nearest s q e) (resolved doc)"
    by blast
  obtain t where "xmlns_get doc q (e # sel) s = (bind_res (scope_of doc s e) (\<lambda>ns. Inr (map_of ns q)), t)"
    using answers_get [OF doc, of s q e sel] s same_tree_refl unfolding answers_def by blast
  then show ?thesis using ns by simp
qed

definition example_doc :: uri where
  "example_doc = \<lparr>u_scheme = Some ''http'', u_authority = Some ''h'', u_path = ''/d'', u_query = None, u_fragment = None\<rparr>"

definition example_page :: rdf_page where
  "example_page = \<lparr>pg_attrs = (\<lambda>e. if e = [] then [(''lang'', ''en''), (''xmlns:f'', ''http://f/'')] else []),
     pg_name = (\<lambda>_. ''div''), pg_xmlns = (\<lambda>_. None), pg_attached = True, pg_uris = Map.empty\<rparr>"

lemma example_doc_ok: "doc_ok example_doc"
  by (simp add: doc_ok_def example_doc_def wf_uri_def is_alpha_def scheme_char_def to_lower_def lower_char_def auth_char_def path_char_def)

lemma example_page_ok: "page_ok example_doc example_page"
  by (simp add: page_ok_def example_page_def mem_ok_def)

text \<open>The namespace is read at a child, which caches it, and then declared anew.\<close>

definition example_read :: rdf_page where
  "example_read = snd (first_xmlns example_doc [[0]] example_page)"

definition example_changed :: rdf_page where
  "example_changed = xmlns_set ''f'' ''http://g/'' [[0]] example_read"

lemma example_run: "page_run example_doc example_page example_changed"
proof -
  obtain r where "first_xmlns example_doc [[0]] example_page = (r, example_read)"
    unfolding example_read_def by (cases "first_xmlns example_doc [[0]] example_page") simp
  then have "page_run example_doc example_page example_read" by (rule page_run.read [OF page_run.start])
  then show ?thesis unfolding example_changed_def by (rule page_run.set)
qed

lemma example_changed_decl:
  "own_decl example_changed q e = (if e = [0] \<and> q = ''f'' then Some ''http://g/'' else
     if e = [] \<and> q = ''f'' then Some ''http://f/'' else None)"
proof -
  have "same_tree example_page example_read"
    using answers_okD [OF answers_first [OF example_doc_ok] example_page_ok, of "[0]" "[]" "fst (first_xmlns example_doc [[0]] example_page)" example_read]
    by (simp add: example_read_def)
  then have "own_decl example_read q e = own_decl example_page q e" by (simp add: own_decl_def same_tree_def)
  moreover have "declares ''f'' ''http://g/''" "declares ''f'' ''http://f/''" by code_simp+
  moreover have "decl_name q = ''xmlns:f'' \<longleftrightarrow> q = ''f''" "decl_name q \<noteq> ''lang''" by (auto simp: decl_name_def)
  ultimately show ?thesis unfolding example_changed_def own_decl_set by (auto simp: own_decl_def example_page_def)
qed

theorem xmlns_nearest_declaration_witness:
  "\<exists>t. xmlns_get example_doc ''f'' [[1, 0]] example_changed =
     (Inr (Some \<lparr>u_scheme = Some ''http'', u_authority = Some ''g'', u_path = ''/'', u_query = None, u_fragment = None\<rparr>), t)"
proof -
  have g: "resolved example_doc ''http://g/'' = Some \<lparr>u_scheme = Some ''http'', u_authority = Some ''g'', u_path = ''/'', u_query = None, u_fragment = None\<rparr>"
    by code_simp
  have f: "resolved example_doc ''http://f/'' \<noteq> None" by code_simp
  have "resolvable example_doc example_changed" using f g by (simp add: resolvable_def example_changed_decl)
  moreover have "pg_attached example_changed" by code_simp
  ultimately have "\<exists>t. xmlns_get example_doc ''f'' [[1, 0]] example_changed =
      (Inr (Option.bind (nearest example_changed ''f'' [1, 0]) (resolved example_doc)), t)"
    by (rule xmlns_nearest_declaration [OF example_run example_doc_ok example_page_ok])
  moreover have "nearest example_changed ''f'' [1, 0] = Some ''http://g/''" by (simp add: example_changed_decl)
  ultimately show ?thesis using g by simp
qed

end
