(* ===== verification/RdfReading.thy ===== *)
theory RdfReading
  imports RdfBankInv
begin

text \<open>
  Reading back what \<open>jquery.rdfquery.core-1.0.js\<close> prints: the text of a node, put into the text of a
  pattern, is cut, read and looked up in the tables of nodes, and the same node comes back. The
  tables keep every node under its own text, whatever is read and loaded.
\<close>

section \<open>Texts of nodes\<close>

text \<open>
  A node whose text can be cut out of a statement: a URI without a closing angle that does not
  end in a backslash, or a blank node whose name has no white space, quote or angle.
\<close>

definition plain_uri :: "uri \<Rightarrow> bool" where
  "plain_uri u \<longleftrightarrow> wf_uri u \<and> CHR ''>'' \<notin> set (uri_toString u) \<and> last (uri_toString u) \<noteq> CHR 0x5C"

definition blank_char :: "char \<Rightarrow> bool" where
  "blank_char c \<longleftrightarrow> \<not> is_space c \<and> c \<noteq> CHR 0x22 \<and> c \<noteq> CHR ''<'' \<and> c \<noteq> CHR '':''"

definition plain_node :: "rdf_node \<Rightarrow> bool" where
  "plain_node n = (case n of
       Resource u \<Rightarrow> plain_uri u
     | Blank i \<Rightarrow> i \<noteq> [] \<and> (\<forall>c\<in>set i. blank_char c)
     | Literal v l d \<Rightarrow> False)"

lemma uri_text_nonempty: "wf_uri u \<Longrightarrow> uri_toString u \<noteq> []"
  by (auto simp: wf_uri_def uri_toString_def)

lemma uri_text_inj: "wf_uri u \<Longrightarrow> wf_uri v \<Longrightarrow> uri_toString u = uri_toString v \<longleftrightarrow> u = v"
  by (metis parse_toString sum.inject(2))

lemma closings_angle:
  assumes "CHR ''>'' \<notin> set b" "b = [] \<or> last b \<noteq> CHR 0x5C"
  shows "closings (CHR ''>'') (b @ CHR ''>'' # r) = [(b, r)]"
  using assms
proof (induction b)
  case Nil
  then show ?case by (cases r) simp_all
next
  case (Cons c b)
  show ?case
  proof (cases b)
    case Nil
    then show ?thesis using Cons by (cases r) simp_all
  next
    case b: (Cons d b')
    have "closings (CHR ''>'') (d # b' @ CHR ''>'' # r) = [(d # b', r)]" using Cons b by simp
    then show ?thesis using Cons.prems b by (cases "c = CHR 0x5C") auto
  qed
qed

lemma angle_body_plain: "CHR ''>'' \<notin> set b \<Longrightarrow> angle_body b"
  by (induction b rule: angle_body.induct) auto

lemma angle_match_plain: "CHR ''>'' \<notin> set b \<Longrightarrow> angle_match (''<'' @ b @ ''>'') = Some b"
  by (simp add: angle_match_def angle_body_plain butlast_append)

section \<open>Cutting the statement\<close>

text \<open>A text that the scanner takes as a part, whatever comes before and after it.\<close>

definition one_part :: "string \<Rightarrow> bool" where
  "one_part x \<longleftrightarrow> (\<exists>k\<le>length x. \<forall>m cur r. scan_tokens (k + m) cur (x @ r) = scan_tokens m (cur @ x) r)"

lemma one_part_angle:
  assumes "CHR ''>'' \<notin> set b" "b = [] \<or> last b \<noteq> CHR 0x5C"
  shows "one_part (''<'' @ b @ ''>'')"
proof -
  have "scan_item (''<'' @ b @ ''>'' @ r) = Some (''<'' @ b @ ''>'', r)" for r
    using closings_angle [OF assms, of r] by (simp add: scan_item_def)
  then have "scan_tokens (1 + m) cur ((''<'' @ b @ ''>'') @ r) = scan_tokens m (cur @ ''<'' @ b @ ''>'') r" for m cur r
    by simp
  then show ?thesis unfolding one_part_def by (intro exI [of _ 1]) (simp add: append_assoc)
qed

lemma scan_char:
  assumes "\<not> is_space c" "c \<noteq> CHR 0x22" "c \<noteq> CHR ''<''"
  shows "scan_item (c # r) = Some ([c], r)"
  using assms by (simp add: scan_item_def)

lemma one_part_chars:
  assumes "\<forall>c\<in>set x. \<not> is_space c \<and> c \<noteq> CHR 0x22 \<and> c \<noteq> CHR ''<''"
  shows "one_part x"
proof -
  have "scan_tokens (length x + m) cur (x @ r) = scan_tokens m (cur @ x) r" for m cur r
    using assms by (induction x arbitrary: cur) (simp_all add: scan_char)
  then show ?thesis by (auto simp: one_part_def)
qed

lemma scan_part_space:
  assumes "one_part x" "x \<noteq> []" "length x < n"
  obtains m where "n - length x - 1 \<le> m" "scan_tokens n [] (x @ CHR '' '' # r) = x # scan_tokens m [] r"
proof -
  obtain k where k: "k \<le> length x" "\<And>m cur r. scan_tokens (k + m) cur (x @ r) = scan_tokens m (cur @ x) r"
    using assms(1) by (auto simp: one_part_def)
  have "scan_tokens (Suc i) x (CHR '' '' # r) = x # scan_tokens i [] r" for i
    using assms(2) by (simp add: scan_item_def is_space_def)
  moreover have "n = k + Suc (n - k - 1)" using k(1) assms(3) by simp
  ultimately have "scan_tokens n [] (x @ CHR '' '' # r) = x # scan_tokens (n - k - 1) [] r"
    using k(2) [of "Suc (n - k - 1)" "[]" "CHR '' '' # r"] by (metis append_Nil)
  then show thesis using k(1) by (intro that [of "n - k - 1"]) simp_all
qed

lemma scan_part_end:
  assumes "one_part x" "x \<noteq> []" "length x \<le> n"
  shows "scan_tokens n [] x = [x]"
proof -
  obtain k where k: "k \<le> length x" "\<And>m cur r. scan_tokens (k + m) cur (x @ r) = scan_tokens m (cur @ x) r"
    using assms(1) by (auto simp: one_part_def)
  have "scan_tokens i x [] = [x]" for i using assms(2) by (cases i) (simp_all add: scan_item_def)
  then show ?thesis using k(2) [of "n - k" "[]" "[]"] k(1) assms(3) by simp
qed

lemma three_parts:
  assumes "one_part x" "one_part y" "one_part z" "x \<noteq> []" "y \<noteq> []" "z \<noteq> []"
    and "\<not> is_space (hd x)" "\<not> is_space (last z)"
  shows "statement_parts bad (x @ '' '' @ y @ '' '' @ z) = Inr (x, y, z)"
proof -
  let ?t = "x @ CHR '' '' # y @ CHR '' '' # z"
  have "dropWhile is_space ?t = ?t" using assms(4,7) by (cases x) simp_all
  moreover have "dropWhile is_space (rev ?t) = rev ?t"
    using assms(6,8) by (cases z rule: rev_cases) simp_all
  ultimately have trim: "js_trim ?t = ?t" by (simp add: js_trim_def del: rev_append)
  obtain m where m: "Suc (length ?t) - length x - 1 \<le> m"
      "scan_tokens (Suc (length ?t)) [] ?t = x # scan_tokens m [] (y @ CHR '' '' # z)"
    using scan_part_space [OF assms(1,4), of "Suc (length ?t)" "y @ CHR '' '' # z"] by (metis append.assoc le_add1 le_imp_less_Suc length_append)
  obtain k where k: "m - length y - 1 \<le> k" "scan_tokens m [] (y @ CHR '' '' # z) = y # scan_tokens k [] z"
    using scan_part_space [OF assms(2,5), of m z] m(1) by auto
  have "scan_tokens k [] z = [z]" using scan_part_end [OF assms(3,6), of k] k(1) m(1) by simp
  then have "triple_tokens ?t = [x, y, z]" using trim m(2) k(2) by (simp add: triple_tokens_def Let_def del: scan_tokens.simps)
  then show ?thesis by (simp add: statement_parts_def)
qed

lemma plain_one_part:
  assumes "plain_node n"
  shows "one_part (node_toString n)" "\<not> is_space (hd (node_toString n))" "\<not> is_space (last (node_toString n))"
proof -
  consider u where "n = Resource u" "plain_uri u" | i where "n = Blank i" "i \<noteq> []" "\<forall>c\<in>set i. blank_char c"
    using assms by (cases n) (simp_all add: plain_node_def)
  then have "one_part (node_toString n) \<and> \<not> is_space (hd (node_toString n)) \<and> \<not> is_space (last (node_toString n))"
  proof cases
    case 1
    then show ?thesis using one_part_angle [of "uri_toString u"]
      by (simp add: plain_uri_def node_toString_def is_space_def)
  next
    case 2
    have u: "\<not> is_space (CHR ''_'') \<and> \<not> is_space (CHR '':'')" by (simp add: is_space_def)
    have "one_part (node_toString n)" using 2 u
      by (intro one_part_chars) (auto simp: node_toString_def blank_char_def)
    then show ?thesis using 2 u by (simp add: node_toString_def blank_char_def)
  qed
  then show "one_part (node_toString n)" "\<not> is_space (hd (node_toString n))" "\<not> is_space (last (node_toString n))"
    by simp_all
qed

section \<open>The tables\<close>

definition node_ok :: "rdf_node \<Rightarrow> bool" where
  "node_ok n \<longleftrightarrow> (\<forall>u. n = Resource u \<longrightarrow> wf_uri u)"

definition term_ok :: "pat_term \<Rightarrow> bool" where
  "term_ok t = (case t of Var v \<Rightarrow> take 1 v = ''?'' | Fixed n \<Rightarrow> node_ok n)"

text \<open>Every entry of a table is there under its own text.\<close>

definition tables_ok :: "rdf_env \<Rightarrow> bool" where
  "tables_ok s \<longleftrightarrow> mem_ok (tv_mem (e_tv s)) \<and>
     (\<forall>k n. e_resource s k = Some n \<longrightarrow> (\<exists>u. n = Resource u \<and> wf_uri u \<and> k = node_toString n)) \<and>
     (\<forall>k n. e_blank s k = Some n \<longrightarrow> (\<exists>i. n = Blank i \<and> k = node_toString n)) \<and>
     (\<forall>k p. e_pattern s k = Some p \<longrightarrow> k = RdfPattern.pattern_key p \<and>
        term_ok (p_subject p) \<and> term_ok (p_property p) \<and> term_ok (p_object p))"

lemma tables_okD:
  assumes "tables_ok s"
  shows "mem_ok (tv_mem (e_tv s))"
    "e_resource s k = Some n \<Longrightarrow> \<exists>u. n = Resource u \<and> wf_uri u \<and> k = node_toString n"
    "e_blank s k = Some n \<Longrightarrow> \<exists>i. n = Blank i \<and> k = node_toString n"
    "e_pattern s c = Some p \<Longrightarrow> c = RdfPattern.pattern_key p \<and> term_ok (p_subject p) \<and> term_ok (p_property p) \<and>
       term_ok (p_object p)"
  using assms unfolding tables_ok_def by blast+

text \<open>The options under which the text of a node can be read back: no base given as a text, and
  no namespace bound to an underscore.\<close>

definition reads_nodes :: "rdf_opts \<Rightarrow> bool" where
  "reads_nodes opts \<longleftrightarrow> (\<forall>s. o_base opts \<noteq> Base_string s) \<and> map_of (o_namespaces opts) ''_'' = None"

lemma the_uri_absolute:
  assumes "mem_ok mem" "wf_uri u" "\<forall>s. base \<noteq> Base_string s"
  shows "\<exists>mem'. the_uri d (uri_toString u) base mem = (Inr u, mem') \<and> mem_ok mem'"
proof (cases "mem (uri_toString u)")
  case (Some v)
  then have "parseURI (uri_toString u) = Inr v" using assms(1) by (simp add: mem_ok_def)
  then show ?thesis using Some assms(1) parse_toString [OF assms(2)] by (simp add: the_uri_def)
next
  case None
  have "uri_init (uri_toString u) b = Inr u" for b
    using parse_toString [OF assms(2)] assms(2) by (auto simp: uri_init_def wf_uri_def)
  then show ?thesis using None assms mem_store_ok [OF assms(1,2)]
    by (cases base) (simp_all add: the_uri_def)
qed

lemma node_text_resource:
  assumes "node_toString n = node_toString (Resource u)" "node_ok n" "wf_uri u"
  shows "n = Resource u"
  using assms by (cases n) (simp_all add: node_toString_def node_ok_def uri_text_inj)

lemma node_text_blank: "node_toString n = node_toString (Blank i) \<longleftrightarrow> n = Blank i"
  by (cases n) (simp_all add: node_toString_def)

lemma plain_text_inj: "node_toString m = node_toString n \<Longrightarrow> node_ok m \<Longrightarrow> plain_node n \<Longrightarrow> m = n"
  using node_text_resource node_text_blank by (cases n) (auto simp: plain_node_def plain_uri_def)

lemma term_text_inj: "pat_text t = node_toString n \<Longrightarrow> term_ok t \<Longrightarrow> plain_node n \<Longrightarrow> t = Fixed n"
  using plain_text_inj
  by (cases t; cases n) (auto simp: pat_text_def term_ok_def node_toString_def plain_node_def)

lemma var_text_inj: "pat_text t = CHR ''?'' # v \<Longrightarrow> t = Var (CHR ''?'' # v)"
  by (cases t) (auto simp: pat_text_def node_toString_def split: rdf_node.splits)

section \<open>Reading a node\<close>

lemma read_resource:
  assumes "tables_ok s" "plain_uri u" "reads_nodes opts"
  shows "\<exists>s'. rdf_resource doc opts (As_text (node_toString (Resource u))) s = (Inr (Resource u), s') \<and> tables_ok s'"
proof (cases "e_resource s (node_toString (Resource u))")
  case (Some n)
  then have "n = Resource u" using tables_okD(2) [OF assms(1) Some] node_text_resource [of n u] assms(2)
    unfolding node_ok_def plain_uri_def by (metis rdf_node.inject(1))
  then show ?thesis using Some assms(1) by (simp add: rdf_resource_def resource_key_def)
next
  case None
  let ?t = "uri_toString u"
  have u: "wf_uri u" "CHR ''>'' \<notin> set ?t" using assms(2) by (simp_all add: plain_uri_def)
  have m: "angle_match (node_toString (Resource u)) = Some ?t"
    using angle_match_plain [OF u(2)] by (simp add: node_toString_def)
  have rep: "replace_all [CHR 0x5C, CHR ''>''] ''>'' ?t = ?t"
    using u(2) by (intro replace_all_absent) (auto simp: sublist_def)
  obtain mem' where mem': "the_uri doc ?t (o_base opts) (tv_mem (e_tv s)) = (Inr u, mem')" "mem_ok mem'"
    using the_uri_absolute [of "tv_mem (e_tv s)" u "o_base opts" doc] assms(1,3) u(1)
    by (auto simp: tables_ok_def reads_nodes_def)
  let ?s = "s\<lparr>e_tv := (e_tv s)\<lparr>tv_mem := mem'\<rparr>\<rparr>"
  have "resource_init doc opts (As_text (node_toString (Resource u))) s = (Inr (Resource u), ?s)"
    using mem'(1) m rep by (simp add: resource_init_def on_uri_def on_tv_def on_mem_def bind_step_def ret_def)
  then have "rdf_resource doc opts (As_text (node_toString (Resource u))) s =
      (Inr (Resource u), ?s\<lparr>e_resource := (e_resource s)(node_toString (Resource u) \<mapsto> Resource u)\<rparr>)"
    using None by (simp add: rdf_resource_def resource_key_def keep_resource_def bind_step_def)
  then show ?thesis using assms(1) mem'(2) u(1) by (simp add: tables_ok_def)
qed

lemma blank_no_resource:
  assumes "tables_ok s" "plain_node (Blank i)" "reads_nodes opts"
  shows "\<exists>e. rdf_resource doc opts (As_text (node_toString (Blank i))) s = (Inl e, s)"
proof -
  let ?t = "''_:'' @ i"
  have i: "i \<noteq> []" "\<forall>c\<in>set i. blank_char c" using assms(2) by (simp_all add: plain_node_def)
  have none: "e_resource s ?t = None"
    using tables_okD(2) [OF assms(1), of ?t] by (cases "e_resource s ?t") (auto simp: node_toString_def)
  have last: "last ?t \<noteq> CHR '':''" using i by (auto simp: blank_char_def)
  have "\<exists>e. curie_parts (curie_defaults\<lparr>c_namespaces := o_namespaces opts\<rparr>) ?t = Inl e"
    using assms(3) i(1)
    by (auto simp: curie_parts_def curie_match_def curie_defaults_def colon_start_def text_of_def reads_nodes_def Let_def
        no_lines_def line_end_def)
  then obtain e where e: "curie_parts (curie_defaults\<lparr>c_namespaces := o_namespaces opts\<rparr>) ?t = Inl e" by blast
  have "angle_match ?t = None" by (simp add: angle_match_def)
  then show ?thesis
    using none last e by (simp add: rdf_resource_def resource_key_def resource_init_def parse_curie_def
        node_toString_def bind_step_def lift_res_def throw_def ret_def try_step_def on_uri_def on_tv_def on_mem_def)
qed

lemma read_blank:
  assumes "tables_ok s"
  shows "\<exists>s'. rdf_blank (node_toString (Blank i)) s = (Inr (Blank i), s') \<and> tables_ok s'"
proof (cases "e_blank s (node_toString (Blank i))")
  case (Some n)
  then have "n = Blank i" using tables_okD(3) [OF assms Some] node_text_blank [of n i] by metis
  then show ?thesis using Some assms by (simp add: rdf_blank_def)
next
  case None
  then have "rdf_blank (node_toString (Blank i)) s =
      (Inr (Blank i), s\<lparr>e_blank := (e_blank s)(node_toString (Blank i) \<mapsto> Blank i)\<rparr>)"
    by (simp add: rdf_blank_def blank_init_def keep_blank_def bind_step_def ret_def node_toString_def)
  then show ?thesis using assms by (simp add: tables_ok_def)
qed

lemma read_node:
  assumes "tables_ok s" "plain_node n" "reads_nodes opts"
  shows "\<exists>s'. rdf_subject doc opts (Text (node_toString n)) s = (Inr n, s') \<and> tables_ok s'"
proof (cases n)
  case (Resource u)
  then show ?thesis using read_resource [of s u opts doc] assms
    by (auto simp: rdf_subject_def try_step_def plain_node_def)
next
  case (Blank i)
  then show ?thesis using blank_no_resource [of s i opts doc] read_blank [OF assms(1), of i] assms
    by (auto simp: rdf_subject_def try_step_def)
qed (use assms in \<open>simp add: plain_node_def\<close>)

lemma read_property:
  assumes "tables_ok s" "plain_uri u" "reads_nodes opts"
  shows "\<exists>s'. rdf_property doc opts (Text (node_toString (Resource u))) s = (Inr (Resource u), s') \<and> tables_ok s'"
  using read_resource [OF assms, of doc] by (auto simp: rdf_property_def try_step_def node_toString_def)

lemma read_object:
  assumes "tables_ok s" "plain_node n" "reads_nodes opts"
  shows "\<exists>s'. rdf_object doc opts (Text (node_toString n)) s = (Inr n, s') \<and> tables_ok s'"
proof (cases n)
  case (Resource u)
  then show ?thesis using read_resource [of s u opts doc] assms
    by (auto simp: rdf_object_def try_step_def plain_node_def)
next
  case (Blank i)
  then show ?thesis using blank_no_resource [of s i opts doc] read_blank [OF assms(1), of i] assms
    by (auto simp: rdf_object_def try_step_def)
qed (use assms in \<open>simp add: plain_node_def\<close>)

section \<open>Reading a pattern\<close>

definition plain_term :: "pat_term \<Rightarrow> bool" where
  "plain_term t = (case t of
       Var v \<Rightarrow> take 1 v = ''?'' \<and> (\<forall>c\<in>set v. \<not> is_space c \<and> c \<noteq> CHR 0x22 \<and> c \<noteq> CHR ''<'')
     | Fixed n \<Rightarrow> plain_node n)"

definition plain_pattern :: "rdf_pattern \<Rightarrow> bool" where
  "plain_pattern p \<longleftrightarrow> plain_term (p_subject p) \<and> plain_term (p_property p) \<and> plain_term (p_object p) \<and>
     (\<forall>i. p_property p \<noteq> Fixed (Blank i))"

lemma plain_term_ok: "plain_term t \<Longrightarrow> term_ok t"
  by (auto simp: plain_term_def term_ok_def node_ok_def plain_node_def plain_uri_def split: pat_term.splits)

lemma plain_term_text:
  assumes "plain_term t"
  shows "one_part (pat_text t)" "pat_text t \<noteq> []" "\<not> is_space (hd (pat_text t))" "\<not> is_space (last (pat_text t))"
proof -
  have "one_part (pat_text t) \<and> pat_text t \<noteq> [] \<and> \<not> is_space (hd (pat_text t)) \<and> \<not> is_space (last (pat_text t))"
  proof (cases t)
    case (Var v)
    have pv: "take 1 v = ''?'' \<and> (\<forall>c\<in>set v. \<not> is_space c \<and> c \<noteq> CHR 0x22 \<and> c \<noteq> CHR ''<'')"
      using assms unfolding Var plain_term_def pat_term.case .
    then have v: "\<forall>c\<in>set v. \<not> is_space c \<and> c \<noteq> CHR 0x22 \<and> c \<noteq> CHR ''<''" "v \<noteq> []" by (blast, force)
    then have "hd v \<in> set v" "last v \<in> set v" by simp_all
    then have "one_part v" "\<not> is_space (hd v)" "\<not> is_space (last v)" using one_part_chars v(1) by blast+
    then show ?thesis using v(2) Var by (simp add: pat_text_def)
  next
    case (Fixed n)
    moreover have "node_toString n \<noteq> []" by (cases n) (simp_all add: node_toString_def)
    ultimately show ?thesis using plain_one_part [of n] assms by (simp add: plain_term_def pat_text_def)
  qed
  then show "one_part (pat_text t)" "pat_text t \<noteq> []" "\<not> is_space (hd (pat_text t))" "\<not> is_space (last (pat_text t))"
    by simp_all
qed

lemma term_text_eq:
  assumes "pat_text t = pat_text t'" "term_ok t" "plain_term t'"
  shows "t = t'"
proof (cases t')
  case (Var v)
  then obtain w where "v = CHR ''?'' # w" using assms(3) by (cases v) (simp_all add: plain_term_def)
  then show ?thesis using var_text_inj [of t w] assms(1) Var by (simp add: pat_text_def)
next
  case (Fixed n)
  then show ?thesis using term_text_inj [of t n] assms by (simp add: pat_text_def plain_term_def)
qed

lemma pattern_kept:
  assumes "tables_ok s" "plain_pattern p" "e_pattern s (RdfPattern.pattern_key p) = Some q"
  shows "q = p"
proof -
  have "RdfPattern.pattern_key p = RdfPattern.pattern_key q" "term_ok (p_subject q)" "term_ok (p_property q)"
    "term_ok (p_object q)"
    using tables_okD(4) [OF assms(1,3)] by blast+
  then show ?thesis using assms(2)
    by (auto simp: RdfPattern.pattern_key_def plain_pattern_def intro!: rdf_pattern.equality term_text_eq)
qed

lemma keep_plain_pattern:
  assumes "tables_ok s" "plain_pattern p"
  shows "\<exists>s'. keep_pattern p s = (Inr p, s') \<and> tables_ok s'"
proof (cases "e_pattern s (RdfPattern.pattern_key p)")
  case (Some q)
  then show ?thesis using pattern_kept [OF assms Some] assms(1) by (simp add: keep_pattern_def)
next
  case None
  have "tables_ok (s\<lparr>e_pattern := (e_pattern s)(RdfPattern.pattern_key p \<mapsto> p)\<rparr>)"
    using assms plain_term_ok unfolding tables_ok_def by (auto simp: plain_pattern_def)
  then show ?thesis using None by (simp add: keep_pattern_def)
qed

lemma read_term:
  assumes "tables_ok s" "plain_term t" "\<And>n. t = Fixed n \<Longrightarrow> plain_node n \<Longrightarrow> \<exists>s'. mk (Text (node_toString n)) s = (Inr n, s') \<and> tables_ok s'"
  shows "\<exists>s'. pat_term_of mk (Text (pat_text t)) s = (Inr t, s') \<and> tables_ok s'"
proof (cases t)
  case (Var v)
  then show ?thesis using assms by (simp add: pat_term_of_def pat_text_def arg_text_def plain_term_def ret_def)
next
  case (Fixed n)
  have "take 1 (node_toString n) \<noteq> ''?''" by (cases n) (simp_all add: node_toString_def)
  moreover have "plain_node n" using assms(2) Fixed by (simp add: plain_term_def)
  ultimately show ?thesis using assms(3) [OF Fixed] Fixed
    by (auto simp: pat_term_of_def pat_text_def arg_text_def bind_step_def ret_def)
qed

lemma read_pattern_text:
  assumes s: "tables_ok s" and p: "plain_pattern p" and o: "reads_nodes opts" "o_optional opts = Some (p_optional p)"
  shows "\<exists>s'. pattern_of_text doc opts (pattern_toString p) s = (Inr p, s') \<and> tables_ok s'"
proof -
  let ?S = "p_subject p" and ?P = "p_property p" and ?O = "p_object p"
  have t: "plain_term ?S" "plain_term ?P" "plain_term ?O" using p by (simp_all add: plain_pattern_def)
  note x = plain_term_text [OF t(1)] and y = plain_term_text [OF t(2)] and z = plain_term_text [OF t(3)]
  have parts: "statement_parts bad (pattern_toString p) = Inr (pat_text ?S, pat_text ?P, pat_text ?O)" for bad
    using three_parts [OF x(1) y(1) z(1) x(2) y(2) z(2) x(3) z(4)] by (simp add: pattern_toString_def)
  have key: "(pat_text ?S, pat_text ?P, pat_text ?O, p_optional p) = RdfPattern.pattern_key p"
    by (simp add: RdfPattern.pattern_key_def)
  show ?thesis
  proof (cases "e_pattern s (RdfPattern.pattern_key p)")
    case (Some q)
    then show ?thesis using pattern_kept [OF s p Some] s parts o(2) key
      by (simp add: pattern_of_text_def bind_step_def lift_res_def ret_def)
  next
    case None
    obtain s1 where s1: "pat_term_of (rdf_subject doc opts) (Text (pat_text ?S)) s = (Inr ?S, s1)" "tables_ok s1"
      using read_term [OF s t(1), of "rdf_subject doc opts"] read_node [OF s _ o(1), of _ doc] by blast
    have "\<exists>s'. rdf_property doc opts (Text (node_toString n)) s1 = (Inr n, s') \<and> tables_ok s'" if "?P = Fixed n" for n
      using read_property [OF s1(2) _ o(1), of _ doc] t(2) p that
      by (cases n) (auto simp: plain_term_def plain_node_def plain_pattern_def)
    then obtain s2 where s2: "pat_term_of (rdf_property doc opts) (Text (pat_text ?P)) s1 = (Inr ?P, s2)" "tables_ok s2"
      using read_term [OF s1(2) t(2), of "rdf_property doc opts"] by blast
    obtain s3 where s3: "pat_term_of (rdf_object doc opts) (Text (pat_text ?O)) s2 = (Inr ?O, s3)" "tables_ok s3"
      using read_term [OF s2(2) t(3), of "rdf_object doc opts"] read_object [OF s2(2) _ o(1), of _ doc] by blast
    have init: "pattern_init doc opts (Text (pat_text ?S)) (Text (pat_text ?P)) (Text (pat_text ?O)) s = (Inr p, s3)"
      using s1(1) s2(1) s3(1) o(2) by (simp add: pattern_init_def bind_step_def ret_def)
    obtain s4 where "keep_pattern p s3 = (Inr p, s4)" "tables_ok s4" using keep_plain_pattern [OF s3(2) p] by blast
    then show ?thesis using None parts init o(2) key
      by (simp add: pattern_of_text_def make_pattern_def bind_step_def lift_res_def ret_def)
  qed
qed

section \<open>Reading a CURIE\<close>

lemma tables_key_hd:
  assumes "tables_ok s" "take 1 k \<noteq> ''<''"
  shows "e_resource s k = None"
  using tables_okD(2) [OF assms(1), of k] assms(2) by (cases "e_resource s k") (auto simp: node_toString_def)

lemma keep_known_resource:
  assumes "tables_ok s" "wf_uri u"
  shows "\<exists>s'. keep_resource (Resource u) s = (Inr (Resource u), s') \<and> tables_ok s'"
proof (cases "e_resource s (node_toString (Resource u))")
  case None
  then show ?thesis using assms by (simp add: keep_resource_def tables_ok_def)
next
  case (Some n)
  then have "n = Resource u"
    using tables_okD(2) [OF assms(1) Some] node_text_resource [of n u] assms(2) unfolding node_ok_def by (metis rdf_node.inject(1))
  then show ?thesis using Some assms(1) by (simp add: keep_resource_def)
qed

lemma read_curie:
  assumes s: "tables_ok s" and v: "v = pre @ CHR '':'' # local" "pre \<noteq> []" "CHR '':'' \<notin> set pre" "hd pre \<noteq> CHR ''<''"
      "local \<noteq> []" "last local \<noteq> CHR '':''" "no_lines local"
    and ns: "map_of (o_namespaces opts) pre = Some ns" and u: "wf_uri u" "uri_toString u = ns @ local"
  shows "\<exists>s'. rdf_resource doc opts (As_text v) s = (Inr (Resource u), s') \<and> tables_ok s'"
proof -
  have hd: "take 1 v \<noteq> ''<''" "take 1 v \<noteq> '':''" "last v \<noteq> CHR '':''" "v \<noteq> []"
    using v by (cases pre; auto)+
  have none: "e_resource s v = None" using tables_key_hd [OF s hd(1)] .
  have "angle_match v = None" using hd(1) by (cases v) (simp_all add: angle_match_def)
  have pre: "takeWhile (\<lambda>c. c \<noteq> CHR '':'') v = pre" "dropWhile (\<lambda>c. c \<noteq> CHR '':'') v = CHR '':'' # local"
    using v(1,3) by (auto intro: takeWhile_stop dropWhile_stop)
  have "colon_start v = False" using hd(2) by (cases v) (simp_all add: colon_start_def)
  then have parts: "curie_parts (curie_defaults\<lparr>c_namespaces := o_namespaces opts\<rparr>) v = Inr (Some ns, local)"
    using pre v(2,5,7) ns by (simp add: curie_parts_def curie_match_def text_of_def)
  obtain mem' where mem': "the_uri doc (ns @ local) No_base (tv_mem (e_tv s)) = (Inr u, mem')" "mem_ok mem'"
    using the_uri_absolute [OF tables_okD(1) [OF s] u(1), of No_base doc] u(2) by auto
  let ?s = "s\<lparr>e_tv := (e_tv s)\<lparr>tv_mem := mem'\<rparr>\<rparr>"
  have "resource_init doc opts (As_text v) s = (Inr (Resource u), ?s)"
    using hd \<open>angle_match v = None\<close> parts mem'(1)
    by (simp add: resource_init_def parse_curie_def text_of_def bind_step_def lift_res_def ret_def try_step_def on_uri_def on_tv_def on_mem_def)
  moreover have "tables_ok ?s" using s mem'(2) by (simp add: tables_ok_def)
  ultimately show ?thesis using none keep_known_resource [of ?s u] u(1)
    by (auto simp: rdf_resource_def resource_key_def bind_step_def)
qed

section \<open>What keeps the tables right\<close>

text \<open>A step that keeps the invariant and, if it returns, gives a value with \<open>P\<close>.\<close>

definition yields :: "('s \<Rightarrow> bool) \<Rightarrow> ('a \<Rightarrow> bool) \<Rightarrow> ('s, 'a) js_step \<Rightarrow> bool" where
  "yields I P m \<longleftrightarrow> (\<forall>s. I s \<longrightarrow> I (snd (m s)) \<and> (\<forall>a. fst (m s) = Inr a \<longrightarrow> P a))"

lemma yieldsI: "(\<And>s. I s \<Longrightarrow> I (snd (m s)) \<and> (\<forall>a. fst (m s) = Inr a \<longrightarrow> P a)) \<Longrightarrow> yields I P m"
  by (simp add: yields_def)

lemma yields_keeps: "yields I P m \<Longrightarrow> keeps I m"
  by (simp add: yields_def keeps_def)

lemma yields_ret: "P a \<Longrightarrow> yields I P (ret a)"
  by (simp add: yields_def ret_def)

lemma yields_throw: "yields I P (throw e)"
  by (simp add: yields_def throw_def)

lemma yields_bind:
  assumes "yields I P m" "\<And>a. P a \<Longrightarrow> yields I R (f a)"
  shows "yields I R (bind_step m f)"
  using assms by (fastforce simp: yields_def bind_step_def split: prod.splits sum.splits)

lemma yields_bind_keeps: "keeps I m \<Longrightarrow> (\<And>a. yields I R (f a)) \<Longrightarrow> yields I R (bind_step m f)"
  using yields_bind [of I "\<lambda>_. True" m R f] by (simp add: yields_def keeps_def)

lemma yields_try:
  assumes "yields I P m" "\<And>e. yields I P (h e)"
  shows "yields I P (try_step m h)"
  using assms by (fastforce simp: yields_def try_step_def split: prod.splits sum.splits)

text \<open>The document's own base, with an authority, and options with a base of the same kind.\<close>

definition good_base :: "uri \<Rightarrow> bool" where
  "good_base b \<longleftrightarrow> wf_uri b \<and> u_authority b \<noteq> None"

definition good_opts :: "rdf_opts \<Rightarrow> bool" where
  "good_opts opts \<longleftrightarrow> o_base opts = No_base \<or> (\<exists>b. o_base opts = Base_uri b \<and> good_base b)"

lemma yields_the_uri:
  assumes "good_base d" "base = No_base \<or> base = Base_uri b \<and> good_base b"
  shows "yields mem_ok wf_uri (the_uri d r base)"
proof (rule yieldsI)
  fix mem assume m: "mem_ok mem"
  define c where "c = (case base of Base_uri b \<Rightarrow> b | _ \<Rightarrow> d)"
  have c: "wf_uri c" "u_authority c \<noteq> None" "base = Base_uri c \<or> base = No_base \<and> d = c"
    using assms by (auto simp: c_def good_base_def)
  obtain mem' where "the_uri d r base mem = (uri_init r (Some c), mem')" "mem_ok mem'"
    using the_uri_answer [OF m c] by blast
  then show "mem_ok (snd (the_uri d r base mem)) \<and> (\<forall>a. fst (the_uri d r base mem) = Inr a \<longrightarrow> wf_uri a)"
    using uri_init_wf [OF c(1,2)] by simp
qed

lemma yields_on_uri: "yields mem_ok P m \<Longrightarrow> yields tables_ok P (on_uri m)"
  by (auto simp: yields_def on_uri_def on_tv_def on_mem_def tables_ok_def split: prod.splits)

abbreviation good_resource :: "rdf_node \<Rightarrow> bool" where
  "good_resource n \<equiv> \<exists>u. n = Resource u \<and> wf_uri u"

lemma yields_keep_resource: "good_resource n \<Longrightarrow> yields tables_ok good_resource (keep_resource n)"
  by (rule yieldsI) (auto simp: keep_resource_def tables_ok_def split: option.splits)

lemma yields_resource_init:
  assumes "good_base doc" "good_opts opts"
  shows "yields tables_ok good_resource (resource_init doc opts (As_text value))"
proof -
  have u: "yields tables_ok wf_uri (on_uri (the_uri doc r (o_base opts)))" for r
    using assms yields_the_uri [of doc "o_base opts"] by (intro yields_on_uri) (auto simp: good_opts_def)
  have v: "yields tables_ok wf_uri (on_uri (the_uri doc r No_base))" for r
    using assms(1) by (intro yields_on_uri yields_the_uri) simp_all
  have p: "yields mem_ok wf_uri (parse_curie doc c t)" for c t
    unfolding parse_curie_def
    by (intro yields_bind_keeps keeps_lift_res) (use assms(1) in \<open>auto intro: yields_the_uri\<close>)
  show ?thesis unfolding resource_init_def resource_arg.case
    by (rule yields_bind [where P = wf_uri])
      (auto intro!: u v yields_throw yields_try yields_on_uri p yields_ret split: option.splits)
qed

lemma yields_resource:
  assumes "good_base doc" "good_opts opts"
  shows "yields tables_ok good_resource (rdf_resource doc opts (As_text value))"
proof (rule yieldsI)
  fix s assume s: "tables_ok s"
  have y: "yields tables_ok good_resource (bind_step (resource_init doc opts (As_text value)) keep_resource)"
    using yields_bind [OF yields_resource_init [OF assms]] yields_keep_resource by blast
  show "tables_ok (snd (rdf_resource doc opts (As_text value) s)) \<and>
    (\<forall>a. fst (rdf_resource doc opts (As_text value) s) = Inr a \<longrightarrow> good_resource a)"
  proof (cases "e_resource s value")
    case None
    then show ?thesis using y s by (simp add: rdf_resource_def resource_key_def yields_def)
  next
    case (Some n)
    then show ?thesis using tables_okD(2) [OF s Some] s by (simp add: rdf_resource_def resource_key_def) blast
  qed
qed

lemma keeps_blank: "keeps tables_ok (rdf_blank v)"
proof (rule keepsI)
  fix s assume s: "tables_ok s"
  have "tables_ok (snd (keep_blank (Blank i) r))" if "tables_ok r" for i r
    using that by (auto simp: keep_blank_def tables_ok_def split: option.splits)
  moreover have "tables_ok (s\<lparr>e_seed := n\<rparr>)" for n using s by (simp add: tables_ok_def)
  ultimately show "tables_ok (snd (rdf_blank v s))" using s
    by (auto simp: rdf_blank_def blank_init_def blankNodeID_def bind_step_def ret_def throw_def split: option.splits)
qed

lemma keeps_typedValue:
  assumes "good_base doc"
  shows "keeps (\<lambda>s. mem_ok (tv_mem s)) (typedValue doc v dt)"
proof -
  have "keeps (\<lambda>s. mem_ok (tv_mem s)) (on_mem (the_uri doc r (Base_uri doc)))" for r
    using yields_the_uri [OF assms, of "Base_uri doc" doc r] assms
    by (auto simp: keeps_def yields_def on_mem_def split: prod.splits)
  then have "keeps (\<lambda>s. mem_ok (tv_mem s)) (tv_convert doc t r)" for t r
    by (cases t) (auto simp: tv_convert_def intro!: keeps_bind)
  then have c: "keeps (\<lambda>s. mem_ok (tv_mem s)) (case tv_types dt of None \<Rightarrow> ret (TV_string (strip v))
      | Some d \<Rightarrow> tv_convert doc d (if tv_strip d then strip v else v))"
    by (cases "tv_types dt") simp_all
  have "keeps (\<lambda>s. mem_ok (tv_mem s)) (then_step (modify (\<lambda>s. s\<lparr>tv_fn := f s\<rparr>))
      (bind_step (case tv_types dt of None \<Rightarrow> ret (TV_string (strip v))
        | Some d \<Rightarrow> tv_convert doc d (if tv_strip d then strip v else v)) (\<lambda>x. modify (\<lambda>s. s\<lparr>tv_fn := g x s\<rparr>))))" for f g
    by (intro keeps_then keeps_bind keeps_modify c) simp_all
  then show ?thesis unfolding typedValue_def by (cases "tv_valid v dt") (simp_all only: if_True if_False keeps_throw)
qed

lemma keeps_on_tv: "keeps (\<lambda>s. mem_ok (tv_mem s)) m \<Longrightarrow> keeps tables_ok (on_tv m)"
  by (auto simp: keeps_def on_tv_def tables_ok_def split: prod.splits)

lemma keeps_typed_literal: "good_base doc \<Longrightarrow> keeps tables_ok (typed_literal doc v dt)"
  unfolding typed_literal_def by (intro keeps_then keeps_gets keeps_on_tv keeps_typedValue)

lemma keeps_turtle_literal:
  assumes "good_base doc" "good_opts opts"
  shows "keeps tables_ok (turtle_literal doc opts v)"
  unfolding turtle_literal_def Let_def
  by (auto intro!: keeps_bind yields_keeps [OF yields_resource [OF assms]] keeps_typed_literal assms
      split: option.splits prod.splits lit_suffix.splits)

lemma keeps_literal:
  assumes "good_base doc" "good_opts opts"
  shows "keeps tables_ok (rdf_literal doc opts a)"
proof -
  have curie: "keeps tables_ok (on_uri (safeCurie doc c dt))" for c dt
  proof -
    have "yields mem_ok wf_uri (the_uri doc r No_base)" for r using assms(1) by (rule yields_the_uri) simp
    then have "yields mem_ok wf_uri (safeCurie doc c dt)"
      unfolding safeCurie_def parse_curie_def
      by (auto intro!: yields_bind_keeps keeps_lift_res split: option.splits)
    then show ?thesis by (intro yields_keeps yields_on_uri)
  qed
  have init: "keeps tables_ok (literal_init doc opts a)"
    unfolding literal_init_def
    by (auto intro!: keeps_bind curie keeps_typed_literal keeps_turtle_literal assms
        split: option.splits literal_arg.splits)
  have keep: "keeps tables_ok (keep_literal n)" for n
    by (rule keepsI) (auto simp: keep_literal_def tables_ok_def split: option.splits)
  have all: "keeps tables_ok (bind_step (literal_init doc opts a) keep_literal)"
    by (intro keeps_bind init keep)
  show ?thesis
    by (rule keepsI) (use keepsD [OF all] in \<open>auto simp: rdf_literal_def split: option.splits\<close>)
qed

lemma keeps_make_triple: "keeps tables_ok (make_triple doc no_opts (Node s) (Node p) (Node ob))"
proof -
  have "keeps tables_ok (keep_triple t)" for t
    by (rule keepsI) (auto simp: keep_triple_def tables_ok_def split: option.splits)
  then have "keeps tables_ok (bind_step (triple_init doc no_opts (Node s) (Node p) (Node ob)) keep_triple)"
    by (auto simp: triple_init_def rdf_subject_def rdf_property_def rdf_object_def no_opts_def intro!: keeps_bind)
  then show ?thesis by (auto simp: keeps_def make_triple_def split: option.splits)
qed

text \<open>Whatever an RDF/JSON object says, reading it keeps the tables right, even where it ends in an exception.\<close>

lemma keeps_parseJson:
  assumes "good_base doc"
  shows "keeps tables_ok (parseJson doc data)"
proof -
  have opts: "good_opts no_opts" "good_opts (no_opts\<lparr>o_datatype := x\<rparr>)" "good_opts (no_opts\<lparr>o_lang := x\<rparr>)" for x
    by (simp_all add: good_opts_def no_opts_def)
  have res: "keeps tables_ok (json_resource doc t)" for t
    unfolding json_resource_def by (rule yields_keeps [OF yields_resource [OF assms opts(1)]])
  have "keeps tables_ok (json_object doc j)" for j
    unfolding json_object_def
    by (auto intro!: res keeps_blank keeps_literal assms opts split: node_kind.splits option.splits)
  then have "keeps tables_ok (json_triples doc e)" for e
    unfolding json_triples_def
    by (auto intro!: keeps_bind keeps_map_step res keeps_blank keeps_make_triple split: prod.splits)
  then show ?thesis unfolding parseJson_def by (intro keeps_bind keeps_map_step keeps_ret)
qed

end
