(* ===== verification/RdfNodeGet.thy ===== *)
theory RdfNodeGet
  imports RdfAnswers RdfReading
begin

text \<open>
  \<open>get\<close>, \<open>getInverse\<close> and \<open>rdfList\<close> of \<open>jquery.rdfquery.core-1.0.js\<close> on a page whose queries are chains
  of patterns and whose tables are right: the values are those of the databank, the elements those
  of the list, and loading an RDF/JSON answer makes its triples ready to be looked up.
\<close>

text \<open>The patterns of \<open>get\<close> and \<open>getInverse\<close>.\<close>

definition get_pattern :: "rdf_node \<Rightarrow> rdf_node \<Rightarrow> rdf_pattern" where
  "get_pattern n p = \<lparr>p_subject = Fixed n, p_property = Fixed p, p_object = Var ''?object'', p_optional = False\<rparr>"

definition inverse_pattern :: "rdf_node \<Rightarrow> rdf_node \<Rightarrow> rdf_pattern" where
  "inverse_pattern n p = \<lparr>p_subject = Var ''?subject'', p_property = Fixed p, p_object = Fixed n, p_optional = False\<rparr>"

lemma get_patterns_plain:
  assumes "plain_node n" "plain_uri u"
  shows "plain_pattern (get_pattern n (Resource u))" "plain_pattern (inverse_pattern n (Resource u))"
  using assms
  by (simp_all add: plain_pattern_def get_pattern_def inverse_pattern_def plain_term_def plain_node_def is_space_def)

lemma get_pattern_texts:
  "pattern_toString (get_pattern n p) = node_toString n @ '' '' @ node_toString p @ '' ?object''"
  "pattern_toString (inverse_pattern n p) = ''?subject '' @ node_toString p @ '' '' @ node_toString n"
  by (simp_all add: pattern_toString_def get_pattern_def inverse_pattern_def pat_text_def)

section \<open>Getting values\<close>

text \<open>
  A page whose queries are live and whose tables are right, and whose queries are all on databanks that have
  been made; one of them holds the triples \<open>ts\<close>, and reads nodes; a top query on it, where a node
  can be looked up.
\<close>

definition world_ready :: "world \<Rightarrow> bool" where
  "world_ready w \<longleftrightarrow> live w \<and> tables_ok (w_rdf w) \<and> (\<forall>q x. w_queries w q = Some x \<longrightarrow> q_databank x \<le> w_bank_seed w)"

definition bank_ready :: "world \<Rightarrow> nat \<Rightarrow> rdf_triple list \<Rightarrow> bool" where
  "bank_ready w d ts \<longleftrightarrow> world_ready w \<and> d \<le> w_bank_seed w \<and>
     (\<exists>b. w_banks w d = Some (Bank b) \<and> b_store b = ts \<and> (\<forall>s. b_base b \<noteq> Base_string s) \<and>
        map_of (b_namespaces b) ''_'' = None)"

definition get_ready :: "world \<Rightarrow> nat \<Rightarrow> rdf_triple list \<Rightarrow> bool" where
  "get_ready w q ts \<longleftrightarrow> (\<exists>x. w_queries w q = Some x \<and> q_top x \<and> bank_ready w (q_databank x) ts)"

lemma world_readyD:
  assumes "world_ready w"
  shows "live w" "tables_ok (w_rdf w)" "w_queries w q = Some x \<Longrightarrow> q_databank x \<le> w_bank_seed w"
  using assms by (simp_all add: world_ready_def)

lemma bank_readyE:
  assumes "bank_ready w d ts"
  obtains b where "world_ready w" "w_banks w d = Some (Bank b)" "b_store b = ts" "\<forall>s. b_base b \<noteq> Base_string s"
    "map_of (b_namespaces b) ''_'' = None" "d \<le> w_bank_seed w"
  using assms unfolding bank_ready_def by blast

lemma bank_readyI:
  assumes "world_ready w" "w_banks w d = Some (Bank b)" "b_store b = ts" "\<forall>s. b_base b \<noteq> Base_string s"
    "map_of (b_namespaces b) ''_'' = None" "d \<le> w_bank_seed w"
  shows "bank_ready w d ts"
  using assms unfolding bank_ready_def by blast

definition property_values :: "rdf_triple list \<Rightarrow> rdf_node \<Rightarrow> rdf_node \<Rightarrow> rdf_node list" where
  "property_values ts n p = map t_object (filter (\<lambda>t. t_subject t = n \<and> t_property t = p) ts)"

definition property_holders :: "rdf_triple list \<Rightarrow> rdf_node \<Rightarrow> rdf_node \<Rightarrow> rdf_node list" where
  "property_holders ts n p = map t_subject (filter (\<lambda>t. t_object t = n \<and> t_property t = p) ts)"

text \<open>An array that is empty is given as \<open>null\<close>.\<close>

definition or_null :: "'a list \<Rightarrow> 'a list option" where
  "or_null xs = (if xs = [] then None else Some xs)"

lemma or_null_hd [simp]: "map_option hd (or_null xs) = (case xs of [] \<Rightarrow> None | x # _ \<Rightarrow> Some x)"
  by (simp add: or_null_def split: list.splits)

lemma get_patterns_match:
  "match_of (get_pattern n p) t =
     (if t_subject t = n \<and> t_property t = p
      then Some \<lparr>m_bindings = [(''object'', t_object t)], m_triples = [t]\<rparr> else None)"
  "match_of (inverse_pattern n p) t =
     (if t_object t = n \<and> t_property t = p
      then Some \<lparr>m_bindings = [(''subject'', t_subject t)], m_triples = [t]\<rparr> else None)"
  by (auto simp: match_of_def pat_exec_def testResource_def get_pattern_def inverse_pattern_def)

lemma get_patterns_found:
  "found_nodes ''object'' (map m_bindings (List.map_filter (match_of (get_pattern n p)) ts)) = property_values ts n p"
  "found_nodes ''subject'' (map m_bindings (List.map_filter (match_of (inverse_pattern n p)) ts)) = property_holders ts n p"
  by (induction ts)
    (auto simp: found_nodes_def property_values_def property_holders_def map_filter_simps get_patterns_match)

lemma live_env [simp]: "live (w\<lparr>w_rdf := k\<rparr>) = live w"
  by (simp add: live_def)

lemma where_text:
  assumes "read_pattern doc stack q opts (Some optional) text w = (Inr p, w')"
  shows "rdf_where doc stack q (Inl text) opts optional w = rdf_where doc stack q (Inr p) opts optional w'"
  using assms by (simp add: rdf_where_def bind_step_def ret_def)

text \<open>What a prefix is bound to in the databank of a query.\<close>

definition prefix_of :: "world \<Rightarrow> nat \<Rightarrow> string \<Rightarrow> string option" where
  "prefix_of w q p = (case w_queries w q of
       None \<Rightarrow> None
     | Some x \<Rightarrow> (case w_banks w (q_databank x) of Some (Bank b) \<Rightarrow> map_of (b_namespaces b) p | _ \<Rightarrow> None))"

lemma narrowed_items:
  "q_length (narrowed q x p b) = length (q_matches (narrowed q x p b))"
  "q_items (narrowed q x p b) = map m_bindings (q_matches (narrowed q x p b))"
  by (simp_all add: narrowed_def Let_def grow_def push_items_def)

text \<open>Narrowing a top query with a text that is read as a pattern, and with that of a plain pattern.\<close>

lemma where_ready:
  assumes w: "get_ready w q ts" and p: "\<not> p_optional p"
    and reads: "\<And>ro s. reads_nodes ro \<Longrightarrow> o_optional ro = Some False \<Longrightarrow> tables_ok s \<Longrightarrow>
      (\<And>k. map_of (o_namespaces ro) k = prefix_of w q k) \<Longrightarrow>
      \<exists>s'. pattern_of_text doc ro text s = (Inr p, s') \<and> tables_ok s'"
  shows "\<exists>c w' y. rdf_where doc (Suc (Suc k)) q (Inl text) default_add False w = (Inr c, w') \<and>
    get_ready w' q ts \<and> w_queries w' c = Some y \<and> q_matches y = List.map_filter (match_of p) ts \<and>
    q_length y = length (q_matches y) \<and> q_items y = map m_bindings (q_matches y)"
proof -
  obtain x where x: "w_queries w q = Some x" "q_top x" and r: "bank_ready w (q_databank x) ts"
    using w unfolding get_ready_def by blast
  obtain b where b: "world_ready w" "w_banks w (q_databank x) = Some (Bank b)" "b_store b = ts"
      "\<forall>s. b_base b \<noteq> Base_string s" "map_of (b_namespaces b) ''_'' = None" "q_databank x \<le> w_bank_seed w"
    using bank_readyE [OF r] .
  have live: "live w" and s: "tables_ok (w_rdf w)" using world_readyD(1,2) [OF b(1)] .
  let ?ro = "no_opts\<lparr>o_base := b_base b, o_namespaces := b_namespaces b, o_source := Some text, o_optional := Some False\<rparr>"
  have "reads_nodes ?ro" using b(4,5) by (simp add: reads_nodes_def)
  then obtain s' where s': "pattern_of_text doc ?ro text (w_rdf w) = (Inr p, s')" "tables_ok s'"
    using reads [of ?ro, OF _ _ s] x(1) b(2) by (auto simp: prefix_of_def)
  let ?w = "w\<lparr>w_rdf := s'\<rparr>" and ?c = "w_next_query w" and ?y = "narrowed q x p b"
  have read: "read_pattern doc (Suc (Suc k)) q default_add (Some False) text w = (Inr p, ?w)"
    using x(1) b(2) s'(1)
    by (simp add: read_pattern_def query_databank_def reading_opts_def default_add_def the_query_def the_bank_def
        bind_step_def ret_def on_rdf_def extend_ns_def)
  have net: "net_shape ?c (w_queries w)" using liveD(1) [OF live] .
  have q: "q \<noteq> ?c" "q_union x = None" using net_query(1,2) [OF net x(1)] by auto
  let ?v = "?w\<lparr>w_next_query := Suc ?c, w_banks := (w_banks w)(q_databank x \<mapsto> Bank (registered ?c p b)),
       w_queries := with_child (w_queries w) q x ?c ?y\<rparr>"
  have step: "rdf_where doc (Suc (Suc k)) q (Inl text) default_add False w = (Inr ?c, ?v)"
    using rdf_where_step [of ?w q x b p doc k default_add False] where_text [OF read] x(1) b(2) liveD(3) [OF live b(2)] q p
    by simp
  have lv: "live ?v" using live_with_child [of ?w q x b p] live x(1) b(2) p by simp
  have "q_databank z \<le> w_bank_seed w" if "with_child (w_queries w) q x ?c ?y r = Some z" for r z
    using world_readyD(3) [OF b(1)] x(1) that by (auto simp: with_child_def split: if_splits)
  then have "world_ready ?v" using lv s'(2) by (simp add: world_ready_def)
  then have "bank_ready ?v (q_databank x) ts" using b(3-6)
    by (intro bank_readyI [where b = "registered ?c p b"]) (simp_all add: registered_def)
  moreover have "with_child (w_queries w) q x ?c ?y q = Some (x\<lparr>q_children := q_children x @ [?c]\<rparr>)"
    using q(1) by (simp add: with_child_def)
  moreover have "q_top (x\<lparr>q_children := q_children x @ [?c]\<rparr>)" using x(2) by (simp add: q_top_def)
  ultimately have "get_ready ?v q ts" by (simp add: get_ready_def)
  moreover have "with_child (w_queries w) q x ?c ?y ?c = Some ?y" using q(1) by (simp add: with_child_def)
  moreover have "q_matches ?y = List.map_filter (match_of p) ts" using narrowed_joined(2) [of q x p b] x(2) b(3) by simp
  ultimately show ?thesis using step narrowed_items [of q x p b] by simp
qed

lemma where_plain:
  assumes "get_ready w q ts" "plain_pattern p" "\<not> p_optional p"
  shows "\<exists>c w' y. rdf_where doc (Suc (Suc k)) q (Inl (pattern_toString p)) default_add False w = (Inr c, w') \<and>
    get_ready w' q ts \<and> w_queries w' c = Some y \<and> q_matches y = List.map_filter (match_of p) ts \<and>
    q_length y = length (q_matches y) \<and> q_items y = map m_bindings (q_matches y)"
  using assms(3) by (intro where_ready [OF assms(1,3)] read_pattern_text assms(2)) simp_all

lemma get_patterns_required: "\<not> p_optional (get_pattern n p)" "\<not> p_optional (inverse_pattern n p)"
  by (simp_all add: get_pattern_def inverse_pattern_def)

lemma node_get_ready:
  assumes "get_ready w q ts" "plain_node n" "plain_uri u"
  shows "\<exists>w'. node_get doc (Suc (Suc k)) q n (Resource u) w = (Inr (or_null (property_values ts n (Resource u))), w') \<and>
    get_ready w' q ts"
proof -
  obtain c w' y where "rdf_where doc (Suc (Suc k)) q (Inl (pattern_toString (get_pattern n (Resource u)))) default_add False w =
      (Inr c, w')" "get_ready w' q ts" "w_queries w' c = Some y"
      "q_matches y = List.map_filter (match_of (get_pattern n (Resource u))) ts"
    using where_plain [OF assms(1) get_patterns_plain(1) [OF assms(2,3)] get_patterns_required(1), of doc k] by blast
  then show ?thesis using get_patterns_found(1) [of n "Resource u" ts]
    by (simp add: get_pattern_texts node_get_def bind_step_def the_query_def ret_def Let_def or_null_def)
qed

lemma node_getInverse_ready:
  assumes "get_ready w q ts" "plain_node n" "plain_uri u"
  shows "\<exists>w'. node_getInverse doc (Suc (Suc k)) q n (Resource u) w =
      (Inr (or_null (property_holders ts n (Resource u))), w') \<and> get_ready w' q ts"
proof -
  obtain c w' y where "rdf_where doc (Suc (Suc k)) q (Inl (pattern_toString (inverse_pattern n (Resource u)))) default_add False w =
      (Inr c, w')" "get_ready w' q ts" "w_queries w' c = Some y"
      "q_matches y = List.map_filter (match_of (inverse_pattern n (Resource u))) ts"
    using where_plain [OF assms(1) get_patterns_plain(2) [OF assms(2,3)] get_patterns_required(2), of doc k] by blast
  then show ?thesis using get_patterns_found(2) [of n "Resource u" ts]
    by (simp add: get_pattern_texts node_getInverse_def bind_step_def the_query_def ret_def Let_def or_null_def)
qed

section \<open>Lists\<close>

abbreviation list_const :: "string \<Rightarrow> uri" where
  "list_const name \<equiv> \<lparr>u_scheme = Some ''http'', u_authority = Some ''www.w3.org'',
     u_path = ''/1999/02/22-rdf-syntax-ns'', u_query = None, u_fragment = Some name\<rparr>"

lemma plain_list_const:
  assumes "name \<in> {''first'', ''rest'', ''nil''}"
  shows "rdf_const name = Resource (list_const name)" "plain_uri (list_const name)"
  using assms
  by (auto simp: rdf_const_def plain_uri_def wf_uri_def uri_toString_def is_alpha_def scheme_char_def to_lower_def
      lower_char_def auth_char_def path_char_def line_end_def)

text \<open>The triples hold, from the node \<open>n\<close> on, the list of \<open>xs\<close>: where a node has several values the first counts.\<close>

primrec holds_list :: "rdf_triple list \<Rightarrow> rdf_node list \<Rightarrow> rdf_node \<Rightarrow> bool" where
  "holds_list ts [] n \<longleftrightarrow> n = rdf_const ''nil''"
| "holds_list ts (x # xs) n \<longleftrightarrow> plain_node n \<and> n \<noteq> rdf_const ''nil'' \<and>
     (\<exists>r. property_values ts n (rdf_const ''first'') = x # r) \<and>
     (\<exists>m r. property_values ts n (rdf_const ''rest'') = m # r \<and> holds_list ts xs m)"

lemma nil_text: "plain_node n \<Longrightarrow> node_toString n = node_toString (rdf_const ''nil'') \<longleftrightarrow> n = rdf_const ''nil''"
  using plain_text_inj [of "rdf_const ''nil''" n] plain_list_const [of "''nil''"]
  by (auto simp: node_ok_def plain_uri_def)

lemma list_next_ready:
  assumes "get_ready w q ts" "plain_node n" "n \<noteq> rdf_const ''nil''"
  shows "\<exists>w'. list_next doc (Suc (Suc k)) q (Some n) w =
      (Inr (map_option hd (or_null (property_values ts n (rdf_const ''first''))),
        map_option hd (or_null (property_values ts n (rdf_const ''rest'')))), w') \<and> get_ready w' q ts"
proof -
  note c = plain_list_const
  obtain w1 where w1: "node_get doc (Suc (Suc k)) q n (rdf_const ''first'') w =
      (Inr (or_null (property_values ts n (rdf_const ''first''))), w1)" "get_ready w1 q ts"
    using node_get_ready [OF assms(1,2), of "list_const ''first''" doc k] c [of "''first''"] by auto
  obtain w2 where "node_get doc (Suc (Suc k)) q n (rdf_const ''rest'') w1 =
      (Inr (or_null (property_values ts n (rdf_const ''rest''))), w2)" "get_ready w2 q ts"
    using node_get_ready [OF w1(2) assms(2), of "list_const ''rest''" doc k] c [of "''rest''"] by auto
  then show ?thesis using w1(1) nil_text [OF assms(2)] assms(3)
    by (simp add: list_next_def bind_step_def ret_def)
qed

lemma list_each_nil:
  assumes "0 < fuel"
  shows "list_elements doc stack fuel q (Some (rdf_const ''nil'')) w = (Inr (Some []), w)"
  using assms by (cases fuel) (simp_all add: list_next_def bind_step_def ret_def)

lemma list_elements_ready:
  assumes "get_ready w q ts" "holds_list ts xs n" "length xs < fuel"
  shows "\<exists>w'. list_elements doc (Suc (Suc k)) fuel q (Some n) w = (Inr (Some xs), w') \<and> get_ready w' q ts"
  using assms
proof (induction xs arbitrary: w n fuel)
  case Nil
  then show ?case using list_each_nil [of fuel] by auto
next
  case (Cons x xs)
  then obtain f where f: "fuel = Suc f" "length xs < f" by (cases fuel) auto
  from Cons.prems obtain r m r' where v: "property_values ts n (rdf_const ''first'') = x # r"
      "property_values ts n (rdf_const ''rest'') = m # r'" "holds_list ts xs m" by auto
  obtain w1 where w1: "list_next doc (Suc (Suc k)) q (Some n) w = (Inr (Some x, Some m), w1)" "get_ready w1 q ts"
    using list_next_ready [OF Cons.prems(1), of n doc k] Cons.prems(2) v by auto
  obtain w2 where "list_elements doc (Suc (Suc k)) f q (Some m) w1 = (Inr (Some xs), w2)" "get_ready w2 q ts"
    using Cons.IH [OF w1(2) v(3) f(2)] by blast
  then show ?case using w1(1) f(1) by (simp add: bind_step_def ret_def)
qed

text \<open>A list whose last node has no rest ends in an exception, and one that runs into itself never ends.\<close>

lemma list_without_rest:
  assumes "get_ready w q ts" "plain_node n" "n \<noteq> rdf_const ''nil''" "property_values ts n (rdf_const ''rest'') = []"
    and "property_values ts n (rdf_const ''first'') \<noteq> []"
  shows "fst (list_elements doc (Suc (Suc k)) (Suc (Suc f)) q (Some n) w) = Inl TypeError"
proof -
  obtain x r where "property_values ts n (rdf_const ''first'') = x # r" using assms(5) by (cases "property_values ts n (rdf_const ''first'')") auto
  then obtain w1 where "list_next doc (Suc (Suc k)) q (Some n) w = (Inr (Some x, None), w1)"
    using list_next_ready [OF assms(1-3), of doc k] assms(4) by auto
  then show ?thesis by (simp add: bind_step_def list_next_def throw_def)
qed

lemma list_cycle_never_ends:
  assumes "plain_node n" "n \<noteq> rdf_const ''nil''" "property_values ts n (rdf_const ''rest'') = n # rs"
    and "property_values ts n (rdf_const ''first'') = x # r"
  shows "get_ready w q ts \<Longrightarrow> fst (list_elements doc (Suc (Suc k)) fuel q (Some n) w) = Inr None"
proof (induction fuel arbitrary: w)
  case 0
  then show ?case by (simp add: ret_def)
next
  case (Suc fuel)
  obtain w1 where w1: "list_next doc (Suc (Suc k)) q (Some n) w = (Inr (Some x, Some n), w1)" "get_ready w1 q ts"
    using list_next_ready [OF Suc.prems assms(1,2), of doc k] assms(3,4) by auto
  then show ?case using Suc.IH [OF w1(2)]
    by (auto simp: bind_step_def ret_def split: prod.splits sum.splits)
qed

section \<open>Loading\<close>

text \<open>The store after triples that are not there yet have been put at its end.\<close>

definition put_new :: "rdf_triple list \<Rightarrow> rdf_triple list \<Rightarrow> rdf_triple list" where
  "put_new ts new = foldl (\<lambda>ts t. if t \<in> set ts then ts else ts @ [t]) ts new"

lemma put_new_set: "set (put_new ts new) = set ts \<union> set new"
  unfolding put_new_def by (induction new arbitrary: ts) auto

lemma bank_insert_fields:
  "b_store (bank_insert t b) = (if t \<in> set (b_store b) then b_store b else b_store b @ [t])"
  "b_base (bank_insert t b) = b_base b" "b_namespaces (bank_insert t b) = b_namespaces b"
  by (simp_all add: bank_insert_def Let_def)

lemma bank_ready_frames:
  assumes "bank_ready w' d ts" "get_ready w q ts'" "frames (w_queries w') = frames (w_queries w)"
    "\<And>x. w_queries w q = Some x \<Longrightarrow> q_databank x = d"
  shows "get_ready w' q ts"
proof -
  obtain x where x: "w_queries w q = Some x" "q_top x" using assms(2) unfolding get_ready_def by blast
  then have "frames (w_queries w') q = Some (frame_of x)" using assms(3) by (simp add: frames_def)
  then obtain y where y: "w_queries w' q = Some y" "frame_of x = frame_of y" by auto
  have "q_databank y = d" "q_top y" using frame_eqD [OF y(2)] x(2) assms(4) [OF x(1)] unfolding q_top_def by simp_all
  then show ?thesis using y(1) assms(1) unfolding get_ready_def by blast
qed

lemma add_triple_ready:
  assumes w: "bank_ready w d ts" and o: "a_depth opts \<le> 0" "2 * w_next_query w < stack"
  shows "\<exists>w'. add_triple doc stack stack opts d t w = (Inr (), w') \<and> w_next_query w' = w_next_query w \<and>
    frames (w_queries w') = frames (w_queries w) \<and> bank_ready w' d (put_new ts [t])"
proof -
  obtain b where b: "world_ready w" "w_banks w d = Some (Bank b)" "b_store b = ts"
      "\<forall>s. b_base b \<noteq> Base_string s" "map_of (b_namespaces b) ''_'' = None" "d \<le> w_bank_seed w"
    using bank_readyE [OF w] .
  obtain w' where w': "add_to_bank doc stack d opts t w = (Inr (), w')" "live w'" "frames (w_queries w') = frames (w_queries w)"
      "w_banks w' = (w_banks w)(d \<mapsto> Bank (bank_insert t b))" "w_rdf w' = w_rdf w" "w_next_query w' = w_next_query w"
      "w_bank_seed w' = w_bank_seed w"
    using add_to_bank_live [OF world_readyD(1) [OF b(1)] b(2) o] by blast
  have "q_databank y \<le> w_bank_seed w" if "w_queries w' r = Some y" for r y
  proof -
    have "frames (w_queries w) r = Some (frame_of y)" using that w'(3) [symmetric] by (simp add: frames_def)
    then obtain z where "w_queries w r = Some z" "frame_of y = frame_of z" by auto
    then show ?thesis using world_readyD(3) [OF b(1)] frame_eqD by metis
  qed
  then have "world_ready w'" using w'(2,5,7) world_readyD(2) [OF b(1)] by (simp add: world_ready_def)
  then have "bank_ready w' d (put_new ts [t])"
    using w'(4,7) b(3-6) by (intro bank_readyI [where b = "bank_insert t b"]) (simp_all add: put_new_def bank_insert_fields)
  moreover obtain n where "stack = Suc n" using o(2) by (cases stack) auto
  ultimately show ?thesis using w' add_triple_bank [OF b(2)] by metis
qed

lemma each_add_ready:
  assumes "bank_ready w d ts" "a_depth opts \<le> 0" "2 * w_next_query w < stack"
  shows "\<exists>w'. each_step (add_triple doc stack stack opts d) new w = (Inr (), w') \<and> w_next_query w' = w_next_query w \<and>
    frames (w_queries w') = frames (w_queries w) \<and> bank_ready w' d (put_new ts new)"
  using assms
proof (induction new arbitrary: w ts)
  case Nil
  then show ?case by (simp add: ret_def put_new_def)
next
  case (Cons t new)
  obtain w1 where w1: "add_triple doc stack stack opts d t w = (Inr (), w1)" "w_next_query w1 = w_next_query w"
      "frames (w_queries w1) = frames (w_queries w)" "bank_ready w1 d (put_new ts [t])"
    using add_triple_ready [OF Cons.prems] by blast
  obtain w2 where "each_step (add_triple doc stack stack opts d) new w1 = (Inr (), w2)" "w_next_query w2 = w_next_query w"
      "frames (w_queries w2) = frames (w_queries w)" "bank_ready w2 d (put_new (put_new ts [t]) new)"
    using Cons.IH [OF w1(4) Cons.prems(2)] Cons.prems(3) w1(2,3) by auto
  moreover have "put_new (put_new ts [t]) new = put_new ts (t # new)" by (simp add: put_new_def)
  ultimately show ?case using w1(1) by (simp add: then_step_def bind_step_def)
qed

text \<open>An answer that has been loaded is ready to be looked up: its triples follow those that were there.\<close>

lemma load_json_ready:
  assumes w: "bank_ready w d ts" "a_depth opts \<le> 0" "2 * w_next_query w < stack"
    and doc: "good_base doc" and parse: "parseJson doc data (w_rdf w) = (Inr new, s')"
  shows "\<exists>w'. load_json doc stack d data opts w = (Inr (), w') \<and> w_next_query w' = w_next_query w \<and>
    frames (w_queries w') = frames (w_queries w) \<and> bank_ready w' d (put_new ts new)"
proof -
  let ?w = "w\<lparr>w_rdf := s'\<rparr>"
  obtain b where b: "world_ready w" "w_banks w d = Some (Bank b)" "b_store b = ts"
      "\<forall>s. b_base b \<noteq> Base_string s" "map_of (b_namespaces b) ''_'' = None" "d \<le> w_bank_seed w"
    using bank_readyE [OF w(1)] .
  have "tables_ok s'" using keepsD [OF keeps_parseJson [OF doc], of "w_rdf w" data] world_readyD(2) [OF b(1)] parse by simp
  then have "world_ready ?w" using b(1) by (simp add: world_ready_def)
  then have "bank_ready ?w d ts" using b(2-6) by (intro bank_readyI [where b = b]) simp_all
  then show ?thesis using each_add_ready [of ?w d ts opts stack doc new] w(2,3) parse
    by (simp add: load_json_def on_rdf_def bind_step_def)
qed

section \<open>Properties\<close>

text \<open>
  C36. A node is looked up through the text of a pattern, which is printed, cut, read and
  matched: from a top query on a databank, \<open>get\<close> gives exactly the objects of
  the databank's triples with that subject and property, and \<open>getInverse\<close> the
  subjects of those with that object and property, in the order of the databank,
  \<open>null\<close> if there are none; and the page is ready for the next lookup. The page
  (\<open>get_ready\<close>) has tables that are right and only queries that are made by
  adding patterns that are not optional, no unions, groups or functions as filters
  (\<open>live\<close>), the databank has no base given as a text and no prefix
  \<open>_\<close>; the node is a URI whose text has no angle bracket that closes and does
  not end in a backslash, or a blank node whose name has no space, quote, opening angle
  bracket or colon (\<open>plain_node\<close>), not a literal; and the stack is deeper than
  one.
\<close>

theorem node_get_values:
  assumes "get_ready w q ts" "plain_node n" "plain_uri u" "1 < stack"
  shows "(\<exists>w'. node_get doc stack q n (Resource u) w =
      (Inr (or_null (map t_object (filter (\<lambda>t. t_subject t = n \<and> t_property t = Resource u) ts))), w') \<and> get_ready w' q ts) \<and>
    (\<exists>w'. node_getInverse doc stack q n (Resource u) w =
      (Inr (or_null (map t_subject (filter (\<lambda>t. t_object t = n \<and> t_property t = Resource u) ts))), w') \<and> get_ready w' q ts)"
proof -
  define k where "k = stack - 2"
  then have stack: "stack = Suc (Suc k)" using assms(4) by simp
  show ?thesis unfolding stack
    using node_get_ready [OF assms(1-3), of doc k] node_getInverse_ready [OF assms(1-3), of doc k]
    unfolding property_values_def property_holders_def by (rule conjI)
qed

text \<open>
  C37. \<open>each\<close> of a list gives its elements in order: where the triples hold a list of \<open>xs\<close> from a node on,
  and one more than its length of fuel is there, the elements are \<open>xs\<close>, and the page is ready for
  the next lookup.
\<close>

theorem list_each_elements:
  assumes "get_ready w q ts" "holds_list ts xs n" "length xs < fuel" "1 < stack"
  shows "\<exists>w'. list_elements doc stack fuel q (Some n) w = (Inr (Some xs), w') \<and> get_ready w' q ts"
proof -
  define k where "k = stack - 2"
  then have stack: "stack = Suc (Suc k)" using assms(4) by simp
  show ?thesis unfolding stack by (rule list_elements_ready [OF assms(1-3)])
qed

section \<open>Witnesses\<close>

lemma bank_of_fields [simp]: "b_base (bank_of ts) = No_base" "b_namespaces (bank_of ts) = []"
proof -
  have "b_base (fold bank_insert ts c) = b_base c \<and> b_namespaces (fold bank_insert ts c) = b_namespaces c" for c
    by (induction ts arbitrary: c) (simp_all add: bank_insert_def Let_def)
  then show "b_base (bank_of ts) = No_base" "b_namespaces (bank_of ts) = []" by (simp_all add: bank_of_def new_bank_def)
qed

lemma top_page_ready: "get_ready (top_page (bank_of ts)) 0 (b_store (bank_of ts))"
proof -
  have "world_ready (top_page (bank_of ts))"
    using top_page_live [of ts] by (auto simp: world_ready_def top_page_def page_def tables_ok_def mem_ok_def top_query_def)
  then have "bank_ready (top_page (bank_of ts)) 1 (b_store (bank_of ts))"
    by (intro bank_readyI [where b = "bank_of ts"]) (simp_all add: top_page_def page_def)
  then show ?thesis by (auto simp: get_ready_def top_page_def top_query_def q_top_def)
qed

definition list_link :: "string \<Rightarrow> string \<Rightarrow> rdf_node \<Rightarrow> rdf_triple" where
  "list_link i name x = \<lparr>t_subject = Blank i, t_property = rdf_const name, t_object = x, t_graph = None, t_source = None\<rparr>"

definition two_list :: "rdf_triple list" where
  "two_list = [list_link ''l'' ''first'' (Blank ''x''), list_link ''l'' ''rest'' (Blank ''m''),
     list_link ''m'' ''first'' (Blank ''y''), list_link ''m'' ''rest'' (rdf_const ''nil'')]"

lemma plain_blank_l: "plain_node (Blank ''l'')" "plain_node (Blank ''m'')"
  by (simp_all add: plain_node_def blank_char_def is_space_def)

lemma bank_of_distinct: "distinct ts \<Longrightarrow> b_store (bank_of ts) = ts"
proof -
  have "distinct (b_store c @ ts) \<Longrightarrow> b_store (fold bank_insert ts c) = b_store c @ ts" for c
    by (induction ts arbitrary: c) (simp_all add: bank_insert_fresh)
  then show "distinct ts \<Longrightarrow> ?thesis" by (simp add: bank_of_def new_bank_def)
qed

lemma two_list_store: "b_store (bank_of two_list) = two_list"
  by (rule bank_of_distinct) (simp add: two_list_def list_link_def rdf_const_def)

lemma two_list_holds: "holds_list two_list [Blank ''x'', Blank ''y''] (Blank ''l'')"
  using plain_blank_l by (simp add: property_values_def two_list_def list_link_def rdf_const_def)

theorem node_get_values_witness:
  "fst (node_get (list_const ''x'') 9 0 (Blank ''l'') (rdf_const ''rest'') (top_page (bank_of two_list))) = Inr (Some [Blank ''m'']) \<and>
   fst (node_getInverse (list_const ''x'') 9 0 (Blank ''m'') (rdf_const ''rest'') (top_page (bank_of two_list))) = Inr (Some [Blank ''l''])"
proof -
  note r = top_page_ready [of two_list, unfolded two_list_store] and c = plain_list_const [of "''rest''"]
  have u: "plain_uri (list_const ''rest'')" using c(2) by simp
  have "fst (node_get (list_const ''x'') 9 0 (Blank ''l'') (Resource (list_const ''rest'')) (top_page (bank_of two_list))) =
      Inr (Some [Blank ''m''])"
    using node_get_values [OF r plain_blank_l(1) u, of 9 "list_const ''x''"]
    by (auto simp: two_list_def list_link_def rdf_const_def or_null_def)
  moreover have "fst (node_getInverse (list_const ''x'') 9 0 (Blank ''m'') (Resource (list_const ''rest'')) (top_page (bank_of two_list))) =
      Inr (Some [Blank ''l''])"
    using node_get_values [OF r plain_blank_l(2) u, of 9 "list_const ''x''"]
    by (auto simp: two_list_def list_link_def rdf_const_def or_null_def)
  ultimately show ?thesis using c(1) by simp
qed

theorem list_each_elements_witness:
  "fst (list_elements (list_const ''x'') 9 3 0 (Some (Blank ''l'')) (top_page (bank_of two_list))) =
    Inr (Some [Blank ''x'', Blank ''y''])"
  using list_each_elements [OF top_page_ready [of two_list, unfolded two_list_store] two_list_holds, of 3 9 "list_const ''x''"]
  by auto

end
