(* ===== verification/ConceptSearch.thy ===== *)
theory ConceptSearch
  imports RdfNodeGet Concepts
begin

text \<open>
  The search for concepts as a whole: what \<open>concept-find-create.js\<close> does with the answer of the
  server, on the page and on the query library. The lemmas show that it does to the page what
  the handler of \<open>Concepts\<close> does for the results, concepts and labels that the triples of the
  answer say.
\<close>

section \<open>The handler\<close>

text \<open>The state is that of the query library and that of the page.\<close>

type_synonym 'a search_step = "(world \<times> concept_page, 'a) js_step"

definition on_world :: "(world, 'a) js_step \<Rightarrow> 'a search_step" where
  "on_world m = (\<lambda>(w, s). case m w of (r, v) \<Rightarrow> (r, (v, s)))"

definition on_page :: "'a concept_step \<Rightarrow> 'a search_step" where
  "on_page m = (\<lambda>(w, s). case m s of (r, v) \<Rightarrow> (r, (w, v)))"

text \<open>A value that has the method \<open>substr\<close>: that of a number, a boolean or a URI has not.\<close>

definition text_value :: "rdf_node \<Rightarrow> string option" where
  "text_value n = (case n of Blank i \<Rightarrow> Some (''_:'' @ i) | Literal (TV_string t) l d \<Rightarrow> Some t | _ \<Rightarrow> None)"

definition get_named :: "uri \<Rightarrow> nat \<Rightarrow> nat \<Rightarrow> rdf_node \<Rightarrow> string \<Rightarrow> (world, rdf_node list option) js_step" where
  "get_named doc stack q n name = bind_step (on_rdf (rdf_resource doc no_opts (As_text name))) (node_get doc stack q n)"

definition pref_label :: "uri \<Rightarrow> nat \<Rightarrow> nat \<Rightarrow> rdf_node \<Rightarrow> (world, string) js_step" where
  "pref_label doc stack q c =
     bind_step (get_named doc stack q c ''<http://www.w3.org/2008/05/skos#prefLabel>'') (\<lambda>r.
       case r of
         None \<Rightarrow> throw TypeError
       | Some ls \<Rightarrow> (case text_value (hd ls) of None \<Rightarrow> throw TypeError | Some l \<Rightarrow> ret l))"

text \<open>\<open>addFoundConcepts\<close> on the nodes of the answer: a label is looked up where the concept is not listed.\<close>

fun add_found_nodes :: "uri \<Rightarrow> nat \<Rightarrow> nat \<Rightarrow> bool \<Rightarrow> rdf_node list \<Rightarrow> bool \<Rightarrow> bool search_step" where
  "add_found_nodes doc stack q selection [] added = ret added"
| "add_found_nodes doc stack q selection (c # cs) added =
     bind_step (on_page (gets (\<lambda>s. \<not> selection \<or> \<not> concept_exists (node_value c) s))) (\<lambda>unlisted.
       if unlisted then
         bind_step (on_world (pref_label doc stack q c)) (\<lambda>l.
         then_step (on_page (createSystemFoundConcept \<lparr>cc_label = l, cc_uri = node_value c\<rparr>))
           (add_found_nodes doc stack q selection cs True))
       else add_found_nodes doc stack q selection cs added)"

definition result_prefixes :: "(string \<times> string) list" where
  "result_prefixes = [(''rdf'', ''http://www.w3.org/1999/02/22-rdf-syntax-ns#''), (''concepts'', ''http://clerezza.org/2010/01/concepts#''),
     (''rdfs'', ''http://www.w3.org/2000/01/rdf-schema#''), (''qr'', ''http://clerezza.org/2010/04/queryresult#'')]"

text \<open>The result shown, once its node is known.\<close>

definition show_result :: "uri \<Rightarrow> nat \<Rightarrow> bool \<Rightarrow> string \<Rightarrow> nat \<Rightarrow> rdf_node \<Rightarrow> unit search_step" where
  "show_result doc stack selection t q r =
     bind_step (on_world (get_named doc stack q r ''<http://clerezza.org/2010/04/queryresult#concept>'')) (\<lambda>cs.
     then_step (case cs of
         Some cs \<Rightarrow> bind_step (add_found_nodes doc stack q selection cs False) (\<lambda>added.
           on_page (modify (\<lambda>s. s\<lparr>cp_search_label := (if added then ''Concepts found:'' else ''No additional concepts found.'')\<rparr>)))
       | None \<Rightarrow> ret ())
     (then_step (on_page (modify (\<lambda>s. s\<lparr>cp_add_label := ''<div>Add '' @ [CHR 0x27] @ t @ [CHR 0x27] @ '' as new Free Concept</div>'', cp_found_area := True\<rparr>)))
     (bind_step (on_world (get_named doc stack q r ''<http://clerezza.org/2010/04/queryresult#creationOfNewFreeConceptSuggested>'')) (\<lambda>v.
        case v of
          None \<Rightarrow> throw TypeError
        | Some vs \<Rightarrow> on_page (modify (\<lambda>s. s\<lparr>cp_user_area := (node_value (hd vs) = ''true'')\<rparr>))))))"

definition query_answered :: "uri \<Rightarrow> nat \<Rightarrow> bool \<Rightarrow> string \<Rightarrow> nat \<Rightarrow> unit search_step" where
  "query_answered doc stack selection t q =
     then_step (on_world (each_step (\<lambda>(p, u). rdf_set_prefix stack q p u) result_prefixes))
     (bind_step (on_world (rdf_where doc stack q (Inl ''?subject rdf:type qr:QueryResult'') default_add False)) (\<lambda>rs.
      bind_step (on_world (rdf_size rs)) (\<lambda>n.
      then_step (if n \<noteq> 1
        then on_page (modify (\<lambda>s. s\<lparr>cp_alerts := cp_alerts s @ [''The query results did not match what's expected: exactly 1 result'']\<rparr>))
        else ret ())
      (bind_step (on_world (rdf_get rs 0)) (\<lambda>b.
        case Option.bind b (\<lambda>b. map_of b ''subject'') of
          None \<Rightarrow> throw TypeError
        | Some r \<Rightarrow> show_result doc stack selection t q r)))))"

definition search_loaded :: "uri \<Rightarrow> nat \<Rightarrow> bool \<Rightarrow> string \<Rightarrow> json_graph \<Rightarrow> unit search_step" where
  "search_loaded doc stack selection t data =
     bind_step (on_world (make_databank doc stack [] No_base [])) (\<lambda>d.
     then_step (on_world (load_json doc stack d data default_add))
     (bind_step (on_world (rdf_init doc stack (no_query_opts\<lparr>qo_databank := Some d\<rparr>))) (query_answered doc stack selection t)))"

section \<open>Pages that change\<close>

lemma get_ready_env:
  assumes "get_ready w q ts" "tables_ok k"
  shows "get_ready (w\<lparr>w_rdf := k\<rparr>) q ts"
proof -
  obtain x where x: "w_queries w q = Some x" "q_top x" "bank_ready w (q_databank x) ts"
    using assms(1) unfolding get_ready_def by blast
  have "bank_ready (w\<lparr>w_rdf := k\<rparr>) (q_databank x) ts"
    using x(3) assms(2) unfolding bank_ready_def world_ready_def by simp
  then show ?thesis using x(1,2) unfolding get_ready_def by simp
qed

lemma named_ready:
  assumes "get_ready w q ts" "plain_uri u" "name = node_toString (Resource u)"
  shows "\<exists>w'. on_rdf (rdf_resource doc no_opts (As_text name)) w = (Inr (Resource u), w') \<and> get_ready w' q ts"
proof -
  have t: "tables_ok (w_rdf w)" using assms(1) unfolding get_ready_def bank_ready_def world_ready_def by blast
  have "reads_nodes no_opts" by (simp add: reads_nodes_def no_opts_def)
  then obtain k where "rdf_resource doc no_opts (As_text name) (w_rdf w) = (Inr (Resource u), k)" "tables_ok k"
    using read_resource [OF t assms(2)] assms(3) by blast
  then show ?thesis using get_ready_env [OF assms(1)] by (simp add: on_rdf_def)
qed

lemma get_named_ready:
  assumes "get_ready w q ts" "plain_uri u" "name = node_toString (Resource u)" "plain_node n"
  shows "\<exists>w'. get_named doc (Suc (Suc k)) q n name w = (Inr (or_null (property_values ts n (Resource u))), w') \<and> get_ready w' q ts"
proof -
  obtain v where v: "on_rdf (rdf_resource doc no_opts (As_text name)) w = (Inr (Resource u), v)" "get_ready v q ts"
    using named_ready [OF assms(1-3)] by blast
  then show ?thesis using node_get_ready [OF v(2) assms(4,2), of doc k] by (simp add: get_named_def bind_step_def)
qed

definition qr_uri :: "string \<Rightarrow> uri" where
  "qr_uri name = \<lparr>u_scheme = Some ''http'', u_authority = Some ''clerezza.org'', u_path = ''/2010/04/queryresult'', u_query = None,
     u_fragment = Some name\<rparr>"

definition label_uri :: uri where
  "label_uri = \<lparr>u_scheme = Some ''http'', u_authority = Some ''www.w3.org'', u_path = ''/2008/05/skos'', u_query = None,
     u_fragment = Some ''prefLabel''\<rparr>"

lemma named_texts:
  "''<http://www.w3.org/2008/05/skos#prefLabel>'' = node_toString (Resource label_uri)"
  "''<http://clerezza.org/2010/04/queryresult#concept>'' = node_toString (Resource (qr_uri ''concept''))"
  "''<http://clerezza.org/2010/04/queryresult#creationOfNewFreeConceptSuggested>'' =
    node_toString (Resource (qr_uri ''creationOfNewFreeConceptSuggested''))"
  by (simp_all add: node_toString_def uri_toString_def label_uri_def qr_uri_def)

lemma named_plain:
  "plain_uri label_uri" "plain_uri (qr_uri ''concept'')" "plain_uri (qr_uri ''creationOfNewFreeConceptSuggested'')"
  "plain_uri (qr_uri ''QueryResult'')" "plain_uri (list_const ''type'')"
  by (simp_all add: plain_uri_def wf_uri_def uri_toString_def is_alpha_def scheme_char_def to_lower_def
      lower_char_def auth_char_def path_char_def line_end_def label_uri_def qr_uri_def)

section \<open>What the answer says\<close>

definition concept_label :: "rdf_triple list \<Rightarrow> rdf_node \<Rightarrow> string option" where
  "concept_label ts c = (case property_values ts c (Resource label_uri) of [] \<Rightarrow> None | l # _ \<Rightarrow> text_value l)"

lemma pref_label_ready:
  assumes "get_ready w q ts" "plain_node c"
  shows "\<exists>w'. pref_label doc (Suc (Suc k)) q c w =
      (case concept_label ts c of None \<Rightarrow> Inl TypeError | Some l \<Rightarrow> Inr l, w') \<and> get_ready w' q ts"
proof -
  obtain v where "get_named doc (Suc (Suc k)) q c (node_toString (Resource label_uri)) w =
      (Inr (or_null (property_values ts c (Resource label_uri))), v)" "get_ready v q ts"
    using get_named_ready [OF assms(1) named_plain(1) refl assms(2)] by blast
  then show ?thesis unfolding pref_label_def named_texts(1)
    by (cases "property_values ts c (Resource label_uri)"; cases "concept_label ts c")
      (auto simp: bind_step_def throw_def ret_def or_null_def concept_label_def)
qed

lemma add_found_ready:
  assumes "get_ready w q ts" "\<forall>c\<in>set cs. plain_node c"
  shows "\<exists>w'. add_found_nodes doc (Suc (Suc k)) q selection cs added (w, s) =
      (fst (add_found selection (map (\<lambda>c. (node_value c, concept_label ts c)) cs) added s),
       (w', snd (add_found selection (map (\<lambda>c. (node_value c, concept_label ts c)) cs) added s))) \<and> get_ready w' q ts"
  using assms
proof (induction cs arbitrary: w s added)
  case Nil
  then show ?case by (simp add: ret_def)
next
  case (Cons c cs)
  obtain v where v: "pref_label doc (Suc (Suc k)) q c w =
      (case concept_label ts c of None \<Rightarrow> Inl TypeError | Some l \<Rightarrow> Inr l, v)" "get_ready v q ts"
    using pref_label_ready [OF Cons.prems(1)] Cons.prems(2) by fastforce
  have cs: "\<forall>c\<in>set cs. plain_node c" using Cons.prems(2) by simp
  show ?case
  proof (cases "\<not> selection \<or> \<not> concept_exists (node_value c) s")
    case False
    then show ?thesis using Cons.IH [OF Cons.prems(1) cs, of added s]
      by (simp add: bind_step_def on_page_def gets_def)
  next
    case True
    show ?thesis
    proof (cases "concept_label ts c")
      case None
      then show ?thesis using v True by (simp add: bind_step_def on_page_def on_world_def gets_def)
    next
      case (Some l)
      then show ?thesis using v(1) True Cons.IH [OF v(2) cs, of True "s\<lparr>cp_found := cp_found s @ [\<lparr>cc_label = l, cc_uri = node_value c\<rparr>]\<rparr>"]
        by (simp add: bind_step_def then_step_def on_page_def on_world_def gets_def createSystemFoundConcept_def modify_def)
    qed
  qed
qed

section \<open>The result\<close>

text \<open>The pattern of the query, and the prefixes under which its text is read.\<close>

abbreviation result_pattern :: rdf_pattern where
  "result_pattern \<equiv> inverse_pattern (Resource (qr_uri ''QueryResult'')) (Resource (list_const ''type''))"

lemma query_tokens: "triple_tokens ''?subject rdf:type qr:QueryResult'' = [''?subject'', ''rdf:type'', ''qr:QueryResult'']"
  by code_simp

lemma curie_not_kept:
  assumes "tables_ok s"
  shows "e_pattern s (a, ''rdf:type'', b, c) = None"
proof (cases "e_pattern s (a, ''rdf:type'', b, c)")
  case (Some p)
  then have "pat_text (p_property p) = ''rdf:type''" "term_ok (p_property p)"
    using tables_okD(4) [OF assms Some] by (simp_all add: RdfPattern.pattern_key_def)
  then show ?thesis
    by (auto simp: pat_text_def term_ok_def node_toString_def split: pat_term.splits rdf_node.splits)
qed

lemma read_result_pattern:
  assumes s: "tables_ok s" and ns: "map_of (o_namespaces ro) ''rdf'' = map_of result_prefixes ''rdf''"
      "map_of (o_namespaces ro) ''qr'' = map_of result_prefixes ''qr''" and o: "o_optional ro = Some False"
  shows "\<exists>s'. pattern_of_text doc ro ''?subject rdf:type qr:QueryResult'' s = (Inr result_pattern, s') \<and> tables_ok s'"
proof -
  have parts: "statement_parts bad ''?subject rdf:type qr:QueryResult'' = Inr (''?subject'', ''rdf:type'', ''qr:QueryResult'')" for bad
    using query_tokens by (simp add: statement_parts_def)
  obtain s1 where s1: "rdf_resource doc ro (As_text ''rdf:type'') s = (Inr (Resource (list_const ''type'')), s1)" "tables_ok s1"
    using read_curie [OF s, of "''rdf:type''" "''rdf''" "''type''" ro "''http://www.w3.org/1999/02/22-rdf-syntax-ns#''" "list_const ''type''" doc]
      ns(1) named_plain(5)
    by (auto simp: result_prefixes_def no_lines_def line_end_def plain_uri_def uri_toString_def)
  obtain s2 where s2: "rdf_resource doc ro (As_text ''qr:QueryResult'') s1 = (Inr (Resource (qr_uri ''QueryResult'')), s2)" "tables_ok s2"
    using read_curie [OF s1(2), of "''qr:QueryResult''" "''qr''" "''QueryResult''" ro "''http://clerezza.org/2010/04/queryresult#''"
        "qr_uri ''QueryResult''" doc] ns(2) named_plain(4)
    by (auto simp: result_prefixes_def no_lines_def line_end_def plain_uri_def uri_toString_def qr_uri_def)
  have init: "pattern_init doc ro (Text ''?subject'') (Text ''rdf:type'') (Text ''qr:QueryResult'') s = (Inr result_pattern, s2)"
    using s1(1) s2(1) o
    by (simp add: pattern_init_def pat_term_of_def arg_text_def rdf_property_def rdf_object_def try_step_def bind_step_def
        ret_def inverse_pattern_def)
  have "plain_pattern result_pattern"
    using get_patterns_plain(2) [of "Resource (qr_uri ''QueryResult'')" "list_const ''type''"] named_plain(4,5) by (simp add: plain_node_def)
  then obtain s3 where "keep_pattern result_pattern s2 = (Inr result_pattern, s3)" "tables_ok s3"
    using keep_plain_pattern [OF s2(2)] by blast
  then show ?thesis using parts init curie_not_kept [OF s] o
    by (simp add: pattern_of_text_def make_pattern_def bind_step_def lift_res_def ret_def)
qed

lemma set_prefix_ready:
  assumes w: "get_ready w q ts" and p: "p \<noteq> ''_''"
  shows "\<exists>w'. rdf_set_prefix (Suc k) q p u w = (Inr (), w') \<and> get_ready w' q ts \<and> prefix_of w' q = (prefix_of w q)(p \<mapsto> u)"
proof -
  obtain x where x: "w_queries w q = Some x" "q_top x" and r: "bank_ready w (q_databank x) ts"
    using w unfolding get_ready_def by blast
  obtain b where b: "world_ready w" "w_banks w (q_databank x) = Some (Bank b)" "b_store b = ts"
      "\<forall>s. b_base b \<noteq> Base_string s" "map_of (b_namespaces b) ''_'' = None" "q_databank x \<le> w_bank_seed w"
    using bank_readyE [OF r] .
  let ?b = "b\<lparr>b_namespaces := AList.update p u (b_namespaces b)\<rparr>"
  let ?w = "w\<lparr>w_banks := (w_banks w)(q_databank x \<mapsto> Bank ?b)\<rparr>"
  have live: "live w" using world_readyD(1) [OF b(1)] .
  have "bank_wf c = bank_wf b \<and> bank_live (w_queries w) d c = bank_live (w_queries w) d b" if "c = ?b" for c d
    using that by (simp add: bank_wf_def bank_live_def)
  then have "live ?w" using live liveD(3,4) [OF live b(2)] by (auto simp: live_def)
  then have "world_ready ?w" using b(1) by (simp add: world_ready_def)
  moreover have "map_of (AList.update p u (b_namespaces b)) ''_'' = None" using b(5) p by (simp add: update_conv)
  ultimately have "bank_ready ?w (q_databank x) ts" using b(3,4,6) by (intro bank_readyI [where b = ?b]) simp_all
  then have "get_ready ?w q ts" using x by (simp add: get_ready_def)
  moreover have "prefix_of ?w q = (prefix_of w q)(p \<mapsto> u)"
    using x(1) b(2) by (intro ext) (simp add: prefix_of_def update_conv')
  ultimately show ?thesis using x(1) b(2)
    by (simp add: rdf_set_prefix_def query_databank_def the_query_def the_bank_def set_bank_def modify_def bind_step_def ret_def)
qed

lemma prefixes_ready:
  assumes "get_ready w q ts" "\<forall>(p, u)\<in>set ps. p \<noteq> ''_''"
  shows "\<exists>w'. each_step (\<lambda>(p, u). rdf_set_prefix (Suc k) q p u) ps w = (Inr (), w') \<and> get_ready w' q ts \<and>
    prefix_of w' q = foldl (\<lambda>m (p, u). m(p \<mapsto> u)) (prefix_of w q) ps"
  using assms
proof (induction ps arbitrary: w)
  case Nil
  then show ?case by (simp add: ret_def)
next
  case (Cons e ps)
  obtain p u where e: "e = (p, u)" by (cases e)
  obtain v where v: "rdf_set_prefix (Suc k) q p u w = (Inr (), v)" "get_ready v q ts" "prefix_of v q = (prefix_of w q)(p \<mapsto> u)"
    using set_prefix_ready [OF Cons.prems(1), of p k u] Cons.prems(2) e by auto
  then show ?case using Cons.IH [OF v(2)] Cons.prems(2) e by (simp add: then_step_def bind_step_def)
qed

section \<open>The answer shown\<close>

definition answer_concepts :: "rdf_triple list \<Rightarrow> rdf_node \<Rightarrow> (string \<times> string option) list option" where
  "answer_concepts ts r = map_option (map (\<lambda>c. (node_value c, concept_label ts c)))
     (or_null (property_values ts r (Resource (qr_uri ''concept''))))"

definition answer_suggestion :: "rdf_triple list \<Rightarrow> rdf_node \<Rightarrow> string option" where
  "answer_suggestion ts r = map_option (node_value \<circ> hd)
     (or_null (property_values ts r (Resource (qr_uri ''creationOfNewFreeConceptSuggested''))))"

text \<open>The query results of an answer, and the answers whose nodes can be looked up.\<close>

definition answer_results :: "rdf_triple list \<Rightarrow> rdf_node list" where
  "answer_results ts = property_holders ts (Resource (qr_uri ''QueryResult'')) (Resource (list_const ''type''))"

definition answer_plain :: "rdf_triple list \<Rightarrow> bool" where
  "answer_plain ts \<longleftrightarrow> (\<forall>t\<in>set ts. plain_node (t_subject t) \<and>
     (t_property t = Resource (qr_uri ''concept'') \<longrightarrow> plain_node (t_object t)))"

lemma answer_plainD:
  assumes "answer_plain ts"
  shows "r \<in> set (answer_results ts) \<Longrightarrow> plain_node r"
    "c \<in> set (property_values ts r (Resource (qr_uri ''concept''))) \<Longrightarrow> plain_node c"
  using assms by (auto simp: answer_plain_def answer_results_def property_holders_def property_values_def)

lemma show_result_ready:
  assumes w: "get_ready w q ts" and r: "plain_node r" and cs: "answer_plain ts"
  shows "\<exists>w'. show_result doc (Suc (Suc k)) selection t q r (w, s) =
      (fst (search_answered selection t 1 (answer_concepts ts r) (answer_suggestion ts r) s),
       (w', snd (search_answered selection t 1 (answer_concepts ts r) (answer_suggestion ts r) s))) \<and> get_ready w' q ts"
proof -
  let ?cs = "property_values ts r (Resource (qr_uri ''concept''))" and ?f = "\<lambda>c. (node_value c, concept_label ts c)"
  let ?vs = "property_values ts r (Resource (qr_uri ''creationOfNewFreeConceptSuggested''))"
  obtain w1 where w1: "get_named doc (Suc (Suc k)) q r ''<http://clerezza.org/2010/04/queryresult#concept>'' w = (Inr (or_null ?cs), w1)"
      "get_ready w1 q ts"
    using get_named_ready [OF w named_plain(2) named_texts(2) r] by blast
  obtain w2 where w2: "add_found_nodes doc (Suc (Suc k)) q selection ?cs False (w1, s) =
      (fst (add_found selection (map ?f ?cs) False s), (w2, snd (add_found selection (map ?f ?cs) False s)))" "get_ready w2 q ts"
    using add_found_ready [OF w1(2)] answer_plainD(2) [OF cs] by blast
  have last: "\<exists>w'. get_named doc (Suc (Suc k)) q r ''<http://clerezza.org/2010/04/queryresult#creationOfNewFreeConceptSuggested>'' v =
      (Inr (or_null ?vs), w') \<and> get_ready w' q ts" if "get_ready v q ts" for v
    using get_named_ready [OF that named_plain(3) named_texts(3) r] by blast
  obtain w3 where w3: "get_named doc (Suc (Suc k)) q r ''<http://clerezza.org/2010/04/queryresult#creationOfNewFreeConceptSuggested>'' w1 =
      (Inr (or_null ?vs), w3)" "get_ready w3 q ts" using last [OF w1(2)] by blast
  obtain w4 where w4: "get_named doc (Suc (Suc k)) q r ''<http://clerezza.org/2010/04/queryresult#creationOfNewFreeConceptSuggested>'' w2 =
      (Inr (or_null ?vs), w4)" "get_ready w4 q ts" using last [OF w2(2)] by blast
  note defs = show_result_def search_answered_def answer_concepts_def answer_suggestion_def addFoundConcepts_def
    on_world_def on_page_def then_step_def bind_step_def modify_def ret_def throw_def
  show ?thesis
  proof (cases "?cs = []")
    case True
    then show ?thesis using w1 w3 by (cases "?vs = []") (simp_all add: defs or_null_def)
  next
    case False
    show ?thesis
    proof (cases "add_found selection (map ?f ?cs) False s")
      case (Pair e v)
      then show ?thesis using w1 w2 w4 False by (cases e; cases "?vs = []") (simp_all add: defs or_null_def)
    qed
  qed
qed

lemma search_answered_alert:
  "n \<noteq> 0 \<Longrightarrow> search_answered selection t n cs v s = search_answered selection t 1 cs v
     (if n \<noteq> 1 then s\<lparr>cp_alerts := cp_alerts s @ [''The query results did not match what's expected: exactly 1 result'']\<rparr> else s)"
  by (simp add: search_answered_def then_step_def bind_step_def modify_def)

abbreviation answer_effect :: "bool \<Rightarrow> string \<Rightarrow> rdf_triple list \<Rightarrow> unit concept_step" where
  "answer_effect selection t ts \<equiv> search_answered selection t (length (answer_results ts))
     (answer_concepts ts (hd (answer_results ts))) (answer_suggestion ts (hd (answer_results ts)))"

lemma query_answered_ready:
  assumes w: "get_ready w q ts" and ts: "answer_plain ts"
  shows "\<exists>w'. query_answered doc (Suc (Suc k)) selection t q (w, s) =
      (fst (answer_effect selection t ts s), (w', snd (answer_effect selection t ts s))) \<and> get_ready w' q ts"
proof -
  let ?rs = "answer_results ts"
  have "\<forall>(p, u)\<in>set result_prefixes. p \<noteq> ''_''" by (simp add: result_prefixes_def)
  then obtain w1 where w1: "each_step (\<lambda>(p, u). rdf_set_prefix (Suc (Suc k)) q p u) result_prefixes w = (Inr (), w1)" "get_ready w1 q ts"
      "prefix_of w1 q = foldl (\<lambda>m (p, u). m(p \<mapsto> u)) (prefix_of w q) result_prefixes"
    using prefixes_ready [OF w] by blast
  have ns: "prefix_of w1 q ''rdf'' = map_of result_prefixes ''rdf''" "prefix_of w1 q ''qr'' = map_of result_prefixes ''qr''"
    using w1(3) by (simp_all add: result_prefixes_def)
  have reads: "\<exists>s'. pattern_of_text doc ro ''?subject rdf:type qr:QueryResult'' s = (Inr result_pattern, s') \<and> tables_ok s'"
    if "reads_nodes ro" "o_optional ro = Some False" "tables_ok s" "\<And>k. map_of (o_namespaces ro) k = prefix_of w1 q k" for ro s
    using read_result_pattern [OF that(3) _ _ that(2)] that(4) ns by simp
  obtain c w2 y where w2: "rdf_where doc (Suc (Suc k)) q (Inl ''?subject rdf:type qr:QueryResult'') default_add False w1 = (Inr c, w2)"
      "get_ready w2 q ts" "w_queries w2 c = Some y" "q_matches y = List.map_filter (match_of result_pattern) ts"
      "q_length y = length (q_matches y)" "q_items y = map m_bindings (q_matches y)"
    using where_ready [OF w1(2) get_patterns_required(2) reads, where k = k] by blast
  have found: "found_nodes ''subject'' (q_items y) = ?rs"
    using get_patterns_found(2) [of "Resource (qr_uri ''QueryResult'')" "Resource (list_const ''type'')" ts] w2(4,6)
    by (simp add: answer_results_def)
  have "\<exists>n. map_of b ''subject'' = Some n" if "b \<in> set (q_items y)" for b
    using that w2(4,6) by (auto simp: List.map_filter_def get_patterns_match split: if_splits)
  then have one: "List.map_filter (\<lambda>b. map_of b ''subject'') bs = map (\<lambda>b. the (map_of b ''subject'')) bs"
    if "set bs \<subseteq> set (q_items y)" for bs
    using that by (induction bs) (fastforce simp: map_filter_simps)+
  have items: "?rs = map (\<lambda>b. the (map_of b ''subject'')) (q_items y)"
    using found one [of "q_items y"] by (simp add: found_nodes_def)
  have n: "q_length y = length ?rs" using items w2(5,6) by simp
  note defs = query_answered_def on_world_def on_page_def then_step_def bind_step_def modify_def ret_def throw_def
    rdf_size_def rdf_get_def the_query_def
  show ?thesis
  proof (cases "q_items y")
    case Nil
    then show ?thesis using w1(1) w2 n items by (simp add: defs search_answered_def)
  next
    case (Cons b bs)
    then have b: "map_of b ''subject'' = Some (hd ?rs)" "hd ?rs \<in> set ?rs" "length ?rs \<noteq> 0"
      using items \<open>\<And>b. b \<in> set (q_items y) \<Longrightarrow> \<exists>n. map_of b ''subject'' = Some n\<close> [of b] by auto
    let ?s = "if length ?rs \<noteq> 1 then s\<lparr>cp_alerts := cp_alerts s @ [''The query results did not match what's expected: exactly 1 result'']\<rparr> else s"
    obtain w3 where w3: "show_result doc (Suc (Suc k)) selection t q (hd ?rs) (w2, ?s) =
        (fst (answer_effect selection t ts s), (w3, snd (answer_effect selection t ts s)))" "get_ready w3 q ts"
      using show_result_ready [OF w2(2) answer_plainD(1) [OF ts b(2)] ts, of doc k selection t ?s] search_answered_alert [OF b(3)] by metis
    then show ?thesis using w1(1) w2(1,3) n b(1) Cons by (cases "length ?rs = 1") (simp_all add: defs)
  qed
qed

section \<open>The databank of an answer\<close>

lemma new_databank_ready:
  assumes "world_ready w"
  shows "\<exists>d w'. make_databank doc stack [] No_base [] w = (Inr d, w') \<and> bank_ready w' d [] \<and> w_next_query w' = w_next_query w \<and>
    w_rdf w' = w_rdf w"
proof -
  let ?d = "Suc (w_bank_seed w)" and ?b = "new_bank No_base []"
  let ?w = "w\<lparr>w_bank_seed := ?d, w_banks := (w_banks w)(?d \<mapsto> Bank ?b)\<rparr>"
  have live: "live w" using world_readyD(1) [OF assms] .
  have "q_databank x \<noteq> ?d" if "w_queries w q = Some x" for q x using world_readyD(3) [OF assms that] by simp
  then have "bank_live (w_queries w) ?d ?b" by (auto simp: bank_live_def new_bank_def)
  moreover have "bank_wf ?b" using bank_of_wf [of "[]"] by (simp add: bank_of_def)
  ultimately have "live ?w" using live by (auto simp: live_def)
  moreover have "q_databank x \<le> ?d" if "w_queries w q = Some x" for q x using world_readyD(3) [OF assms that] by simp
  ultimately have "world_ready ?w" using assms by (simp add: world_ready_def)
  then have "bank_ready ?w ?d []" by (intro bank_readyI [where b = ?b]) (simp_all add: new_bank_def)
  then show ?thesis by (simp add: make_databank_def alloc_bank_def bind_step_def then_step_def ret_def)
qed

lemma bank_live_extends:
  assumes "bank_live Q e c" and old: "\<And>p u f. R p = Some u \<Longrightarrow> q_filter u = Some f \<Longrightarrow> Q p = Some u"
    and kept: "\<And>p u. Q p = Some u \<Longrightarrow> R p = Some u"
  shows "bank_live R e c"
  unfolding bank_live_def
proof (intro conjI allI impI ballI)
  fix q x p assume x: "R q = Some x" "q_databank x = e" "q_filter x = Some (By_pattern p)"
  have "Q q = Some x" using old [OF x(1,3)] .
  then show "q_alpha x = List.map_filter (match_of p) (b_store c)" "q \<in> set (b_queries c (pattern_key p))"
    using assms(1) x(2,3) unfolding bank_live_def by blast+
next
  fix k show "distinct (b_queries c k)" using assms(1) unfolding bank_live_def by blast
  fix q assume "q \<in> set (b_queries c k)"
  then obtain x p where "Q q = Some x" "q_databank x = e" "q_filter x = Some (By_pattern p)" "pattern_key p = k"
    using bank_live_query [OF assms(1)] by blast
  then show "\<exists>x p. R q = Some x \<and> q_databank x = e \<and> q_filter x = Some (By_pattern p) \<and> pattern_key p = k"
    using kept by blast
qed

lemma new_query_ready:
  assumes r: "bank_ready w d ts"
  shows "\<exists>q w'. rdf_init doc (Suc (Suc k)) (no_query_opts\<lparr>qo_databank := Some d\<rparr>) w = (Inr q, w') \<and> get_ready w' q ts"
proof -
  obtain b where b: "world_ready w" "w_banks w d = Some (Bank b)" "b_store b = ts"
      "\<forall>s. b_base b \<noteq> Base_string s" "map_of (b_namespaces b) ''_'' = None" "d \<le> w_bank_seed w"
    using bank_readyE [OF r] .
  let ?Q = "w_queries w" and ?N = "w_next_query w"
  let ?x = "\<lparr>q_parent = None, q_union = None, q_databank = d, q_children = [], q_partOf = [], q_filter = None,
     q_alpha = [], q_matches = [], q_length = 0, q_items = []\<rparr>"
  let ?R = "?Q(?N \<mapsto> ?x)" and ?w = "w\<lparr>w_next_query := Suc ?N, w_queries := ?Q(?N \<mapsto> ?x)\<rparr>"
  have live: "live w" using world_readyD(1) [OF b(1)] .
  have net: "net_shape ?N ?Q" using liveD(1) [OF live] .
  have lt: "p < ?N" if "?Q p = Some u" for p u using net_query(1) [OF net that] .
  then have none: "?Q ?N = None" by (cases "?Q ?N") auto
  have shape: "net_shape (Suc ?N) ?R"
    unfolding net_shape_raw
  proof (intro allI impI)
    fix p u assume u: "?R p = Some u"
    show "chain_frame (Suc ?N) ?R p u"
    proof (cases "p = ?N")
      case True
      then show ?thesis using u by (auto simp: chain_frame_def)
    next
      case False
      then have "chain_frame ?N ?Q p u" using u net by (simp add: net_shape_raw)
      moreover have "?R c = Some z" if "?Q c = Some z" for c z using that none by auto
      ultimately show ?thesis unfolding chain_frame_def by (auto split: option.splits simp del: fun_upd_apply)
    qed
  qed
  have "joined ?R p" for p
  proof (cases "p = ?N")
    case True
    then show ?thesis by (auto simp: joined_def array_ok_def q_bindings_def)
  next
    case False
    have "q_parent u \<noteq> Some ?N" if "?Q p = Some u" for u using net_query(7) [OF net that, of ?N] none by auto
    then have "?R p = ?Q p \<and> (\<forall>u r. ?Q p = Some u \<longrightarrow> q_parent u = Some r \<longrightarrow> ?R r = ?Q r)" using False by auto
    then show ?thesis using liveD(2) [OF live, of p] unfolding joined_def by metis
  qed
  moreover have "bank_live ?R e c" if "w_banks w e = Some (Bank c)" for e c
  proof -
    have old: "?Q p = Some u" if "?R p = Some u" "q_filter u = Some f" for p u f using that by (auto split: if_splits)
    have kept: "?R p = Some u" if "?Q p = Some u" for p u using that none by auto
    have "bank_live ?Q e c" using liveD(4) [OF live that] .
    then show ?thesis by (rule bank_live_extends) (fact old, fact kept)
  qed
  ultimately have "live ?w" using shape liveD(3) [OF live] by (simp add: live_def)
  then have "world_ready ?w" using b(1,6) by (auto simp: world_ready_def)
  then have "bank_ready ?w d ts" using b(2-6) by (intro bank_readyI [where b = b]) simp_all
  then have "get_ready ?w ?N ts" by (simp add: get_ready_def q_top_def)
  moreover have "rdf_init doc (Suc (Suc k)) (no_query_opts\<lparr>qo_databank := Some d\<rparr>) w = (Inr ?N, ?w)"
    by (simp add: rdf_init_def init_databank_def no_query_opts_def alloc_query_def leftActivate_def left_matches_def
        the_query_def bind_step_def then_step_def ret_def)
  ultimately show ?thesis by blast
qed

section \<open>Properties\<close>

text \<open>
  C5. The search as a whole. On any page with live queries and right tables, an answer of the server
  that can be read, whose subjects and concepts are URIs or blank nodes, is loaded into a new databank, queried
  for its result, and shown: the page ends as the handler of the answer says, exceptions
  included, for the number of results, the concepts with their labels and the suggestion that the
  triples of the answer hold; and the library is ready for the next search.
\<close>

theorem search_shows_answer:
  assumes "world_ready w" "good_base doc" "2 * w_next_query w < stack" "1 < stack"
    and "fst (parseJson doc data (w_rdf w)) = Inr new" "answer_plain new"
  shows "\<exists>w'. search_loaded doc stack selection t data (w, s) =
      (fst (search_answered selection t (length (answer_results (put_new [] new)))
          (answer_concepts (put_new [] new) (hd (answer_results (put_new [] new))))
          (answer_suggestion (put_new [] new) (hd (answer_results (put_new [] new)))) s),
       (w', snd (search_answered selection t (length (answer_results (put_new [] new)))
          (answer_concepts (put_new [] new) (hd (answer_results (put_new [] new))))
          (answer_suggestion (put_new [] new) (hd (answer_results (put_new [] new)))) s))) \<and> world_ready w'"
proof -
  define k where "k = stack - 2"
  then have stack: "stack = Suc (Suc k)" using assms(4) by simp
  let ?ts = "put_new [] new"
  obtain d w1 where w1: "make_databank doc stack [] No_base [] w = (Inr d, w1)" "bank_ready w1 d []"
      "w_next_query w1 = w_next_query w" "w_rdf w1 = w_rdf w"
    using new_databank_ready [OF assms(1)] by blast
  obtain k' where "parseJson doc data (w_rdf w1) = (Inr new, k')" using assms(5) w1(4) by (cases "parseJson doc data (w_rdf w)") auto
  moreover have "a_depth default_add \<le> 0" by (simp add: default_add_def)
  ultimately obtain w2 where w2: "load_json doc stack d data default_add w1 = (Inr (), w2)" "bank_ready w2 d ?ts"
    using load_json_ready [OF w1(2) _ _ assms(2)] assms(3) w1(3) by metis
  obtain q w3 where w3: "rdf_init doc stack (no_query_opts\<lparr>qo_databank := Some d\<rparr>) w2 = (Inr q, w3)" "get_ready w3 q ?ts"
    using new_query_ready [OF w2(2), of doc k] stack by auto
  have "answer_plain ?ts" using assms(6) by (simp add: answer_plain_def put_new_set)
  then obtain w4 where w4: "query_answered doc stack selection t q (w3, s) =
      (fst (answer_effect selection t ?ts s), (w4, snd (answer_effect selection t ?ts s)))" "get_ready w4 q ?ts"
    using query_answered_ready [OF w3(2)] stack by blast
  have "world_ready w4" using w4(2) unfolding get_ready_def bank_ready_def by blast
  then show ?thesis using w1(1) w2(1) w3(1) w4(1)
    by (simp add: search_loaded_def on_world_def then_step_def bind_step_def)
qed

section \<open>Witnesses\<close>

definition a_doc :: uri where
  "a_doc = \<lparr>u_scheme = Some ''http'', u_authority = Some ''h'', u_path = ''/'', u_query = None, u_fragment = None\<rparr>"

definition a_uri :: "string \<Rightarrow> rdf_json" where
  "a_uri v = \<lparr>j_type = NT_uri, j_value = v, j_lang = None, j_datatype = None\<rparr>"

definition a_text :: "string \<Rightarrow> rdf_json" where
  "a_text v = \<lparr>j_type = NT_literal, j_value = v, j_lang = None, j_datatype = None\<rparr>"

definition an_answer :: json_graph where
  "an_answer =
     [(''_:r'', [(''http://www.w3.org/1999/02/22-rdf-syntax-ns#type'', [a_uri ''http://clerezza.org/2010/04/queryresult#QueryResult'']),
        (''http://clerezza.org/2010/04/queryresult#concept'', [a_uri ''http://c'']),
        (''http://clerezza.org/2010/04/queryresult#creationOfNewFreeConceptSuggested'', [a_text ''true''])]),
      (''http://c'', [(''http://www.w3.org/2008/05/skos#prefLabel'', [a_text ''ab''])])]"

definition a_link :: "rdf_node \<Rightarrow> uri \<Rightarrow> rdf_node \<Rightarrow> rdf_triple" where
  "a_link s p ob = \<lparr>t_subject = s, t_property = Resource p, t_object = ob, t_graph = None, t_source = None\<rparr>"

definition the_triples :: "rdf_triple list" where
  "the_triples =
     [a_link (Blank ''r'') (list_const ''type'') (Resource (qr_uri ''QueryResult'')),
      a_link (Blank ''r'') (qr_uri ''concept'') (http_node ''c''),
      a_link (Blank ''r'') (qr_uri ''creationOfNewFreeConceptSuggested'') (Literal (TV_string ''true'') None None),
      a_link (http_node ''c'') label_uri (Literal (TV_string ''ab'') None None)]"

lemma answer_read: "fst (parseJson a_doc an_answer (w_rdf (top_page (bank_of [])))) = Inr the_triples"
  unfolding top_page_def page_def by code_simp

lemma answer_plain_triples: "answer_plain the_triples"
  by (simp add: answer_plain_def the_triples_def a_link_def plain_node_def blank_char_def is_space_def plain_uri_def wf_uri_def
      http_node_def uri_toString_def is_alpha_def scheme_char_def to_lower_def lower_char_def auth_char_def path_char_def qr_uri_def label_uri_def)

lemma put_triples: "put_new [] the_triples = the_triples"
  by (simp add: put_new_def the_triples_def a_link_def http_node_def qr_uri_def label_uri_def)

theorem search_shows_answer_witness:
  "cp_found (snd (snd (search_loaded a_doc 9 True ''a'' an_answer (top_page (bank_of []), empty_page)))) =
     [\<lparr>cc_label = ''ab'', cc_uri = ''http://c''\<rparr>] \<and>
   cp_user_area (snd (snd (search_loaded a_doc 9 True ''a'' an_answer (top_page (bank_of []), empty_page))))"
proof -
  have r: "answer_results the_triples = [Blank ''r'']"
    by (simp add: answer_results_def property_holders_def the_triples_def a_link_def http_node_def qr_uri_def label_uri_def)
  have c: "answer_concepts the_triples (Blank ''r'') = Some [(''http://c'', Some ''ab'')]"
    by (simp add: answer_concepts_def concept_label_def property_values_def the_triples_def a_link_def http_node_def qr_uri_def
        label_uri_def or_null_def node_value_def uri_toString_def text_value_def)
  have v: "answer_suggestion the_triples (Blank ''r'') = Some ''true''"
    by (simp add: answer_suggestion_def property_values_def the_triples_def a_link_def http_node_def qr_uri_def
        label_uri_def or_null_def node_value_def tv_string_def)
  have "world_ready (top_page (bank_of []))"
    using top_page_ready [of "[]"] unfolding get_ready_def bank_ready_def by blast
  moreover have "good_base a_doc"
    by (simp add: good_base_def a_doc_def wf_uri_def is_alpha_def scheme_char_def to_lower_def lower_char_def auth_char_def path_char_def)
  moreover have "2 * w_next_query (top_page (bank_of [])) < 9" by (simp add: top_page_def)
  ultimately show ?thesis
    using search_shows_answer [OF _ _ _ _ answer_read answer_plain_triples, of 9 True "''a''" empty_page]
    unfolding put_triples r list.sel c v
    by (auto simp: search_answered_def addFoundConcepts_def concept_exists_def listed_def empty_page_def then_step_def bind_step_def
        modify_def ret_def createSystemFoundConcept_def)
qed

end
