(* ===== verification/AdminPages.thy ===== *)
theory AdminPages
  imports WebScripts "HOL-Library.Multiset"
begin

text \<open>
  The lists of the user manager (\<open>usermanager-overview.js\<close>, \<open>usermanager-role-overview.js\<close>,
  \<open>usermanager-custom-property.js\<close>): rows with boxes, buttons that depend on the boxes, and deleting the
  marked rows with one request each, whose status messages are those of \<open>WebScripts\<close>. What jQuery
  selects with \<open>'#' + text\<close> is an argument; for a text that is a plain name it is the element with this id.
\<close>

section \<open>Rows, buttons and requests\<close>

datatype admin_kind = Users | Roles | Properties

text \<open>A row is an element, with the id it has, the value of its box, and whether the box is checked.\<close>

record admin_row =
  ar_element :: nat
  ar_id :: string
  ar_value :: string
  ar_checked :: bool

text \<open>
  A request on its way: the name of its action, what is to be deleted and its row. Each button is
  active or not: the one that deletes, the ones for a single row, of which there are two or none.
\<close>

record admin_request =
  rq_name :: string
  rq_value :: string
  rq_element :: nat

record admin_page =
  ap_rows :: "admin_row list"
  ap_delete :: bool
  ap_single :: bool
  ap_location :: "string option"
  ap_dialogs :: "alert_dialog list"
  ap_flight :: "admin_request list"

type_synonym 'a admin_step = "(admin_page \<times> status, 'a) js_step"

definition checked_rows :: "admin_page \<Rightarrow> admin_row list" where
  "checked_rows s = filter ar_checked (ap_rows s)"

definition buttonVisibilty :: "admin_page \<Rightarrow> admin_page" where
  "buttonVisibilty s =
     (let activatedCheckBoxes = length (checked_rows s) in
      if activatedCheckBoxes = 1 then s\<lparr>ap_delete := True, ap_single := True\<rparr>
      else if 1 < activatedCheckBoxes then s\<lparr>ap_delete := True, ap_single := False\<rparr>
      else s\<lparr>ap_delete := False, ap_single := False\<rparr>)"

definition box_clicked :: "nat \<Rightarrow> bool \<Rightarrow> admin_page \<Rightarrow> admin_page" where
  "box_clicked i b s = buttonVisibilty (s\<lparr>ap_rows := (ap_rows s)[i := (ap_rows s ! i)\<lparr>ar_checked := b\<rparr>]\<rparr>)"

definition show_dialog :: "alert_dialog \<Rightarrow> admin_page \<Rightarrow> admin_page" where
  "show_dialog d s = s\<lparr>ap_dialogs := ap_dialogs s @ [d]\<rparr>"

text \<open>The button that deletes asks first.\<close>

definition delete_question :: "admin_kind \<Rightarrow> nat \<Rightarrow> alert_dialog" where
  "delete_question k n =
     (let what = (case k of Users \<Rightarrow> if 1 < n then ''users'' else ''user'' | Roles \<Rightarrow> if 1 < n then ''roles'' else ''role''
        | Properties \<Rightarrow> if 1 < n then ''properties'' else ''property'');
          header = (case k of Users \<Rightarrow> ''Delete Users'' | Roles \<Rightarrow> ''Delete Roles'' | Properties \<Rightarrow> ''Delete Properties'') in
      AlertMessage_show (Some (''Do you want to delete the selected '' @ what @ ''?'')) (Some header) None None)"

definition delete_clicked :: "admin_kind \<Rightarrow> admin_page \<Rightarrow> admin_page" where
  "delete_clicked k s = (if ap_delete s then show_dialog (delete_question k (length (checked_rows s))) s else s)"

text \<open>
  The buttons for one row lead to a page of the value of the first checked box, the text \<open>undefined\<close> if
  there is none.
\<close>

definition first_value :: "admin_page \<Rightarrow> string" where
  "first_value s = (case checked_rows s of [] \<Rightarrow> ''undefined'' | r # _ \<Rightarrow> ar_value r)"

definition single_clicked :: "string \<Rightarrow> admin_page \<Rightarrow> admin_page" where
  "single_clicked page s = (if ap_single s then s\<lparr>ap_location := Some (page @ first_value s)\<rparr> else s)"

abbreviation edit_user :: "admin_page \<Rightarrow> admin_page" where
  "edit_user \<equiv> single_clicked ''update-user?userName=''"

section \<open>Deleting\<close>

definition action_prefix :: "admin_kind \<Rightarrow> string" where
  "action_prefix k = (case k of Users \<Rightarrow> ''delete-user-'' | Roles \<Rightarrow> ''delete-role-'' | Properties \<Rightarrow> ''delete-custom-'')"

definition action_text :: "admin_kind \<Rightarrow> string" where
  "action_text k = (case k of Users \<Rightarrow> ''deleting user '' | Roles \<Rightarrow> ''deleting role '' | Properties \<Rightarrow> ''deleting custom property '')"

text \<open>The role that is never deleted.\<close>

definition refused :: "admin_kind \<Rightarrow> string \<Rightarrow> bool" where
  "refused k v \<longleftrightarrow> k = Roles \<and> v = ''BasePermissionsRole''"

definition refusal :: alert_dialog where
  "refusal = AlertMessage_show (Some ''Could not delete BasePermissionsRole'') (Some ''Alert'') (Some ''Ok'') None"

text \<open>
  After a success the rows that jQuery finds by the value go, or the row itself in the list of
  properties. \<open>select\<close> may throw where the text is no selector.
\<close>

definition remove_row :: "(string \<Rightarrow> (string \<Rightarrow> bool) js_res) \<Rightarrow> admin_kind \<Rightarrow> admin_request \<Rightarrow> (admin_page, unit) js_step" where
  "remove_row select k q = (if k = Properties
     then modify (\<lambda>s. s\<lparr>ap_rows := filter (\<lambda>r. ar_element r \<noteq> rq_element q) (ap_rows s)\<rparr>)
     else bind_step (lift_res (select (rq_value q))) (\<lambda>found.
       modify (\<lambda>s. s\<lparr>ap_rows := filter (\<lambda>r. \<not> found (ar_id r)) (ap_rows s)\<rparr>)))"

definition delete_options :: "(string \<Rightarrow> (string \<Rightarrow> bool) js_res) \<Rightarrow> admin_kind \<Rightarrow> admin_request \<Rightarrow> admin_page ajax_options" where
  "delete_options select k q = new_ajax_options (Some (rq_name q)) (Some (action_text k)) (Some (remove_row select k q))"

definition send_request :: "string set \<Rightarrow> (string \<Rightarrow> (string \<Rightarrow> bool) js_res) \<Rightarrow> admin_kind \<Rightarrow> admin_request \<Rightarrow> unit admin_step" where
  "send_request page select k q = then_step (beforeSend page (delete_options select k q))
     (on_page (modify (\<lambda>s. s\<lparr>ap_flight := ap_flight s @ [q]\<rparr>)))"

fun delete_each :: "string set \<Rightarrow> (string \<Rightarrow> (string \<Rightarrow> bool) js_res) \<Rightarrow> admin_kind \<Rightarrow> admin_row list \<Rightarrow> nat \<Rightarrow> unit admin_step" where
  "delete_each page select k [] counter = ret ()"
| "delete_each page select k (r # rs) counter =
     (if refused k (ar_value r) then then_step (on_page (modify (show_dialog refusal))) (delete_each page select k rs counter)
      else then_step (send_request page select k \<lparr>rq_name = action_prefix k @ nat_str counter, rq_value = ar_value r, rq_element = ar_element r\<rparr>)
        (delete_each page select k rs (counter + 1)))"

text \<open>\<open>deleteUsers\<close>, \<open>deleteRoles\<close> and \<open>deleteCustomProperties\<close>.\<close>

definition delete_checked :: "string set \<Rightarrow> (string \<Rightarrow> (string \<Rightarrow> bool) js_res) \<Rightarrow> admin_kind \<Rightarrow> unit admin_step" where
  "delete_checked page select k ps = delete_each page select k (checked_rows (fst ps)) 1 ps"

text \<open>The answer to a request; a failure is told with the text of the response, which is given.\<close>

definition request_done :: "(string \<Rightarrow> (string \<Rightarrow> bool) js_res) \<Rightarrow> admin_kind \<Rightarrow> admin_request \<Rightarrow> unit admin_step" where
  "request_done select k q = then_step (on_page (modify (\<lambda>s. s\<lparr>ap_flight := remove1 q (ap_flight s)\<rparr>)))
     (success (delete_options select k q))"

definition request_failed :: "(string \<Rightarrow> (string \<Rightarrow> bool) js_res) \<Rightarrow> admin_kind \<Rightarrow> string \<Rightarrow> admin_request \<Rightarrow> unit admin_step" where
  "request_failed select k text q = then_step (on_page (modify (\<lambda>s. s\<lparr>ap_flight := remove1 q (ap_flight s)\<rparr>)))
     (ajax_error (\<lambda>_. None :: unit option) (\<lambda>_. None) (\<lambda>d. modify (show_dialog d)) (delete_options select k q) (Some text) None ''error'')"

fun answer_all :: "(string \<Rightarrow> (string \<Rightarrow> bool) js_res) \<Rightarrow> admin_kind \<Rightarrow> (admin_request \<times> string option) list \<Rightarrow> unit admin_step" where
  "answer_all select k [] = ret ()"
| "answer_all select k ((q, failure) # as) = then_step
     (case failure of None \<Rightarrow> request_done select k q | Some text \<Rightarrow> request_failed select k text q) (answer_all select k as)"

section \<open>Lemmas\<close>

text \<open>The requests of a confirmation, with the names that the counter gives them.\<close>

fun requests_of :: "admin_kind \<Rightarrow> admin_row list \<Rightarrow> nat \<Rightarrow> admin_request list" where
  "requests_of k [] n = []"
| "requests_of k (r # rs) n = (if refused k (ar_value r) then requests_of k rs n
     else \<lparr>rq_name = action_prefix k @ nat_str n, rq_value = ar_value r, rq_element = ar_element r\<rparr> # requests_of k rs (n + 1))"

lemma options_fields:
  "rq_name q \<noteq> [] \<Longrightarrow> actionName (delete_options select k q) = rq_name q"
  "successAction (delete_options select k q) = remove_row select k q"
  "beforeSendAction (delete_options select k q) = ret ()" "errorAction (delete_options select k q) = ret ()"
  by (simp_all add: delete_options_def new_ajax_options_def)

lemma on_page_simps [simp]:
  "on_page (ret a) ps = (Inr a, ps)" "on_page (modify f) ps = (Inr (), (f (fst ps), snd ps))" "on_status g ps = (Inr (), (fst ps, g (snd ps)))"
  by (simp_all add: on_page_def ret_def modify_def on_status_def split: prod.splits)

lemma send_request_effect:
  "rq_name q \<noteq> [] \<Longrightarrow> send_request page select k q (p, st) =
    (Inr (), (p\<lparr>ap_flight := ap_flight p @ [q]\<rparr>, add_message page (rq_name q) (actionText (delete_options select k q)) st))"
  by (simp add: send_request_def beforeSend_def options_fields then_step_def bind_step_def)

lemma prefix_name [simp]: "action_prefix k @ x \<noteq> []"
  by (cases k) (simp_all add: action_prefix_def)

text \<open>Adding messages of fresh and different names, whatever their texts.\<close>

lemma add_fresh:
  assumes "i \<notin> page \<union> insert ''tx-loader'' (loader_ids st)"
  shows "messages (add_message page i text st) = messages st @ [i]"
    "loader_ids (add_message page i text st) \<subseteq> insert i (insert ''tx-loader'' (loader_ids st))"
proof -
  let ?s = "if messages st = [] then open_loader st else st"
  have "loader_ids ?s \<subseteq> insert ''tx-loader'' (loader_ids st)" "messages ?s = messages st"
    by (auto simp: open_loader_def loader_ids_def)
  moreover from this have n: "i \<notin> page \<union> loader_ids ?s" using assms by auto
  then have eq: "add_message page i text st = ?s\<lparr>messages := messages ?s @ [i],
      loader := map_option (\<lambda>l. l\<lparr>l_divs := l_divs l @ [(i, text)]\<rparr>) (loader ?s)\<rparr>"
    unfolding add_message_def Let_def by simp
  show "messages (add_message page i text st) = messages st @ [i]" unfolding eq using calculation(2) by simp
  have "loader_ids (add_message page i text st) \<subseteq> insert i (loader_ids ?s)"
    unfolding eq by (auto simp: loader_ids_def split: option.splits)
  then show "loader_ids (add_message page i text st) \<subseteq> insert i (insert ''tx-loader'' (loader_ids st))"
    using calculation(1) by blast
qed

lemma delete_each_effect:
  assumes "set (map rq_name (requests_of k rs n)) \<inter> (page \<union> insert ''tx-loader'' (loader_ids st)) = {}"
    "distinct (map rq_name (requests_of k rs n))"
  shows "\<exists>p' st'. delete_each page select k rs n (p, st) = (Inr (), (p', st')) \<and> ap_rows p' = ap_rows p \<and>
    ap_flight p' = ap_flight p @ requests_of k rs n \<and> messages st' = messages st @ map rq_name (requests_of k rs n)"
  using assms
proof (induction rs arbitrary: n p st)
  case (Cons r rs)
  show ?case
  proof (cases "refused k (ar_value r)")
    case True
    then have "delete_each page select k (r # rs) n (p, st) = delete_each page select k rs n (show_dialog refusal p, st)"
      by (simp add: then_step_def bind_step_def)
    then show ?thesis using Cons.IH [of n st "show_dialog refusal p"] Cons.prems True by (auto simp: show_dialog_def)
  next
    case False
    let ?q = "\<lparr>rq_name = action_prefix k @ nat_str n, rq_value = ar_value r, rq_element = ar_element r\<rparr>"
    obtain tx where t: "send_request page select k ?q (p, st) =
        (Inr (), (p\<lparr>ap_flight := ap_flight p @ [?q]\<rparr>, add_message page (rq_name ?q) tx st))"
      using send_request_effect [of ?q] by fastforce
    let ?st = "add_message page (rq_name ?q) tx st"
    have fresh: "rq_name ?q \<notin> page \<union> insert ''tx-loader'' (loader_ids st)" using Cons.prems False by auto
    have "set (map rq_name (requests_of k rs (n + 1))) \<inter> (page \<union> insert (rq_name ?q) (insert ''tx-loader'' (loader_ids st))) = {}"
      using Cons.prems False by auto
    then have "set (map rq_name (requests_of k rs (n + 1))) \<inter> (page \<union> insert ''tx-loader'' (loader_ids ?st)) = {}"
      using add_fresh(2) [OF fresh, of tx] by blast
    moreover have "distinct (map rq_name (requests_of k rs (n + 1)))" using Cons.prems False by simp
    ultimately obtain p' st' where "delete_each page select k rs (n + 1) (p\<lparr>ap_flight := ap_flight p @ [?q]\<rparr>, ?st) = (Inr (), (p', st'))"
      "ap_rows p' = ap_rows p" "ap_flight p' = ap_flight p @ ?q # requests_of k rs (n + 1)"
      "messages st' = messages ?st @ map rq_name (requests_of k rs (n + 1))"
      using Cons.IH [of "n + 1" ?st "p\<lparr>ap_flight := ap_flight p @ [?q]\<rparr>"] by auto
    then show ?thesis using t False add_fresh(1) [OF fresh, of tx] by (simp add: then_step_def bind_step_def)
  qed
qed (simp add: ret_def)

lemma requests_names: "map rq_name (requests_of k rs n) = map (\<lambda>i. action_prefix k @ nat_str i) [n..<n + length (requests_of k rs n)]"
proof (induction rs arbitrary: n)
  case (Cons r rs)
  then show ?case by (simp add: upt_rec)
qed simp

lemma requests_distinct: "distinct (map rq_name (requests_of k rs n))"
  unfolding requests_names by (simp add: distinct_map inj_on_def nat_str_inj)

lemma requests_rows:
  "q \<in> set (requests_of k rs n) \<Longrightarrow> rq_name q \<noteq> [] \<and> (\<exists>r \<in> set rs. \<not> refused k (ar_value r) \<and> rq_value q = ar_value r \<and> rq_element q = ar_element r)"
  by (induction rs arbitrary: n) (auto split: if_splits)

lemma messages_remove [simp]: "messages (remove_message i st) = remove1 i (messages st)"
proof -
  have "messages (fade_message i st) = messages st" by (simp add: fade_message_def split: option.splits)
  then show ?thesis by (auto simp: remove_message_def Let_def remove1_idem split: option.splits)
qed

text \<open>The rows that a success takes.\<close>

definition takes :: "admin_kind \<Rightarrow> admin_request \<Rightarrow> admin_row \<Rightarrow> bool" where
  "takes k q r \<longleftrightarrow> (if k = Properties then ar_element r = rq_element q else ar_id r = rq_value q)"

definition plain :: "(string \<Rightarrow> (string \<Rightarrow> bool) js_res) \<Rightarrow> string \<Rightarrow> bool" where
  "plain select v \<longleftrightarrow> select v = Inr (\<lambda>i. i = v)"

lemma request_done_effect:
  assumes "rq_name q \<noteq> []" "plain select (rq_value q)"
  shows "\<exists>st'. request_done select k q (p, st) =
      (Inr (), (p\<lparr>ap_flight := remove1 q (ap_flight p), ap_rows := filter (\<lambda>r. \<not> takes k q r) (ap_rows p)\<rparr>, st')) \<and>
    messages st' = remove1 (rq_name q) (messages st)"
  using assms
  by (auto simp: request_done_def success_def options_fields then_step_def bind_step_def remove_row_def takes_def plain_def
      on_page_def lift_res_def modify_def on_status_def)

lemma request_failed_effect:
  assumes "rq_name q \<noteq> []"
  shows "\<exists>p' st'. request_failed select k text q (p, st) = (Inr (), (p', st')) \<and>
    ap_flight p' = remove1 q (ap_flight p) \<and> ap_rows p' = ap_rows p \<and> messages st' = remove1 (rq_name q) (messages st)"
  using assms
  by (auto simp: request_failed_def ajax_error_def options_fields then_step_def bind_step_def
      on_page_def modify_def on_status_def show_dialog_def ret_def)

lemma answer_all_effect:
  assumes "\<forall>a \<in> set as. rq_name (fst a) \<noteq> [] \<and> plain select (rq_value (fst a))"
  shows "\<exists>p' st'. answer_all select k as (p, st) = (Inr (), (p', st')) \<and> ap_flight p' = fold remove1 (map fst as) (ap_flight p) \<and>
    ap_rows p' = filter (\<lambda>r. \<not> (\<exists>q. (q, None) \<in> set as \<and> takes k q r)) (ap_rows p) \<and>
    messages st' = fold remove1 (map (\<lambda>a. rq_name (fst a)) as) (messages st)"
  using assms
proof (induction as arbitrary: p st)
  case (Cons a as)
  obtain q f where a: "a = (q, f)" by (cases a)
  have q: "rq_name q \<noteq> []" "plain select (rq_value q)" using Cons.prems a by auto
  obtain p1 st1 where one: "(case f of None \<Rightarrow> request_done select k q | Some t \<Rightarrow> request_failed select k t q) (p, st) = (Inr (), (p1, st1))"
    "ap_flight p1 = remove1 q (ap_flight p)" "messages st1 = remove1 (rq_name q) (messages st)"
    "ap_rows p1 = filter (\<lambda>r. \<not> (f = None \<and> takes k q r)) (ap_rows p)"
  proof (cases f)
    case None
    then show ?thesis using that request_done_effect [OF q, of k p st] by auto
  next
    case (Some t)
    then show ?thesis using that request_failed_effect [OF q(1), of select k t p st] by auto
  qed
  obtain p' st' where rest: "answer_all select k as (p1, st1) = (Inr (), (p', st'))" "ap_flight p' = fold remove1 (map fst as) (ap_flight p1)"
    "ap_rows p' = filter (\<lambda>r. \<not> (\<exists>q. (q, None) \<in> set as \<and> takes k q r)) (ap_rows p1)"
    "messages st' = fold remove1 (map (\<lambda>a. rq_name (fst a)) as) (messages st1)"
    using Cons.IH [of p1 st1] Cons.prems by auto
  have "answer_all select k (a # as) (p, st) = (Inr (), (p', st'))"
    using one(1) rest(1) by (simp add: a then_step_def bind_step_def)
  moreover have "filter (\<lambda>r. \<not> (\<exists>q. (q, None) \<in> set as \<and> takes k q r)) (filter (\<lambda>r. \<not> (f = None \<and> takes k q r)) (ap_rows p)) =
      filter (\<lambda>r. \<not> (\<exists>q. (q, None) \<in> set (a # as) \<and> takes k q r)) (ap_rows p)"
    unfolding filter_filter a by (rule filter_cong) auto
  ultimately show ?case using rest one by (simp add: a)
qed (simp add: ret_def)

lemma fold_remove1_mset: "mset (fold remove1 xs ys) = mset ys - mset xs"
  by (induction xs arbitrary: ys) simp_all

lemma fold_remove1_append: "set xs \<inter> set ys = {} \<Longrightarrow> fold remove1 xs (ys @ zs) = ys @ fold remove1 xs zs"
  by (induction xs arbitrary: zs) (simp_all add: remove1_append)

text \<open>The rows of a list: different elements, of different ids; users and roles have their names as ids.\<close>

definition rows_ok :: "admin_kind \<Rightarrow> admin_row list \<Rightarrow> bool" where
  "rows_ok k rs \<longleftrightarrow> distinct (map ar_element rs) \<and> (k \<noteq> Properties \<longrightarrow> distinct (map ar_id rs) \<and> (\<forall>r \<in> set rs. ar_id r = ar_value r))"

lemma rows_eqI: "distinct (map f rs) \<Longrightarrow> r \<in> set rs \<Longrightarrow> r' \<in> set rs \<Longrightarrow> f r = f r' \<Longrightarrow> r = r'"
  by (auto simp: distinct_map inj_on_def)

lemma takes_request:
  assumes ok: "rows_ok k rs" and r: "r \<in> set rs" and q: "q \<in> set (requests_of k (filter ar_checked rs) n)"
  shows "takes k q r \<longleftrightarrow> rq_element q = ar_element r" and
    "rq_element q = ar_element r \<Longrightarrow> ar_checked r \<and> \<not> refused k (ar_value r)"
proof -
  obtain r' where r': "r' \<in> set rs" "ar_checked r'" "\<not> refused k (ar_value r')" "rq_value q = ar_value r'" "rq_element q = ar_element r'"
    using requests_rows [OF q] by auto
  have "distinct (map ar_element rs)" using ok by (simp add: rows_ok_def)
  from rows_eqI [OF this r r'(1)] have e: "ar_element r = ar_element r' \<longleftrightarrow> r = r'" by blast
  show "ar_checked r \<and> \<not> refused k (ar_value r)" if "rq_element q = ar_element r"
  proof -
    have "r = r'" using that e r'(5) by argo
    then show ?thesis using r'(2,3) by blast
  qed
  show "takes k q r \<longleftrightarrow> rq_element q = ar_element r"
  proof (cases "k = Properties")
    case True
    then show ?thesis by (auto simp: takes_def)
  next
    case False
    then have d: "distinct (map ar_id rs)" "ar_value r' = ar_id r'" using ok r'(1) by (simp_all add: rows_ok_def)
    then have "ar_id r = ar_id r' \<longleftrightarrow> r = r'" using rows_eqI [OF d(1) r r'(1)] by blast
    then have "ar_id r = rq_value q \<longleftrightarrow> rq_element q = ar_element r" using r'(4,5) d(2) e by metis
    then show ?thesis using False by (simp add: takes_def)
  qed
qed

lemma status_ids: "status_ok st \<Longrightarrow> set (messages st) \<subseteq> loader_ids st"
  by (auto simp: status_ok_def loader_ids_def split: option.splits)

lemma batch:
  assumes st: "status_ok st" and fresh: "\<And>n. action_prefix k @ nat_str n \<notin> page \<union> loader_ids st"
    and rows: "rows_ok k (ap_rows p)" and pl: "\<And>r. r \<in> set (checked_rows p) \<Longrightarrow> plain select (ar_value r)" and f: "ap_flight p = []"
  shows "\<exists>p1 st1. delete_checked page select k (p, st) = (Inr (), (p1, st1)) \<and> ap_flight p1 = requests_of k (checked_rows p) 1 \<and>
    messages st1 = messages st @ map rq_name (requests_of k (checked_rows p) 1) \<and>
    (\<forall>as. mset (map fst as) = mset (ap_flight p1) \<longrightarrow> (\<exists>p2 st2. answer_all select k as (p1, st1) = (Inr (), (p2, st2)) \<and>
      ap_flight p2 = [] \<and> messages st2 = messages st \<and>
      ap_rows p2 = filter (\<lambda>r. \<not> (ar_checked r \<and> \<not> refused k (ar_value r) \<and> (\<exists>q. (q, None) \<in> set as \<and> rq_element q = ar_element r))) (ap_rows p)))"
proof -
  let ?qs = "requests_of k (checked_rows p) 1"
  have tx: "action_prefix k @ nat_str n \<noteq> ''tx-loader''" for n by (cases k) (simp_all add: action_prefix_def)
  have names: "set (map rq_name ?qs) \<inter> (page \<union> insert ''tx-loader'' (loader_ids st)) = {}"
  proof -
    have "x \<notin> page \<union> insert ''tx-loader'' (loader_ids st)" if "x \<in> set (map rq_name ?qs)" for x
    proof -
      obtain i where "x = action_prefix k @ nat_str i" using \<open>x \<in> set (map rq_name ?qs)\<close> unfolding requests_names by force
      then show ?thesis using fresh [of i] tx [of i] by simp
    qed
    then show ?thesis by blast
  qed
  obtain p1 st1 where d: "delete_checked page select k (p, st) = (Inr (), (p1, st1))" "ap_rows p1 = ap_rows p" "ap_flight p1 = ?qs"
    "messages st1 = messages st @ map rq_name ?qs"
    using delete_each_effect [OF names requests_distinct, of select p] f by (auto simp: delete_checked_def)
  have "\<exists>p2 st2. answer_all select k as (p1, st1) = (Inr (), (p2, st2)) \<and> ap_flight p2 = [] \<and> messages st2 = messages st \<and>
      ap_rows p2 = filter (\<lambda>r. \<not> (ar_checked r \<and> \<not> refused k (ar_value r) \<and> (\<exists>q. (q, None) \<in> set as \<and> rq_element q = ar_element r))) (ap_rows p)"
    if as: "mset (map fst as) = mset ?qs" for as
  proof -
    have q: "fst a \<in> set ?qs" if "a \<in> set as" for a using that as by (metis image_eqI list.set_map mset_eq_setD)
    then have "\<forall>a \<in> set as. rq_name (fst a) \<noteq> [] \<and> plain select (rq_value (fst a))" using requests_rows pl by metis
    then obtain p2 st2 where e: "answer_all select k as (p1, st1) = (Inr (), (p2, st2))" "ap_flight p2 = fold remove1 (map fst as) ?qs"
      "ap_rows p2 = filter (\<lambda>r. \<not> (\<exists>q. (q, None) \<in> set as \<and> takes k q r)) (ap_rows p)"
      "messages st2 = fold remove1 (map (\<lambda>a. rq_name (fst a)) as) (messages st @ map rq_name ?qs)"
      using answer_all_effect [of as select k p1 st1] d by auto
    have m: "mset (map (\<lambda>a. rq_name (fst a)) as) = mset (map rq_name ?qs)"
    proof -
      have "map (\<lambda>a. rq_name (fst a)) as = map rq_name (map fst as)" by simp
      then show ?thesis by (simp only: mset_map as [unfolded mset_map])
    qed
    then have "set (map (\<lambda>a. rq_name (fst a)) as) \<inter> set (messages st) = {}" using names status_ids [OF st] unfolding mset_eq_setD [OF m] by blast
    then have "messages st2 = messages st @ fold remove1 (map (\<lambda>a. rq_name (fst a)) as) (map rq_name ?qs)"
      using e(4) by (simp only: fold_remove1_append)
    moreover have "mset (fold remove1 (map (\<lambda>a. rq_name (fst a)) as) (map rq_name ?qs)) = {#}" unfolding fold_remove1_mset m by simp
    moreover have "mset (fold remove1 (map fst as) ?qs) = {#}" unfolding fold_remove1_mset as by simp
    moreover have "filter (\<lambda>r. \<not> (\<exists>q. (q, None) \<in> set as \<and> takes k q r)) (ap_rows p) =
        filter (\<lambda>r. \<not> (ar_checked r \<and> \<not> refused k (ar_value r) \<and> (\<exists>q. (q, None) \<in> set as \<and> rq_element q = ar_element r))) (ap_rows p)"
    proof (rule filter_cong [OF refl])
      fix r assume r: "r \<in> set (ap_rows p)"
      have "takes k q r \<longleftrightarrow> rq_element q = ar_element r" "rq_element q = ar_element r \<Longrightarrow> ar_checked r \<and> \<not> refused k (ar_value r)"
        if "(q, None) \<in> set as" for q
        using takes_request [OF rows r, of q 1] q [OF that] by (auto simp: checked_rows_def)
      then show "(\<not> (\<exists>q. (q, None) \<in> set as \<and> takes k q r)) =
          (\<not> (ar_checked r \<and> \<not> refused k (ar_value r) \<and> (\<exists>q. (q, None) \<in> set as \<and> rq_element q = ar_element r)))" by blast
    qed
    ultimately show ?thesis using e by simp
  qed
  then show ?thesis using d by auto
qed

text \<open>The base role is never asked to be deleted, whatever is marked.\<close>

lemma base_role_kept:
  "rq_value q = ''BasePermissionsRole'' \<Longrightarrow> q \<notin> set (requests_of Roles rs n)"
  using requests_rows [of q Roles rs n] by (auto simp: refused_def)

text \<open>
  The buttons are not adjusted when rows go: after the only marked user has been deleted the button
  that edits is still active, and leads to a user \<open>undefined\<close>.
\<close>

lemma edit_after_delete:
  assumes "ap_rows p = [\<lparr>ar_element = 0, ar_id = v, ar_value = v, ar_checked = False\<rparr>]" "plain select v"
    "request_done select Users \<lparr>rq_name = ''delete-user-1'', rq_value = v, rq_element = 0\<rparr> (box_clicked 0 True p, st) = (r, (p', st'))"
  shows "ap_location (edit_user p') = Some ''update-user?userName=undefined''"
proof -
  let ?q = "\<lparr>rq_name = ''delete-user-1'', rq_value = v, rq_element = 0\<rparr>"
  let ?p = "box_clicked 0 True p"
  obtain st2 where "request_done select Users ?q (?p, st) =
      (Inr (), (?p\<lparr>ap_flight := remove1 ?q (ap_flight ?p), ap_rows := filter (\<lambda>r. \<not> takes Users ?q r) (ap_rows ?p)\<rparr>, st2))"
    using request_done_effect [of ?q select Users ?p st] assms(2) by auto
  then have "p' = ?p\<lparr>ap_flight := remove1 ?q (ap_flight ?p), ap_rows := filter (\<lambda>r. \<not> takes Users ?q r) (ap_rows ?p)\<rparr>"
    using assms(3) by simp
  then show ?thesis using assms(1)
    by (simp add: box_clicked_def buttonVisibilty_def checked_rows_def single_clicked_def first_value_def takes_def)
qed

text \<open>
  A deletion confirmed while the message of an earlier one with the same name is still on the page,
  as it is for the three seconds of its fade, shows no message.
\<close>

lemma second_deletion_unseen:
  assumes "messages st \<noteq> []" "rq_name q \<in> loader_ids st" "rq_name q \<noteq> []"
  shows "send_request page select k q (p, st) = (Inr (), (p\<lparr>ap_flight := ap_flight p @ [q]\<rparr>, st))"
  using assms by (simp add: send_request_effect add_message_def)

section \<open>Properties\<close>

text \<open>
  C34. Deleting the marked users, roles or properties: one request is sent for each marked
  row, but never for the base role, and while they are under way each has its own status
  message. In whatever order the answers arrive, failures included, in the end no request
  and none of the messages is left, the rows that were deleted are gone and all others are
  still there, in their order. This holds on a page whose rows are different elements, in
  the lists of users and roles with different ids that are the values
  (\<open>rows_ok\<close>), for marked values that select their own row when they stand as a
  selector (\<open>plain\<close>; a name with a dot does not), with no request under way at
  the start and no element of a message's name on the page, such as one of an earlier
  deletion that still fades.
\<close>

theorem deletion_completes:
  assumes "status_ok st" "\<And>n. action_prefix k @ nat_str n \<notin> page \<union> loader_ids st" "rows_ok k (ap_rows p)"
    "\<And>r. r \<in> set (checked_rows p) \<Longrightarrow> plain select (ar_value r)" "ap_flight p = []"
  shows "\<exists>p1 st1. delete_checked page select k (p, st) = (Inr (), (p1, st1)) \<and>
    map rq_value (ap_flight p1) = map ar_value (filter (\<lambda>r. ar_checked r \<and> \<not> refused k (ar_value r)) (ap_rows p)) \<and>
    messages st1 = messages st @ map rq_name (ap_flight p1) \<and> distinct (map rq_name (ap_flight p1)) \<and>
    (\<forall>as. mset (map fst as) = mset (ap_flight p1) \<longrightarrow> (\<exists>p2 st2. answer_all select k as (p1, st1) = (Inr (), (p2, st2)) \<and>
      ap_flight p2 = [] \<and> messages st2 = messages st \<and>
      ap_rows p2 = filter (\<lambda>r. \<not> (ar_checked r \<and> \<not> refused k (ar_value r) \<and>
        (\<exists>q. (q, None) \<in> set as \<and> rq_element q = ar_element r))) (ap_rows p)))"
proof -
  have v: "map rq_value (requests_of k rs n) = map ar_value (filter (\<lambda>r. \<not> refused k (ar_value r)) rs)" for rs n
    by (induction rs arbitrary: n) simp_all
  obtain p1 st1 where b: "delete_checked page select k (p, st) = (Inr (), (p1, st1))" "ap_flight p1 = requests_of k (checked_rows p) 1"
    "messages st1 = messages st @ map rq_name (requests_of k (checked_rows p) 1)"
    "\<forall>as. mset (map fst as) = mset (ap_flight p1) \<longrightarrow> (\<exists>p2 st2. answer_all select k as (p1, st1) = (Inr (), (p2, st2)) \<and>
      ap_flight p2 = [] \<and> messages st2 = messages st \<and>
      ap_rows p2 = filter (\<lambda>r. \<not> (ar_checked r \<and> \<not> refused k (ar_value r) \<and>
        (\<exists>q. (q, None) \<in> set as \<and> rq_element q = ar_element r))) (ap_rows p))"
    using batch [OF assms] by blast
  have "map rq_value (ap_flight p1) = map ar_value (filter (\<lambda>r. ar_checked r \<and> \<not> refused k (ar_value r)) (ap_rows p))"
    unfolding b(2) v checked_rows_def filter_filter by (simp add: conj_commute)
  moreover have "distinct (map rq_name (ap_flight p1))" unfolding b(2) by (rule requests_distinct)
  ultimately show ?thesis using b by auto
qed

definition two_roles :: admin_page where
  "two_roles = \<lparr>ap_rows = [\<lparr>ar_element = 0, ar_id = ''BasePermissionsRole'', ar_value = ''BasePermissionsRole'', ar_checked = True\<rparr>,
     \<lparr>ar_element = 1, ar_id = ''a'', ar_value = ''a'', ar_checked = True\<rparr>], ap_delete = True, ap_single = False,
     ap_location = None, ap_dialogs = [], ap_flight = []\<rparr>"

definition select_plain :: "string \<Rightarrow> (string \<Rightarrow> bool) js_res" where
  "select_plain v = Inr (\<lambda>i. i = v)"

theorem deletion_completes_witness:
  "\<exists>p1 st1. delete_checked {''tx-list''} select_plain Roles (two_roles, new_status) = (Inr (), (p1, st1)) \<and> map rq_value (ap_flight p1) = [''a'']"
proof -
  have "loader_ids new_status = {}" by (simp add: loader_ids_def new_status_def)
  then have fresh: "action_prefix Roles @ nat_str n \<notin> {''tx-list''} \<union> loader_ids new_status" for n by (simp add: action_prefix_def)
  have rows: "rows_ok Roles (ap_rows two_roles)" by (simp add: rows_ok_def two_roles_def)
  have pl: "r \<in> set (checked_rows two_roles) \<Longrightarrow> plain select_plain (ar_value r)" for r by (simp add: plain_def select_plain_def)
  have fl: "ap_flight two_roles = []" by (simp add: two_roles_def)
  have "map ar_value (filter (\<lambda>r. ar_checked r \<and> \<not> refused Roles (ar_value r)) (ap_rows two_roles)) = [''a'']"
    by (simp add: two_roles_def refused_def)
  then show ?thesis using deletion_completes [OF status_ok_new fresh rows pl fl] by metis
qed

end
