(* ===== verification/ScriptPages.thy ===== *)
theory ScriptPages
  imports WebScripts
begin

text \<open>
  Scripts of single pages: the script manager (\<open>scriptmanager.js\<close>, \<open>scriptmanager-overview.js\<close>), the
  address test of the configuration (\<open>platformconfig.js\<close>), the tabs of the panel (\<open>panel.js\<close>), the form
  that makes a certificate (\<open>profile.js\<close>) and the request for one that Internet Explorer makes
  (\<open>IEKeygen.js\<close>). The answers of the server and of the ActiveX objects are arguments.
\<close>

section \<open>The script manager\<close>

text \<open>
  The information of a script that is being loaded: its execution URIs, or the script itself. The page:
  its address, the actual script, the script whose information is shown, the boxes of the execution
  URIs, the button that deletes them, the script of the form that adds one, the output of a script.
\<close>

datatype script_load = Load_uris string | Load_script string

record script_page =
  sp_url :: string
  sp_actual :: "string option"
  sp_shown :: "string option"
  sp_boxes :: "(string \<times> bool) list"
  sp_delete_button :: bool
  sp_form :: "string option"
  sp_console :: string
  sp_loads :: "script_load list"
  sp_posts :: "(string \<times> string) list"

type_synonym 'a script_step = "(script_page \<times> status, 'a) js_step"

definition setActualScript :: "string \<Rightarrow> script_page \<Rightarrow> script_page" where
  "setActualScript script s = s\<lparr>sp_actual := Some script\<rparr>"

text \<open>The first parameter of the name in the query of the address, as it is written there.\<close>

fun find_param :: "string \<Rightarrow> string list \<Rightarrow> string option" where
  "find_param name [] = None"
| "find_param name (p # ps) = (let pos = index_of p ''='' in
     if 0 < pos \<and> substring p 0 pos = name then Some (substring_from p (pos + 1)) else find_param name ps)"

definition getQueryParam :: "string \<Rightarrow> string \<Rightarrow> script_page \<Rightarrow> script_page" where
  "getQueryParam name search s =
     (case find_param name (split_str ''&'' (substring_from search 1)) of
        Some v \<Rightarrow> setActualScript v s | None \<Rightarrow> s)"

definition add_load :: "script_load \<Rightarrow> script_page \<Rightarrow> script_page" where
  "add_load l s = s\<lparr>sp_loads := sp_loads s @ [l]\<rparr>"

definition showInformation :: "string set \<Rightarrow> string \<Rightarrow> unit script_step" where
  "showInformation page script = then_step (on_page (modify (setActualScript script))) (\<lambda>ps.
     if index_of (sp_url (fst ps)) ''execution-uri-overview'' \<noteq> -1 then
       then_step (on_status (add_message page ''load-execution-uri'' ''loading execution uri''))
         (on_page (modify (add_load (Load_uris script)))) ps
     else if index_of (sp_url (fst ps)) ''script-overview'' \<noteq> -1 then
       then_step (on_status (add_message page ''get-scripts'' ''loading scripts''))
         (on_page (modify (add_load (Load_script script)))) ps
     else ret () ps)"

text \<open>\<open>countNamedElements\<close> is the number of boxes.\<close>

definition showExecutionUriTabActions :: "script_page \<Rightarrow> script_page" where
  "showExecutionUriTabActions s = s\<lparr>sp_delete_button := (0 < length (sp_boxes s))\<rparr>"

text \<open>The answer to a load, where \<open>uris_of\<close> are the execution URIs that the server knows of a script.\<close>

definition loaded :: "(string \<Rightarrow> string list) \<Rightarrow> script_load \<Rightarrow> unit script_step" where
  "loaded uris_of l = then_step (on_page (modify (\<lambda>s. s\<lparr>sp_loads := remove1 l (sp_loads s)\<rparr>)))
     (case l of
        Load_uris script \<Rightarrow> then_step (on_page (modify (\<lambda>s. s\<lparr>sp_shown := Some script, sp_boxes := map (\<lambda>u. (u, False)) (uris_of script)\<rparr>)))
          (then_step (on_status (remove_message ''load-execution-uri'')) (on_page (modify showExecutionUriTabActions)))
      | Load_script script \<Rightarrow> then_step (on_page (modify (\<lambda>s. s\<lparr>sp_shown := Some script, sp_boxes := []\<rparr>)))
          (on_status (remove_message ''get-scripts'')))"

text \<open>The text that a variable without a script makes in a text.\<close>

definition script_text :: "string option \<Rightarrow> string" where
  "script_text v = (case v of Some u \<Rightarrow> u | None \<Rightarrow> ''null'')"

definition post :: "string \<Rightarrow> string \<Rightarrow> script_page \<Rightarrow> script_page" where
  "post url data s = s\<lparr>sp_posts := sp_posts s @ [(url, data)]\<rparr>"

definition script_options :: "string \<Rightarrow> string \<Rightarrow> (script_page, unit) js_step \<Rightarrow> script_page ajax_options" where
  "script_options name text action = new_ajax_options (Some name) (Some text) (Some action)"

definition deleteScript :: "string set \<Rightarrow> unit script_step" where
  "deleteScript page = then_step (beforeSend page (script_options ''delete-script'' ''deleting script'' (ret ())))
     (on_page (modify (\<lambda>s. post ''delete'' (''script='' @ encodeURIComponent (script_text (sp_actual s))) s)))"

definition script_deleted :: "unit script_step" where
  "script_deleted = success (script_options ''delete-script'' ''deleting script'' (modify (\<lambda>s. s\<lparr>sp_shown := None, sp_boxes := []\<rparr>)))"

definition executeScript :: "string set \<Rightarrow> unit script_step" where
  "executeScript page = then_step (beforeSend page (script_options ''execute-script'' ''executing script'' (ret ())))
     (on_page (modify (\<lambda>s. post ''execute'' (''script='' @ encodeURIComponent (script_text (sp_actual s))) s)))"

definition script_executed :: "string \<Rightarrow> unit script_step" where
  "script_executed obj = success (script_options ''execute-script'' ''executing script''
     (modify (\<lambda>s. s\<lparr>sp_console := ''<h4>Script Output</h4><pre>'' @ obj @ ''</pre>''\<rparr>)))"

text \<open>The buttons of the overview need an actual script.\<close>

definition delete_button :: "string set \<Rightarrow> unit script_step" where
  "delete_button page ps = (if sp_actual (fst ps) \<noteq> None then deleteScript page ps else ret () ps)"

definition execute_button :: "string set \<Rightarrow> unit script_step" where
  "execute_button page ps = (if sp_actual (fst ps) \<noteq> None then executeScript page ps else ret () ps)"

definition showAddExecutionUriForm :: "script_page \<Rightarrow> script_page" where
  "showAddExecutionUriForm s = s\<lparr>sp_form := Some (script_text (sp_actual s))\<rparr>"

text \<open>Each checked execution URI is deleted by a request of its own; the URI is not encoded.\<close>

fun delete_uris :: "string set \<Rightarrow> string list \<Rightarrow> unit script_step" where
  "delete_uris page [] = ret ()"
| "delete_uris page (u # us) = then_step (beforeSend page (script_options ''delete-execution-uri'' ''deleting execution uri'' (ret ())))
     (then_step (on_page (modify (\<lambda>s. post ''delete-executionUri''
        (''executionUri='' @ u @ ''&scriptUri='' @ encodeURIComponent (script_text (sp_actual s))) s))) (delete_uris page us))"

definition deleteExecutionUris :: "string set \<Rightarrow> unit script_step" where
  "deleteExecutionUris page ps = delete_uris page (map fst (filter snd (sp_boxes (fst ps)))) ps"

definition uris_deleted :: "unit script_step" where
  "uris_deleted = success (script_options ''delete-execution-uri'' ''deleting execution uri''
     (modify (\<lambda>s. add_load (Load_uris (script_text (sp_actual s))) s)))"

text \<open>The form with its hidden script and the URI that is written in, both encoded by \<open>serialize\<close>.\<close>

definition addExecutionUri :: "string set \<Rightarrow> string \<Rightarrow> unit script_step" where
  "addExecutionUri page u = then_step (beforeSend page (script_options ''add-execution-uri'' ''saving execution uri'' (ret ())))
     (on_page (modify (\<lambda>s. post ''add-execution-uri'' (case sp_form s of
        Some f \<Rightarrow> ''scriptUri='' @ encodeURIComponent f @ ''&executionUri='' @ encodeURIComponent u | None \<Rightarrow> []) s)))"

definition uri_added :: "unit script_step" where
  "uri_added = success (script_options ''add-execution-uri'' ''saving execution uri''
     (modify (\<lambda>s. add_load (Load_uris (case sp_form s of Some f \<Rightarrow> f | None \<Rightarrow> ''undefined'')) s)))"

text \<open>
  The form of a new script: whether the file is chosen, the rows for the name, and whether the cell has
  the field of the file. \<open>$('#nameRow')\<close> is the first of the rows.
\<close>

record install_form =
  if_file :: bool
  if_name_rows :: nat
  if_file_cell :: bool

definition fileChoiceSelected :: "bool \<Rightarrow> install_form \<Rightarrow> install_form" where
  "fileChoiceSelected file f = (if file
     then f\<lparr>if_file := True, if_name_rows := if_name_rows f - 1, if_file_cell := True\<rparr>
     else f\<lparr>if_file := False, if_name_rows := if_name_rows f + 1, if_file_cell := False\<rparr>)"

lemma text_twice:
  "if_name_rows (fold fileChoiceSelected [False, False, True] \<lparr>if_file = True, if_name_rows = 0, if_file_cell = True\<rparr>) = 1"
  by (simp add: fileChoiceSelected_def)

text \<open>A script stays the actual one when it has been deleted.\<close>

lemma deleted_still_actual:
  "script_deleted ps = (r, ps') \<Longrightarrow> sp_actual (fst ps') = sp_actual (fst ps)"
  by (auto simp: script_deleted_def success_def script_options_def new_ajax_options_def then_step_def bind_step_def on_page_def
      on_status_def modify_def split: prod.splits)

text \<open>
  The answers to two loads may come in the other order: then the list shows the URIs of the first script
  while the second one is the actual script, and a deletion asks for the URIs of one to be taken from the other.
\<close>

lemma loads_out_of_order:
  assumes u: "uris_of a = [u]" and url: "sp_url p = ''execution-uri-overview''" and l: "sp_loads p = [Load_uris a, Load_uris b]" and s: "sp_actual p = Some b"
  shows "\<exists>st'. then_step (loaded uris_of (Load_uris b)) (loaded uris_of (Load_uris a)) (p, st) =
    (Inr (), (p\<lparr>sp_loads := [], sp_shown := Some a, sp_boxes := [(u, False)], sp_delete_button := True\<rparr>, st'))"
  using assms by (auto simp: loaded_def then_step_def bind_step_def on_page_def on_status_def modify_def showExecutionUriTabActions_def)

section \<open>The address test\<close>

text \<open>What is left after a part of an expression has matched at the front of a text.\<close>

type_synonym matcher = "string \<Rightarrow> string list"

definition m_lit :: "string \<Rightarrow> matcher" where
  "m_lit t s = (if prefix t s then [drop (length t) s] else [])"

definition m_seq :: "matcher \<Rightarrow> matcher \<Rightarrow> matcher" where
  "m_seq a b s = concat (map b (a s))"

definition m_alt :: "matcher \<Rightarrow> matcher \<Rightarrow> matcher" where
  "m_alt a b s = a s @ b s"

definition m_opt :: "matcher \<Rightarrow> matcher" where
  "m_opt a s = a s @ [s]"

definition m_star :: "(char \<Rightarrow> bool) \<Rightarrow> matcher" where
  "m_star P s = map (\<lambda>n. drop n s) (rev [0..<Suc (length (takeWhile P s))])"

definition m_plus :: "(char \<Rightarrow> bool) \<Rightarrow> matcher" where
  "m_plus P s = map (\<lambda>n. drop n s) (rev [1..<Suc (length (takeWhile P s))])"

definition m_one :: "(char \<Rightarrow> bool) \<Rightarrow> matcher" where
  "m_one P s = (case s of c # r \<Rightarrow> if P c then [r] else [] | [] \<Rightarrow> [])"

definition word_char :: "char \<Rightarrow> bool" where
  "word_char c \<longleftrightarrow> is_digit c \<or> c \<in> set ''ABCDEFGHIJKLMNOPQRSTUVWXYZabcdefghijklmnopqrstuvwxyz_''"

text \<open>\<open>/(http|https):\/\/(\w+:{0,1}\w*@)?(\S+)(:[0-9]+)?(\/|\/([\w#!:.?+=&%@!\-\/]))?/\<close>, found anywhere.\<close>

definition url_expr :: matcher where
  "url_expr = m_seq (m_alt (m_lit ''http'') (m_lit ''https'')) (m_seq (m_lit ''://'')
     (m_seq (m_opt (m_seq (m_plus word_char) (m_seq (m_opt (m_lit '':'')) (m_seq (m_star word_char) (m_lit ''@'')))))
     (m_seq (m_plus (\<lambda>c. \<not> is_space c)) (m_seq (m_opt (m_seq (m_lit '':'') (m_plus is_digit)))
       (m_opt (m_alt (m_lit ''/'') (m_seq (m_lit ''/'') (m_one (\<lambda>c. word_char c \<or> c \<in> set ''#!:.?+=&%@-/'')))))))))"

definition isUrl :: "string \<Rightarrow> bool" where
  "isUrl s \<longleftrightarrow> (\<exists>t \<in> set (suffixes s). url_expr t \<noteq> [])"

lemma m_plus_some: "m_plus P s \<noteq> [] \<longleftrightarrow> s \<noteq> [] \<and> P (hd s)"
  by (cases s) (simp_all add: m_plus_def)

lemma m_opt_some: "m_opt a s \<noteq> []"
  by (simp add: m_opt_def)

lemma m_seq_some: "m_seq a b s \<noteq> [] \<longleftrightarrow> (\<exists>t \<in> set (a s). b t \<noteq> [])"
  by (auto simp: m_seq_def)

lemma m_tail_some: "m_seq a (m_seq (m_opt p) (m_opt q)) u \<noteq> [] \<longleftrightarrow> a u \<noteq> []"
proof -
  have "m_seq (m_opt p) (m_opt q) t \<noteq> []" for t
    unfolding m_seq_some using m_opt_some [of q t] by (intro bexI [of _ t]) (simp_all add: m_opt_def)
  then show ?thesis unfolding m_seq_some by (cases "a u") auto
qed

lemma word_not_space: "word_char c \<Longrightarrow> \<not> is_space c"
  by (auto simp: word_char_def is_space_def is_digit_def)

text \<open>The user's part before an at sign can be left out: what it matches is no space.\<close>

lemma m_user_some:
  "m_seq (m_opt (m_seq (m_plus word_char) b)) (m_seq (m_plus (\<lambda>c. \<not> is_space c)) (m_seq (m_opt p) (m_opt q))) u \<noteq> [] \<longleftrightarrow>
     u \<noteq> [] \<and> \<not> is_space (hd u)" (is "?m \<noteq> [] \<longleftrightarrow> _")
proof -
  have "?m \<noteq> [] \<longleftrightarrow> (\<exists>v \<in> set (m_opt (m_seq (m_plus word_char) b) u). v \<noteq> [] \<and> \<not> is_space (hd v))"
    unfolding m_seq_some [of "m_opt (m_seq (m_plus word_char) b)"] m_tail_some m_plus_some by simp
  moreover have "u \<noteq> [] \<and> \<not> is_space (hd u)" if "v \<in> set (m_seq (m_plus word_char) b u)" for v
  proof -
    have "m_plus word_char u \<noteq> []" using that by (auto simp: m_seq_def)
    then show ?thesis using word_not_space by (auto simp: m_plus_some)
  qed
  ultimately show ?thesis by (auto simp: m_opt_def)
qed

lemma m_lit_some: "t \<in> set (m_lit p s) \<longleftrightarrow> s = p @ t"
  by (auto simp: m_lit_def prefix_def)

lemma url_expr_iff:
  "url_expr t \<noteq> [] \<longleftrightarrow> (\<exists>c r. \<not> is_space c \<and> (t = ''http://'' @ c # r \<or> t = ''https://'' @ c # r))"
proof -
  have "url_expr t \<noteq> [] \<longleftrightarrow> (\<exists>v \<in> set (m_alt (m_lit ''http'') (m_lit ''https'') t). \<exists>u \<in> set (m_lit ''://'' v). u \<noteq> [] \<and> \<not> is_space (hd u))"
    unfolding url_expr_def m_seq_some [of "m_alt (m_lit ''http'') (m_lit ''https'')"] m_seq_some [of "m_lit ''://''"] m_user_some ..
  also have "\<dots> \<longleftrightarrow> (\<exists>u. (t = ''http://'' @ u \<or> t = ''https://'' @ u) \<and> u \<noteq> [] \<and> \<not> is_space (hd u))"
  proof -
    have h: "''http://'' @ u = ''http'' @ (''://'' @ u)" "''https://'' @ u = ''https'' @ (''://'' @ u)" for u by simp_all
    show ?thesis unfolding Bex_def m_alt_def set_append Un_iff m_lit_some h by blast
  qed
  also have "\<dots> \<longleftrightarrow> (\<exists>c r. \<not> is_space c \<and> (t = ''http://'' @ c # r \<or> t = ''https://'' @ c # r))"
    by (metis list.collapse list.discI list.sel(1))
  finally show ?thesis .
qed

text \<open>The expression is not anchored: any text passes that has such an address somewhere.\<close>

lemma isUrl_iff:
  "isUrl s \<longleftrightarrow> (\<exists>a c r. \<not> is_space c \<and> (s = a @ ''http://'' @ c # r \<or> s = a @ ''https://'' @ c # r))"
  unfolding isUrl_def url_expr_iff Bex_def in_set_suffixes suffix_def by blast

section \<open>The panel\<close>

text \<open>
  The tabs, each with its id and its title, that of its heading or the id; and which tabs are shown, which
  of the buttons is active, and the title of the panel. A panel without tabs is hidden.
\<close>

record panel =
  pn_tabs :: "(string \<times> string) list"
  pn_shown :: "bool list"
  pn_active :: "bool list"
  pn_title :: string
  pn_hidden :: bool

definition tab_title :: "string \<times> string option \<Rightarrow> string" where
  "tab_title t = (case snd t of Some h \<Rightarrow> h | None \<Rightarrow> fst t)"

definition panel_ready :: "(string \<times> string option) list \<Rightarrow> string \<Rightarrow> panel" where
  "panel_ready tabs title =
     \<lparr>pn_tabs = map (\<lambda>t. (fst t, tab_title t)) tabs,
      pn_shown = map (\<lambda>i. i = 0) [0..<length tabs], pn_active = map (\<lambda>i. i = 0) [0..<length tabs],
      pn_title = (case tabs of [] \<Rightarrow> title | t # _ \<Rightarrow> tab_title t), pn_hidden = (tabs = [])\<rparr>"

text \<open>The element that \<open>show\<close> is called on is the first with the id, which is the class of the button.\<close>

definition tab_clicked :: "nat \<Rightarrow> panel \<Rightarrow> panel" where
  "tab_clicked i p = (if pn_active p ! i then p
     else p\<lparr>pn_title := snd (pn_tabs p ! i),
       pn_shown := map (\<lambda>j. fst (pn_tabs p ! j) = fst (pn_tabs p ! i) \<and> (\<forall>k < j. fst (pn_tabs p ! k) \<noteq> fst (pn_tabs p ! i))) [0..<length (pn_tabs p)],
       pn_active := map (\<lambda>j. j = i) [0..<length (pn_tabs p)]\<rparr>)"

text \<open>After any clicks exactly one tab is shown, the one whose button is active, with its title.\<close>

definition panel_at :: "nat \<Rightarrow> panel \<Rightarrow> bool" where
  "panel_at i p \<longleftrightarrow> i < length (pn_tabs p) \<and> pn_shown p = map (\<lambda>j. j = i) [0..<length (pn_tabs p)] \<and>
     pn_active p = map (\<lambda>j. j = i) [0..<length (pn_tabs p)] \<and> pn_title p = snd (pn_tabs p ! i)"

lemma panel_ready_at: "tabs \<noteq> [] \<Longrightarrow> panel_at 0 (panel_ready tabs title)"
  by (cases tabs) (simp_all add: panel_at_def panel_ready_def)

lemma tab_clicked_at:
  assumes "panel_at j p" "distinct (map fst (pn_tabs p))" "i < length (pn_tabs p)"
  shows "panel_at i (tab_clicked i p)"
proof (cases "i = j")
  case True
  then show ?thesis using assms by (simp add: panel_at_def tab_clicked_def)
next
  case False
  have e: "fst (pn_tabs p ! k) = fst (pn_tabs p ! i) \<longleftrightarrow> k = i" if "k < length (pn_tabs p)" for k
    using that assms(2,3) by (auto simp: distinct_conv_nth)
  have "map (\<lambda>j. fst (pn_tabs p ! j) = fst (pn_tabs p ! i) \<and> (\<forall>k < j. fst (pn_tabs p ! k) \<noteq> fst (pn_tabs p ! i))) [0..<length (pn_tabs p)] =
      map (\<lambda>j. j = i) [0..<length (pn_tabs p)]"
    by (rule map_cong [OF refl]) (auto simp: e)
  then show ?thesis using assms False by (simp add: panel_at_def tab_clicked_def)
qed

lemma tab_clicked_tabs [simp]: "pn_tabs (tab_clicked i p) = pn_tabs p"
  by (simp add: tab_clicked_def)

lemma panel_run:
  assumes "tabs \<noteq> []" "distinct (map fst tabs)" "\<forall>i \<in> set clicks. i < length tabs"
  shows "panel_at (last (0 # clicks)) (fold tab_clicked clicks (panel_ready tabs title))"
proof -
  let ?p = "\<lambda>cs. fold tab_clicked cs (panel_ready tabs title)"
  have t: "pn_tabs (?p cs) = map (\<lambda>t. (fst t, tab_title t)) tabs" for cs
    by (induction cs rule: rev_induct) (simp_all add: panel_ready_def)
  have d: "distinct (map fst (pn_tabs (?p cs)))" for cs unfolding t using assms(2) by (simp add: o_def)
  show ?thesis using assms(3)
  proof (induction clicks rule: rev_induct)
    case (snoc i cs)
    then show ?case using tab_clicked_at [OF _ d, of "last (0 # cs)" cs i] by (simp add: t)
  qed (simp add: panel_ready_at assms(1))
qed

section \<open>The form for a certificate\<close>

text \<open>
  The key of a browser that makes one, the hidden fields with requests that the script has added, and how
  often the form has been sent and a request has been asked for. The first of the fields is read.
\<close>

record keygen_form =
  kf_spkac :: string
  kf_crmf :: "string list"
  kf_sent :: nat
  kf_asked :: nat

definition spkacFix :: "keygen_form \<Rightarrow> bool \<times> keygen_form" where
  "spkacFix f = (if kf_spkac f \<noteq> [] then (True, f)
     else (case kf_crmf f of
        v # _ \<Rightarrow> if v \<noteq> [] then (True, f) else (False, f\<lparr>kf_asked := kf_asked f + 1\<rparr>)
      | [] \<Rightarrow> (False, f\<lparr>kf_asked := kf_asked f + 1\<rparr>)))"

definition submit_keygen :: "keygen_form \<Rightarrow> keygen_form" where
  "submit_keygen f = (case spkacFix f of (ok, g) \<Rightarrow> if ok then g\<lparr>kf_sent := kf_sent g + 1\<rparr> else g)"

definition setCRMFRequest :: "string \<Rightarrow> keygen_form \<Rightarrow> keygen_form" where
  "setCRMFRequest request f = submit_keygen (f\<lparr>kf_crmf := kf_crmf f @ [request]\<rparr>)"

text \<open>A form without a key asks for a request first, and is sent when the browser has made it.\<close>

lemma keygen_sent_after_request:
  assumes "kf_spkac f = []" "kf_crmf f = []" "request \<noteq> []"
  shows "kf_sent (submit_keygen f) = kf_sent f \<and> kf_asked (submit_keygen f) = kf_asked f + 1 \<and>
    kf_sent (setCRMFRequest request (submit_keygen f)) = kf_sent f + 1"
  using assms by (simp add: submit_keygen_def spkacFix_def setCRMFRequest_def)

section \<open>A request made by Internet Explorer\<close>

record csp =
  csp_type :: int
  csp_name :: string

record private_key =
  pk_ProviderType :: int
  pk_KeySpec :: int
  pk_Length :: string

text \<open>The loop over the providers: the type and name of the last RSA provider, and the last one looked at.\<close>

fun find_provider :: "csp list \<Rightarrow> int \<times> string option \<times> csp option \<Rightarrow> int \<times> string option \<times> csp option" where
  "find_provider [] acc = acc"
| "find_provider (c # cs) (ty, name, obj) = find_provider cs
     (if csp_type c \<in> {1, 2, 24} then (csp_type c, Some (csp_name c), Some c) else (ty, name, Some c))"

text \<open>The key gets the type of the last provider, not the one that has been found.\<close>

definition make_key :: "csp list \<Rightarrow> string \<Rightarrow> private_key js_res" where
  "make_key providers keylength = (case find_provider providers (-1, None, None) of
     (providerType, providerName, Some providerInfoObj) \<Rightarrow>
        Inr \<lparr>pk_ProviderType = csp_type providerInfoObj, pk_KeySpec = 1, pk_Length = keylength\<rparr>
   | _ \<Rightarrow> Inl TypeError)"

lemma find_provider_last: "find_provider cs (ty, name, obj) = (ty', name', obj') \<Longrightarrow> cs \<noteq> [] \<Longrightarrow> obj' = Some (last cs)"
proof (induction cs arbitrary: ty name obj)
  case (Cons c cs)
  then show ?case by (cases cs) (auto split: if_splits)
qed simp

lemma key_of_last_provider:
  "cs \<noteq> [] \<Longrightarrow> make_key cs n = Inr \<lparr>pk_ProviderType = csp_type (last cs), pk_KeySpec = 1, pk_Length = n\<rparr>"
  using find_provider_last [of cs "-1" None None] by (cases "find_provider cs (-1, None, None)") (auto simp: make_key_def)

lemma key_not_rsa:
  "find_provider [\<lparr>csp_type = 1, csp_name = ''rsa''\<rparr>, \<lparr>csp_type = 13, csp_name = ''dss''\<rparr>] (-1, None, None) =
     (1, Some ''rsa'', Some \<lparr>csp_type = 13, csp_name = ''dss''\<rparr>) \<and>
   make_key [\<lparr>csp_type = 1, csp_name = ''rsa''\<rparr>, \<lparr>csp_type = 13, csp_name = ''dss''\<rparr>] n =
     Inr \<lparr>pk_ProviderType = 13, pk_KeySpec = 1, pk_Length = n\<rparr>"
  by (simp add: make_key_def)

text \<open>
  The page: where requests go, the action and the method of the form, whether the lengths of keys are
  offered, the requests and the texts shown. The fields of the form are an argument.
\<close>

record key_page =
  ky_location :: string
  ky_action :: "string option"
  ky_method :: "string option"
  ky_lengths :: "string list"
  ky_sent :: "(string \<times> string) list"
  ky_alerts :: "string list"

definition configurePage :: "bool \<Rightarrow> key_page \<Rightarrow> key_page" where
  "configurePage explorer s =
     (let t = s\<lparr>ky_location := (case ky_action s of Some a \<Rightarrow> a | None \<Rightarrow> ''null'')\<rparr> in
      if explorer then t\<lparr>ky_action := None, ky_method := None, ky_lengths := [''1024'', ''2048'']\<rparr> else t)"

record key_fields =
  fd_webId :: string
  fd_cn :: string
  fd_days :: string
  fd_hours :: string

definition createRequest :: "key_fields \<Rightarrow> string \<Rightarrow> key_page \<Rightarrow> key_page" where
  "createRequest f csrString s = s\<lparr>ky_sent := ky_sent s @ [(ky_location s,
     ''webId='' @ encodeURIComponent (fd_webId f) @ ''&cn='' @ encodeURIComponent (fd_cn f) @
     ''&csr='' @ encodeURIComponent csrString @ ''&days='' @ encodeURIComponent (fd_days f) @
     ''&hours='' @ encodeURIComponent (fd_hours f))]\<rparr>"

definition pem_request :: "string \<Rightarrow> string" where
  "pem_request csr = ''-----BEGIN CERTIFICATE REQUEST-----'' @ [CHR 0x0D, CHR 0x0A] @ csr @ ''-----END CERTIFICATE REQUEST-----''"

text \<open>
  \<open>createCsrCertEnroll\<close> with what the enrolment makes of the key, and \<open>createCsrXenroll\<close>; \<open>createCsr\<close>
  takes the first of the two that the browser has.
\<close>

definition createCsrCertEnroll :: "(private_key \<Rightarrow> string) \<Rightarrow> csp list \<Rightarrow> key_fields \<Rightarrow> string \<Rightarrow> (key_page, unit) js_step" where
  "createCsrCertEnroll make_csr providers f keylength =
     bind_step (lift_res (make_key providers keylength)) (\<lambda>key. modify (createRequest f (pem_request (make_csr key))))"

definition createCsrXenroll :: "(string \<Rightarrow> string) \<Rightarrow> key_fields \<Rightarrow> string \<Rightarrow> (key_page, unit) js_step" where
  "createCsrXenroll make_csr f keylength = modify (createRequest f (pem_request (make_csr keylength)))"

definition key_alert :: "string \<Rightarrow> key_page \<Rightarrow> key_page" where
  "key_alert t s = s\<lparr>ky_alerts := ky_alerts s @ [t]\<rparr>"

definition createCsr :: "(csp list \<times> (private_key \<Rightarrow> string)) option \<Rightarrow> (string \<Rightarrow> string) option \<Rightarrow> key_fields \<Rightarrow> string \<Rightarrow> (key_page, unit) js_step" where
  "createCsr enroll xenroll f keylength = (case enroll of
     Some (providers, make_csr) \<Rightarrow> createCsrCertEnroll make_csr providers f keylength
   | None \<Rightarrow> (case xenroll of
        Some make_csr \<Rightarrow> createCsrXenroll make_csr f keylength
      | None \<Rightarrow> modify (key_alert ''ActiveX certificate creation not supported or not enabled.'')))"

text \<open>The answer: the certificate is installed with the flag 4 or, if that fails, with 0.\<close>

definition enroll_answered :: "nat \<Rightarrow> (nat \<Rightarrow> bool) \<Rightarrow> key_page \<Rightarrow> key_page" where
  "enroll_answered status install s =
     (if status = 200 then
        if install 4 \<or> install 0 then key_alert ''A certificate has been installed.'' s
        else key_alert (''You'' @ [CHR 0x27] @ ''re probably using Vista without SP1 or above, in which case you need to add the certificate '' @
          ''of this authority as a trusted root certificate (not recommended in general).'') s
      else key_alert (''The server returned an error status: '' @ nat_str status) s)"

text \<open>Only a page that has been configured sends its requests to the action of its form.\<close>

lemma request_location:
  "ky_action s = Some a \<Longrightarrow> ky_sent (createRequest f csr (configurePage ie s)) = ky_sent s @ [(a, snd (last (ky_sent (createRequest f csr s))))]"
  by (simp add: createRequest_def configurePage_def Let_def)

end
